(* ===== verification/Prelude.thy ===== *)
theory Prelude
  imports Main "HOL-Library.AList"
begin

text \<open>
  Shared vocabulary of the development: Go strings and byte slices (both are HOL strings,
  one \<open>char\<close> per byte), error results, Go maps as association lists with distinct keys,
  the functions of Go's \<^verbatim>\<open>strings\<close> and \<^verbatim>\<open>strconv\<close> packages that the server
  calls, and 64-bit signed wrap-around.  Errors are the error's message, so that
  \<^verbatim>\<open>err.Error()\<close> is the value itself.
\<close>

section \<open>Types and collections\<close>

type_synonym bytes = string

type_synonym 'a res = "string + 'a"

type_synonym ('k, 'v) gomap = "('k \<times> 'v) list"

named_theorems go_str \<open>definitions of Go's string functions, for evaluation\<close>
named_theorems redis_defs \<open>operations of the Redis handler\<close>

fun isr_val :: "'a res \<Rightarrow> 'a option" where
  "isr_val (Inl e) = None"
| "isr_val (Inr v) = Some v"

lemma isr_val_Some [simp]: "isr_val r = Some v \<longleftrightarrow> r = Inr v"
  by (cases r) auto

lemma isr_val_None: "isr_val r = None \<longleftrightarrow> (\<exists>e. r = Inl e)"
  by (cases r) auto

section \<open>Go maps\<close>

text \<open>
  A Go map is an association list whose keys are distinct.  Lookup is
  \<^const>\<open>map_of\<close>; assignment and \<^verbatim>\<open>delete\<close> are those of
  \<^theory_text>\<open>AList\<close>.  A \<^verbatim>\<open>range\<close> loop runs over the list in its order,
  which stands for Go's unspecified order: no statement below depends on it.
\<close>

definition wf_map :: "('k, 'v) gomap \<Rightarrow> bool" where
  "wf_map m \<longleftrightarrow> distinct (map fst m)"

lemma wf_map_Nil [simp]: "wf_map []" "wf_map [x]"
  by (simp_all add: wf_map_def)

lemma wf_map_update [simp]: "wf_map m \<Longrightarrow> wf_map (AList.update k v m)"
  by (simp add: wf_map_def distinct_update)

lemma wf_map_delete [simp]: "wf_map m \<Longrightarrow> wf_map (AList.delete k m)"
  by (simp add: wf_map_def distinct_delete)

lemma map_of_update [simp]: "map_of (AList.update k v m) = (map_of m)(k \<mapsto> v)"
  by (rule update_conv')

lemma map_of_delete [simp]: "map_of (AList.delete k m) = (map_of m)(k := None)"
  by (rule delete_conv')

lemma map_of_eq_empty [simp]: "map_of m = (\<lambda>_. None) \<longleftrightarrow> m = []"
  using map_of_eq_empty_iff by blast

lemma in_keys_iff: "k \<in> set (map fst m) \<longleftrightarrow> map_of m k \<noteq> None"
  by (metis map_of_eq_None_iff set_map)

lemma map_le_None: "m \<subseteq>\<^sub>m m' \<Longrightarrow> m' k = None \<Longrightarrow> m k = None"
  by (metis map_le_def domIff)

lemma map_le_Some: "m \<subseteq>\<^sub>m m' \<Longrightarrow> m k = Some v \<Longrightarrow> m' k = Some v"
  by (metis map_le_def domI)

lemma map_le_del: "m \<subseteq>\<^sub>m m'(k := None) \<Longrightarrow> m \<subseteq>\<^sub>m m'"
  by (metis map_le_trans map_le_upd fun_upd_triv map_le_refl upd_None_map_le)

section \<open>Go strings\<close>

definition HasPrefix :: "string \<Rightarrow> string \<Rightarrow> bool" where
  "HasPrefix s p \<longleftrightarrow> take (length p) s = p"

definition TrimPrefix :: "string \<Rightarrow> string \<Rightarrow> string" where
  "TrimPrefix s p = (if HasPrefix s p then drop (length p) s else s)"

definition HasSuffix :: "string \<Rightarrow> string \<Rightarrow> bool" where
  "HasSuffix s p \<longleftrightarrow> HasPrefix (rev s) (rev p)"

definition TrimSuffix :: "string \<Rightarrow> string \<Rightarrow> string" where
  "TrimSuffix s p = rev (TrimPrefix (rev s) (rev p))"

text \<open>\<open>cut c s\<close>: what precedes the first \<open>c\<close>, and what follows it if there is one.\<close>

fun cut :: "char \<Rightarrow> string \<Rightarrow> string \<times> string option" where
  "cut c [] = ([], None)"
| "cut c (x # xs) =
     (if x = c then ([], Some xs)
      else (case cut c xs of (a, r) \<Rightarrow> (x # a, r)))"

text \<open>\<^verbatim>\<open>strings.SplitN\<close> for a one-byte separator.\<close>

fun SplitN :: "string \<Rightarrow> char \<Rightarrow> nat \<Rightarrow> string list" where
  "SplitN s c 0 = []"
| "SplitN s c (Suc 0) = [s]"
| "SplitN s c (Suc (Suc n)) =
     (case cut c s of (a, None) \<Rightarrow> [a] | (a, Some r) \<Rightarrow> a # SplitN r c (Suc n))"

text \<open>\<^verbatim>\<open>strings.Split\<close> for a one-byte separator.\<close>

fun Split :: "string \<Rightarrow> char \<Rightarrow> string list" where
  "Split [] c = [[]]"
| "Split (x # xs) c =
     (if x = c then [] # Split xs c
      else (case Split xs c of [] \<Rightarrow> [[x]] | y # ys \<Rightarrow> (x # y) # ys))"

text \<open>
  Splitting at the last occurrence, as \<^verbatim>\<open>strings.LastIndex\<close> and the two slices
  around it do; \<open>None\<close> is the index \<open>-1\<close>.
\<close>

definition split_last :: "char \<Rightarrow> string \<Rightarrow> (string \<times> string) option" where
  "split_last c s =
     (case cut c (rev s) of (a, None) \<Rightarrow> None | (a, Some r) \<Rightarrow> Some (rev r, rev a))"

lemma HasPrefix_append [simp]: "HasPrefix (p @ s) p"
  by (simp add: HasPrefix_def)

lemma HasPrefix_iff: "HasPrefix s p \<longleftrightarrow> (\<exists>r. s = p @ r)"
  by (metis HasPrefix_append HasPrefix_def append_take_drop_id)

lemma TrimPrefix_append [simp]: "TrimPrefix (p @ s) p = s"
  by (simp add: TrimPrefix_def)

lemma HasSuffix_append [simp]: "HasSuffix (s @ p) p"
  by (simp add: HasSuffix_def)

lemma HasSuffix_iff: "HasSuffix s p \<longleftrightarrow> (\<exists>r. s = r @ p)"
  by (metis HasPrefix_iff HasSuffix_def rev_append rev_rev_ident)

lemma TrimSuffix_append [simp]: "TrimSuffix (s @ p) p = s"
  by (simp add: TrimSuffix_def)

lemma cut_append [simp]: "c \<notin> set a \<Longrightarrow> cut c (a @ c # r) = (a, Some r)"
  by (induction a) auto

lemma cut_none [simp]: "c \<notin> set a \<Longrightarrow> cut c a = (a, None)"
  by (induction a) auto

lemma cut_Some: "cut c s = (a, Some r) \<Longrightarrow> s = a @ c # r \<and> c \<notin> set a"
  by (induction s arbitrary: a) (auto split: if_splits prod.splits)

lemma cut_None: "cut c s = (a, None) \<Longrightarrow> s = a \<and> c \<notin> set a"
  by (induction s arbitrary: a) (auto split: if_splits prod.splits)

lemma Split_not_Nil [simp]: "Split s c \<noteq> []"
  by (induction s) (auto split: list.splits)

lemma Split_no_sep: "p \<in> set (Split s c) \<Longrightarrow> c \<notin> set p"
  by (induction s arbitrary: p) (auto split: list.splits if_splits)

lemma SplitN_3:
  "c \<notin> set a \<Longrightarrow> c \<notin> set b \<Longrightarrow> SplitN (a @ c # b @ c # r) c 3 = [a, b, r]"
  by (simp add: numeral_3_eq_3)

lemma SplitN_3_iff:
  "SplitN s c 3 = [a, b, r] \<longleftrightarrow> s = a @ c # b @ c # r \<and> c \<notin> set a \<and> c \<notin> set b"
proof
  assume "SplitN s c 3 = [a, b, r]"
  then show "s = a @ c # b @ c # r \<and> c \<notin> set a \<and> c \<notin> set b"
    by (auto simp: numeral_3_eq_3 split: prod.splits option.splits dest!: cut_Some cut_None)
qed (use SplitN_3 in blast)

lemma split_last_append [simp]: "c \<notin> set b \<Longrightarrow> split_last c (a @ c # b) = Some (a, b)"
  by (simp add: split_last_def)

lemma split_last_Some: "split_last c s = Some (a, b) \<Longrightarrow> s = a @ c # b \<and> c \<notin> set b"
proof -
  assume "split_last c s = Some (a, b)"
  then have "cut c (rev s) = (rev b, Some (rev a))"
    by (auto simp: split_last_def split: prod.splits option.splits)
  then have "rev s = rev b @ c # rev a" "c \<notin> set b"
    by (auto dest!: cut_Some)
  then show ?thesis
    by (metis append.assoc append_Cons append_Nil rev.simps(2) rev_append rev_rev_ident)
qed

subsection \<open>TrimSpace\<close>

text \<open>
  \<^verbatim>\<open>strings.TrimSpace\<close> removes the UTF-8 encodings of the code points that
  \<^verbatim>\<open>unicode.IsSpace\<close> accepts, from both ends.
\<close>

definition ws_runes :: "string list" where
  "ws_runes =
     map (\<lambda>n. [char_of n]) [32, 9, 10, 11, 12, 13 :: nat]
     @ map (map char_of)
        ([[0xC2, 0x85], [0xC2, 0xA0], [0xE1, 0x9A, 0x80],
          [0xE2, 0x80, 0xA8], [0xE2, 0x80, 0xA9], [0xE2, 0x80, 0xAF],
          [0xE2, 0x81, 0x9F], [0xE3, 0x80, 0x80]]
         @ map (\<lambda>n. [0xE2, 0x80, n]) [0x80..<0x8B :: nat])"

fun strip_pre :: "nat \<Rightarrow> string list \<Rightarrow> string \<Rightarrow> string" where
  "strip_pre 0 ws s = s"
| "strip_pre (Suc n) ws s =
     (case find (HasPrefix s) ws of
        None \<Rightarrow> s
      | Some w \<Rightarrow> strip_pre n ws (drop (length w) s))"

definition TrimSpace :: "string \<Rightarrow> string" where
  "TrimSpace s =
     (let l = strip_pre (length s) ws_runes s
      in rev (strip_pre (length l) (map rev ws_runes) (rev l)))"

lemma strip_pre_suffix: "\<exists>p. s = p @ strip_pre n ws s"
proof (induction n arbitrary: s)
  case (Suc n)
  show ?case
  proof (cases "find (HasPrefix s) ws")
    case (Some w)
    obtain p where "drop (length w) s = p @ strip_pre n ws (drop (length w) s)"
      using Suc.IH by blast
    then have "s = (take (length w) s @ p) @ strip_pre n ws (drop (length w) s)"
      by (metis append.assoc append_take_drop_id)
    then show ?thesis using Some by (simp del: append_assoc) blast
  qed auto
qed auto

lemma TrimSpace_set: "set (TrimSpace s) \<subseteq> set s"
proof -
  let ?l = "strip_pre (length s) ws_runes s"
  obtain p where p: "s = p @ ?l"
    using strip_pre_suffix by metis
  obtain q where "rev ?l = q @ strip_pre (length ?l) (map rev ws_runes) (rev ?l)"
    using strip_pre_suffix by metis
  then have "set (strip_pre (length ?l) (map rev ws_runes) (rev ?l)) \<subseteq> set ?l"
    by (metis set_append set_rev sup_ge2)
  moreover have "set ?l \<subseteq> set s"
    by (metis p set_append sup_ge2)
  ultimately show ?thesis
    by (auto simp: TrimSpace_def Let_def)
qed

text \<open>Text that begins and ends with a visible ASCII character is left alone.\<close>

lemma ws_rune_ends:
  "list_all (\<lambda>w. w \<noteq> [] \<and> \<not> (32 < (of_char (hd w) :: nat) \<and> (of_char (hd w) :: nat) < 128)
     \<and> \<not> (32 < (of_char (last w) :: nat) \<and> (of_char (last w) :: nat) < 128)) ws_runes"
  by (simp add: ws_runes_def upt_rec)

lemma strip_pre_id: "(\<And>w. w \<in> set ws \<Longrightarrow> \<not> HasPrefix s w) \<Longrightarrow> strip_pre n ws s = s"
proof (cases n)
  case (Suc m)
  assume "\<And>w. w \<in> set ws \<Longrightarrow> \<not> HasPrefix s w"
  then have "find (HasPrefix s) ws = None"
    by (simp add: find_None_iff)
  then show ?thesis using Suc by simp
qed simp

definition visible :: "char \<Rightarrow> bool" where
  "visible c \<longleftrightarrow> 32 < (of_char c :: nat) \<and> (of_char c :: nat) < 128"

lemma HasPrefix_hd: "HasPrefix s w \<Longrightarrow> w \<noteq> [] \<Longrightarrow> s \<noteq> [] \<and> hd s = hd w"
  by (auto simp: HasPrefix_iff)

lemma TrimSpace_visible:
  assumes "s \<noteq> []" "visible (hd s)" "visible (last s)"
  shows "TrimSpace s = s"
proof -
  have "\<not> HasPrefix s w" if "w \<in> set ws_runes" for w
    using that ws_rune_ends assms(2) HasPrefix_hd[of s w] by (auto simp: list_all_iff visible_def)
  then have a: "strip_pre n ws_runes s = s" for n
    by (rule strip_pre_id)
  have "\<not> HasPrefix (rev s) w" if w: "w \<in> set (map rev ws_runes)" for w
  proof
    assume h: "HasPrefix (rev s) w"
    obtain v where v: "v \<in> set ws_runes" "w = rev v" using w by auto
    then have "v \<noteq> []" "\<not> visible (last v)" using ws_rune_ends by (auto simp: list_all_iff visible_def)
    moreover have "last s = last v"
      using HasPrefix_hd[OF h] v(2) \<open>v \<noteq> []\<close> by (simp add: hd_rev)
    ultimately show False using assms(3) by simp
  qed
  then have "strip_pre n (map rev ws_runes) (rev s) = rev s" for n
    by (rule strip_pre_id)
  then show ?thesis using a by (simp add: TrimSpace_def)
qed

section \<open>Signed 64-bit integers\<close>

text \<open>
  Go's \<^verbatim>\<open>int\<close>, \<^verbatim>\<open>int64\<close> and \<^verbatim>\<open>time.Duration\<close> are two's-complement
  64-bit values; the results of arithmetic on them are brought back into range by
  \<open>wrap64\<close>.
\<close>

definition in64 :: "int \<Rightarrow> bool" where
  "in64 x \<longleftrightarrow> - (2 ^ 63) \<le> x \<and> x < 2 ^ 63"

definition wrap64 :: "int \<Rightarrow> int" where
  "wrap64 x = (x + 2 ^ 63) mod 2 ^ 64 - 2 ^ 63"

lemma wrap64_id [simp]: "in64 x \<Longrightarrow> wrap64 x = x"
  by (simp add: in64_def wrap64_def)

lemma in64_wrap64 [simp]: "in64 (wrap64 x)"
  by (simp add: in64_def wrap64_def)

definition second :: int where
  "second = 1000000000"

end
