(* ===== verification/Encoding.thy ===== *)
theory Encoding
  imports Prelude
begin

text \<open>
  The text encodings of Go's standard library that the server uses: hexadecimal
  (\<^verbatim>\<open>encoding/hex\<close>: nonces, signatures, public keys), unpadded URL-safe base64
  (\<^verbatim>\<open>base64.RawURLEncoding\<close>: JWT parts) and decimal integers
  (\<^verbatim>\<open>strconv\<close> and \<^verbatim>\<open>%d\<close>), with their round trips.
\<close>

section \<open>Hexadecimal\<close>

definition hex_digit :: "nat \<Rightarrow> char" where
  "hex_digit n = char_of (if n < 10 then 48 + n else 87 + n)"

definition hex_val :: "char \<Rightarrow> nat option" where
  "hex_val c =
     (let n = of_char c
      in if 48 \<le> n \<and> n \<le> 57 then Some (n - 48)
         else if 97 \<le> n \<and> n \<le> 102 then Some (n - 87)
         else if 65 \<le> n \<and> n \<le> 70 then Some (n - 55)
         else None)"

fun hex_EncodeToString :: "bytes \<Rightarrow> string" where
  "hex_EncodeToString [] = []"
| "hex_EncodeToString (c # cs) =
     hex_digit (of_char c div 16) # hex_digit (of_char c mod 16) # hex_EncodeToString cs"

fun hex_DecodeString :: "string \<Rightarrow> bytes option" where
  "hex_DecodeString [] = Some []"
| "hex_DecodeString [x] = None"
| "hex_DecodeString (x # y # r) =
     (case (hex_val x, hex_val y, hex_DecodeString r) of
        (Some a, Some b, Some bs) \<Rightarrow> Some (char_of (16 * a + b) # bs)
      | _ \<Rightarrow> None)"

lemma of_char_lt: "of_char c < (256 :: nat)"
  by simp

lemma hex_val_digit [simp]: "n < 16 \<Longrightarrow> hex_val (hex_digit n) = Some n"
  by (auto simp: hex_val_def hex_digit_def Let_def)

lemma hex_DecodeString_Encode [simp]: "hex_DecodeString (hex_EncodeToString bs) = Some bs"
proof (induction bs)
  case (Cons c cs)
  have "(of_char c :: nat) div 16 < 16"
    using of_char_lt[of c] by (simp add: less_mult_imp_div_less)
  moreover have "16 * (of_char c div 16) + of_char c mod 16 = (of_char c :: nat)"
    by simp
  ultimately show ?case
    using Cons by simp
qed simp

lemma length_hex_Encode [simp]: "length (hex_EncodeToString bs) = 2 * length bs"
  by (induction bs) auto

lemma hex_DecodeString_length: "hex_DecodeString s = Some bs \<Longrightarrow> length s = 2 * length bs"
  by (induction s arbitrary: bs rule: hex_DecodeString.induct) (auto split: option.splits)

lemma hex_digit_chars:
  "n < 16 \<Longrightarrow> of_char (hex_digit n) \<in> {48..57} \<union> {97..102 :: nat}"
  by (auto simp: hex_digit_def)

lemma hex_Encode_chars:
  "c \<in> set (hex_EncodeToString bs) \<Longrightarrow> of_char c \<in> {48..57} \<union> {97..102 :: nat}"
proof (induction bs)
  case (Cons b bs)
  have "(of_char b :: nat) div 16 < 16"
    using of_char_lt[of b] by (simp add: less_mult_imp_div_less)
  then show ?case
    using Cons hex_digit_chars[of "of_char b div 16"] hex_digit_chars[of "of_char b mod 16"]
    by auto
qed simp

section \<open>Unpadded URL-safe base64\<close>

definition b64_digit :: "nat \<Rightarrow> char" where
  "b64_digit n =
     char_of (if n < 26 then 65 + n
              else if n < 52 then 71 + n
              else if n < 62 then n - 4
              else if n = 62 then 45 else 95)"

definition b64_val :: "char \<Rightarrow> nat option" where
  "b64_val c =
     (let n = of_char c
      in if 65 \<le> n \<and> n \<le> 90 then Some (n - 65)
         else if 97 \<le> n \<and> n \<le> 122 then Some (n - 71)
         else if 48 \<le> n \<and> n \<le> 57 then Some (n + 4)
         else if n = 45 then Some 62
         else if n = 95 then Some 63
         else None)"

fun b64_groups :: "nat list \<Rightarrow> nat list" where
  "b64_groups [] = []"
| "b64_groups [a] = [a div 4, (a mod 4) * 16]"
| "b64_groups [a, b] = [a div 4, (a mod 4) * 16 + b div 16, (b mod 16) * 4]"
| "b64_groups (a # b # c # r) =
     [a div 4, (a mod 4) * 16 + b div 16, (b mod 16) * 4 + c div 64, c mod 64] @ b64_groups r"

fun b64_ungroup :: "nat list \<Rightarrow> nat list option" where
  "b64_ungroup [] = Some []"
| "b64_ungroup [x] = None"
| "b64_ungroup [x, y] = Some [x * 4 + y div 16]"
| "b64_ungroup [x, y, z] = Some [x * 4 + y div 16, (y mod 16) * 16 + z div 4]"
| "b64_ungroup (x # y # z # w # r) =
     map_option (\<lambda>bs. [x * 4 + y div 16, (y mod 16) * 16 + z div 4, (z mod 4) * 64 + w] @ bs)
       (b64_ungroup r)"

definition b64_EncodeToString :: "bytes \<Rightarrow> string" where
  "b64_EncodeToString bs = map b64_digit (b64_groups (map of_char bs))"

fun b64_vals :: "string \<Rightarrow> nat list option" where
  "b64_vals [] = Some []"
| "b64_vals (c # cs) =
     (case b64_val c of None \<Rightarrow> None | Some v \<Rightarrow> map_option (Cons v) (b64_vals cs))"

text \<open>The decoder skips carriage returns and newlines, and rejects every other byte.\<close>

definition b64_DecodeString :: "string \<Rightarrow> bytes option" where
  "b64_DecodeString s =
     (case b64_vals (filter (\<lambda>c. c \<noteq> char_of (10 :: nat) \<and> c \<noteq> char_of (13 :: nat)) s) of
        None \<Rightarrow> None
      | Some vs \<Rightarrow> map_option (map char_of) (b64_ungroup vs))"

lemma b64_val_digit [simp]: "n < 64 \<Longrightarrow> b64_val (b64_digit n) = Some n"
  by (auto simp: b64_val_def b64_digit_def Let_def)

lemma b64_digit_chars:
  "n < 64 \<Longrightarrow> of_char (b64_digit n) \<in> {48..57} \<union> {65..90} \<union> {97..122} \<union> {45, 95 :: nat}"
  by (auto simp: b64_digit_def)

lemma b64_groups_lt:
  "(\<forall>x\<in>set xs. x < 256) \<Longrightarrow> (\<forall>y\<in>set (b64_groups xs). y < 64)"
  by (induction xs rule: b64_groups.induct) (auto simp: less_mult_imp_div_less)

lemma b64_ungroup_groups:
  "(\<forall>x\<in>set xs. x < 256) \<Longrightarrow> b64_ungroup (b64_groups xs) = Some xs"
  by (induction xs rule: b64_groups.induct) auto

lemma b64_vals_map: "(\<forall>y\<in>set ys. y < 64) \<Longrightarrow> b64_vals (map b64_digit ys) = Some ys"
  by (induction ys) auto

lemma b64_Encode_chars:
  "c \<in> set (b64_EncodeToString bs) \<Longrightarrow>
     of_char c \<in> {48..57} \<union> {65..90} \<union> {97..122} \<union> {45, 95 :: nat}"
  using b64_groups_lt[of "map of_char bs"] b64_digit_chars
  by (auto simp: b64_EncodeToString_def)

lemma b64_Encode_no_dot: "CHR ''.'' \<notin> set (b64_EncodeToString bs)"
  using b64_Encode_chars[of "CHR ''.''" bs] by auto

lemma b64_DecodeString_Encode [simp]: "b64_DecodeString (b64_EncodeToString bs) = Some bs"
proof -
  let ?gs = "b64_groups (map of_char bs)"
  have lt: "\<forall>x\<in>set (map of_char bs). x < (256 :: nat)"
    by auto
  then have gs: "\<forall>y\<in>set ?gs. y < 64"
    by (rule b64_groups_lt)
  have "filter (\<lambda>c. c \<noteq> char_of (10 :: nat) \<and> c \<noteq> char_of (13 :: nat)) (b64_EncodeToString bs)
      = b64_EncodeToString bs"
    using b64_Encode_chars by (intro filter_True) fastforce
  moreover have "b64_vals (b64_EncodeToString bs) = Some ?gs"
    unfolding b64_EncodeToString_def using gs by (rule b64_vals_map)
  ultimately show ?thesis
    using b64_ungroup_groups[OF lt] by (simp add: b64_DecodeString_def comp_def)
qed

section \<open>Decimal integers\<close>

definition is_digit :: "char \<Rightarrow> bool" where
  "is_digit c \<longleftrightarrow> 48 \<le> (of_char c :: nat) \<and> of_char c \<le> (57 :: nat)"

fun show_nat :: "nat \<Rightarrow> string" where
  "show_nat n =
     (if n < 10 then [char_of (48 + n)] else show_nat (n div 10) @ [char_of (48 + n mod 10)])"

declare show_nat.simps [simp del]

definition show_int :: "int \<Rightarrow> string" where
  "show_int i = (if i < 0 then CHR ''-'' # show_nat (nat (- i)) else show_nat (nat i))"

definition read_nat :: "string \<Rightarrow> nat" where
  "read_nat s = foldl (\<lambda>a c. 10 * a + (of_char c - 48)) 0 s"

lemma is_digit_char [simp]: "n < 10 \<Longrightarrow> is_digit (char_of (48 + n :: nat))"
  by (simp add: is_digit_def)

lemma show_nat_digits: "list_all is_digit (show_nat n) \<and> show_nat n \<noteq> []"
  by (induction n rule: show_nat.induct) (subst (1 2) show_nat.simps, auto)

lemma read_show_nat [simp]: "read_nat (show_nat n) = n"
proof (induction n rule: show_nat.induct)
  case (1 n)
  show ?case
  proof (cases "n < 10")
    case True
    then show ?thesis by (simp add: show_nat.simps[of n] read_nat_def)
  next
    case False
    then have "read_nat (show_nat (n div 10)) = n div 10"
      by (rule "1.IH")
    then show ?thesis
      using False by (simp add: show_nat.simps[of n] read_nat_def)
  qed
qed

lemma show_nat_hd: "\<exists>c r. show_nat n = c # r \<and> is_digit c \<and> list_all is_digit r"
  using show_nat_digits[of n] by (cases "show_nat n") auto

lemma show_nat_leading_zero: "show_nat n = CHR ''0'' # r \<Longrightarrow> r = []"
proof (induction n arbitrary: r rule: show_nat.induct)
  case (1 n)
  show ?case
  proof (cases "n < 10")
    case True
    then show ?thesis using "1.prems" by (simp add: show_nat.simps[of n])
  next
    case False
    obtain c q where cq: "show_nat (n div 10) = c # q"
      using show_nat_hd by blast
    have "show_nat n = c # q @ [char_of (48 + n mod 10)]"
      using False cq by (simp add: show_nat.simps[of n])
    then have "c = CHR ''0''" using "1.prems" by simp
    then have "q = []" using "1.IH"[OF False] cq by simp
    then have "show_nat (n div 10) = [CHR ''0'']" using cq \<open>c = CHR ''0''\<close> by simp
    then have "n div 10 = 0"
      using read_show_nat[of "n div 10"] by (simp add: read_nat_def)
    then show ?thesis using False by simp
  qed
qed

text \<open>
  \<^verbatim>\<open>strconv.ParseInt(s, 10, 64)\<close>, as \<^verbatim>\<open>strconv.Atoi\<close> and the JSON decoder use
  it: an optional sign, at least one digit, and a value in range.
\<close>

definition ParseInt64 :: "string \<Rightarrow> int option" where
  "ParseInt64 s =
     (let (neg, ds) = (case s of
          c # r \<Rightarrow> if c = CHR ''-'' then (True, r) else if c = CHR ''+'' then (False, r) else (False, s)
        | [] \<Rightarrow> (False, []));
        v = (if neg then - int (read_nat ds) else int (read_nat ds))
      in if ds \<noteq> [] \<and> list_all is_digit ds \<and> in64 v then Some v else None)"

lemma ParseInt64_show_int [simp]: "in64 i \<Longrightarrow> ParseInt64 (show_int i) = Some i"
proof (cases "i < 0")
  case True
  then show "in64 i \<Longrightarrow> ?thesis"
    using show_nat_digits[of "nat (- i)"] by (simp add: ParseInt64_def show_int_def)
next
  case False
  obtain c r where cr: "show_nat (nat i) = c # r" "is_digit c" "list_all is_digit r"
    using show_nat_hd by blast
  then have c: "c \<noteq> CHR ''-''" "c \<noteq> CHR ''+''"
    by (auto simp: is_digit_def)
  have "read_nat (c # r) = nat i"
    using cr(1) read_show_nat by metis
  then show "in64 i \<Longrightarrow> ?thesis"
    using False cr c by (simp add: ParseInt64_def show_int_def)
qed

end
