(* ===== verification/Json.thy ===== *)
theory Json
  imports Encoding
begin

text \<open>
  The part of Go's \<^verbatim>\<open>encoding/json\<close> that the server relies on: the encoder's string
  escaping and compact layout, the decoder's grammar, and the way a decoded object fills
  the string, integer, boolean and raw fields of a struct.  The main result is the round
  trip \<open>json_parse_print\<close>: what \<^verbatim>\<open>json.Marshal\<close> writes, \<^verbatim>\<open>json.Unmarshal\<close>
  reads back, for values whose strings are valid UTF-8 and whose numbers are integers.
  Two details of the decoder are left out: its limit of 10000 nested values and the
  folding of the two non-ASCII letters (U+017F, U+212A) in field names.
\<close>

datatype json =
    JNull
  | JBool bool
  | JNum string
  | JStr string
  | JArr "json list"
  | JObj "(string \<times> json) list"

section \<open>UTF-8\<close>

definition cont_byte :: "char \<Rightarrow> bool" where
  "cont_byte c \<longleftrightarrow> 0x80 \<le> (of_char c :: nat) \<and> (of_char c :: nat) \<le> 0xBF"

definition byte_in :: "nat \<Rightarrow> nat \<Rightarrow> char \<Rightarrow> bool" where
  "byte_in lo hi c \<longleftrightarrow> lo \<le> of_char c \<and> of_char c \<le> hi"

definition rune2 :: "char \<Rightarrow> char \<Rightarrow> bool" where
  "rune2 a b \<longleftrightarrow> byte_in 0xC2 0xDF a \<and> cont_byte b"

definition rune3 :: "char \<Rightarrow> char \<Rightarrow> char \<Rightarrow> bool" where
  "rune3 a b c \<longleftrightarrow>
     (byte_in 0xE0 0xE0 a \<and> byte_in 0xA0 0xBF b
      \<or> byte_in 0xE1 0xEC a \<and> cont_byte b
      \<or> byte_in 0xED 0xED a \<and> byte_in 0x80 0x9F b
      \<or> byte_in 0xEE 0xEF a \<and> cont_byte b) \<and> cont_byte c"

definition rune4 :: "char \<Rightarrow> char \<Rightarrow> char \<Rightarrow> char \<Rightarrow> bool" where
  "rune4 a b c d \<longleftrightarrow>
     (byte_in 0xF0 0xF0 a \<and> byte_in 0x90 0xBF b
      \<or> byte_in 0xF1 0xF3 a \<and> cont_byte b
      \<or> byte_in 0xF4 0xF4 a \<and> byte_in 0x80 0x8F b) \<and> cont_byte c \<and> cont_byte d"

text \<open>Length of the valid encoding at the head of a byte sequence, 0 if there is none.\<close>

fun rune_len :: "bytes \<Rightarrow> nat" where
  "rune_len [] = 0"
| "rune_len [a] = (if byte_in 0 0x7F a then 1 else 0)"
| "rune_len [a, b] = (if byte_in 0 0x7F a then 1 else if rune2 a b then 2 else 0)"
| "rune_len [a, b, c] =
     (if byte_in 0 0x7F a then 1 else if rune2 a b then 2 else if rune3 a b c then 3 else 0)"
| "rune_len (a # b # c # d # r) =
     (if byte_in 0 0x7F a then 1 else if rune2 a b then 2 else if rune3 a b c then 3
      else if rune4 a b c d then 4 else 0)"

lemma rune_len_le: "rune_len s \<le> length s"
  by (cases s rule: rune_len.cases) auto

lemma rune_len_bound: "rune_len s \<le> 4"
  by (cases s rule: rune_len.cases) auto

lemma rune_len_ascii: "rune_len (c # s) = 1 \<longleftrightarrow> byte_in 0 0x7F c"
  by (cases "c # s" rule: rune_len.cases) auto

lemma rune_len_take: "0 < rune_len s \<Longrightarrow> rune_len (take (rune_len s) s @ r) = rune_len s"
proof (cases s rule: rune_len.cases)
  case (2 a)
  then show "0 < rune_len s \<Longrightarrow> ?thesis"
    using rune_len_ascii[of a r] by (auto split: if_splits)
next
  case (3 a b)
  then show "0 < rune_len s \<Longrightarrow> ?thesis"
    using rune_len_ascii[of a r] by (cases r rule: rune_len.cases) (auto split: if_splits)
next
  case (4 a b c)
  then show "0 < rune_len s \<Longrightarrow> ?thesis"
    using rune_len_ascii[of a r] by (cases r rule: rune_len.cases) (auto split: if_splits)
next
  case (5 a b c d s')
  then show "0 < rune_len s \<Longrightarrow> ?thesis"
    using rune_len_ascii[of a r] by (cases r rule: rune_len.cases) (auto split: if_splits)
qed simp

function valid_utf8 :: "bytes \<Rightarrow> bool" where
  "valid_utf8 s =
     (if s = [] then True
      else if rune_len s = 0 then False else valid_utf8 (drop (rune_len s) s))"
  by pat_completeness auto
termination
  by (relation "measure length") auto

declare valid_utf8.simps [simp del]

lemma valid_utf8_Nil [simp]: "valid_utf8 []"
  by (simp add: valid_utf8.simps[of "[]"])

lemma valid_utf8_ascii: "list_all (byte_in 0 0x7F) s \<Longrightarrow> valid_utf8 s"
proof (induction s)
  case (Cons c s)
  then show ?case
    using rune_len_ascii[of c s] by (simp add: valid_utf8.simps[of "c # s"])
qed simp

definition utf8_encode :: "nat \<Rightarrow> bytes" where
  "utf8_encode n =
     map char_of
       (if n < 0x80 then [n]
        else if n < 0x800 then [0xC0 + n div 64, 0x80 + n mod 64]
        else if n < 0x10000 then [0xE0 + n div 4096, 0x80 + n div 64 mod 64, 0x80 + n mod 64]
        else [0xF0 + n div 262144, 0x80 + n div 4096 mod 64, 0x80 + n div 64 mod 64,
              0x80 + n mod 64])"

section \<open>Strings\<close>

abbreviation QUOTE :: char where "QUOTE \<equiv> CHR 0x22"
abbreviation BSLASH :: char where "BSLASH \<equiv> CHR 0x5C"

text \<open>One ASCII byte as the encoder writes it, with HTML escaping on.\<close>

definition esc_ascii :: "char \<Rightarrow> string" where
  "esc_ascii c =
     (if c = QUOTE \<or> c = BSLASH then [BSLASH, c]
      else if c = CHR 0x08 then [BSLASH, CHR ''b'']
      else if c = CHR 0x0C then [BSLASH, CHR ''f'']
      else if c = CHR 0x0A then [BSLASH, CHR ''n'']
      else if c = CHR 0x0D then [BSLASH, CHR ''r'']
      else if c = CHR 0x09 then [BSLASH, CHR ''t'']
      else if of_char c < (32 :: nat) \<or> c = CHR ''<'' \<or> c = CHR ''>'' \<or> c = CHR ''&''
        then [BSLASH, CHR ''u'', CHR ''0'', CHR ''0'',
              hex_digit (of_char c div 16), hex_digit (of_char c mod 16)]
      else [c])"

text \<open>One multi-byte code point; the line and paragraph separators are escaped.\<close>

definition esc_rune :: "bytes \<Rightarrow> string" where
  "esc_rune r =
     (if r = [CHR 0xE2, CHR 0x80, CHR 0xA8] then [BSLASH] @ ''u2028''
      else if r = [CHR 0xE2, CHR 0x80, CHR 0xA9] then [BSLASH] @ ''u2029''
      else r)"

function json_escape :: "bytes \<Rightarrow> string" where
  "json_escape s =
     (if s = [] then []
      else if rune_len s = 0 then [BSLASH] @ ''ufffd'' @ json_escape (tl s)
      else if rune_len s = 1 then esc_ascii (hd s) @ json_escape (tl s)
      else esc_rune (take (rune_len s) s) @ json_escape (drop (rune_len s) s))"
  by pat_completeness auto
termination
  by (relation "measure length") auto

declare json_escape.simps [simp del]

fun hex4 :: "string \<Rightarrow> (nat \<times> string) option" where
  "hex4 (a # b # c # d # r) =
     (case (hex_val a, hex_val b, hex_val c, hex_val d) of
        (Some w, Some x, Some y, Some z) \<Rightarrow> Some (((w * 16 + x) * 16 + y) * 16 + z, r)
      | _ \<Rightarrow> None)"
| "hex4 _ = None"

definition unesc_simple :: "char \<Rightarrow> char option" where
  "unesc_simple e =
     (if e = QUOTE \<or> e = BSLASH \<or> e = CHR ''/'' then Some e
      else if e = CHR ''b'' then Some (CHR 0x08)
      else if e = CHR ''f'' then Some (CHR 0x0C)
      else if e = CHR ''n'' then Some (CHR 0x0A)
      else if e = CHR ''r'' then Some (CHR 0x0D)
      else if e = CHR ''t'' then Some (CHR 0x09)
      else None)"

text \<open>
  A \<^verbatim>\<open>\u\<close> escape: a high surrogate pairs with a following escaped low surrogate, any
  other surrogate becomes U+FFFD.
\<close>

definition unesc_u :: "string \<Rightarrow> (bytes \<times> string) option" where
  "unesc_u s =
     (case hex4 s of
        None \<Rightarrow> None
      | Some (u, r) \<Rightarrow>
          if 0xD800 \<le> u \<and> u \<le> 0xDFFF then
            (case r of
               x # y # r' \<Rightarrow>
                 (case (if x = BSLASH \<and> y = CHR ''u'' then hex4 r' else None) of
                    Some (v, q) \<Rightarrow>
                      if u < 0xDC00 \<and> 0xDC00 \<le> v \<and> v \<le> 0xDFFF
                      then Some (utf8_encode (0x10000 + (u - 0xD800) * 1024 + (v - 0xDC00)), q)
                      else Some (utf8_encode 0xFFFD, r)
                  | None \<Rightarrow> Some (utf8_encode 0xFFFD, r))
             | _ \<Rightarrow> Some (utf8_encode 0xFFFD, r))
          else Some (utf8_encode u, r))"

lemma hex4_shorter: "hex4 s = Some (u, r) \<Longrightarrow> length r < length s"
  by (cases s rule: hex4.cases) (auto split: option.splits)

lemma unesc_u_shorter: "unesc_u s = Some (bs, r) \<Longrightarrow> length r < length s"
  by (auto simp: unesc_u_def split: option.splits if_splits list.splits prod.splits
      dest!: hex4_shorter)

definition cons_res :: "'a list \<Rightarrow> ('a list \<times> 'b) option \<Rightarrow> ('a list \<times> 'b) option" where
  "cons_res xs o' = map_option (\<lambda>(ys, r). (xs @ ys, r)) o'"

lemma cons_res_simps [simp]:
  "cons_res xs None = None"
  "cons_res xs (Some (ys, r)) = Some (xs @ ys, r)"
  by (simp_all add: cons_res_def)

text \<open>The body of a string literal up to its closing quote, and the text after it.\<close>

function json_unesc :: "string \<Rightarrow> (bytes \<times> string) option" where
  "json_unesc [] = None"
| "json_unesc (c # s) =
     (if c = QUOTE then Some ([], s)
      else if c = BSLASH then
        (case s of
           [] \<Rightarrow> None
         | e # s' \<Rightarrow>
             if e = CHR ''u'' then
               (case unesc_u s' of
                  None \<Rightarrow> None
                | Some (bs, r) \<Rightarrow> cons_res bs (json_unesc r))
             else (case unesc_simple e of
                     None \<Rightarrow> None
                   | Some x \<Rightarrow> cons_res [x] (json_unesc s')))
      else if of_char c < (32 :: nat) then None
      else if rune_len (c # s) = 0 then cons_res (utf8_encode 0xFFFD) (json_unesc s)
      else cons_res (take (rune_len (c # s)) (c # s))
             (json_unesc (drop (rune_len (c # s)) (c # s))))"
  by pat_completeness auto
termination
  by (relation "measure length") (auto dest: unesc_u_shorter)

declare json_unesc.simps(2) [simp del]

section \<open>Values\<close>

definition is_ws :: "char \<Rightarrow> bool" where
  "is_ws c \<longleftrightarrow> c = CHR '' '' \<or> c = CHR 0x09 \<or> c = CHR 0x0A \<or> c = CHR 0x0D"

fun skip_ws :: "string \<Rightarrow> string" where
  "skip_ws [] = []"
| "skip_ws (c # s) = (if is_ws c then skip_ws s else c # s)"

definition scan_int :: "string \<Rightarrow> (string \<times> string) option" where
  "scan_int s =
     (case s of
        [] \<Rightarrow> None
      | c # r \<Rightarrow>
          if c = CHR ''0'' then Some ([c], r)
          else if is_digit c then Some (takeWhile is_digit s, dropWhile is_digit s)
          else None)"

definition scan_frac :: "string \<Rightarrow> (string \<times> string) option" where
  "scan_frac s =
     (case s of
        [] \<Rightarrow> Some ([], [])
      | c # r \<Rightarrow>
          if c = CHR ''.'' then
            (if takeWhile is_digit r = [] then None
             else Some (c # takeWhile is_digit r, dropWhile is_digit r))
          else Some ([], s))"

definition scan_exp :: "string \<Rightarrow> (string \<times> string) option" where
  "scan_exp s =
     (case s of
        [] \<Rightarrow> Some ([], [])
      | c # r \<Rightarrow>
          if c = CHR ''e'' \<or> c = CHR ''E'' then
            (let (sg, q) = (case r of
                d # q \<Rightarrow> if d = CHR ''+'' \<or> d = CHR ''-'' then ([d], q) else ([], r)
              | [] \<Rightarrow> ([], []))
             in if takeWhile is_digit q = [] then None
                else Some (c # sg @ takeWhile is_digit q, dropWhile is_digit q))
          else Some ([], s))"

definition scan_num :: "string \<Rightarrow> (string \<times> string) option" where
  "scan_num s =
     (let (sg, r) = (case s of
          c # q \<Rightarrow> if c = CHR ''-'' then ([c], q) else ([], s)
        | [] \<Rightarrow> ([], []))
      in case scan_int r of
           None \<Rightarrow> None
         | Some (i, r1) \<Rightarrow>
             (case scan_frac r1 of
                None \<Rightarrow> None
              | Some (f, r2) \<Rightarrow>
                  (case scan_exp r2 of
                     None \<Rightarrow> None
                   | Some (e, r3) \<Rightarrow> Some (sg @ i @ f @ e, r3))))"

fun parse_val :: "nat \<Rightarrow> string \<Rightarrow> (json \<times> string) option"
and parse_elems :: "nat \<Rightarrow> string \<Rightarrow> (json list \<times> string) option"
and parse_members :: "nat \<Rightarrow> string \<Rightarrow> ((string \<times> json) list \<times> string) option" where
  "parse_val 0 s = None"
| "parse_val (Suc n) s =
     (case skip_ws s of
        [] \<Rightarrow> None
      | c # cs \<Rightarrow>
          if c = CHR ''{'' then
            (case skip_ws cs of
               [] \<Rightarrow> None
             | d # r \<Rightarrow>
                 if d = CHR ''}'' then Some (JObj [], r)
                 else map_option (\<lambda>(ms, r). (JObj ms, r)) (parse_members n cs))
          else if c = CHR ''['' then
            (case skip_ws cs of
               [] \<Rightarrow> None
             | d # r \<Rightarrow>
                 if d = CHR '']'' then Some (JArr [], r)
                 else map_option (\<lambda>(vs, r). (JArr vs, r)) (parse_elems n cs))
          else if c = QUOTE then map_option (\<lambda>(t, r). (JStr t, r)) (json_unesc cs)
          else if HasPrefix (c # cs) ''null'' then Some (JNull, drop 4 (c # cs))
          else if HasPrefix (c # cs) ''true'' then Some (JBool True, drop 4 (c # cs))
          else if HasPrefix (c # cs) ''false'' then Some (JBool False, drop 5 (c # cs))
          else map_option (\<lambda>(t, r). (JNum t, r)) (scan_num (c # cs)))"
| "parse_elems 0 s = None"
| "parse_elems (Suc n) s =
     (case parse_val n s of
        None \<Rightarrow> None
      | Some (v, r) \<Rightarrow>
          (case skip_ws r of
             [] \<Rightarrow> None
           | c # r' \<Rightarrow>
               if c = CHR '']'' then Some ([v], r')
               else if c = CHR '','' then map_option (\<lambda>(vs, q). (v # vs, q)) (parse_elems n r')
               else None))"
| "parse_members 0 s = None"
| "parse_members (Suc n) s =
     (case skip_ws s of
        [] \<Rightarrow> None
      | q # ks \<Rightarrow>
          if q \<noteq> QUOTE then None
          else (case json_unesc ks of
             None \<Rightarrow> None
           | Some (k, r0) \<Rightarrow>
               (case skip_ws r0 of
                  [] \<Rightarrow> None
                | c0 # r1 \<Rightarrow>
                    if c0 \<noteq> CHR '':'' then None
                    else (case parse_val n r1 of
                       None \<Rightarrow> None
                     | Some (v, r) \<Rightarrow>
                         (case skip_ws r of
                            [] \<Rightarrow> None
                          | c # r' \<Rightarrow>
                              if c = CHR ''}'' then Some ([(k, v)], r')
                              else if c = CHR '','' then
                                map_option (\<lambda>(ms, q). ((k, v) # ms, q)) (parse_members n r')
                              else None)))))"

definition json_parse :: "string \<Rightarrow> json option" where
  "json_parse s =
     (case parse_val (2 * length s + 2) s of
        None \<Rightarrow> None
      | Some (v, r) \<Rightarrow> if skip_ws r = [] then Some v else None)"

text \<open>The compact layout of \<^verbatim>\<open>json.Marshal\<close>.\<close>

definition print_str :: "string \<Rightarrow> string" where
  "print_str s = [QUOTE] @ json_escape s @ [QUOTE]"

fun json_print :: "json \<Rightarrow> string"
and print_elems :: "json list \<Rightarrow> string"
and print_members :: "(string \<times> json) list \<Rightarrow> string" where
  "json_print JNull = ''null''"
| "json_print (JBool b) = (if b then ''true'' else ''false'')"
| "json_print (JNum t) = t"
| "json_print (JStr s) = print_str s"
| "json_print (JArr vs) = [CHR ''[''] @ print_elems vs @ [CHR '']'']"
| "json_print (JObj ms) = [CHR ''{''] @ print_members ms @ [CHR ''}'']"
| "print_elems [] = []"
| "print_elems (v # vs) = json_print v @ (if vs = [] then [] else CHR '','' # print_elems vs)"
| "print_members [] = []"
| "print_members ((k, v) # ms) =
     print_str k @ [CHR '':''] @ json_print v
     @ (if ms = [] then [] else CHR '','' # print_members ms)"

section \<open>Round trip\<close>

lemma json_unesc_Quote [simp]: "json_unesc (QUOTE # r) = Some ([], r)"
  by (simp add: json_unesc.simps)

lemma unesc_u_00:
  "n < 0x80 \<Longrightarrow>
   unesc_u (CHR ''0'' # CHR ''0'' # hex_digit (n div 16) # hex_digit (n mod 16) # r)
     = Some ([char_of n], r)"
proof -
  assume n: "n < 0x80"
  have "hex_val (CHR ''0'') = Some 0"
    by (simp add: hex_val_def)
  then have "hex4 (CHR ''0'' # CHR ''0'' # hex_digit (n div 16) # hex_digit (n mod 16) # r)
      = Some (n, r)"
    using n by (simp add: less_mult_imp_div_less)
  then show ?thesis
    using n by (simp add: unesc_u_def utf8_encode_def)
qed

lemma json_unesc_raw:
  assumes "\<not> byte_in 0 0x7F c \<or> c \<noteq> QUOTE \<and> c \<noteq> BSLASH \<and> 32 \<le> (of_char c :: nat)"
    and "0 < rune_len (c # s)"
  shows "json_unesc (take (rune_len (c # s)) (c # s) @ r)
           = cons_res (take (rune_len (c # s)) (c # s)) (json_unesc r)"
proof -
  let ?n = "rune_len (c # s)"
  obtain t where t: "take ?n (c # s) = c # t"
    using assms(2) by (cases ?n) auto
  have len: "length (take ?n (c # s)) = ?n"
    using rune_len_le[of "c # s"] by simp
  have n: "rune_len (take ?n (c # s) @ r) = ?n"
    using assms(2) by (rule rune_len_take)
  have c: "c \<noteq> QUOTE" "c \<noteq> BSLASH" "\<not> of_char c < (32 :: nat)"
    using assms(1) by (auto simp: byte_in_def)
  have "take ?n (take ?n (c # s) @ r) = take ?n (c # s)" "drop ?n (take ?n (c # s) @ r) = r"
    using len by simp_all
  then show ?thesis
    using n c assms(2) unfolding t append_Cons
    by (subst json_unesc.simps) simp
qed

lemma json_unesc_esc_ascii:
  assumes "byte_in 0 0x7F c"
  shows "json_unesc (esc_ascii c @ r) = cons_res [c] (json_unesc r)"
proof -
  have n: "of_char c < (0x80 :: nat)"
    using assms by (simp add: byte_in_def)
  have plain: "c \<noteq> QUOTE \<Longrightarrow> c \<noteq> BSLASH \<Longrightarrow> \<not> of_char c < (32 :: nat) \<Longrightarrow>
      json_unesc (c # r) = cons_res [c] (json_unesc r)"
    using json_unesc_raw[of c "[]" r] assms by simp
  show ?thesis
    using plain unesc_u_00[OF n, of r]
    by (auto simp: esc_ascii_def json_unesc.simps(2) unesc_simple_def)
qed

lemma utf8_encode_2028: "utf8_encode 0x2028 = [CHR 0xE2, CHR 0x80, CHR 0xA8]"
  by (simp add: utf8_encode_def char_of_def bit_0)

lemma utf8_encode_2029: "utf8_encode 0x2029 = [CHR 0xE2, CHR 0x80, CHR 0xA9]"
  by (simp add: utf8_encode_def char_of_def bit_0)

lemma json_unesc_u2028:
  "json_unesc ([BSLASH] @ ''u2028'' @ r) = cons_res [CHR 0xE2, CHR 0x80, CHR 0xA8] (json_unesc r)"
  by (simp add: json_unesc.simps(2) unesc_u_def hex_val_def utf8_encode_2028)

lemma json_unesc_u2029:
  "json_unesc ([BSLASH] @ ''u2029'' @ r) = cons_res [CHR 0xE2, CHR 0x80, CHR 0xA9] (json_unesc r)"
  by (simp add: json_unesc.simps(2) unesc_u_def hex_val_def utf8_encode_2029)

lemma json_unesc_escape: "valid_utf8 s \<Longrightarrow> json_unesc (json_escape s @ QUOTE # r) = Some (s, r)"
proof (induction s rule: valid_utf8.induct)
  case (1 s)
  show ?case
  proof (cases s)
    case Nil
    then show ?thesis by (simp add: json_escape.simps[of "[]"])
  next
    case (Cons c cs)
    let ?n = "rune_len s"
    have n: "?n \<noteq> 0" and v: "valid_utf8 (drop ?n s)"
      using "1.prems" Cons by (auto simp: valid_utf8.simps[of "c # cs"] split: if_splits)
    have IH: "json_unesc (json_escape (drop ?n s) @ QUOTE # r) = Some (drop ?n s, r)"
      using "1.IH"[OF _ n v] Cons by simp
    show ?thesis
    proof (cases "?n = 1")
      case True
      then have "byte_in 0 0x7F c"
        using Cons rune_len_ascii by simp
      then show ?thesis
        using True Cons IH by (simp add: json_escape.simps[of "c # cs"] json_unesc_esc_ascii)
    next
      case False
      then have c: "\<not> byte_in 0 0x7F c"
        using Cons rune_len_ascii[of c cs] by simp
      have raw: "json_unesc (take ?n s @ q) = cons_res (take ?n s) (json_unesc q)" for q
        using json_unesc_raw[of c cs q] c n Cons by simp
      have "json_unesc (esc_rune (take ?n s) @ q) = cons_res (take ?n s) (json_unesc q)" for q
        using raw[of q] json_unesc_u2028[of q] json_unesc_u2029[of q] by (auto simp: esc_rune_def)
      then have "json_unesc (json_escape s @ QUOTE # r)
          = cons_res (take ?n s) (json_unesc (json_escape (drop ?n s) @ QUOTE # r))"
        using False n Cons by (subst json_escape.simps) simp
      then show ?thesis
        by (simp only: IH cons_res_simps append_take_drop_id)
    qed
  qed
qed

definition delim :: "string \<Rightarrow> bool" where
  "delim r \<longleftrightarrow> r = [] \<or> hd r \<in> {CHR '','', CHR ''}'', CHR '']''}"

lemma span_digits:
  "list_all is_digit ds \<Longrightarrow> delim r \<Longrightarrow>
     takeWhile is_digit (ds @ r) = ds \<and> dropWhile is_digit (ds @ r) = r"
proof -
  assume ds: "list_all is_digit ds" and r: "delim r"
  have "takeWhile is_digit r = [] \<and> dropWhile is_digit r = r"
    using r by (cases r) (auto simp: delim_def is_digit_def)
  then show ?thesis
    using ds by (simp add: list_all_iff takeWhile_append dropWhile_append)
qed

lemma scan_int_show_nat: "delim r \<Longrightarrow> scan_int (show_nat n @ r) = Some (show_nat n, r)"
proof -
  assume r: "delim r"
  obtain c q where cq: "show_nat n = c # q" "is_digit c" "list_all is_digit q"
    using show_nat_hd by blast
  show ?thesis
  proof (cases "c = CHR ''0''")
    case True
    then show ?thesis
      using cq show_nat_leading_zero[of n q] by (simp add: scan_int_def)
  next
    case False
    then show ?thesis
      using cq span_digits[OF show_nat_digits[of n, THEN conjunct1] r]
      by (simp add: scan_int_def)
  qed
qed

lemma scan_frac_delim: "delim r \<Longrightarrow> scan_frac r = Some ([], r)"
  by (cases r) (auto simp: delim_def scan_frac_def)

lemma scan_exp_delim: "delim r \<Longrightarrow> scan_exp r = Some ([], r)"
  by (cases r) (auto simp: delim_def scan_exp_def)

lemma scan_num_show_int: "delim r \<Longrightarrow> scan_num (show_int i @ r) = Some (show_int i, r)"
proof -
  assume r: "delim r"
  obtain c q where cq: "show_nat (nat i) = c # q" "is_digit c"
    using show_nat_hd by blast
  have c: "c \<noteq> CHR ''-''"
    using cq(2) by (auto simp: is_digit_def)
  note scan = scan_int_show_nat[OF r] scan_frac_delim[OF r] scan_exp_delim[OF r]
  show ?thesis
  proof (cases "i < 0")
    case True
    then show ?thesis
      by (simp add: scan_num_def show_int_def scan)
  next
    case False
    then show ?thesis
      using scan(1)[of "nat i"] scan(2,3) c cq(1) by (simp add: scan_num_def show_int_def)
  qed
qed

fun wf_json :: "json \<Rightarrow> bool" where
  "wf_json JNull = True"
| "wf_json (JBool b) = True"
| "wf_json (JNum t) = (\<exists>i. t = show_int i)"
| "wf_json (JStr s) = valid_utf8 s"
| "wf_json (JArr vs) = (\<forall>v\<in>set vs. wf_json v)"
| "wf_json (JObj ms) = (\<forall>(k, v)\<in>set ms. valid_utf8 k \<and> wf_json v)"

lemma wf_json_num [simp]: "wf_json (JNum (show_int i))"
  by auto

fun jfuel :: "json \<Rightarrow> nat"
and efuel :: "json list \<Rightarrow> nat"
and mfuel :: "(string \<times> json) list \<Rightarrow> nat" where
  "jfuel (JArr vs) = Suc (efuel vs)"
| "jfuel (JObj ms) = Suc (mfuel ms)"
| "jfuel _ = 1"
| "efuel [] = 0"
| "efuel (v # vs) = Suc (max (jfuel v) (efuel vs))"
| "mfuel [] = 0"
| "mfuel ((k, v) # ms) = Suc (max (jfuel v) (mfuel ms))"

lemma show_int_hd:
  "\<exists>c q. show_int i = c # q \<and> (is_digit c \<or> c = CHR ''-'')"
  using show_nat_hd[of "nat i"] by (auto simp: show_int_def)

lemma json_print_hd:
  "wf_json j \<Longrightarrow>
     \<exists>c q. json_print j = c # q \<and> \<not> is_ws c \<and> c \<noteq> CHR '']'' \<and> c \<noteq> CHR ''}''"
  using show_int_hd by (cases j) (fastforce simp: print_str_def is_ws_def is_digit_def)+

lemma parse_val_num:
  "delim r \<Longrightarrow> parse_val (Suc n) (show_int i @ r) = Some (JNum (show_int i), r)"
proof -
  assume r: "delim r"
  obtain c q where cq: "show_int i = c # q" "is_digit c \<or> c = CHR ''-''"
    using show_int_hd by blast
  have c: "\<not> is_ws c" "c \<notin> {CHR ''{'', CHR ''['', QUOTE, CHR ''n'', CHR ''t'', CHR ''f''}"
    using cq(2) by (auto simp: is_ws_def is_digit_def)
  then show ?thesis
    using scan_num_show_int[OF r, of i] cq(1) by (simp add: HasPrefix_def)
qed

lemma parse_val_str:
  "valid_utf8 s \<Longrightarrow> parse_val (Suc n) (print_str s @ r) = Some (JStr s, r)"
  using json_unesc_escape[of s r] by (simp add: print_str_def is_ws_def)

lemma parse_val_lit:
  "parse_val (Suc n) (''null'' @ r) = Some (JNull, r)"
  "parse_val (Suc n) (''true'' @ r) = Some (JBool True, r)"
  "parse_val (Suc n) (''false'' @ r) = Some (JBool False, r)"
  by (simp_all add: is_ws_def HasPrefix_def)

lemma delim_simps [simp]: "delim []" "delim (CHR '','' # r)" "delim (CHR '']'' # r)" "delim (CHR ''}'' # r)"
  by (simp_all add: delim_def)

lemma is_ws_simps [simp]:
  "\<not> is_ws (CHR '','')" "\<not> is_ws (CHR '']'')" "\<not> is_ws (CHR ''}'')" "\<not> is_ws (CHR '':'')"
  "\<not> is_ws QUOTE" "\<not> is_ws (CHR ''['')" "\<not> is_ws (CHR ''{'')"
  by (simp_all add: is_ws_def)

lemma parse_print:
  "wf_json j \<Longrightarrow> delim r \<Longrightarrow> jfuel j \<le> n \<Longrightarrow> parse_val n (json_print j @ r) = Some (j, r)"
  "vs \<noteq> [] \<Longrightarrow> \<forall>v\<in>set vs. wf_json v \<Longrightarrow> efuel vs \<le> n \<Longrightarrow>
     parse_elems n (print_elems vs @ CHR '']'' # r) = Some (vs, r)"
  "ms \<noteq> [] \<Longrightarrow> \<forall>(k, v)\<in>set ms. valid_utf8 k \<and> wf_json v \<Longrightarrow> mfuel ms \<le> n \<Longrightarrow>
     parse_members n (print_members ms @ CHR ''}'' # r) = Some (ms, r)"
proof (induction j and vs and ms arbitrary: n r and n r and n r
    rule: json_print_print_elems_print_members.induct)
  case 1
  then show ?case by (cases n) (simp_all add: parse_val_lit[simplified])
next
  case (2 b)
  then show ?case by (cases n) (simp_all add: parse_val_lit[simplified])
next
  case (3 t)
  then show ?case by (cases n) (auto simp del: parse_val.simps simp: parse_val_num)
next
  case (4 s)
  then show ?case by (cases n) (simp_all del: parse_val.simps add: parse_val_str)
next
  case (5 vs)
  obtain m where m: "n = Suc m" "efuel vs \<le> m"
    using "5.prems"(3) by (cases n) auto
  show ?case
  proof (cases vs)
    case Nil
    then show ?thesis using m by simp
  next
    case (Cons v ws)
    obtain c q where c: "json_print v = c # q" "\<not> is_ws c" "c \<noteq> CHR '']''"
      using json_print_hd[of v] "5.prems"(1) Cons by auto
    have "parse_elems m (print_elems vs @ CHR '']'' # r) = Some (vs, r)"
      using "5.IH" "5.prems"(1) m(2) Cons by simp
    then show ?thesis
      using m(1) c Cons by simp
  qed
next
  case (6 ms)
  obtain m where m: "n = Suc m" "mfuel ms \<le> m"
    using "6.prems"(3) by (cases n) auto
  show ?case
  proof (cases ms)
    case Nil
    then show ?thesis using m by simp
  next
    case (Cons kv ws)
    obtain q where q: "print_members ms = QUOTE # q"
      using Cons by (cases kv) (simp add: print_str_def)
    have "parse_members m (print_members ms @ CHR ''}'' # r) = Some (ms, r)"
      using "6.IH" "6.prems"(1) m(2) Cons by simp
    then show ?thesis
      using m(1) q by simp
  qed
next
  case (8 v vs)
  obtain m where m: "n = Suc m" "jfuel v \<le> m" "efuel vs \<le> m"
    using "8.prems"(3) by (cases n) auto
  show ?case
  proof (cases "vs = []")
    case True
    then show ?thesis
      using "8.IH"(1)[of "CHR '']'' # r" m] "8.prems"(2) m by simp
  next
    case False
    have "parse_elems m (print_elems vs @ CHR '']'' # r) = Some (vs, r)"
      using "8.IH"(2)[of m r] "8.prems"(2) m(3) False by simp
    then show ?thesis
      using "8.IH"(1)[of "CHR '','' # print_elems vs @ CHR '']'' # r" m] "8.prems"(2) m(1,2) False
      by simp
  qed
next
  case (10 k v ms)
  obtain m where m: "n = Suc m" "jfuel v \<le> m" "mfuel ms \<le> m"
    using "10.prems"(3) by (cases n) auto
  have k: "json_unesc (json_escape k @ QUOTE # x) = Some (k, x)" for x
    using "10.prems"(2) by (simp add: json_unesc_escape)
  show ?case
  proof (cases "ms = []")
    case True
    then show ?thesis
      using "10.IH"(1)[of "CHR ''}'' # r" m] "10.prems"(2) m k by (simp add: print_str_def)
  next
    case False
    have "parse_members m (print_members ms @ CHR ''}'' # r) = Some (ms, r)"
      using "10.IH"(2)[of m r] "10.prems"(2) m(3) False by simp
    then show ?thesis
      using "10.IH"(1)[of "CHR '','' # print_members ms @ CHR ''}'' # r" m] "10.prems"(2) m(1,2) False k
      by (simp add: print_str_def)
  qed
qed simp_all

lemma jfuel_le_length:
  "wf_json j \<Longrightarrow> jfuel j \<le> length (json_print j)"
  "\<forall>v\<in>set vs. wf_json v \<Longrightarrow> efuel vs \<le> Suc (length (print_elems vs))"
  "\<forall>(k, v)\<in>set ms. valid_utf8 k \<and> wf_json v \<Longrightarrow> mfuel ms \<le> Suc (length (print_members ms))"
proof (induction j and vs and ms rule: json_print_print_elems_print_members.induct)
  case (3 t)
  then obtain i where "t = show_int i"
    by auto
  then show ?case
    using show_int_hd[of i] by auto
qed (auto simp: print_str_def)

theorem json_parse_print: "wf_json j \<Longrightarrow> json_parse (json_print j) = Some j"
proof -
  assume j: "wf_json j"
  have "parse_val (2 * length (json_print j) + 2) (json_print j @ []) = Some (j, [])"
    using jfuel_le_length(1)[OF j] by (intro parse_print(1)[OF j]) simp_all
  then show ?thesis
    by (simp add: json_parse_def)
qed

section \<open>The decoder's fuel\<close>

text \<open>
  Every call consumes input, so twice the length of the text is enough fuel: any larger
  amount gives the same answer, and \<^const>\<open>json_parse\<close> never fails for lack of it.
\<close>

lemma length_skip_ws: "skip_ws s = c # cs \<Longrightarrow> length cs < length s"
  by (induction s) (auto split: if_splits)

lemma json_unesc_shorter: "json_unesc s = Some (bs, r) \<Longrightarrow> length r < length s"
proof (induction s arbitrary: bs rule: json_unesc.induct)
  case (2 c s)
  have n: "length (drop (rune_len (c # s)) (c # s)) \<le> length (c # s)"
    by simp
  show ?case
    using "2.prems" "2.IH" n
    by (auto simp: json_unesc.simps(2)[of c s] cons_res_def split: if_splits list.splits option.splits
        dest!: unesc_u_shorter) fastforce+
qed simp

lemma scan_int_shorter: "scan_int s = Some (t, r) \<Longrightarrow> length r < length s"
  by (auto simp: scan_int_def less_Suc_eq_le length_dropWhile_le split: list.splits if_splits)

lemma scan_frac_shorter: "scan_frac s = Some (t, r) \<Longrightarrow> length r \<le> length s"
  by (auto simp: scan_frac_def le_SucI length_dropWhile_le split: list.splits if_splits)

lemma scan_exp_shorter: "scan_exp s = Some (t, r) \<Longrightarrow> length r \<le> length s"
  by (auto simp: scan_exp_def Let_def le_SucI length_dropWhile_le split: list.splits if_splits prod.splits)

lemma scan_num_shorter: "scan_num s = Some (t, r) \<Longrightarrow> length r < length s"
  by (auto simp: scan_num_def Let_def split: list.splits if_splits prod.splits option.splits
      dest!: scan_int_shorter scan_frac_shorter scan_exp_shorter)

lemma parse_shorter:
  "parse_val n s = Some (v, r) \<Longrightarrow> length r < length s"
  "parse_elems n s = Some (vs, r) \<Longrightarrow> length r < length s"
  "parse_members n s = Some (ms, r) \<Longrightarrow> length r < length s"
proof (induction n s and n s and n s arbitrary: v r and vs r and ms r
    rule: parse_val_parse_elems_parse_members.induct)
  case (2 n s)
  show ?case
  proof (cases "skip_ws s")
    case Nil
    then show ?thesis using "2.prems" by simp
  next
    case (Cons c cs)
    note len = length_skip_ws[OF Cons]
    show ?thesis
      using "2.prems" "2.IH" Cons len
      by (auto split: if_splits list.splits
          dest!: json_unesc_shorter scan_num_shorter length_skip_ws) fastforce+
  qed
next
  case (4 n s)
  then show ?case
    by (auto split: option.splits list.splits if_splits dest!: length_skip_ws) fastforce+
next
  case (6 n s)
  then show ?case
    by (auto split: option.splits list.splits if_splits dest!: length_skip_ws json_unesc_shorter)
       fastforce+
qed auto

lemma parse_fuel:
  "2 * length s + 1 \<le> n \<Longrightarrow> n \<le> m \<Longrightarrow> parse_val m s = parse_val n s"
  "2 * length s + 2 \<le> n \<Longrightarrow> n \<le> m \<Longrightarrow> parse_elems m s = parse_elems n s"
  "2 * length s + 2 \<le> n \<Longrightarrow> n \<le> m \<Longrightarrow> parse_members m s = parse_members n s"
proof (induction n s and n s and n s arbitrary: m and m and m
    rule: parse_val_parse_elems_parse_members.induct)
  case (2 n s)
  obtain k where k: "m = Suc k" "n \<le> k"
    using "2.prems"(2) by (cases m) auto
  show ?case
  proof (cases "skip_ws s")
    case Nil
    then show ?thesis using k by simp
  next
    case (Cons c cs)
    have len: "2 * length cs + 2 \<le> n"
      using length_skip_ws[OF Cons] "2.prems"(1) by simp
    show ?thesis
    proof (cases "skip_ws cs")
      case Nil
      then show ?thesis using k Cons by simp
    next
      case inner: (Cons d r)
      have "c = CHR ''{'' \<Longrightarrow> d \<noteq> CHR ''}'' \<Longrightarrow> parse_members k cs = parse_members n cs"
        using "2.IH"(1)[OF Cons _ inner _ len k(2)] by simp
      moreover have "c = CHR ''['' \<Longrightarrow> d \<noteq> CHR '']'' \<Longrightarrow> parse_elems k cs = parse_elems n cs"
        using "2.IH"(2)[OF Cons _ _ inner _ len k(2)] by simp
      ultimately show ?thesis
        using k(1) Cons inner by simp
    qed
  qed
next
  case (4 n s)
  obtain k where k: "m = Suc k" "n \<le> k"
    using "4.prems"(2) by (cases m) auto
  have v: "parse_val k s = parse_val n s"
    using "4.prems"(1) by (intro "4.IH"(1)[OF _ k(2)]) simp
  show ?case
  proof (cases "parse_val n s")
    case None
    then show ?thesis using k v by simp
  next
    case (Some vr)
    obtain w r where vr: "vr = (w, r)"
      by (cases vr)
    then have r: "length r < length s"
      using Some parse_shorter(1) by blast
    show ?thesis
    proof (cases "skip_ws r")
      case Nil
      then show ?thesis using k v Some vr by simp
    next
      case (Cons c q)
      then have "2 * length q + 2 \<le> n"
        using length_skip_ws[OF Cons] r "4.prems"(1) by simp
      then have "c \<noteq> CHR '']'' \<Longrightarrow> c = CHR '','' \<Longrightarrow> parse_elems k q = parse_elems n q"
        using "4.IH"(2)[OF Some vr[symmetric] Cons _ _ _ k(2)] by simp
      then show ?thesis
        using Cons k(1) v Some vr by simp
    qed
  qed
next
  case (6 n s)
  obtain k where k: "m = Suc k" "n \<le> k"
    using "6.prems"(2) by (cases m) auto
  show ?case
  proof (cases "skip_ws s")
    case Nil
    then show ?thesis using k by simp
  next
    case (Cons q ks)
    show ?thesis
    proof (cases "json_unesc ks")
      case None
      then show ?thesis using k Cons by simp
    next
      case (Some kr)
      obtain key r0 where kr: "kr = (key, r0)"
        by (cases kr)
      show ?thesis
      proof (cases "skip_ws r0")
        case Nil
        then show ?thesis using k Cons Some kr by simp
      next
        case colon: (Cons c0 r1)
        have r1: "length r1 < length s"
          using length_skip_ws[OF Cons] length_skip_ws[OF colon] json_unesc_shorter Some kr
          by fastforce
        show ?thesis
        proof (cases "q = QUOTE \<and> c0 = CHR '':''")
          case False
          then show ?thesis using k Cons Some kr colon by auto
        next
          case qc: True
          have v: "parse_val k r1 = parse_val n r1"
            using qc r1 "6.prems"(1) by (intro "6.IH"(1)[OF Cons _ Some kr[symmetric] colon _ _ k(2)]) simp_all
          show ?thesis
          proof (cases "parse_val n r1")
            case None
            then show ?thesis using k Cons Some kr colon v by simp
          next
            case val: (Some vr)
            obtain w r where vr: "vr = (w, r)"
              by (cases vr)
            then have r: "length r < length r1"
              using val parse_shorter(1) by blast
            show ?thesis
            proof (cases "skip_ws r")
              case Nil
              then show ?thesis using k Cons Some kr colon v val vr by simp
            next
              case rest: (Cons c r')
              have "2 * length r' + 2 \<le> n"
                using length_skip_ws[OF rest] r r1 "6.prems"(1) by simp
              then have "c \<noteq> CHR ''}'' \<Longrightarrow> c = CHR '','' \<Longrightarrow> parse_members k r' = parse_members n r'"
                using "6.IH"(2)[OF Cons _ Some kr[symmetric] colon _ val vr[symmetric] rest _ _ _ k(2)] qc by simp
              then show ?thesis
                using qc k(1) Cons Some kr colon v val vr rest by simp
            qed
          qed
        qed
      qed
    qed
  qed
qed auto

theorem json_parse_fuel:
  "2 * length s + 2 \<le> n \<Longrightarrow>
   json_parse s = (case parse_val n s of
     None \<Rightarrow> None | Some (v, r) \<Rightarrow> if skip_ws r = [] then Some v else None)"
  using parse_fuel(1)[of s "2 * length s + 2" n] by (simp add: json_parse_def)

section \<open>Filling the fields of a struct\<close>

text \<open>
  The decoder walks the members in order and stores each into the field whose name matches,
  ignoring ASCII case; \<^verbatim>\<open>null\<close> leaves the field as it is, and a member of the wrong
  type makes the whole decoding fail.  A field is therefore the last matching member that
  is not \<^verbatim>\<open>null\<close>, or the zero value.
\<close>

definition fold_ascii :: "string \<Rightarrow> string" where
  "fold_ascii s =
     map (\<lambda>c. if byte_in 65 90 c then char_of (of_char c + 32 :: nat) else c) s"

definition members_of :: "string \<Rightarrow> (string \<times> json) list \<Rightarrow> json list" where
  "members_of f ms = map snd (filter (\<lambda>(k, v). fold_ascii k = f) ms)"

fun str_of_json :: "json \<Rightarrow> string option" where
  "str_of_json (JStr s) = Some s"
| "str_of_json _ = None"

fun int_of_json :: "json \<Rightarrow> int option" where
  "int_of_json (JNum t) = ParseInt64 t"
| "int_of_json _ = None"

fun bool_of_json :: "json \<Rightarrow> bool option" where
  "bool_of_json (JBool b) = Some b"
| "bool_of_json _ = None"

fun fill :: "(json \<Rightarrow> 'a option) \<Rightarrow> 'a \<Rightarrow> json list \<Rightarrow> 'a option" where
  "fill conv d [] = Some d"
| "fill conv d (v # vs) =
     (if v = JNull then fill conv d vs
      else (case conv v of None \<Rightarrow> None | Some x \<Rightarrow> fill conv x vs))"

definition str_field :: "string \<Rightarrow> (string \<times> json) list \<Rightarrow> string option" where
  "str_field f ms = fill str_of_json [] (members_of f ms)"

definition int_field :: "string \<Rightarrow> (string \<times> json) list \<Rightarrow> int option" where
  "int_field f ms = fill int_of_json 0 (members_of f ms)"

definition bool_field :: "string \<Rightarrow> (string \<times> json) list \<Rightarrow> bool option" where
  "bool_field f ms = fill bool_of_json False (members_of f ms)"

lemmas field_defs = str_field_def int_field_def bool_field_def members_of_def fold_ascii_def
  byte_in_def

text \<open>Decoding into a struct wants an object; a top-level \<^verbatim>\<open>null\<close> changes nothing.\<close>

definition json_members :: "string \<Rightarrow> (string \<times> json) list option" where
  "json_members s =
     (case json_parse s of
        Some (JObj ms) \<Rightarrow> Some ms
      | Some JNull \<Rightarrow> Some []
      | _ \<Rightarrow> None)"

lemma json_members_print: "wf_json (JObj ms) \<Longrightarrow> json_members (json_print (JObj ms)) = Some ms"
  by (simp add: json_members_def json_parse_print del: json_print.simps)

text \<open>
  A \<^verbatim>\<open>json.RawMessage\<close> field receives the text of its member as it stands.
  \<open>raw_members\<close> splits the text after the opening brace of an object that parses.
\<close>

fun raw_members :: "nat \<Rightarrow> string \<Rightarrow> (string \<times> string) list" where
  "raw_members 0 s = []"
| "raw_members (Suc n) s =
     (case skip_ws s of
        [] \<Rightarrow> []
      | q # ks \<Rightarrow>
          (case json_unesc ks of
             None \<Rightarrow> []
           | Some (k, r0) \<Rightarrow>
               (let t = skip_ws (tl (skip_ws r0))
                in case parse_val (2 * length t + 2) t of
                     None \<Rightarrow> []
                   | Some (v, r) \<Rightarrow>
                       (k, take (length t - length r) t)
                         # (if HasPrefix (skip_ws r) '','' then raw_members n (tl (skip_ws r)) else []))))"

definition raw_field :: "string \<Rightarrow> string \<Rightarrow> string" where
  "raw_field f s =
     (if HasPrefix (skip_ws s) ''{'' then
        (let ms = filter (\<lambda>(k, v). fold_ascii k = f) (raw_members (length s) (tl (skip_ws s)))
         in if ms = [] then [] else snd (last ms))
      else [])"

declare wf_json.simps(3) [simp del]

end
