(* ===== verification/Config.thy ===== *)
theory Config
  imports Encoding
begin

text \<open>
  \<^verbatim>\<open>shared/config.go\<close>: the configuration records, the defaults, the environment
  overrides and the duration accessors.  The environment is the function \<open>env\<close>
  (\<^verbatim>\<open>os.Getenv\<close>, empty when unset); the YAML decoder is third-party code and
  a parameter of \<open>LoadConfig\<close>.
\<close>

record TLSConfig =
  Enabled :: bool
  CertFile :: string
  KeyFile :: string

record ServerConfig =
  HTTPPort :: int
  TCPPort :: int
  UDPPort :: int
  MQTTPort :: int
  TerminalPort :: int
  Debug :: bool
  AllowedOrigins :: "string list"
  TLS :: TLSConfig

record PostgresConfig =
  Host :: string
  Port :: int
  User :: string
  Password :: string
  Database :: string
  SSLMode :: string
  MaxOpenConns :: int
  MaxIdleConns :: int
  ConnMaxLifetime :: string

record RedisConfig =
  rHost :: string
  rPort :: int
  rPassword :: string
  DB :: int
  SessionTTL :: string
  UserSessionTTL :: string

record AuthConfig =
  JWTSecret :: string
  JWTExpiry :: int
  NonceLength :: int

record TimeoutsConfig =
  tHandshake :: string
  ProcessKill :: string
  ReverseConnect :: string

record Config =
  Server :: ServerConfig
  Postgres :: PostgresConfig
  Redis :: RedisConfig
  Auth :: AuthConfig
  BasePath :: string
  Timeouts :: TimeoutsConfig

definition defaultConfig :: Config where
  "defaultConfig =
     \<lparr>Server = \<lparr>HTTPPort = 8080, TCPPort = 5002, UDPPort = 5001, MQTTPort = 1883,
        TerminalPort = 6000, Debug = False,
        AllowedOrigins = [''http://localhost:5173'', ''http://localhost:4173''],
        TLS = \<lparr>Enabled = False, CertFile = [], KeyFile = []\<rparr>\<rparr>,
      Postgres = \<lparr>Host = ''localhost'', Port = 5432, User = ''robomesh'', Password = [],
        Database = ''robomesh_db'', SSLMode = ''disable'', MaxOpenConns = 10,
        MaxIdleConns = 5, ConnMaxLifetime = ''1h''\<rparr>,
      Redis = \<lparr>rHost = ''localhost'', rPort = 6379, rPassword = [], DB = 0,
        SessionTTL = ''60s'', UserSessionTTL = ''24h''\<rparr>,
      Auth = \<lparr>JWTSecret = [], JWTExpiry = 3600, NonceLength = 32\<rparr>,
      BasePath = ''../handlers'',
      Timeouts = \<lparr>tHandshake = ''30s'', ProcessKill = ''10s'', ReverseConnect = ''10s''\<rparr>\<rparr>"

section \<open>Durations\<close>

text \<open>
  \<^verbatim>\<open>time.ParseDuration\<close>, in nanoseconds.  A fraction is scaled exactly; the library
  scales it in floating point and may differ in the last nanosecond.
\<close>

definition duration_unit :: "string \<Rightarrow> nat option" where
  "duration_unit u = map_of
     [(''ns'', 1), (''us'', 1000), ([CHR 0xC2, CHR 0xB5, CHR ''s''], 1000),
      ([CHR 0xCE, CHR 0xBC, CHR ''s''], 1000), (''ms'', 1000000), (''s'', 1000000000),
      (''m'', 60 * 1000000000), (''h'', 3600 * 1000000000)] u"

fun duration_terms :: "nat \<Rightarrow> nat \<Rightarrow> string \<Rightarrow> nat option" where
  "duration_terms n d [] = Some d"
| "duration_terms 0 d s = None"
| "duration_terms (Suc n) d s =
     (let ds = takeWhile is_digit s;
          s1 = dropWhile is_digit s;
          (fs, s2) = (if HasPrefix s1 ''.''
                      then (takeWhile is_digit (tl s1), dropWhile is_digit (tl s1))
                      else ([], s1));
          u = takeWhile (\<lambda>c. \<not> (c = CHR ''.'' \<or> is_digit c)) s2;
          s3 = dropWhile (\<lambda>c. \<not> (c = CHR ''.'' \<or> is_digit c)) s2
      in if ds = [] \<and> fs = [] \<or> read_nat ds > 2 ^ 63 then None
         else (case duration_unit u of
                 None \<Rightarrow> None
               | Some unit \<Rightarrow>
                   (if read_nat ds > 2 ^ 63 div unit then None
                    else
                      let v = read_nat ds * unit + read_nat fs * unit div 10 ^ length fs;
                          d' = d + v
                      in if v > 2 ^ 63 \<or> d' > 2 ^ 63 then None
                         else duration_terms n d' s3)))"

definition ParseDuration :: "string \<Rightarrow> int option" where
  "ParseDuration s =
     (let (neg, r) = (case s of
          c # r \<Rightarrow> if c = CHR ''-'' \<or> c = CHR ''+'' then (c = CHR ''-'', r) else (False, s)
        | [] \<Rightarrow> (False, []))
      in if r = ''0'' then Some 0
         else if r = [] then None
         else (case duration_terms (length r) 0 r of
                 None \<Rightarrow> None
               | Some d \<Rightarrow>
                   if neg then Some (- int d)
                   else if d > 2 ^ 63 - 1 then None
                   else Some (int d)))"

definition duration_or :: "int \<Rightarrow> string \<Rightarrow> int" where
  "duration_or dflt s = (case ParseDuration s of None \<Rightarrow> dflt | Some d \<Rightarrow> d)"

definition HandshakeTimeout :: "TimeoutsConfig \<Rightarrow> int" where
  "HandshakeTimeout t = duration_or (30 * second) (tHandshake t)"

definition ProcessKillTimeout :: "TimeoutsConfig \<Rightarrow> int" where
  "ProcessKillTimeout t = duration_or (10 * second) (ProcessKill t)"

definition ReverseConnectTimeout :: "TimeoutsConfig \<Rightarrow> int" where
  "ReverseConnectTimeout t = duration_or (10 * second) (ReverseConnect t)"

definition TTL :: "RedisConfig \<Rightarrow> int" where
  "TTL r = duration_or (60 * second) (SessionTTL r)"

definition UserTTL :: "RedisConfig \<Rightarrow> int" where
  "UserTTL r = duration_or (24 * 3600 * second) (UserSessionTTL r)"

definition ConnLifetime :: "PostgresConfig \<Rightarrow> int" where
  "ConnLifetime p = duration_or (3600 * second) (ConnMaxLifetime p)"

definition DSN :: "PostgresConfig \<Rightarrow> string" where
  "DSN p = ''postgres://'' @ User p @ '':'' @ Password p @ ''@'' @ Host p @ '':''
     @ show_int (Port p) @ ''/'' @ Database p @ ''?sslmode='' @ SSLMode p"

definition Addr :: "RedisConfig \<Rightarrow> string" where
  "Addr r = rHost r @ '':'' @ show_int (rPort r)"

section \<open>Environment overrides\<close>

definition envStr :: "(string \<Rightarrow> string) \<Rightarrow> string \<Rightarrow> string \<Rightarrow> string" where
  "envStr env key dst = (if env key \<noteq> [] then env key else dst)"

definition envInt :: "(string \<Rightarrow> string) \<Rightarrow> string \<Rightarrow> int \<Rightarrow> int" where
  "envInt env key dst =
     (if env key \<noteq> []
      then (case ParseInt64 (env key) of Some n \<Rightarrow> n | None \<Rightarrow> dst)
      else dst)"

definition envBool :: "(string \<Rightarrow> string) \<Rightarrow> string \<Rightarrow> bool \<Rightarrow> bool" where
  "envBool env key dst = (if env key \<noteq> [] then env key = ''true'' else dst)"

definition envCSV :: "(string \<Rightarrow> string) \<Rightarrow> string \<Rightarrow> string list \<Rightarrow> string list" where
  "envCSV env key dst =
     (if env key \<noteq> [] then
        (let parts = filter (\<lambda>s. s \<noteq> []) (map TrimSpace (Split (env key) (CHR '','')))
         in if parts \<noteq> [] then parts else dst)
      else dst)"

definition env_server :: "(string \<Rightarrow> string) \<Rightarrow> ServerConfig \<Rightarrow> ServerConfig" where
  "env_server env c =
     \<lparr>HTTPPort = envInt env ''HTTP_PORT'' (HTTPPort c),
      TCPPort = envInt env ''TCP_PORT'' (TCPPort c),
      UDPPort = envInt env ''UDP_PORT'' (UDPPort c),
      MQTTPort = envInt env ''MQTT_PORT'' (MQTTPort c),
      TerminalPort = envInt env ''TERMINAL_PORT'' (TerminalPort c),
      Debug = envBool env ''DEBUG'' (Debug c),
      AllowedOrigins = envCSV env ''ALLOWED_ORIGINS'' (AllowedOrigins c),
      TLS = \<lparr>Enabled = envBool env ''TLS_ENABLED'' (Enabled (TLS c)),
             CertFile = envStr env ''TLS_CERT_FILE'' (CertFile (TLS c)),
             KeyFile = envStr env ''TLS_KEY_FILE'' (KeyFile (TLS c))\<rparr>\<rparr>"

definition env_postgres :: "(string \<Rightarrow> string) \<Rightarrow> PostgresConfig \<Rightarrow> PostgresConfig" where
  "env_postgres env c =
     c\<lparr>Host := envStr env ''POSTGRES_HOST'' (Host c),
       Port := envInt env ''POSTGRES_PORT'' (Port c),
       User := envStr env ''POSTGRES_USER'' (User c),
       Password := envStr env ''POSTGRES_PASSWORD'' (Password c),
       Database := envStr env ''POSTGRES_DB'' (Database c),
       SSLMode := envStr env ''POSTGRES_SSL_MODE'' (SSLMode c)\<rparr>"

definition env_redis :: "(string \<Rightarrow> string) \<Rightarrow> RedisConfig \<Rightarrow> RedisConfig" where
  "env_redis env c =
     c\<lparr>rHost := envStr env ''REDIS_HOST'' (rHost c),
       rPort := envInt env ''REDIS_PORT'' (rPort c),
       rPassword := envStr env ''REDIS_PASSWORD'' (rPassword c),
       DB := envInt env ''REDIS_DB'' (DB c)\<rparr>"

definition applyEnvOverrides :: "(string \<Rightarrow> string) \<Rightarrow> Config \<Rightarrow> Config" where
  "applyEnvOverrides env cfg =
     cfg\<lparr>Server := env_server env (Server cfg),
         Postgres := env_postgres env (Postgres cfg),
         Redis := env_redis env (Redis cfg),
         Auth := (Auth cfg)\<lparr>JWTSecret := envStr env ''JWT_SECRET'' (JWTSecret (Auth cfg)),
                            JWTExpiry := envInt env ''JWT_EXPIRY'' (JWTExpiry (Auth cfg))\<rparr>,
         BasePath := envStr env ''HANDLERS_BASE_PATH'' (BasePath cfg)\<rparr>"

text \<open>
  \<open>file\<close> is the content of the configuration file, \<open>None\<close> when it cannot be read;
  \<open>yaml\<close> decodes it over a configuration.
\<close>

definition LoadConfig ::
  "(string \<Rightarrow> Config \<Rightarrow> Config res) \<Rightarrow> (string \<Rightarrow> string) \<Rightarrow> string \<Rightarrow> string option \<Rightarrow> Config res" where
  "LoadConfig yaml env path file =
     (case file of
        None \<Rightarrow> Inr (applyEnvOverrides env defaultConfig)
      | Some data \<Rightarrow>
          (case yaml data defaultConfig of
             Inl e \<Rightarrow> Inl (''failed to parse config file '' @ path @ '': '' @ e)
           | Inr cfg \<Rightarrow> Inr (applyEnvOverrides env cfg)))"

section \<open>Properties of the overrides\<close>

lemmas env_defs = envStr_def envInt_def envBool_def envCSV_def

text \<open>Applying the overrides twice is the same as applying them once.\<close>

lemma env_idem [simp]:
  "envStr env k (envStr env k d) = envStr env k d"
  "envInt env k (envInt env k i) = envInt env k i"
  "envBool env k (envBool env k b) = envBool env k b"
  "envCSV env k (envCSV env k l) = envCSV env k l"
  by (simp_all add: env_defs Let_def split: option.splits)

lemma applyEnvOverrides_idem:
  "applyEnvOverrides env (applyEnvOverrides env cfg) = applyEnvOverrides env cfg"
  by (simp add: applyEnvOverrides_def env_server_def env_postgres_def env_redis_def)

lemma applyEnvOverrides_unset:
  "(\<And>k. env k = []) \<Longrightarrow> applyEnvOverrides env cfg = cfg"
  by (simp add: applyEnvOverrides_def env_server_def env_postgres_def env_redis_def env_defs)

text \<open>The durations of the defaults are read as written.\<close>

lemma default_durations:
  "TTL (Redis defaultConfig) = 60 * second"
  "UserTTL (Redis defaultConfig) = 24 * 3600 * second"
  "HandshakeTimeout (Timeouts defaultConfig) = 30 * second"
  by (simp_all add: TTL_def UserTTL_def HandshakeTimeout_def defaultConfig_def duration_or_def
      ParseDuration_def duration_unit_def is_digit_def read_nat_def HasPrefix_def second_def)

end
