(* ===== verification/Database.thy ===== *)
theory Database
  imports Json Config
begin

text \<open>
  \<^verbatim>\<open>database/\<close>: the Redis and PostgreSQL handlers.  The two services are not part of
  the repository: their clients are the records \<open>redis\<close> and \<open>postgres\<close> of
  operations over an abstract service state, each of which may fail.  What the server
  relies on is the locale \<open>redis_service\<close>, whose laws allow keys to expire at
  any time (a successor view is a part of the expected one); \<open>redis_steady\<close> adds that
  nothing expires and nothing fails.  \<open>mem_redis\<close> is an in-memory service that
  satisfies both.  The text of library errors is abstracted to one message.
\<close>

section \<open>Redis client\<close>

record 'r redis =
  rdGet :: "string \<Rightarrow> 'r \<Rightarrow> string res \<times> 'r"
  rdSet :: "string \<Rightarrow> string \<Rightarrow> int \<Rightarrow> 'r \<Rightarrow> unit res \<times> 'r"
  rdDel :: "string \<Rightarrow> 'r \<Rightarrow> unit res \<times> 'r"
  rdGetDel :: "string \<Rightarrow> 'r \<Rightarrow> string res \<times> 'r"
  rdExists :: "string \<Rightarrow> 'r \<Rightarrow> int res \<times> 'r"
  rdScan :: "string \<Rightarrow> 'r \<Rightarrow> (string list \<times> string option) \<times> 'r"
  rdPublish :: "string \<Rightarrow> string \<Rightarrow> 'r \<Rightarrow> unit res \<times> 'r"

definition json_error :: string where
  "json_error = ''invalid JSON''"

text \<open>A stored value that is read and decoded.\<close>

definition get_json ::
  "'r redis \<Rightarrow> (string \<Rightarrow> 'a option) \<Rightarrow> string \<Rightarrow> 'r \<Rightarrow> 'a res \<times> 'r" where
  "get_json rd dec key s =
     (case rdGet rd key s of
        (Inl e, s') \<Rightarrow> (Inl e, s')
      | (Inr data, s') \<Rightarrow>
          (case dec data of None \<Rightarrow> (Inl json_error, s') | Some x \<Rightarrow> (Inr x, s')))"

text \<open>The body of the scan loops: unreadable and undecodable entries are skipped.\<close>

fun collect ::
  "'r redis \<Rightarrow> (string \<Rightarrow> 'a option) \<Rightarrow> string list \<Rightarrow> 'r \<Rightarrow> 'a list \<times> 'r" where
  "collect rd dec [] s = ([], s)"
| "collect rd dec (k # ks) s =
     (case rdGet rd k s of
        (Inl e, s') \<Rightarrow> collect rd dec ks s'
      | (Inr data, s') \<Rightarrow>
          (case dec data of
             None \<Rightarrow> collect rd dec ks s'
           | Some x \<Rightarrow> (case collect rd dec ks s' of (xs, s'') \<Rightarrow> (x # xs, s''))))"

definition scan_all ::
  "'r redis \<Rightarrow> (string \<Rightarrow> 'a option) \<Rightarrow> string \<Rightarrow> 'r \<Rightarrow> 'a list res \<times> 'r" where
  "scan_all rd dec pattern s =
     (case rdScan rd pattern s of
        ((keys, err), s') \<Rightarrow>
          (case collect rd dec keys s' of
             (xs, s'') \<Rightarrow>
               (case err of Some e \<Rightarrow> (Inl e, s'') | None \<Rightarrow> (Inr xs, s''))))"

definition exists_pos :: "int res \<Rightarrow> bool res" where
  "exists_pos r = (case r of Inl e \<Rightarrow> Inl e | Inr n \<Rightarrow> Inr (n > 0))"

subsection \<open>Active robots\<close>

record ActiveRobot =
  ar_UUID :: string
  ar_IP :: string
  ar_DeviceType :: string
  ar_SessionJWT :: string
  ar_PID :: int
  ar_ConnectedAt :: int

definition robotKey :: "string \<Rightarrow> string" where
  "robotKey uuid = ''robot:'' @ uuid @ '':active''"

definition ActiveRobot_json :: "ActiveRobot \<Rightarrow> json" where
  "ActiveRobot_json r = JObj
     ([(''uuid'', JStr (ar_UUID r)), (''ip'', JStr (ar_IP r)),
       (''device_type'', JStr (ar_DeviceType r)), (''session_jwt'', JStr (ar_SessionJWT r))]
      @ (if ar_PID r = 0 then [] else [(''pid'', JNum (show_int (ar_PID r)))])
      @ [(''connected_at'', JNum (show_int (ar_ConnectedAt r)))])"

definition enc_ActiveRobot :: "ActiveRobot \<Rightarrow> string" where
  "enc_ActiveRobot r = json_print (ActiveRobot_json r)"

definition fields_ActiveRobot :: "(string \<times> json) list \<Rightarrow> ActiveRobot option" where
  "fields_ActiveRobot ms =
     (case (str_field ''uuid'' ms, str_field ''ip'' ms, str_field ''device_type'' ms,
            str_field ''session_jwt'' ms, int_field ''pid'' ms, int_field ''connected_at'' ms) of
        (Some u, Some i, Some d, Some j, Some p, Some c) \<Rightarrow>
          Some \<lparr>ar_UUID = u, ar_IP = i, ar_DeviceType = d, ar_SessionJWT = j, ar_PID = p,
                ar_ConnectedAt = c\<rparr>
      | _ \<Rightarrow> None)"

definition dec_ActiveRobot :: "string \<Rightarrow> ActiveRobot option" where
  "dec_ActiveRobot s = Option.bind (json_members s) fields_ActiveRobot"

definition SetActiveRobot :: "'r redis \<Rightarrow> ActiveRobot \<Rightarrow> int \<Rightarrow> 'r \<Rightarrow> unit res \<times> 'r" where
  "SetActiveRobot rd robot ttl s = rdSet rd (robotKey (ar_UUID robot)) (enc_ActiveRobot robot) ttl s"

definition GetActiveRobot :: "'r redis \<Rightarrow> string \<Rightarrow> 'r \<Rightarrow> ActiveRobot res \<times> 'r" where
  "GetActiveRobot rd uuid s = get_json rd dec_ActiveRobot (robotKey uuid) s"

definition RemoveActiveRobot :: "'r redis \<Rightarrow> string \<Rightarrow> 'r \<Rightarrow> unit res \<times> 'r" where
  "RemoveActiveRobot rd uuid s = rdDel rd (robotKey uuid) s"

definition IsRobotActive :: "'r redis \<Rightarrow> string \<Rightarrow> 'r \<Rightarrow> bool res \<times> 'r" where
  "IsRobotActive rd uuid s =
     (case rdExists rd (robotKey uuid) s of (r, s') \<Rightarrow> (exists_pos r, s'))"

definition GetAllActiveRobots :: "'r redis \<Rightarrow> 'r \<Rightarrow> ActiveRobot list res \<times> 'r" where
  "GetAllActiveRobots rd s = scan_all rd dec_ActiveRobot ''robot:*:active'' s"

subsection \<open>Public keys\<close>

definition robotPublicKeyKey :: "string \<Rightarrow> string" where
  "robotPublicKeyKey uuid = ''robot:'' @ uuid @ '':pubkey''"

definition SetRobotPublicKey :: "'r redis \<Rightarrow> string \<Rightarrow> string \<Rightarrow> int \<Rightarrow> 'r \<Rightarrow> unit res \<times> 'r" where
  "SetRobotPublicKey rd uuid publicKey ttl s = rdSet rd (robotPublicKeyKey uuid) publicKey ttl s"

definition GetRobotPublicKey :: "'r redis \<Rightarrow> string \<Rightarrow> 'r \<Rightarrow> string res \<times> 'r" where
  "GetRobotPublicKey rd uuid s = rdGet rd (robotPublicKeyKey uuid) s"

definition RemoveRobotPublicKey :: "'r redis \<Rightarrow> string \<Rightarrow> 'r \<Rightarrow> unit res \<times> 'r" where
  "RemoveRobotPublicKey rd uuid s = rdDel rd (robotPublicKeyKey uuid) s"

subsection \<open>Pending registrations\<close>

record PendingRobot =
  pr_UUID :: string
  pr_IP :: string
  pr_DeviceType :: string
  pr_PublicKey :: string
  pr_RequestedAt :: int

definition pendingKey :: "string \<Rightarrow> string" where
  "pendingKey uuid = ''robot:'' @ uuid @ '':pending''"

definition registrationResponseChannel :: "string \<Rightarrow> string" where
  "registrationResponseChannel uuid = ''robot:'' @ uuid @ '':reg_response''"

definition PendingRobot_json :: "PendingRobot \<Rightarrow> json" where
  "PendingRobot_json r = JObj
     [(''uuid'', JStr (pr_UUID r)), (''ip'', JStr (pr_IP r)),
      (''device_type'', JStr (pr_DeviceType r)), (''public_key'', JStr (pr_PublicKey r)),
      (''requested_at'', JNum (show_int (pr_RequestedAt r)))]"

definition enc_PendingRobot :: "PendingRobot \<Rightarrow> string" where
  "enc_PendingRobot r = json_print (PendingRobot_json r)"

definition fields_PendingRobot :: "(string \<times> json) list \<Rightarrow> PendingRobot option" where
  "fields_PendingRobot ms =
     (case (str_field ''uuid'' ms, str_field ''ip'' ms, str_field ''device_type'' ms,
            str_field ''public_key'' ms, int_field ''requested_at'' ms) of
        (Some u, Some i, Some d, Some k, Some t) \<Rightarrow>
          Some \<lparr>pr_UUID = u, pr_IP = i, pr_DeviceType = d, pr_PublicKey = k, pr_RequestedAt = t\<rparr>
      | _ \<Rightarrow> None)"

definition dec_PendingRobot :: "string \<Rightarrow> PendingRobot option" where
  "dec_PendingRobot s = Option.bind (json_members s) fields_PendingRobot"

definition SetPendingRobot :: "'r redis \<Rightarrow> PendingRobot \<Rightarrow> int \<Rightarrow> 'r \<Rightarrow> unit res \<times> 'r" where
  "SetPendingRobot rd robot ttl s =
     (case rdExists rd (pendingKey (pr_UUID robot)) s of
        (Inl e, s1) \<Rightarrow> (Inl (''failed to check pending status for '' @ pr_UUID robot @ '': '' @ e), s1)
      | (Inr n, s1) \<Rightarrow>
          if n > 0 then (Inl (''robot '' @ pr_UUID robot @ '' already has a pending registration''), s1)
          else
            (case rdExists rd (robotKey (pr_UUID robot)) s1 of
               (Inl e, s2) \<Rightarrow> (Inl (''failed to check active status for '' @ pr_UUID robot @ '': '' @ e), s2)
             | (Inr m, s2) \<Rightarrow>
                 if m > 0 then (Inl (''robot '' @ pr_UUID robot @ '' is already active''), s2)
                 else rdSet rd (pendingKey (pr_UUID robot)) (enc_PendingRobot robot) ttl s2))"

definition GetPendingRobot :: "'r redis \<Rightarrow> string \<Rightarrow> 'r \<Rightarrow> PendingRobot res \<times> 'r" where
  "GetPendingRobot rd uuid s = get_json rd dec_PendingRobot (pendingKey uuid) s"

definition RemovePendingRobot :: "'r redis \<Rightarrow> string \<Rightarrow> 'r \<Rightarrow> unit res \<times> 'r" where
  "RemovePendingRobot rd uuid s = rdDel rd (pendingKey uuid) s"

definition GetAllPendingRobots :: "'r redis \<Rightarrow> 'r \<Rightarrow> PendingRobot list res \<times> 'r" where
  "GetAllPendingRobots rd s = scan_all rd dec_PendingRobot ''robot:*:pending'' s"

subsection \<open>Heartbeats\<close>

record HeartbeatState =
  hb_UUID :: string
  hb_IP :: string
  hb_LastSeq :: int
  hb_LastSeen :: int

definition heartbeatKey :: "string \<Rightarrow> string" where
  "heartbeatKey uuid = ''robot:'' @ uuid @ '':heartbeat''"

definition enc_HeartbeatState :: "HeartbeatState \<Rightarrow> string" where
  "enc_HeartbeatState h = json_print (JObj
     [(''uuid'', JStr (hb_UUID h)), (''ip'', JStr (hb_IP h)),
      (''last_seq'', JNum (show_int (hb_LastSeq h))),
      (''last_seen'', JNum (show_int (hb_LastSeen h)))])"

definition fields_HeartbeatState :: "(string \<times> json) list \<Rightarrow> HeartbeatState option" where
  "fields_HeartbeatState ms =
     (case (str_field ''uuid'' ms, str_field ''ip'' ms, int_field ''last_seq'' ms,
            int_field ''last_seen'' ms) of
        (Some u, Some i, Some q, Some t) \<Rightarrow>
          Some \<lparr>hb_UUID = u, hb_IP = i, hb_LastSeq = q, hb_LastSeen = t\<rparr>
      | _ \<Rightarrow> None)"

definition dec_HeartbeatState :: "string \<Rightarrow> HeartbeatState option" where
  "dec_HeartbeatState s = Option.bind (json_members s) fields_HeartbeatState"

definition SetHeartbeat :: "'r redis \<Rightarrow> HeartbeatState \<Rightarrow> int \<Rightarrow> 'r \<Rightarrow> unit res \<times> 'r" where
  "SetHeartbeat rd st ttl s = rdSet rd (heartbeatKey (hb_UUID st)) (enc_HeartbeatState st) ttl s"

definition GetHeartbeat :: "'r redis \<Rightarrow> string \<Rightarrow> 'r \<Rightarrow> HeartbeatState res \<times> 'r" where
  "GetHeartbeat rd uuid s = get_json rd dec_HeartbeatState (heartbeatKey uuid) s"

definition RemoveHeartbeat :: "'r redis \<Rightarrow> string \<Rightarrow> 'r \<Rightarrow> unit res \<times> 'r" where
  "RemoveHeartbeat rd uuid s = rdDel rd (heartbeatKey uuid) s"

definition IsRobotOnline :: "'r redis \<Rightarrow> string \<Rightarrow> 'r \<Rightarrow> bool res \<times> 'r" where
  "IsRobotOnline rd uuid s =
     (case rdExists rd (heartbeatKey uuid) s of (r, s') \<Rightarrow> (exists_pos r, s'))"

definition GetAllOnlineRobots :: "'r redis \<Rightarrow> 'r \<Rightarrow> HeartbeatState list res \<times> 'r" where
  "GetAllOnlineRobots rd s = scan_all rd dec_HeartbeatState ''robot:*:heartbeat'' s"

subsection \<open>Users, sessions and tickets\<close>

record User =
  Username :: string
  PasswordHash :: string

definition userKey :: "string \<Rightarrow> string" where
  "userKey username = ''user:'' @ username"

definition enc_User :: "User \<Rightarrow> string" where
  "enc_User u = json_print (JObj
     [(''username'', JStr (Username u)), (''password_hash'', JStr (PasswordHash u))])"

definition fields_User :: "(string \<times> json) list \<Rightarrow> User option" where
  "fields_User ms =
     (case (str_field ''username'' ms, str_field ''password_hash'' ms) of
        (Some u, Some p) \<Rightarrow> Some \<lparr>Username = u, PasswordHash = p\<rparr>
      | _ \<Rightarrow> None)"

definition dec_User :: "string \<Rightarrow> User option" where
  "dec_User s = Option.bind (json_members s) fields_User"

definition SetUser :: "'r redis \<Rightarrow> User \<Rightarrow> 'r \<Rightarrow> unit res \<times> 'r" where
  "SetUser rd user s = rdSet rd (userKey (Username user)) (enc_User user) 0 s"

definition GetUser :: "'r redis \<Rightarrow> string \<Rightarrow> 'r \<Rightarrow> User res \<times> 'r" where
  "GetUser rd username s = get_json rd dec_User (userKey username) s"

definition userSessionKey :: "string \<Rightarrow> string" where
  "userSessionKey token = ''session:'' @ token"

definition SetUserSession :: "'r redis \<Rightarrow> string \<Rightarrow> string \<Rightarrow> int \<Rightarrow> 'r \<Rightarrow> unit res \<times> 'r" where
  "SetUserSession rd token username ttl s = rdSet rd (userSessionKey token) username ttl s"

definition GetUserSession :: "'r redis \<Rightarrow> string \<Rightarrow> 'r \<Rightarrow> string res \<times> 'r" where
  "GetUserSession rd token s = rdGet rd (userSessionKey token) s"

definition RemoveUserSession :: "'r redis \<Rightarrow> string \<Rightarrow> 'r \<Rightarrow> unit res \<times> 'r" where
  "RemoveUserSession rd token s = rdDel rd (userSessionKey token) s"

definition ticketKey :: "string \<Rightarrow> string" where
  "ticketKey ticket = ''ticket:'' @ ticket"

definition SetTicket :: "'r redis \<Rightarrow> string \<Rightarrow> string \<Rightarrow> int \<Rightarrow> 'r \<Rightarrow> unit res \<times> 'r" where
  "SetTicket rd ticket username ttl s = rdSet rd (ticketKey ticket) username ttl s"

definition ConsumeTicket :: "'r redis \<Rightarrow> string \<Rightarrow> 'r \<Rightarrow> string res \<times> 'r" where
  "ConsumeTicket rd ticket s = rdGetDel rd (ticketKey ticket) s"

subsection \<open>Registration responses\<close>

definition PublishRegistrationResponse :: "'r redis \<Rightarrow> string \<Rightarrow> bool \<Rightarrow> 'r \<Rightarrow> unit res \<times> 'r" where
  "PublishRegistrationResponse rd uuid accepted s =
     rdPublish rd (registrationResponseChannel uuid) (if accepted then ''accept'' else ''reject'') s"

text \<open>What the blocking wait of \<^verbatim>\<open>WaitForRegistrationResponse\<close> ends with.\<close>

datatype wait_outcome = Message string | ChannelClosed | ContextDone string

fun WaitForRegistrationResponse :: "wait_outcome \<Rightarrow> bool res" where
  "WaitForRegistrationResponse (Message payload) = Inr (payload = ''accept'')"
| "WaitForRegistrationResponse ChannelClosed = Inl ''registration response channel closed unexpectedly''"
| "WaitForRegistrationResponse (ContextDone err) = Inl err"

section \<open>Seeding the administrator\<close>

text \<open>\<open>bcrypt\<close> is \<^verbatim>\<open>bcrypt.GenerateFromPassword\<close> at the default cost.\<close>

definition seedDefaultUsers ::
  "(string \<Rightarrow> string) \<Rightarrow> (string \<Rightarrow> string res) \<Rightarrow> 'r redis option \<Rightarrow> 'r \<Rightarrow> 'r" where
  "seedDefaultUsers env bcrypt rds s =
     (case rds of
        None \<Rightarrow> s
      | Some rd \<Rightarrow>
          (case GetUser rd ''admin'' s of
             (Inr _, s1) \<Rightarrow> s1
           | (Inl _, s1) \<Rightarrow>
               (let password = (if env ''ADMIN_PASSWORD'' = [] then ''password1'' else env ''ADMIN_PASSWORD'')
                in case bcrypt password of
                     Inl _ \<Rightarrow> s1
                   | Inr hash \<Rightarrow> snd (SetUser rd \<lparr>Username = ''admin'', PasswordHash = hash\<rparr> s1))))"

section \<open>PostgreSQL\<close>

text \<open>
  One operation of the client per SQL statement of \<^verbatim>\<open>postgres.go\<close>.  A multi-row query
  yields the outcome of scanning each row and the error the cursor ends with.
\<close>

record RobotRecord =
  rr_UUID :: string
  rr_PublicKey :: string
  rr_DeviceType :: string
  rr_IsBlacklisted :: bool
  rr_CreatedAt :: int

record 'p postgres =
  pgSelectRobot :: "string \<Rightarrow> 'p \<Rightarrow> RobotRecord res \<times> 'p"
  pgInsertRobot :: "string \<Rightarrow> string \<Rightarrow> string \<Rightarrow> 'p \<Rightarrow> unit res \<times> 'p"
  pgUpdateBlacklisted :: "bool \<Rightarrow> string \<Rightarrow> 'p \<Rightarrow> unit res \<times> 'p"
  pgSelectByType :: "string \<Rightarrow> 'p \<Rightarrow> (RobotRecord res list \<times> string option) res \<times> 'p"
  pgSelectAll :: "'p \<Rightarrow> (RobotRecord res list \<times> string option) res \<times> 'p"

definition GetRobotByUUID :: "'p postgres \<Rightarrow> string \<Rightarrow> 'p \<Rightarrow> RobotRecord res \<times> 'p" where
  "GetRobotByUUID pg uuid s = pgSelectRobot pg uuid s"

definition RegisterRobot :: "'p postgres \<Rightarrow> string \<Rightarrow> string \<Rightarrow> string \<Rightarrow> 'p \<Rightarrow> unit res \<times> 'p" where
  "RegisterRobot pg uuid publicKey deviceType s = pgInsertRobot pg uuid publicKey deviceType s"

definition BlacklistRobot :: "'p postgres \<Rightarrow> string \<Rightarrow> bool \<Rightarrow> 'p \<Rightarrow> unit res \<times> 'p" where
  "BlacklistRobot pg uuid blacklisted s = pgUpdateBlacklisted pg blacklisted uuid s"

fun scan_rows :: "RobotRecord res list \<Rightarrow> string option \<Rightarrow> RobotRecord list res" where
  "scan_rows [] None = Inr []"
| "scan_rows [] (Some e) = Inl e"
| "scan_rows (Inl e # rows) err = Inl e"
| "scan_rows (Inr r # rows) err =
     (case scan_rows rows err of Inl e \<Rightarrow> Inl e | Inr rs \<Rightarrow> Inr (r # rs))"

definition query_rows ::
  "(RobotRecord res list \<times> string option) res \<times> 'p \<Rightarrow> RobotRecord list res \<times> 'p" where
  "query_rows q =
     (case q of
        (Inl e, s) \<Rightarrow> (Inl e, s)
      | (Inr (rows, err), s) \<Rightarrow> (scan_rows rows err, s))"

definition GetRobotsByType :: "'p postgres \<Rightarrow> string \<Rightarrow> 'p \<Rightarrow> RobotRecord list res \<times> 'p" where
  "GetRobotsByType pg deviceType s = query_rows (pgSelectByType pg deviceType s)"

definition GetAllRobots :: "'p postgres \<Rightarrow> 'p \<Rightarrow> RobotRecord list res \<times> 'p" where
  "GetAllRobots pg s = query_rows (pgSelectAll pg s)"

section \<open>What the services promise\<close>

text \<open>
  \<open>live s k\<close> is the value stored under \<open>k\<close> with the expiry it was stored with.
  A write that reports an error may or may not have happened.
\<close>

locale redis_service =
  fixes rd :: "'r redis"
    and live :: "'r \<Rightarrow> string \<Rightarrow> (string \<times> int) option"
  assumes get_ok: "rdGet rd k s = (Inr v, s') \<Longrightarrow> \<exists>t. live s k = Some (v, t)"
    and get_frame: "rdGet rd k s = (r, s') \<Longrightarrow> live s' \<subseteq>\<^sub>m live s"
    and set_ok: "rdSet rd k v t s = (Inr u, s') \<Longrightarrow> live s' \<subseteq>\<^sub>m (live s)(k \<mapsto> (v, t))"
    and set_err: "rdSet rd k v t s = (Inl e, s') \<Longrightarrow>
      live s' \<subseteq>\<^sub>m live s \<or> live s' \<subseteq>\<^sub>m (live s)(k \<mapsto> (v, t))"
    and del_ok: "rdDel rd k s = (Inr u, s') \<Longrightarrow> live s' \<subseteq>\<^sub>m (live s)(k := None)"
    and del_err: "rdDel rd k s = (Inl e, s') \<Longrightarrow> live s' \<subseteq>\<^sub>m live s"
    and getdel_ok: "rdGetDel rd k s = (Inr v, s') \<Longrightarrow>
      (\<exists>t. live s k = Some (v, t)) \<and> live s' \<subseteq>\<^sub>m (live s)(k := None)"
    and getdel_err: "rdGetDel rd k s = (Inl e, s') \<Longrightarrow> live s' \<subseteq>\<^sub>m live s"
    and exists_ok: "rdExists rd k s = (Inr n, s') \<Longrightarrow> 0 < n \<longleftrightarrow> live s k \<noteq> None"
    and exists_frame: "rdExists rd k s = (rn, s') \<Longrightarrow> live s' \<subseteq>\<^sub>m live s"
    and scan_frame: "rdScan rd p s = (rk, s') \<Longrightarrow> live s' \<subseteq>\<^sub>m live s"
    and publish_frame: "rdPublish rd ch m s = (ru, s') \<Longrightarrow> live s' \<subseteq>\<^sub>m live s"
begin

lemma get_json_ok:
  assumes "get_json rd dec k s = (Inr x, s')"
  shows "\<exists>v t. live s k = Some (v, t) \<and> dec v = Some x" and "live s' \<subseteq>\<^sub>m live s"
  using assms get_ok get_frame
  by (fastforce simp: get_json_def split: prod.splits sum.splits option.splits)+

lemma get_json_frame: "get_json rd dec k s = (r, s') \<Longrightarrow> live s' \<subseteq>\<^sub>m live s"
  using get_frame by (fastforce simp: get_json_def split: prod.splits sum.splits option.splits)

lemma collect_frame: "collect rd dec ks s = (xs, s') \<Longrightarrow> live s' \<subseteq>\<^sub>m live s"
proof (induction ks arbitrary: s xs)
  case (Cons k ks)
  then show ?case
    by (auto split: prod.splits sum.splits option.splits)
       (meson get_frame map_le_trans)+
qed simp

lemma scan_all_frame: "scan_all rd dec p s = (r, s') \<Longrightarrow> live s' \<subseteq>\<^sub>m live s"
  by (auto simp: scan_all_def split: prod.splits option.splits)
     (meson scan_frame collect_frame map_le_trans)+

lemma set_frame:
  "rdSet rd k v t s = (r, s') \<Longrightarrow> k' \<noteq> k \<Longrightarrow> live s' k' \<noteq> None \<Longrightarrow> live s' k' = live s k'"
  using set_ok set_err by (cases r) (fastforce simp: map_le_def dom_def)+

lemma getdel_frame: "rdGetDel rd k s = (r, s') \<Longrightarrow> live s' \<subseteq>\<^sub>m live s"
proof (cases r)
  case (Inr v)
  moreover assume "rdGetDel rd k s = (r, s')"
  ultimately have "live s' \<subseteq>\<^sub>m (live s)(k := None)" using getdel_ok by blast
  then show ?thesis by (rule map_le_del)
qed (use getdel_err in blast)

text \<open>A ticket read with \<^verbatim>\<open>GETDEL\<close> is gone.\<close>

lemma consume_once:
  assumes "rdGetDel rd k s = (Inr v, s1)" and "live s2 \<subseteq>\<^sub>m live s1" and "rdGetDel rd k s2 = (r, s3)"
  shows "\<exists>e. r = Inl e"
proof (cases r)
  case (Inr v')
  then have "live s2 k \<noteq> None"
    using getdel_ok[of k s2 v' s3] assms(3) by auto
  moreover have "live s1 k = None"
    using getdel_ok[OF assms(1)] by (metis fun_upd_same map_le_def domIff)
  ultimately show ?thesis
    using assms(2) by (metis map_le_def domIff)
qed auto

end

locale redis_steady = redis_service +
  assumes get_total: "live s k = Some (v, t) \<Longrightarrow> rdGet rd k s = (Inr v, s)"
    and get_missing: "live s k = None \<Longrightarrow> \<exists>e. rdGet rd k s = (Inl e, s)"
    and getdel_total: "live s k = Some (v, t) \<Longrightarrow>
      \<exists>s'. rdGetDel rd k s = (Inr v, s') \<and> live s' = (live s)(k := None)"
    and set_total: "\<exists>s'. rdSet rd k v t s = (Inr (), s') \<and> live s' = (live s)(k \<mapsto> (v, t))"
begin

lemma get_json_total:
  "live s k = Some (v, t) \<Longrightarrow> dec v = Some x \<Longrightarrow> get_json rd dec k s = (Inr x, s)"
  using get_total by (simp add: get_json_def)

lemma get_json_state: "snd (get_json rd dec k s) = s"
proof (cases "live s k")
  case None
  then show ?thesis using get_missing[OF None] by (auto simp: get_json_def)
next
  case (Some vt)
  then show ?thesis
    using get_total[of s k "fst vt" "snd vt"] by (auto simp: get_json_def split: option.splits)
qed

end

locale postgres_service =
  fixes pg :: "'p postgres"
    and robots :: "'p \<Rightarrow> string \<Rightarrow> RobotRecord option"
  assumes select_ok: "pgSelectRobot pg u s = (Inr r, s') \<Longrightarrow> robots s u = Some r \<and> rr_UUID r = u"
    and select_frame: "pgSelectRobot pg u s = (x, s') \<Longrightarrow> robots s' = robots s"
    and select_type_frame: "pgSelectByType pg d s = (y, s') \<Longrightarrow> robots s' = robots s"
    and select_all_frame: "pgSelectAll pg s = (y, s') \<Longrightarrow> robots s' = robots s"
    and insert_ok: "pgInsertRobot pg u k d s = (Inr w, s') \<Longrightarrow> robots s u = None \<and>
      (\<exists>t. robots s' = (robots s)(u \<mapsto> \<lparr>rr_UUID = u, rr_PublicKey = k, rr_DeviceType = d,
        rr_IsBlacklisted = False, rr_CreatedAt = t\<rparr>))"
    and insert_err: "pgInsertRobot pg u k d s = (Inl e, s') \<Longrightarrow> robots s' = robots s \<or>
      robots s u = None \<and> (\<exists>t. robots s' = (robots s)(u \<mapsto> \<lparr>rr_UUID = u, rr_PublicKey = k,
        rr_DeviceType = d, rr_IsBlacklisted = False, rr_CreatedAt = t\<rparr>))"
    and update_ok: "pgUpdateBlacklisted pg b u s = (Inr w, s') \<Longrightarrow>
      robots s' = (robots s)(u := map_option (\<lambda>r. r\<lparr>rr_IsBlacklisted := b\<rparr>) (robots s u))"
    and update_err: "pgUpdateBlacklisted pg b u s = (Inl e, s') \<Longrightarrow> robots s' = robots s \<or>
      robots s' = (robots s)(u := map_option (\<lambda>r. r\<lparr>rr_IsBlacklisted := b\<rparr>) (robots s u))"
begin

text \<open>No operation of the registry changes the key or the type of a registered robot.\<close>

lemma insert_keeps: "pgInsertRobot pg u k d s = (x, s') \<Longrightarrow> robots s v = Some r \<Longrightarrow> robots s' v = Some r"
  using insert_ok insert_err by (cases x) fastforce+

lemma update_keeps:
  assumes "pgUpdateBlacklisted pg b u s = (x, s')" and "robots s v = Some r"
  shows "\<exists>r'. robots s' v = Some r' \<and> rr_PublicKey r' = rr_PublicKey r
    \<and> rr_DeviceType r' = rr_DeviceType r"
  using assms update_ok update_err by (cases x) fastforce+

end

section \<open>In-memory services\<close>

type_synonym mem = "(string, string \<times> int) gomap"

definition mem_redis :: "mem redis" where
  "mem_redis =
     \<lparr>rdGet = (\<lambda>k s. case map_of s k of None \<Rightarrow> (Inl ''redis: nil'', s) | Some (v, t) \<Rightarrow> (Inr v, s)),
      rdSet = (\<lambda>k v t s. (Inr (), AList.update k (v, t) s)),
      rdDel = (\<lambda>k s. (Inr (), AList.delete k s)),
      rdGetDel = (\<lambda>k s. case map_of s k of
          None \<Rightarrow> (Inl ''redis: nil'', s) | Some (v, t) \<Rightarrow> (Inr v, AList.delete k s)),
      rdExists = (\<lambda>k s. (Inr (if map_of s k = None then 0 else 1), s)),
      rdScan = (\<lambda>p s. ((map fst s, None), s)),
      rdPublish = (\<lambda>ch m s. (Inr (), s))\<rparr>"

interpretation mem_redis: redis_steady mem_redis map_of
  by unfold_locales
     (auto simp: mem_redis_def map_le_def split: option.splits prod.splits)

definition mem_postgres :: "(string, RobotRecord) gomap postgres" where
  "mem_postgres =
     \<lparr>pgSelectRobot = (\<lambda>u s. case map_of s u of
          None \<Rightarrow> (Inl ''sql: no rows in result set'', s) | Some r \<Rightarrow> (Inr (r\<lparr>rr_UUID := u\<rparr>), s)),
      pgInsertRobot = (\<lambda>u k d s. case map_of s u of
          Some _ \<Rightarrow> (Inl ''duplicate key'', s)
        | None \<Rightarrow> (Inr (), AList.update u \<lparr>rr_UUID = u, rr_PublicKey = k, rr_DeviceType = d,
            rr_IsBlacklisted = False, rr_CreatedAt = 0\<rparr> s)),
      pgUpdateBlacklisted = (\<lambda>b u s. (Inr (), case map_of s u of
          None \<Rightarrow> s | Some r \<Rightarrow> AList.update u (r\<lparr>rr_IsBlacklisted := b\<rparr>) s)),
      pgSelectByType = (\<lambda>d s. (Inr (map Inr (filter (\<lambda>r. rr_DeviceType r = d) (map snd s)), None), s)),
      pgSelectAll = (\<lambda>s. (Inr (map (Inr \<circ> snd) s, None), s))\<rparr>"

definition mem_robots :: "(string, RobotRecord) gomap \<Rightarrow> string \<Rightarrow> RobotRecord option" where
  "mem_robots s u = map_option (\<lambda>r. r\<lparr>rr_UUID := u\<rparr>) (map_of s u)"

interpretation mem_postgres: postgres_service mem_postgres mem_robots
  by unfold_locales
     (auto simp: mem_postgres_def mem_robots_def fun_eq_iff split: option.splits prod.splits)

section \<open>Keys\<close>

lemmas key_defs = robotKey_def robotPublicKeyKey_def pendingKey_def heartbeatKey_def
  registrationResponseChannel_def userKey_def userSessionKey_def ticketKey_def

lemma keys_inj [simp]:
  "robotKey u = robotKey v \<longleftrightarrow> u = v" "robotPublicKeyKey u = robotPublicKeyKey v \<longleftrightarrow> u = v"
  "pendingKey u = pendingKey v \<longleftrightarrow> u = v" "heartbeatKey u = heartbeatKey v \<longleftrightarrow> u = v"
  "userKey u = userKey v \<longleftrightarrow> u = v" "userSessionKey u = userSessionKey v \<longleftrightarrow> u = v"
  "ticketKey u = ticketKey v \<longleftrightarrow> u = v"
  by (simp_all add: key_defs)

lemma append_last_neq: "a \<noteq> [] \<Longrightarrow> b \<noteq> [] \<Longrightarrow> last a \<noteq> last b \<Longrightarrow> p @ x @ a \<noteq> p @ y @ b"
  by (metis append_is_Nil_conv last_append)

lemma robot_keys_disjoint [simp]:
  "robotKey u \<noteq> robotPublicKeyKey v" "robotKey u \<noteq> pendingKey v" "robotKey u \<noteq> heartbeatKey v"
  "robotPublicKeyKey u \<noteq> pendingKey v" "robotPublicKeyKey u \<noteq> heartbeatKey v"
  "pendingKey u \<noteq> heartbeatKey v"
  unfolding key_defs by (rule append_last_neq; simp)+

lemma service_keys_disjoint [simp]:
  "robotKey u \<noteq> userKey v" "robotKey u \<noteq> userSessionKey v" "robotKey u \<noteq> ticketKey v"
  "robotPublicKeyKey u \<noteq> userKey v" "robotPublicKeyKey u \<noteq> userSessionKey v" "robotPublicKeyKey u \<noteq> ticketKey v"
  "pendingKey u \<noteq> userKey v" "pendingKey u \<noteq> userSessionKey v" "pendingKey u \<noteq> ticketKey v"
  "heartbeatKey u \<noteq> userKey v" "heartbeatKey u \<noteq> userSessionKey v" "heartbeatKey u \<noteq> ticketKey v"
  "userKey u \<noteq> userSessionKey v" "userKey u \<noteq> ticketKey v" "userSessionKey u \<noteq> ticketKey v"
  by (simp_all add: key_defs)

declare robot_keys_disjoint [symmetric, simp] service_keys_disjoint [symmetric, simp]

section \<open>Stored structures\<close>

text \<open>What a typed entry of the store relies on: decoding inverts encoding.\<close>

locale json_codec =
  fixes enc :: "'a \<Rightarrow> string"
    and dec :: "string \<Rightarrow> 'a option"
    and ok :: "'a \<Rightarrow> bool"
  assumes dec_enc: "ok x \<Longrightarrow> dec (enc x) = Some x"
begin

lemma enc_inj: "ok x \<Longrightarrow> ok y \<Longrightarrow> enc x = enc y \<Longrightarrow> x = y"
  by (metis dec_enc option.inject)

lemma store_load:
  assumes "redis_steady rd live" "ok x"
  shows "\<exists>s'. rdSet rd k (enc x) t s = (Inr (), s') \<and> get_json rd dec k s' = (Inr x, s')
    \<and> live s' = (live s)(k \<mapsto> (enc x, t))"
proof -
  obtain s' where s': "rdSet rd k (enc x) t s = (Inr (), s')" "live s' = (live s)(k \<mapsto> (enc x, t))"
    using redis_steady.set_total[OF assms(1)] by blast
  moreover have "get_json rd dec k s' = (Inr x, s')"
    by (rule redis_steady.get_json_total[OF assms(1), of s' k "enc x" t]) (use s' dec_enc[OF assms(2)] in simp_all)
  ultimately show ?thesis by blast
qed

end

definition ok_ActiveRobot :: "ActiveRobot \<Rightarrow> bool" where
  "ok_ActiveRobot r \<longleftrightarrow> valid_utf8 (ar_UUID r) \<and> valid_utf8 (ar_IP r) \<and> valid_utf8 (ar_DeviceType r)
     \<and> valid_utf8 (ar_SessionJWT r) \<and> in64 (ar_PID r) \<and> in64 (ar_ConnectedAt r)"

definition ok_PendingRobot :: "PendingRobot \<Rightarrow> bool" where
  "ok_PendingRobot r \<longleftrightarrow> valid_utf8 (pr_UUID r) \<and> valid_utf8 (pr_IP r) \<and> valid_utf8 (pr_DeviceType r)
     \<and> valid_utf8 (pr_PublicKey r) \<and> in64 (pr_RequestedAt r)"

definition ok_HeartbeatState :: "HeartbeatState \<Rightarrow> bool" where
  "ok_HeartbeatState h \<longleftrightarrow> valid_utf8 (hb_UUID h) \<and> valid_utf8 (hb_IP h)
     \<and> in64 (hb_LastSeq h) \<and> in64 (hb_LastSeen h)"

definition ok_User :: "User \<Rightarrow> bool" where
  "ok_User u \<longleftrightarrow> valid_utf8 (Username u) \<and> valid_utf8 (PasswordHash u)"

lemma valid_utf8_names:
  "list_all valid_utf8 [''uuid'', ''ip'', ''device_type'', ''session_jwt'', ''pid'', ''connected_at'',
     ''public_key'', ''requested_at'', ''last_seq'', ''last_seen'', ''username'', ''password_hash'']"
  by (simp add: valid_utf8_ascii byte_in_def)

lemmas valid_utf8_name [simp] = valid_utf8_names [simplified]

interpretation active_codec: json_codec enc_ActiveRobot dec_ActiveRobot ok_ActiveRobot
  by unfold_locales
     (auto simp: enc_ActiveRobot_def ActiveRobot_json_def dec_ActiveRobot_def fields_ActiveRobot_def ok_ActiveRobot_def
       json_members_print field_defs simp del: json_print.simps)

interpretation pending_codec: json_codec enc_PendingRobot dec_PendingRobot ok_PendingRobot
  by unfold_locales
     (auto simp: enc_PendingRobot_def PendingRobot_json_def dec_PendingRobot_def fields_PendingRobot_def ok_PendingRobot_def
       json_members_print field_defs simp del: json_print.simps)

interpretation heartbeat_codec: json_codec enc_HeartbeatState dec_HeartbeatState ok_HeartbeatState
  by unfold_locales
     (auto simp: enc_HeartbeatState_def dec_HeartbeatState_def fields_HeartbeatState_def
       ok_HeartbeatState_def json_members_print field_defs simp del: json_print.simps)

interpretation user_codec: json_codec enc_User dec_User ok_User
  by unfold_locales
     (auto simp: enc_User_def dec_User_def fields_User_def ok_User_def
       json_members_print field_defs simp del: json_print.simps)

section \<open>Pending registrations never displace a session\<close>

context redis_service
begin

lemma SetPendingRobot_ok:
  assumes "SetPendingRobot rd p t s = (Inr u, s')"
  shows "live s (pendingKey (pr_UUID p)) = None"
    and "live s' \<subseteq>\<^sub>m (live s)(pendingKey (pr_UUID p) \<mapsto> (enc_PendingRobot p, t))"
    and "live s' (robotKey (pr_UUID p)) = None"
proof -
  let ?k = "pendingKey (pr_UUID p)" and ?r = "robotKey (pr_UUID p)"
  obtain n s1 m s2 where ex: "rdExists rd ?k s = (Inr n, s1)" "\<not> 0 < n"
    "rdExists rd ?r s1 = (Inr m, s2)" "\<not> 0 < m"
    and st: "rdSet rd ?k (enc_PendingRobot p) t s2 = (Inr u, s')"
    using assms by (auto simp: SetPendingRobot_def split: prod.splits sum.splits if_splits)
  note le = exists_frame[OF ex(1)] exists_frame[OF ex(3)]
  show "live s ?k = None"
    using exists_ok[OF ex(1)] ex(2) by blast
  have "live s2 \<subseteq>\<^sub>m live s"
    using le map_le_trans by blast
  then show "live s' \<subseteq>\<^sub>m (live s)(?k \<mapsto> (enc_PendingRobot p, t))"
    by (rule map_le_trans[OF set_ok[OF st] map_le_upd])
  have "live s2 ?r = None"
    using exists_ok[OF ex(3)] ex(4) map_le_None[OF le(2)] by blast
  then show "live s' ?r = None"
    using map_le_None[OF set_ok[OF st]] by simp
qed

lemma SetPendingRobot_refused:
  assumes "live s (pendingKey (pr_UUID p)) \<noteq> None" and "SetPendingRobot rd p t s = (r, s')"
  shows "(\<exists>e. r = Inl e) \<and> live s' \<subseteq>\<^sub>m live s"
  using assms exists_ok exists_frame
  by (fastforce simp: SetPendingRobot_def split: prod.splits sum.splits if_splits)

end

section \<open>Properties\<close>

text \<open>A pending registration is stored only for a robot that is neither pending nor active,
  and storing it touches no other entry; for a robot that is already pending it is refused
  and nothing is written.  This holds for every behaviour of Redis in which keys may
  expire and requests may fail.\<close>

theorem SetPendingRobot_safe:
  assumes "redis_service rd live" and "SetPendingRobot rd p ttl s = (r, s')"
  shows "(r = Inr () \<longrightarrow> live s (pendingKey (pr_UUID p)) = None \<and> live s' (robotKey (pr_UUID p)) = None
            \<and> live s' \<subseteq>\<^sub>m (live s)(pendingKey (pr_UUID p) \<mapsto> (enc_PendingRobot p, ttl)))
    \<and> (live s (pendingKey (pr_UUID p)) \<noteq> None \<longrightarrow> (\<exists>e. r = Inl e) \<and> live s' \<subseteq>\<^sub>m live s)"
  using redis_service.SetPendingRobot_ok[OF assms(1), of p ttl s "()" s']
    redis_service.SetPendingRobot_refused[OF assms(1) _ assms(2)] assms(2) by simp

definition sample_pending :: PendingRobot where
  "sample_pending = \<lparr>pr_UUID = ''r1'', pr_IP = ''10.0.0.1'', pr_DeviceType = ''arm'',
     pr_PublicKey = ''k'', pr_RequestedAt = 0\<rparr>"

theorem SetPendingRobot_safe_witness:
  "fst (SetPendingRobot mem_redis sample_pending 5 []) = Inr ()
   \<and> map_of (snd (SetPendingRobot mem_redis sample_pending 5 [])) (robotKey ''r1'') = None"
proof -
  have ok: "SetPendingRobot mem_redis sample_pending 5 []
      = (Inr (), [(pendingKey ''r1'', enc_PendingRobot sample_pending, 5)])"
    by (simp add: SetPendingRobot_def mem_redis_def sample_pending_def)
  show ?thesis
    using SetPendingRobot_safe[OF mem_redis.redis_service_axioms ok] ok by (simp add: sample_pending_def)
qed

text \<open>What is stored as an active robot is read back as it was: while nothing expires or
  fails, \<^verbatim>\<open>GetActiveRobot\<close> after \<^verbatim>\<open>SetActiveRobot\<close> returns the same record for
  every record with UTF-8 text and 64-bit numbers, and no other key changes.\<close>

theorem ActiveRobot_roundtrip:
  assumes "redis_steady rd live" and "ok_ActiveRobot robot"
  shows "\<exists>s'. SetActiveRobot rd robot ttl s = (Inr (), s')
    \<and> GetActiveRobot rd (ar_UUID robot) s' = (Inr robot, s')
    \<and> (\<forall>k. k \<noteq> robotKey (ar_UUID robot) \<longrightarrow> live s' k = live s k)"
  using active_codec.store_load[OF assms, of "robotKey (ar_UUID robot)" ttl s]
  by (auto simp: SetActiveRobot_def GetActiveRobot_def)

definition sample_robot :: ActiveRobot where
  "sample_robot = \<lparr>ar_UUID = ''r1'', ar_IP = ''10.0.0.1'', ar_DeviceType = ''arm'',
     ar_SessionJWT = ''t'', ar_PID = 42, ar_ConnectedAt = 7\<rparr>"

lemma sample_robot_ok: "ok_ActiveRobot sample_robot"
  by (auto simp: ok_ActiveRobot_def sample_robot_def in64_def intro!: valid_utf8_ascii)
     (simp_all add: byte_in_def)

theorem ActiveRobot_roundtrip_witness:
  "\<exists>s'. GetActiveRobot mem_redis ''r1'' s' = (Inr sample_robot, s')"
  using ActiveRobot_roundtrip[OF mem_redis.redis_steady_axioms sample_robot_ok, of 60 "[]"]
  by (auto simp: sample_robot_def)

text \<open>A ticket is good for one use: once \<^verbatim>\<open>ConsumeTicket\<close> has returned its user, a
  later \<^verbatim>\<open>ConsumeTicket\<close> of the same ticket fails, unless the ticket was issued again,
  whatever expires in between.\<close>

theorem ConsumeTicket_once:
  assumes "redis_service rd live" and "ConsumeTicket rd ticket s = (Inr username, s1)"
    and "live s2 \<subseteq>\<^sub>m live s1" and "ConsumeTicket rd ticket s2 = (r, s3)"
  shows "(\<exists>e. r = Inl e) \<and> (\<exists>t. live s (ticketKey ticket) = Some (username, t))"
  using redis_service.consume_once[OF assms(1), of "ticketKey ticket" s username s1 s2 r s3]
    redis_service.getdel_ok[OF assms(1)] assms(2-4)
  unfolding ConsumeTicket_def by blast

theorem ConsumeTicket_once_witness:
  "ConsumeTicket mem_redis ''t'' [(ticketKey ''t'', ''bob'', 30)] = (Inr ''bob'', [])
   \<and> (\<exists>e. fst (ConsumeTicket mem_redis ''t'' []) = Inl e)"
proof -
  have a: "ConsumeTicket mem_redis ''t'' [(ticketKey ''t'', ''bob'', 30)] = (Inr ''bob'', [])"
    by (simp add: ConsumeTicket_def mem_redis_def)
  obtain r s3 where b: "ConsumeTicket mem_redis ''t'' [] = (r, s3)"
    by (cases "ConsumeTicket mem_redis ''t'' []")
  show ?thesis
    using ConsumeTicket_once[OF mem_redis.redis_service_axioms a _ b] a b by simp
qed

end
