(* ===== verification/Auth.thy ===== *)
theory Auth
  imports Database
begin

text \<open>
  \<^verbatim>\<open>auth/\<close> without the connection-oriented handshake: nonces, session tokens,
  signature checks and heartbeats.  Cryptographic primitives are the record \<open>crypto\<close>,
  about which nothing is assumed; the clock and the random bytes a call draws are
  arguments (\<open>None\<close> is a failing random source).
\<close>

section \<open>Cryptographic primitives\<close>

text \<open>
  \<^verbatim>\<open>x509.ParsePKIXPublicKey\<close> yields one of several key types.  An elliptic-curve
  key carries the bit size of its curve.
\<close>

datatype pkix_key = Ed25519Key bytes | ECDSAKey nat bytes | OtherKey

record crypto =
  hmacSHA256 :: "bytes \<Rightarrow> bytes \<Rightarrow> bytes"
  sha256 :: "bytes \<Rightarrow> bytes"
  pemDecode :: "string \<Rightarrow> bytes option"
  parsePKIX :: "bytes \<Rightarrow> pkix_key option"
  ed25519Verify :: "bytes \<Rightarrow> bytes \<Rightarrow> bytes \<Rightarrow> bool"
  ecdsaVerify :: "nat \<Rightarrow> bytes \<Rightarrow> bytes \<Rightarrow> nat \<Rightarrow> nat \<Rightarrow> bool"
  p256Unmarshal :: "bytes \<Rightarrow> bool"

definition ed25519_PublicKeySize :: nat where "ed25519_PublicKeySize = 32"
definition ed25519_SignatureSize :: nat where "ed25519_SignatureSize = 64"

definition ErrTokenExpired :: string where "ErrTokenExpired = ''token expired''"
definition ErrTokenInvalid :: string where "ErrTokenInvalid = ''invalid token''"
definition ErrInvalidPublicKey :: string where "ErrInvalidPublicKey = ''invalid public key''"
definition ErrInvalidSignature :: string where "ErrInvalidSignature = ''invalid signature''"

text \<open>\<^verbatim>\<open>big.Int.SetBytes\<close>: big-endian.\<close>

definition SetBytes :: "bytes \<Rightarrow> nat" where
  "SetBytes bs = fold (\<lambda>b n. n * 256 + of_char b) bs 0"

section \<open>Nonces\<close>

text \<open>\<open>rnd\<close> are the \<^verbatim>\<open>NonceLength\<close> bytes the random source delivers.\<close>

definition GenerateNonce :: "bytes option \<Rightarrow> string res" where
  "GenerateNonce rnd =
     (case rnd of None \<Rightarrow> Inl ''rand'' | Some b \<Rightarrow> Inr (hex_EncodeToString b))"

text \<open>
  \<^verbatim>\<open>nonce[:16]\<close> panics on a shorter nonce, that is when fewer than 8 random bytes are
  configured: the result is then \<open>None\<close>.
\<close>

definition GenerateSessionID :: "bytes option \<Rightarrow> int \<Rightarrow> string option" where
  "GenerateSessionID rnd nowNano =
     (case GenerateNonce rnd of
        Inl _ \<Rightarrow> Some (''sess_'' @ show_int nowNano)
      | Inr nonce \<Rightarrow>
          if length nonce < 16 then None else Some (''sess_'' @ take 16 nonce))"

section \<open>Session tokens\<close>

record JWTClaims =
  c_Sub :: string
  c_Type :: string
  c_IP :: string
  c_Iat :: int
  c_Exp :: int
  c_SessionID :: string

record UserJWTClaims =
  u_Sub :: string
  u_Iat :: int
  u_Exp :: int
  u_TokenID :: string

definition JWTHeader_json :: string where
  "JWTHeader_json = json_print (JObj [(''alg'', JStr ''HS256''), (''typ'', JStr ''JWT'')])"

definition enc_JWTClaims :: "JWTClaims \<Rightarrow> string" where
  "enc_JWTClaims c = json_print (JObj
     [(''sub'', JStr (c_Sub c)), (''type'', JStr (c_Type c)), (''ip'', JStr (c_IP c)),
      (''iat'', JNum (show_int (c_Iat c))), (''exp'', JNum (show_int (c_Exp c))),
      (''session_id'', JStr (c_SessionID c))])"

definition fields_JWTClaims :: "(string \<times> json) list \<Rightarrow> JWTClaims option" where
  "fields_JWTClaims ms =
     (case (str_field ''sub'' ms, str_field ''type'' ms, str_field ''ip'' ms,
            int_field ''iat'' ms, int_field ''exp'' ms, str_field ''session_id'' ms) of
        (Some s, Some t, Some i, Some a, Some e, Some d) \<Rightarrow>
          Some \<lparr>c_Sub = s, c_Type = t, c_IP = i, c_Iat = a, c_Exp = e, c_SessionID = d\<rparr>
      | _ \<Rightarrow> None)"

definition dec_JWTClaims :: "string \<Rightarrow> JWTClaims option" where
  "dec_JWTClaims s = Option.bind (json_members s) fields_JWTClaims"

definition enc_UserJWTClaims :: "UserJWTClaims \<Rightarrow> string" where
  "enc_UserJWTClaims c = json_print (JObj
     [(''sub'', JStr (u_Sub c)), (''iat'', JNum (show_int (u_Iat c))),
      (''exp'', JNum (show_int (u_Exp c))), (''token_id'', JStr (u_TokenID c))])"

definition fields_UserJWTClaims :: "(string \<times> json) list \<Rightarrow> UserJWTClaims option" where
  "fields_UserJWTClaims ms =
     (case (str_field ''sub'' ms, int_field ''iat'' ms, int_field ''exp'' ms,
            str_field ''token_id'' ms) of
        (Some s, Some a, Some e, Some d) \<Rightarrow>
          Some \<lparr>u_Sub = s, u_Iat = a, u_Exp = e, u_TokenID = d\<rparr>
      | _ \<Rightarrow> None)"

definition dec_UserJWTClaims :: "string \<Rightarrow> UserJWTClaims option" where
  "dec_UserJWTClaims s = Option.bind (json_members s) fields_UserJWTClaims"

definition signHS256 :: "crypto \<Rightarrow> string \<Rightarrow> string \<Rightarrow> string" where
  "signHS256 C input secret = b64_EncodeToString (hmacSHA256 C secret input)"

text \<open>The part the two kinds of token share: sign the encoded claims, and check a token.\<close>

definition sign_token :: "crypto \<Rightarrow> string \<Rightarrow> string \<Rightarrow> string" where
  "sign_token C secret claimsJSON =
     (let signingInput = b64_EncodeToString JWTHeader_json @ ''.'' @ b64_EncodeToString claimsJSON
      in signingInput @ ''.'' @ signHS256 C signingInput secret)"

definition check_token ::
  "crypto \<Rightarrow> string \<Rightarrow> (string \<Rightarrow> 'c option) \<Rightarrow> ('c \<Rightarrow> int) \<Rightarrow> int \<Rightarrow> string \<Rightarrow> 'c res" where
  "check_token C secret dec exp now tokenStr =
     (case SplitN tokenStr (CHR ''.'') 3 of
        [h, c, sig] \<Rightarrow>
          if sig \<noteq> signHS256 C (h @ ''.'' @ c) secret then Inl ErrTokenInvalid
          else
            (case b64_DecodeString c of
               None \<Rightarrow> Inl ErrTokenInvalid
             | Some claimsJSON \<Rightarrow>
                 (case dec claimsJSON of
                    None \<Rightarrow> Inl ErrTokenInvalid
                  | Some claims \<Rightarrow>
                      if now > exp claims then Inl ErrTokenExpired else Inr claims))
      | _ \<Rightarrow> Inl ErrTokenInvalid)"

definition IssueSessionJWT ::
  "crypto \<Rightarrow> AuthConfig \<Rightarrow> int \<Rightarrow> string \<Rightarrow> string \<Rightarrow> string \<Rightarrow> string \<Rightarrow> string res" where
  "IssueSessionJWT C cfg now uuid deviceType ip sessionID =
     (if JWTSecret cfg = [] then Inl ''JWT_SECRET not configured''
      else Inr (sign_token C (JWTSecret cfg) (enc_JWTClaims
             \<lparr>c_Sub = uuid, c_Type = deviceType, c_IP = ip, c_Iat = now,
              c_Exp = wrap64 (now + JWTExpiry cfg), c_SessionID = sessionID\<rparr>)))"

definition ValidateSessionJWT :: "crypto \<Rightarrow> AuthConfig \<Rightarrow> int \<Rightarrow> string \<Rightarrow> JWTClaims res" where
  "ValidateSessionJWT C cfg now tokenStr =
     (if JWTSecret cfg = [] then Inl ''JWT_SECRET not configured''
      else check_token C (JWTSecret cfg) dec_JWTClaims c_Exp now tokenStr)"

definition IssueUserJWT :: "crypto \<Rightarrow> AuthConfig \<Rightarrow> int \<Rightarrow> bytes option \<Rightarrow> string \<Rightarrow> string res" where
  "IssueUserJWT C cfg now rnd username =
     (if JWTSecret cfg = [] then Inl ErrTokenInvalid
      else (case rnd of
              None \<Rightarrow> Inl ''failed to generate token ID: rand''
            | Some tokenID \<Rightarrow>
                Inr (sign_token C (JWTSecret cfg) (enc_UserJWTClaims
                  \<lparr>u_Sub = username, u_Iat = now, u_Exp = wrap64 (now + JWTExpiry cfg),
                   u_TokenID = hex_EncodeToString tokenID\<rparr>))))"

definition ValidateUserJWT :: "crypto \<Rightarrow> AuthConfig \<Rightarrow> int \<Rightarrow> string \<Rightarrow> UserJWTClaims res" where
  "ValidateUserJWT C cfg now tokenStr =
     (if JWTSecret cfg = [] then Inl ErrTokenInvalid
      else check_token C (JWTSecret cfg) dec_UserJWTClaims u_Exp now tokenStr)"

section \<open>Signatures\<close>

definition VerifySignature :: "crypto \<Rightarrow> string \<Rightarrow> string \<Rightarrow> string \<Rightarrow> unit res" where
  "VerifySignature C publicKeyPEM nonceHex signatureHex =
     (case pemDecode C publicKeyPEM of
        None \<Rightarrow> Inl ErrInvalidPublicKey
      | Some block \<Rightarrow>
     (case parsePKIX C block of
        None \<Rightarrow> Inl ErrInvalidPublicKey
      | Some pub \<Rightarrow>
     (case hex_DecodeString signatureHex of
        None \<Rightarrow> Inl ErrInvalidSignature
      | Some sigBytes \<Rightarrow>
     (case hex_DecodeString nonceHex of
        None \<Rightarrow> Inl ErrInvalidSignature
      | Some nonceBytes \<Rightarrow>
     (case pub of
        Ed25519Key key \<Rightarrow>
          if \<not> ed25519Verify C key nonceBytes sigBytes then Inl ErrInvalidSignature else Inr ()
      | ECDSAKey bitSize key \<Rightarrow>
          (let byteLen = (bitSize + 7) div 8
           in if length sigBytes \<noteq> 2 * byteLen then Inl ErrInvalidSignature
              else if \<not> ecdsaVerify C bitSize key (sha256 C nonceBytes)
                       (SetBytes (take byteLen sigBytes)) (SetBytes (drop byteLen sigBytes))
              then Inl ErrInvalidSignature else Inr ())
      | OtherKey \<Rightarrow> Inl ErrInvalidPublicKey)))))"

definition VerifyEd25519Hex :: "crypto \<Rightarrow> string \<Rightarrow> string \<Rightarrow> string \<Rightarrow> unit res" where
  "VerifyEd25519Hex C publicKeyHex nonceHex signatureHex =
     (case hex_DecodeString publicKeyHex of
        None \<Rightarrow> Inl ErrInvalidPublicKey
      | Some pubBytes \<Rightarrow>
     (if length pubBytes \<noteq> ed25519_PublicKeySize then Inl ErrInvalidPublicKey else
     (case hex_DecodeString signatureHex of
        None \<Rightarrow> Inl ErrInvalidSignature
      | Some sigBytes \<Rightarrow>
     (if length sigBytes \<noteq> ed25519_SignatureSize then Inl ErrInvalidSignature else
     (case hex_DecodeString nonceHex of
        None \<Rightarrow> Inl ErrInvalidSignature
      | Some nonceBytes \<Rightarrow>
          if \<not> ed25519Verify C pubBytes nonceBytes sigBytes then Inl ErrInvalidSignature
          else Inr ())))))"

definition ParseEd25519PublicKeyHex :: "string \<Rightarrow> bytes res" where
  "ParseEd25519PublicKeyHex hexKey =
     (case hex_DecodeString hexKey of
        None \<Rightarrow> Inl ErrInvalidPublicKey
      | Some b \<Rightarrow> if length b \<noteq> ed25519_PublicKeySize then Inl ErrInvalidPublicKey else Inr b)"

definition IsValidPublicKey :: "crypto \<Rightarrow> string \<Rightarrow> bool" where
  "IsValidPublicKey C key =
     (case pemDecode C key of
        Some block \<Rightarrow> parsePKIX C block \<noteq> None
      | None \<Rightarrow>
          if length key = 2 * ed25519_PublicKeySize then hex_DecodeString key \<noteq> None
          else if length key = 130 then
            (case hex_DecodeString key of None \<Rightarrow> False | Some b \<Rightarrow> p256Unmarshal C b)
          else False)"

definition VerifyRobotSignature :: "crypto \<Rightarrow> string \<Rightarrow> string \<Rightarrow> string \<Rightarrow> unit res" where
  "VerifyRobotSignature C publicKey nonce signature =
     (case VerifySignature C publicKey nonce signature of
        Inr u \<Rightarrow> Inr u
      | Inl _ \<Rightarrow> VerifyEd25519Hex C publicKey nonce signature)"

section \<open>Token lemmas\<close>

definition ok_JWTClaims :: "JWTClaims \<Rightarrow> bool" where
  "ok_JWTClaims c \<longleftrightarrow> valid_utf8 (c_Sub c) \<and> valid_utf8 (c_Type c) \<and> valid_utf8 (c_IP c)
     \<and> valid_utf8 (c_SessionID c) \<and> in64 (c_Iat c) \<and> in64 (c_Exp c)"

definition ok_UserJWTClaims :: "UserJWTClaims \<Rightarrow> bool" where
  "ok_UserJWTClaims c \<longleftrightarrow> valid_utf8 (u_Sub c) \<and> valid_utf8 (u_TokenID c)
     \<and> in64 (u_Iat c) \<and> in64 (u_Exp c)"

lemma valid_utf8_claim_names [simp]:
  "valid_utf8 ''sub''" "valid_utf8 ''type''" "valid_utf8 ''iat''" "valid_utf8 ''exp''"
  "valid_utf8 ''session_id''" "valid_utf8 ''token_id''"
  by (rule valid_utf8_ascii; simp add: byte_in_def)+

lemma hex_utf8: "valid_utf8 (hex_EncodeToString b)"
  by (rule valid_utf8_ascii) (use hex_Encode_chars in \<open>fastforce simp: list_all_iff byte_in_def\<close>)

interpretation claims_codec: json_codec enc_JWTClaims dec_JWTClaims ok_JWTClaims
  by unfold_locales
     (auto simp: enc_JWTClaims_def dec_JWTClaims_def fields_JWTClaims_def ok_JWTClaims_def
       json_members_print field_defs simp del: json_print.simps)

interpretation user_claims_codec: json_codec enc_UserJWTClaims dec_UserJWTClaims ok_UserJWTClaims
  by unfold_locales
     (auto simp: enc_UserJWTClaims_def dec_UserJWTClaims_def fields_UserJWTClaims_def
       ok_UserJWTClaims_def json_members_print field_defs simp del: json_print.simps)

lemma check_token_sign:
  assumes "dec cj = Some c"
  shows "check_token C secret dec exp now (sign_token C secret cj) =
    (if now > exp c then Inl ErrTokenExpired else Inr c)"
proof -
  let ?h = "b64_EncodeToString JWTHeader_json" and ?c = "b64_EncodeToString cj"
  have "SplitN (sign_token C secret cj) (CHR ''.'') 3 = [?h, ?c, signHS256 C (?h @ ''.'' @ ?c) secret]"
    unfolding SplitN_3_iff by (simp add: sign_token_def b64_Encode_no_dot)
  then show ?thesis
    using assms by (simp add: check_token_def)
qed

lemma check_token_Inr:
  "check_token C secret dec exp now tok = Inr c \<longleftrightarrow>
   (\<exists>h b cj. tok = h @ ''.'' @ b @ ''.'' @ signHS256 C (h @ ''.'' @ b) secret
      \<and> CHR ''.'' \<notin> set h \<and> CHR ''.'' \<notin> set b
      \<and> b64_DecodeString b = Some cj \<and> dec cj = Some c \<and> now \<le> exp c)"
proof
  assume "check_token C secret dec exp now tok = Inr c"
  then obtain h b sig cj where
    "SplitN tok (CHR ''.'') 3 = [h, b, sig]" "sig = signHS256 C (h @ ''.'' @ b) secret"
    "b64_DecodeString b = Some cj" "dec cj = Some c" "now \<le> exp c"
    by (auto simp: check_token_def split: list.splits option.splits if_splits)
  then show "\<exists>h b cj. tok = h @ ''.'' @ b @ ''.'' @ signHS256 C (h @ ''.'' @ b) secret
      \<and> CHR ''.'' \<notin> set h \<and> CHR ''.'' \<notin> set b
      \<and> b64_DecodeString b = Some cj \<and> dec cj = Some c \<and> now \<le> exp c"
    unfolding SplitN_3_iff by auto
next
  assume "\<exists>h b cj. tok = h @ ''.'' @ b @ ''.'' @ signHS256 C (h @ ''.'' @ b) secret
      \<and> CHR ''.'' \<notin> set h \<and> CHR ''.'' \<notin> set b
      \<and> b64_DecodeString b = Some cj \<and> dec cj = Some c \<and> now \<le> exp c"
  then obtain h b cj where "SplitN tok (CHR ''.'') 3 = [h, b, signHS256 C (h @ ''.'' @ b) secret]"
    "b64_DecodeString b = Some cj" "dec cj = Some c" "now \<le> exp c"
    unfolding SplitN_3_iff by auto
  then show "check_token C secret dec exp now tok = Inr c"
    by (simp add: check_token_def)
qed

section \<open>Signature lemmas\<close>

lemma VerifyEd25519Hex_ok:
  "VerifyEd25519Hex C key nonce sig = Inr () \<longleftrightarrow>
   (\<exists>k n s. hex_DecodeString key = Some k \<and> hex_DecodeString nonce = Some n
      \<and> hex_DecodeString sig = Some s \<and> length k = 32 \<and> length s = 64 \<and> ed25519Verify C k n s)"
  by (auto simp: VerifyEd25519Hex_def ed25519_PublicKeySize_def ed25519_SignatureSize_def
      split: option.splits)

lemma VerifySignature_ok:
  "VerifySignature C key nonce sig = Inr () \<longleftrightarrow>
   (\<exists>block pub n s. pemDecode C key = Some block \<and> parsePKIX C block = Some pub
      \<and> hex_DecodeString nonce = Some n \<and> hex_DecodeString sig = Some s
      \<and> (case pub of
           Ed25519Key k \<Rightarrow> ed25519Verify C k n s
         | ECDSAKey bits k \<Rightarrow> length s = 2 * ((bits + 7) div 8)
             \<and> ecdsaVerify C bits k (sha256 C n) (SetBytes (take ((bits + 7) div 8) s))
                 (SetBytes (drop ((bits + 7) div 8) s))
         | OtherKey \<Rightarrow> False))"
  by (auto simp: VerifySignature_def Let_def split: option.splits pkix_key.splits)

lemma VerifyRobotSignature_ok:
  "VerifyRobotSignature C key nonce sig = Inr () \<longleftrightarrow>
   VerifySignature C key nonce sig = Inr () \<or> VerifyEd25519Hex C key nonce sig = Inr ()"
  by (auto simp: VerifyRobotSignature_def split: sum.splits)

section \<open>Properties\<close>

text \<open>C17: A session token validates to the claims it was issued for, until it expires: for every
  MAC function, UTF-8 identity and configured secret, \<^verbatim>\<open>ValidateSessionJWT\<close> accepts an
  issued token up to and including its expiry second and reports it expired afterwards.\<close>

theorem SessionJWT_roundtrip:
  assumes "IssueSessionJWT C cfg now uuid dt ip sid = Inr tok"
    and "valid_utf8 uuid" "valid_utf8 dt" "valid_utf8 ip" "valid_utf8 sid" "in64 now"
  shows "ValidateSessionJWT C cfg now' tok =
    (if now' > wrap64 (now + JWTExpiry cfg) then Inl ErrTokenExpired
     else Inr \<lparr>c_Sub = uuid, c_Type = dt, c_IP = ip, c_Iat = now,
               c_Exp = wrap64 (now + JWTExpiry cfg), c_SessionID = sid\<rparr>)"
proof -
  let ?c = "\<lparr>c_Sub = uuid, c_Type = dt, c_IP = ip, c_Iat = now,
               c_Exp = wrap64 (now + JWTExpiry cfg), c_SessionID = sid\<rparr>"
  have tok: "JWTSecret cfg \<noteq> []" "tok = sign_token C (JWTSecret cfg) (enc_JWTClaims ?c)"
    using assms(1) by (auto simp: IssueSessionJWT_def split: if_splits)
  have "dec_JWTClaims (enc_JWTClaims ?c) = Some ?c"
    by (rule claims_codec.dec_enc) (use assms in \<open>simp add: ok_JWTClaims_def\<close>)
  then show ?thesis
    using tok by (simp add: ValidateSessionJWT_def check_token_sign)
qed

text \<open>A stand-in for the primitives, for examples only.\<close>

definition sample_crypto :: crypto where
  "sample_crypto = \<lparr>hmacSHA256 = (\<lambda>k m. k), sha256 = (\<lambda>m. m), pemDecode = (\<lambda>_. None),
     parsePKIX = (\<lambda>_. None), ed25519Verify = (\<lambda>k m s. True), ecdsaVerify = (\<lambda>_ _ _ _ _. False),
     p256Unmarshal = (\<lambda>_. True)\<rparr>"

definition sample_auth :: AuthConfig where
  "sample_auth = \<lparr>JWTSecret = ''secret'', JWTExpiry = 3600, NonceLength = 32\<rparr>"

theorem SessionJWT_roundtrip_witness:
  "\<exists>tok c. IssueSessionJWT sample_crypto sample_auth 100 ''r1'' ''arm'' ''ip'' ''s'' = Inr tok
     \<and> ValidateSessionJWT sample_crypto sample_auth 3700 tok = Inr c \<and> c_Sub c = ''r1''
     \<and> ValidateSessionJWT sample_crypto sample_auth 3701 tok = Inl ErrTokenExpired"
proof -
  obtain tok where t: "IssueSessionJWT sample_crypto sample_auth 100 ''r1'' ''arm'' ''ip'' ''s'' = Inr tok"
    by (auto simp: IssueSessionJWT_def sample_auth_def)
  have u: "valid_utf8 ''r1''" "valid_utf8 ''arm''" "valid_utf8 ''ip''" "valid_utf8 ''s''"
    by (rule valid_utf8_ascii; simp add: byte_in_def)+
  show ?thesis
    using SessionJWT_roundtrip[OF t u, of 3700] SessionJWT_roundtrip[OF t u, of 3701] t
    by (simp add: in64_def sample_auth_def)
qed

text \<open>C16: A token is accepted only if it is signed with the server's secret and has not expired:
  it has the form header.claims.signature, the signature is the MAC of exactly the first
  two parts, the claims are what the second part decodes to, and the current time is not
  past their expiry.  Without a secret nothing is accepted.\<close>

theorem ValidateSessionJWT_sound:
  assumes "ValidateSessionJWT C cfg now tok = Inr claims"
  shows "JWTSecret cfg \<noteq> [] \<and> now \<le> c_Exp claims
    \<and> (\<exists>h b cj. tok = h @ ''.'' @ b @ ''.'' @ b64_EncodeToString (hmacSHA256 C (JWTSecret cfg) (h @ ''.'' @ b))
         \<and> b64_DecodeString b = Some cj \<and> dec_JWTClaims cj = Some claims)"
  using assms unfolding ValidateSessionJWT_def
  by (auto simp: check_token_Inr signHS256_def split: if_splits)

theorem ValidateSessionJWT_sound_witness:
  "\<exists>tok c. ValidateSessionJWT sample_crypto sample_auth 5 tok = Inr c \<and> 5 \<le> c_Exp c"
proof -
  let ?c = "\<lparr>c_Sub = ''r1'', c_Type = ''arm'', c_IP = ''ip'', c_Iat = 0, c_Exp = 10, c_SessionID = ''s''\<rparr>"
  have "ok_JWTClaims ?c"
    by (auto simp: ok_JWTClaims_def in64_def intro!: valid_utf8_ascii) (simp_all add: byte_in_def)
  then have "dec_JWTClaims (enc_JWTClaims ?c) = Some ?c"
    by (rule claims_codec.dec_enc)
  then have v: "ValidateSessionJWT sample_crypto sample_auth 5
      (sign_token sample_crypto (JWTSecret sample_auth) (enc_JWTClaims ?c)) = Inr ?c"
    by (simp add: ValidateSessionJWT_def sample_auth_def check_token_sign)
  show ?thesis
    using ValidateSessionJWT_sound[OF v] v by blast
qed

lemma pkix_case_iff:
  "(case pub of Ed25519Key k \<Rightarrow> P k | ECDSAKey bits k \<Rightarrow> Q bits k | OtherKey \<Rightarrow> False) \<longleftrightarrow>
   (\<exists>k. pub = Ed25519Key k \<and> P k) \<or> (\<exists>bits k. pub = ECDSAKey bits k \<and> Q bits k)"
  by (cases pub) auto

text \<open>A robot's signature is accepted exactly when its key is a PEM block with an Ed25519
  key or an elliptic-curve key under which the signature (for the latter, two halves of
  the curve's byte length) verifies, or a raw 32-byte hexadecimal Ed25519 key under which
  a 64-byte signature verifies; signature and nonce must be hexadecimal.\<close>

theorem VerifyRobotSignature_iff:
  "VerifyRobotSignature C key nonce sig = Inr () \<longleftrightarrow>
   (\<exists>n s. hex_DecodeString nonce = Some n \<and> hex_DecodeString sig = Some s \<and>
     ((\<exists>block k. pemDecode C key = Some block \<and> parsePKIX C block = Some (Ed25519Key k) \<and> ed25519Verify C k n s)
      \<or> (\<exists>block bits k. pemDecode C key = Some block \<and> parsePKIX C block = Some (ECDSAKey bits k)
           \<and> length s = 2 * ((bits + 7) div 8)
           \<and> ecdsaVerify C bits k (sha256 C n) (SetBytes (take ((bits + 7) div 8) s))
               (SetBytes (drop ((bits + 7) div 8) s)))
      \<or> (\<exists>k. hex_DecodeString key = Some k \<and> length k = 32 \<and> length s = 64 \<and> ed25519Verify C k n s)))"
  unfolding VerifyRobotSignature_ok VerifySignature_ok VerifyEd25519Hex_ok pkix_case_iff
  by blast

text \<open>\<^verbatim>\<open>IsValidPublicKey\<close> accepts raw P-256 keys (130 hexadecimal digits) and PEM keys of
  unsupported types, but no signature is ever accepted for such a key: a robot
  provisioned with one can never authenticate.\<close>

theorem valid_key_never_verifies:
  assumes "length key = 130 \<and> pemDecode C key = None
      \<or> (\<exists>block. pemDecode C key = Some block \<and> parsePKIX C block = Some OtherKey \<and> length key \<noteq> 64)"
  shows "\<exists>e. VerifyRobotSignature C key nonce sig = Inl e"
proof -
  have "VerifySignature C key nonce sig \<noteq> Inr ()"
    using assms unfolding VerifySignature_ok by auto
  moreover have "length key \<noteq> 64"
    using assms by auto
  then have "VerifyEd25519Hex C key nonce sig \<noteq> Inr ()"
    unfolding VerifyEd25519Hex_ok by (auto dest: hex_DecodeString_length)
  ultimately have "VerifyRobotSignature C key nonce sig \<noteq> Inr ()"
    unfolding VerifyRobotSignature_ok by blast
  then show ?thesis
    by (cases "VerifyRobotSignature C key nonce sig") auto
qed

theorem valid_key_never_verifies_witness:
  "IsValidPublicKey sample_crypto (hex_EncodeToString (replicate 65 (CHR 0x04)))
   \<and> (\<exists>e. VerifyRobotSignature sample_crypto (hex_EncodeToString (replicate 65 (CHR 0x04))) ''00'' ''00'' = Inl e)"
  using valid_key_never_verifies[of "hex_EncodeToString (replicate 65 (CHR 0x04))" sample_crypto "''00''" "''00''"]
  by (simp add: IsValidPublicKey_def sample_crypto_def ed25519_PublicKeySize_def)

end
