(* ===== verification/Heartbeat.thy ===== *)
theory Heartbeat
  imports Auth
begin

text \<open>
  \<^verbatim>\<open>auth/heartbeat_handler.go\<close>.  The parameters of the server that do not change
  while it runs (clients of the services, primitives, configuration) are the record
  \<open>server\<close>; the state of the two services is the pair \<open>store\<close>, passed explicitly.
\<close>

record ('r, 'p) server =
  rds :: "'r redis"
  pg :: "'p postgres"
  crypto :: crypto
  cfg :: Config

record ('r, 'p) store =
  rst :: 'r
  pst :: 'p

record HeartbeatPayload =
  Seq :: int
  hTTL :: int
  ExtraData :: string

record HeartbeatResult =
  hr_UUID :: string
  hr_IP :: string
  hr_Payload :: HeartbeatPayload

definition MaxHeartbeatTTL :: int where
  "MaxHeartbeatTTL = 6 * 3600 * second"

definition dec_HeartbeatPayload :: "string \<Rightarrow> HeartbeatPayload option" where
  "dec_HeartbeatPayload s =
     (case json_members s of
        None \<Rightarrow> None
      | Some ms \<Rightarrow>
          (case (int_field ''seq'' ms, int_field ''ttl'' ms) of
             (Some q, Some t) \<Rightarrow>
               Some \<lparr>Seq = q, hTTL = t, ExtraData = raw_field ''extra_data'' s\<rparr>
           | _ \<Rightarrow> None))"

definition heartbeat_ttl :: "Config \<Rightarrow> HeartbeatPayload \<Rightarrow> int" where
  "heartbeat_ttl c payload =
     (if hTTL payload > 0 then
        (let requested = wrap64 (hTTL payload * second)
         in if requested > MaxHeartbeatTTL then MaxHeartbeatTTL else requested)
      else TTL (Redis c))"

text \<open>The refresh of an active session; its errors are only logged.\<close>

definition refresh_active :: "'r redis \<Rightarrow> string \<Rightarrow> string \<Rightarrow> int \<Rightarrow> 'r \<Rightarrow> 'r" where
  "refresh_active rd uuid ip ttl s =
     (case GetActiveRobot rd uuid s of
        (Inl _, s1) \<Rightarrow> s1
      | (Inr active, s1) \<Rightarrow> snd (SetActiveRobot rd (active\<lparr>ar_IP := ip\<rparr>) ttl s1))"

definition ProcessHeartbeat ::
  "('r, 'p) server \<Rightarrow> int \<Rightarrow> string \<Rightarrow> string \<Rightarrow> string \<Rightarrow> string \<Rightarrow> ('r, 'p) store
   \<Rightarrow> HeartbeatResult res \<times> ('r, 'p) store" where
  "ProcessHeartbeat sv now uuid payloadJSON signature ip st =
     (case GetRobotByUUID (pg sv) uuid (pst st) of
        (Inl _, p1) \<Rightarrow> (Inl (''unknown robot: '' @ uuid), st\<lparr>pst := p1\<rparr>)
      | (Inr robot, p1) \<Rightarrow>
     (let st1 = st\<lparr>pst := p1\<rparr>
      in if rr_IsBlacklisted robot then (Inl (''robot is blacklisted: '' @ uuid), st1) else
     (case VerifyRobotSignature (crypto sv) (rr_PublicKey robot) (hex_EncodeToString payloadJSON) signature of
        Inl e \<Rightarrow> (Inl (''invalid heartbeat signature for '' @ uuid @ '': '' @ e), st1)
      | Inr _ \<Rightarrow>
     (case dec_HeartbeatPayload payloadJSON of
        None \<Rightarrow> (Inl (''failed to parse heartbeat payload: '' @ json_error), st1)
      | Some payload \<Rightarrow>
     (case GetHeartbeat (rds sv) uuid (rst st1) of
        (existing, r1) \<Rightarrow>
     (let st2 = st1\<lparr>rst := r1\<rparr>;
          last = (case existing of Inl _ \<Rightarrow> None | Inr e \<Rightarrow> Some (hb_LastSeq e))
      in if (case last of None \<Rightarrow> False | Some l \<Rightarrow> Seq payload \<le> l)
         then (Inl (''stale heartbeat sequence for '' @ uuid @ '': got '' @ show_int (Seq payload)
                 @ '', last was '' @ show_int (the last)), st2)
         else
     (let ttl = heartbeat_ttl (cfg sv) payload;
          state = \<lparr>hb_UUID = uuid, hb_IP = ip, hb_LastSeq = Seq payload, hb_LastSeen = now\<rparr>
      in case SetHeartbeat (rds sv) state ttl r1 of
           (Inl e, r2) \<Rightarrow> (Inl (''failed to store heartbeat: '' @ e), st2\<lparr>rst := r2\<rparr>)
         | (Inr _, r2) \<Rightarrow>
             (Inr \<lparr>hr_UUID = uuid, hr_IP = ip, hr_Payload = payload\<rparr>,
              st2\<lparr>rst := refresh_active (rds sv) uuid ip ttl r2\<rparr>))))))))"

section \<open>Expiry\<close>

lemma heartbeat_ttl_bounds:
  assumes "0 < hTTL p" and "hTTL p * second < 2 ^ 63"
  shows "0 < heartbeat_ttl c p" and "heartbeat_ttl c p \<le> MaxHeartbeatTTL"
    and "heartbeat_ttl c p = min (hTTL p * second) MaxHeartbeatTTL"
  using assms
  by (auto simp: heartbeat_ttl_def MaxHeartbeatTTL_def Let_def second_def in64_def)

section \<open>What an accepted heartbeat implies\<close>

lemma ProcessHeartbeat_Inr:
  assumes "ProcessHeartbeat sv now uuid pj sig ip st = (Inr res, st')"
  shows "\<exists>robot p1 payload existing r1 u r2.
    GetRobotByUUID (pg sv) uuid (pst st) = (Inr robot, p1) \<and> \<not> rr_IsBlacklisted robot
    \<and> VerifyRobotSignature (crypto sv) (rr_PublicKey robot) (hex_EncodeToString pj) sig = Inr ()
    \<and> dec_HeartbeatPayload pj = Some payload
    \<and> GetHeartbeat (rds sv) uuid (rst st) = (existing, r1)
    \<and> (\<forall>e. existing = Inr e \<longrightarrow> hb_LastSeq e < Seq payload)
    \<and> SetHeartbeat (rds sv) \<lparr>hb_UUID = uuid, hb_IP = ip, hb_LastSeq = Seq payload, hb_LastSeen = now\<rparr>
        (heartbeat_ttl (cfg sv) payload) r1 = (Inr u, r2)
    \<and> res = \<lparr>hr_UUID = uuid, hr_IP = ip, hr_Payload = payload\<rparr>
    \<and> st' = st\<lparr>pst := p1, rst := refresh_active (rds sv) uuid ip (heartbeat_ttl (cfg sv) payload) r2\<rparr>"
proof -
  obtain robot p1 where 1: "GetRobotByUUID (pg sv) uuid (pst st) = (Inr robot, p1)" "\<not> rr_IsBlacklisted robot"
    using assms by (auto simp: ProcessHeartbeat_def Let_def split: prod.splits sum.splits if_splits)
  have 2: "VerifyRobotSignature (crypto sv) (rr_PublicKey robot) (hex_EncodeToString pj) sig = Inr ()"
    using assms 1 by (auto simp: ProcessHeartbeat_def Let_def split: sum.splits)
  obtain payload where 3: "dec_HeartbeatPayload pj = Some payload"
    using assms 1 2 by (auto simp: ProcessHeartbeat_def Let_def split: option.splits)
  obtain existing r1 where 4: "GetHeartbeat (rds sv) uuid (rst st) = (existing, r1)"
    by (cases "GetHeartbeat (rds sv) uuid (rst st)")
  have 5: "\<forall>e. existing = Inr e \<longrightarrow> hb_LastSeq e < Seq payload"
    using assms 1 2 3 4 by (auto simp: ProcessHeartbeat_def Let_def split: sum.splits if_splits)
  have "\<exists>u r2. SetHeartbeat (rds sv) \<lparr>hb_UUID = uuid, hb_IP = ip, hb_LastSeq = Seq payload, hb_LastSeen = now\<rparr>
        (heartbeat_ttl (cfg sv) payload) r1 = (Inr u, r2)
    \<and> res = \<lparr>hr_UUID = uuid, hr_IP = ip, hr_Payload = payload\<rparr>
    \<and> st' = st\<lparr>pst := p1, rst := refresh_active (rds sv) uuid ip (heartbeat_ttl (cfg sv) payload) r2\<rparr>"
    using assms 1 2 3 4 5
    by (auto simp: ProcessHeartbeat_def Let_def split: sum.splits prod.splits if_splits)
  then show ?thesis
    using 1 2 3 4 5 by blast
qed

lemma ProcessHeartbeat_Inl:
  assumes "ProcessHeartbeat sv now uuid pj sig ip st = (Inl e, st')"
  shows "rst st' = rst st \<or> rst st' = snd (GetHeartbeat (rds sv) uuid (rst st))
    \<or> (\<exists>state ttl e. SetHeartbeat (rds sv) state ttl (snd (GetHeartbeat (rds sv) uuid (rst st))) = (Inl e, rst st'))"
  using assms
  by (auto simp: ProcessHeartbeat_def Let_def split: prod.splits sum.splits option.splits if_splits)

lemma ParseInt64_in64: "ParseInt64 s = Some i \<Longrightarrow> in64 i"
  by (auto simp: ParseInt64_def Let_def split: if_splits prod.splits)

lemma fill_int_in64: "fill int_of_json d vs = Some i \<Longrightarrow> in64 d \<Longrightarrow> in64 i"
proof (induction vs arbitrary: d)
  case (Cons v vs)
  then show ?case
    by (cases v) (auto split: if_splits option.splits dest: ParseInt64_in64)
qed simp

lemma dec_HeartbeatPayload_in64:
  "dec_HeartbeatPayload s = Some p \<Longrightarrow> in64 (Seq p) \<and> in64 (hTTL p)"
proof -
  have "in64 0" by (simp add: in64_def)
  then show "dec_HeartbeatPayload s = Some p \<Longrightarrow> ?thesis"
    by (auto simp: dec_HeartbeatPayload_def int_field_def split: option.splits dest: fill_int_in64)
qed

context redis_service
begin

lemma refresh_active_keeps:
  assumes "live (refresh_active rd u ip ttl s) (heartbeatKey v) \<noteq> None"
  shows "live (refresh_active rd u ip ttl s) (heartbeatKey v) = live s (heartbeatKey v)"
proof -
  obtain r s1 where g: "GetActiveRobot rd u s = (r, s1)"
    by (cases "GetActiveRobot rd u s")
  have le: "live s1 \<subseteq>\<^sub>m live s"
    using get_json_frame g by (simp add: GetActiveRobot_def)
  show ?thesis
  proof (cases r)
    case (Inl e)
    then show ?thesis
      using g assms map_le_Some[OF le, of "heartbeatKey v"] by (auto simp: refresh_active_def)
  next
    case (Inr active)
    obtain x s2 where s2: "SetActiveRobot rd (active\<lparr>ar_IP := ip\<rparr>) ttl s1 = (x, s2)"
      by (cases "SetActiveRobot rd (active\<lparr>ar_IP := ip\<rparr>) ttl s1")
    have e: "refresh_active rd u ip ttl s = s2"
      using g Inr s2 by (simp add: refresh_active_def)
    then have "live s2 (heartbeatKey v) = live s1 (heartbeatKey v)"
      using set_frame[of "robotKey (ar_UUID active)"] s2 assms by (simp add: SetActiveRobot_def)
    then show ?thesis
      using e assms map_le_Some[OF le, of "heartbeatKey v"] by auto
  qed
qed

end

section \<open>Replay protection\<close>

text \<open>
  While the service neither fails nor expires entries, the stored sequence number of a robot
  is that of the last heartbeat accepted from it.
\<close>

definition stored_seq :: "('r \<Rightarrow> string \<Rightarrow> (string \<times> int) option) \<Rightarrow> string \<Rightarrow> 'r \<Rightarrow> int option" where
  "stored_seq lv uuid s =
     (case lv s (heartbeatKey uuid) of
        None \<Rightarrow> None
      | Some (v, t) \<Rightarrow> map_option hb_LastSeq (dec_HeartbeatState v))"

context redis_steady
begin

lemma get_heartbeat:
  "GetHeartbeat rd uuid s = (existing, s') \<Longrightarrow> s' = s \<and>
   (\<forall>q. stored_seq live uuid s = Some q \<longrightarrow> (\<exists>h. existing = Inr h \<and> hb_LastSeq h = q))"
  using get_json_state[of dec_HeartbeatState "heartbeatKey uuid" s] get_json_total
  by (fastforce simp: GetHeartbeat_def stored_seq_def split: option.splits)

lemma set_steady: "rdSet rd k v t s = (r, s') \<Longrightarrow> r = Inr () \<and> live s' = (live s)(k \<mapsto> (v, t))"
  using set_total[of k v t s] by auto

lemma refresh_active_heartbeats:
  "live (refresh_active rd u ip ttl s) (heartbeatKey v) = live s (heartbeatKey v)"
proof -
  obtain r s1 where g: "GetActiveRobot rd u s = (r, s1)"
    by (cases "GetActiveRobot rd u s")
  then have "s1 = s"
    using get_json_state[of dec_ActiveRobot "robotKey u" s] by (simp add: GetActiveRobot_def)
  moreover have "live (snd (SetActiveRobot rd a ttl s)) (heartbeatKey v) = live s (heartbeatKey v)" for a
    using set_steady[of "robotKey (ar_UUID a)" "enc_ActiveRobot a" ttl s]
    by (cases "SetActiveRobot rd a ttl s") (auto simp: SetActiveRobot_def)
  ultimately show ?thesis
    using g by (auto simp: refresh_active_def split: sum.splits)
qed

lemma heartbeat_accepted:
  assumes "ProcessHeartbeat sv now uuid pj sig ip st = (Inr res, st')" and "rds sv = rd"
    and "valid_utf8 uuid" "valid_utf8 ip" "in64 now"
  shows "\<And>q. stored_seq live uuid (rst st) = Some q \<Longrightarrow> q < Seq (hr_Payload res)"
    and "stored_seq live uuid (rst st') = Some (Seq (hr_Payload res))"
    and "v \<noteq> uuid \<Longrightarrow> stored_seq live v (rst st') = stored_seq live v (rst st)"
    and "hr_UUID res = uuid"
proof -
  obtain robot p1 payload existing r1 u r2 where
    d: "dec_HeartbeatPayload pj = Some payload"
    and g: "GetHeartbeat rd uuid (rst st) = (existing, r1)"
    and seq: "\<forall>e. existing = Inr e \<longrightarrow> hb_LastSeq e < Seq payload"
    and s: "SetHeartbeat rd \<lparr>hb_UUID = uuid, hb_IP = ip, hb_LastSeq = Seq payload, hb_LastSeen = now\<rparr>
        (heartbeat_ttl (cfg sv) payload) r1 = (Inr u, r2)"
    and res: "res = \<lparr>hr_UUID = uuid, hr_IP = ip, hr_Payload = payload\<rparr>"
    and st': "st' = st\<lparr>pst := p1, rst := refresh_active rd uuid ip (heartbeat_ttl (cfg sv) payload) r2\<rparr>"
    using ProcessHeartbeat_Inr[OF assms(1)] assms(2) by blast
  let ?h = "\<lparr>hb_UUID = uuid, hb_IP = ip, hb_LastSeq = Seq payload, hb_LastSeen = now\<rparr>"
  have "dec_HeartbeatState (enc_HeartbeatState ?h) = Some ?h"
    by (rule heartbeat_codec.dec_enc)
       (use assms(3-5) dec_HeartbeatPayload_in64[OF d] in \<open>simp add: ok_HeartbeatState_def\<close>)
  moreover have "live r2 = (live r1)(heartbeatKey uuid \<mapsto> (enc_HeartbeatState ?h, heartbeat_ttl (cfg sv) payload))"
    using s set_steady by (fastforce simp: SetHeartbeat_def)
  ultimately show "stored_seq live uuid (rst st') = Some (Seq (hr_Payload res))"
    and "v \<noteq> uuid \<Longrightarrow> stored_seq live v (rst st') = stored_seq live v (rst st)"
    using get_heartbeat[OF g] res st' by (simp_all add: stored_seq_def refresh_active_heartbeats)
  show "q < Seq (hr_Payload res)" if "stored_seq live uuid (rst st) = Some q" for q
    using get_heartbeat[OF g] that seq res by auto
  show "hr_UUID res = uuid" by (simp add: res)
qed

lemma heartbeat_refused:
  assumes "ProcessHeartbeat sv now uuid pj sig ip st = (Inl e, st')" and "rds sv = rd"
  shows "rst st' = rst st"
proof -
  have "snd (GetHeartbeat rd uuid (rst st)) = rst st"
    using get_json_state by (simp add: GetHeartbeat_def)
  moreover have "SetHeartbeat rd state ttl s \<noteq> (Inl e, s')" for state ttl s e s'
    using set_steady by (fastforce simp: SetHeartbeat_def)
  ultimately show ?thesis
    using ProcessHeartbeat_Inl[OF assms(1)] assms(2) by auto
qed

end

record hb_msg =
  m_now :: int
  m_uuid :: string
  m_payload :: string
  m_sig :: string
  m_ip :: string

definition ok_msg :: "hb_msg \<Rightarrow> bool" where
  "ok_msg m \<longleftrightarrow> valid_utf8 (m_uuid m) \<and> valid_utf8 (m_ip m) \<and> in64 (m_now m)"

fun run_heartbeats ::
  "('r, 'p) server \<Rightarrow> hb_msg list \<Rightarrow> ('r, 'p) store \<Rightarrow> HeartbeatResult list \<times> ('r, 'p) store" where
  "run_heartbeats sv [] st = ([], st)"
| "run_heartbeats sv (m # ms) st =
     (case ProcessHeartbeat sv (m_now m) (m_uuid m) (m_payload m) (m_sig m) (m_ip m) st of
        (Inl _, st1) \<Rightarrow> run_heartbeats sv ms st1
      | (Inr r, st1) \<Rightarrow> (case run_heartbeats sv ms st1 of (rs, st2) \<Rightarrow> (r # rs, st2)))"

definition accepted_seqs :: "string \<Rightarrow> HeartbeatResult list \<Rightarrow> int list" where
  "accepted_seqs uuid rs = map (Seq \<circ> hr_Payload) (filter (\<lambda>r. hr_UUID r = uuid) rs)"

context redis_steady
begin

lemma run_heartbeats_increasing:
  assumes "rds sv = rd" and "list_all ok_msg ms" and "run_heartbeats sv ms st = (rs, st')"
  shows "sorted_wrt (<) (accepted_seqs u rs)
    \<and> (\<forall>q. stored_seq live u (rst st) = Some q \<longrightarrow> (\<forall>x \<in> set (accepted_seqs u rs). q < x))"
  using assms(2,3)
proof (induction ms arbitrary: st rs)
  case (Cons m ms)
  obtain r st1 where p: "ProcessHeartbeat sv (m_now m) (m_uuid m) (m_payload m) (m_sig m) (m_ip m) st = (r, st1)"
    by (cases "ProcessHeartbeat sv (m_now m) (m_uuid m) (m_payload m) (m_sig m) (m_ip m) st")
  show ?case
  proof (cases r)
    case (Inl e)
    then show ?thesis
      using Cons p heartbeat_refused[OF _ assms(1)] by fastforce
  next
    case (Inr res)
    obtain rs' st2 where rs': "run_heartbeats sv ms st1 = (rs', st2)"
      by (cases "run_heartbeats sv ms st1")
    then have rs: "rs = res # rs'" and st2: "st2 = st'"
      using Cons.prems(2) p Inr by simp_all
    have IH: "sorted_wrt (<) (accepted_seqs u rs')"
      "\<And>q x. stored_seq live u (rst st1) = Some q \<Longrightarrow> x \<in> set (accepted_seqs u rs') \<Longrightarrow> q < x"
      using Cons.IH[OF _ rs'[unfolded st2]] Cons.prems(1) by auto
    note acc = heartbeat_accepted[OF p[unfolded Inr] assms(1)]
    have ok: "valid_utf8 (m_uuid m)" "valid_utf8 (m_ip m)" "in64 (m_now m)"
      using Cons.prems(1) by (auto simp: ok_msg_def)
    show ?thesis
    proof (cases "u = m_uuid m")
      case True
      then show ?thesis
        using acc(1,2,4)[OF ok] IH rs by (fastforce simp: accepted_seqs_def)
    next
      case False
      then show ?thesis
        using acc(3)[OF ok, of u] acc(4)[OF ok] IH rs by (auto simp: accepted_seqs_def)
    qed
  qed
qed (simp add: accepted_seqs_def)

end

section \<open>Properties\<close>

text \<open>Example servers and robots, on the in-memory services.\<close>

definition sample_server :: "(mem, (string, RobotRecord) gomap) server" where
  "sample_server = \<lparr>rds = mem_redis, pg = mem_postgres, crypto = sample_crypto,
     cfg = defaultConfig\<lparr>Config.Auth := sample_auth\<rparr>\<rparr>"

definition sample_key :: string where
  "sample_key = hex_EncodeToString (replicate 32 (CHR 0x00))"

definition sample_sig :: string where
  "sample_sig = hex_EncodeToString (replicate 64 (CHR 0x00))"

definition sample_record :: RobotRecord where
  "sample_record = \<lparr>rr_UUID = ''r1'', rr_PublicKey = sample_key, rr_DeviceType = ''arm'',
     rr_IsBlacklisted = False, rr_CreatedAt = 0\<rparr>"

definition sample_store :: "(mem, (string, RobotRecord) gomap) store" where
  "sample_store = \<lparr>rst = [], pst = [(''r1'', sample_record)]\<rparr>"

lemma sample_verify: "VerifyRobotSignature sample_crypto sample_key (hex_EncodeToString n) sample_sig = Inr ()"
  unfolding VerifyRobotSignature_ok VerifyEd25519Hex_ok
  by (simp add: sample_key_def sample_sig_def sample_crypto_def)

lemma TrimSpace_hex: "bs \<noteq> [] \<Longrightarrow> TrimSpace (hex_EncodeToString bs) = hex_EncodeToString bs"
proof -
  assume "bs \<noteq> []"
  then have ne: "hex_EncodeToString bs \<noteq> []"
    by (metis length_0_conv length_hex_Encode mult_eq_0_iff zero_neq_numeral)
  have "visible c" if "c \<in> set (hex_EncodeToString bs)" for c
    using hex_Encode_chars[OF that] by (auto simp: visible_def)
  then show ?thesis
    using ne by (intro TrimSpace_visible) simp_all
qed

lemma trim_samples: "TrimSpace ''CONNECT_OK'' = ''CONNECT_OK''" "TrimSpace ''r1'' = ''r1''"
  "TrimSpace sample_sig = sample_sig" "sample_sig \<noteq> []"
proof -
  show "TrimSpace ''CONNECT_OK'' = ''CONNECT_OK''" "TrimSpace ''r1'' = ''r1''"
    by (simp_all add: TrimSpace_visible visible_def)
  show "TrimSpace sample_sig = sample_sig"
    unfolding sample_sig_def by (rule TrimSpace_hex) simp
  have "length sample_sig = 128"
    by (simp only: sample_sig_def length_hex_Encode length_replicate)
  then show "sample_sig \<noteq> []" by auto
qed

definition sample_payload :: "int \<Rightarrow> string" where
  "sample_payload q = json_print (JObj [(''seq'', JNum (show_int q))])"

lemma dec_sample_payload:
  "in64 q \<Longrightarrow> \<exists>x. dec_HeartbeatPayload (sample_payload q) = Some \<lparr>Seq = q, hTTL = 0, ExtraData = x\<rparr>"
proof -
  have "wf_json (JObj [(''seq'', JNum (show_int q))])"
    by (simp add: valid_utf8_ascii byte_in_def)
  then show "in64 q \<Longrightarrow> ?thesis"
    by (simp add: dec_HeartbeatPayload_def sample_payload_def json_members_print field_defs
        del: json_print.simps)
qed

lemma sample_accepts:
  assumes "in64 q"
  shows "\<exists>res st'. ProcessHeartbeat sample_server 5 ''r1'' (sample_payload q) sample_sig ''ip'' sample_store
    = (Inr res, st') \<and> Seq (hr_Payload res) = q"
  using dec_sample_payload[OF assms] sample_verify[of "sample_payload q"]
  by (auto simp: ProcessHeartbeat_def sample_server_def sample_store_def GetRobotByUUID_def mem_postgres_def
      sample_record_def GetHeartbeat_def get_json_def mem_redis_def SetHeartbeat_def Let_def)

text \<open>C7: An accepted heartbeat is authentic and current: the robot is registered and not
  blacklisted, the signature verifies over exactly the payload's bytes under its registered
  key, the payload decodes, its sequence number exceeds the one found in Redis, and what
  Redis then holds for the robot's heartbeat, if anything, is that sequence number.\<close>

theorem ProcessHeartbeat_authentic:
  assumes "redis_service (rds sv) live" and "postgres_service (pg sv) robots"
    and "ProcessHeartbeat sv now uuid pj sig ip st = (Inr res, st')"
  shows "\<exists>robot payload ttl.
    robots (pst st) uuid = Some robot \<and> \<not> rr_IsBlacklisted robot
    \<and> VerifyRobotSignature (crypto sv) (rr_PublicKey robot) (hex_EncodeToString pj) sig = Inr ()
    \<and> dec_HeartbeatPayload pj = Some payload \<and> res = \<lparr>hr_UUID = uuid, hr_IP = ip, hr_Payload = payload\<rparr>
    \<and> (\<forall>h. fst (GetHeartbeat (rds sv) uuid (rst st)) = Inr h \<longrightarrow> hb_LastSeq h < Seq payload)
    \<and> (live (rst st') (heartbeatKey uuid) \<noteq> None \<longrightarrow> live (rst st') (heartbeatKey uuid) =
         Some (enc_HeartbeatState \<lparr>hb_UUID = uuid, hb_IP = ip, hb_LastSeq = Seq payload, hb_LastSeen = now\<rparr>, ttl))
    \<and> robots (pst st') = robots (pst st)"
proof -
  obtain robot p1 payload existing r1 u r2 where
    1: "GetRobotByUUID (pg sv) uuid (pst st) = (Inr robot, p1)" "\<not> rr_IsBlacklisted robot"
      "VerifyRobotSignature (crypto sv) (rr_PublicKey robot) (hex_EncodeToString pj) sig = Inr ()"
      "dec_HeartbeatPayload pj = Some payload"
      "GetHeartbeat (rds sv) uuid (rst st) = (existing, r1)"
      "\<forall>e. existing = Inr e \<longrightarrow> hb_LastSeq e < Seq payload"
    and s: "SetHeartbeat (rds sv) \<lparr>hb_UUID = uuid, hb_IP = ip, hb_LastSeq = Seq payload, hb_LastSeen = now\<rparr>
        (heartbeat_ttl (cfg sv) payload) r1 = (Inr u, r2)"
    and res: "res = \<lparr>hr_UUID = uuid, hr_IP = ip, hr_Payload = payload\<rparr>"
    and st': "st' = st\<lparr>pst := p1, rst := refresh_active (rds sv) uuid ip (heartbeat_ttl (cfg sv) payload) r2\<rparr>"
    using ProcessHeartbeat_Inr[OF assms(3)] by blast
  let ?v = "(enc_HeartbeatState \<lparr>hb_UUID = uuid, hb_IP = ip, hb_LastSeq = Seq payload, hb_LastSeen = now\<rparr>,
    heartbeat_ttl (cfg sv) payload)"
  have le: "live r2 \<subseteq>\<^sub>m (live r1)(heartbeatKey uuid \<mapsto> ?v)"
    using redis_service.set_ok[OF assms(1)] s unfolding SetHeartbeat_def by fastforce
  have ref: "live (rst st') (heartbeatKey uuid) \<noteq> None \<Longrightarrow> live (rst st') (heartbeatKey uuid) = live r2 (heartbeatKey uuid)"
    using redis_service.refresh_active_keeps[OF assms(1), of uuid ip "heartbeat_ttl (cfg sv) payload" r2 uuid]
    unfolding st' by simp
  have "live (rst st') (heartbeatKey uuid) = Some ?v" if n: "live (rst st') (heartbeatKey uuid) \<noteq> None"
    using ref[OF n] n map_le_Some[OF le, of "heartbeatKey uuid"] by auto
  moreover have "robots (pst st) uuid = Some robot" "robots p1 = robots (pst st)"
    using postgres_service.select_ok[OF assms(2)] postgres_service.select_frame[OF assms(2)] 1(1)
    unfolding GetRobotByUUID_def by blast+
  ultimately show ?thesis
    using 1 res st' by auto
qed

theorem ProcessHeartbeat_authentic_witness:
  "\<exists>res st' robot. ProcessHeartbeat sample_server 5 ''r1'' (sample_payload 3) sample_sig ''ip'' sample_store = (Inr res, st')
     \<and> mem_robots (pst sample_store) ''r1'' = Some robot \<and> \<not> rr_IsBlacklisted robot"
proof -
  obtain res st' where p: "ProcessHeartbeat sample_server 5 ''r1'' (sample_payload 3) sample_sig ''ip'' sample_store = (Inr res, st')"
    using sample_accepts[of 3] by (auto simp: in64_def)
  have sv: "redis_service (rds sample_server) map_of" "postgres_service (pg sample_server) mem_robots"
    using mem_redis.redis_service_axioms mem_postgres.postgres_service_axioms by (simp_all add: sample_server_def)
  show ?thesis
    using ProcessHeartbeat_authentic[OF sv p] p by blast
qed



text \<open>A requested lifetime in seconds is honoured up to six hours, provided it is below
  \<open>2 ^ 63\<close> nanoseconds.\<close>

theorem heartbeat_ttl_capped:
  assumes "0 < hTTL p" and "hTTL p * second < 2 ^ 63"
  shows "heartbeat_ttl c p = min (hTTL p * second) MaxHeartbeatTTL \<and> 0 < heartbeat_ttl c p"
  using heartbeat_ttl_bounds[OF assms] by blast

theorem heartbeat_ttl_capped_witness:
  "heartbeat_ttl defaultConfig \<lparr>Seq = 1, hTTL = 86400, ExtraData = []\<rparr> = MaxHeartbeatTTL"
  using heartbeat_ttl_capped[of "\<lparr>Seq = 1, hTTL = 86400, ExtraData = []\<rparr>" defaultConfig]
  by (simp add: MaxHeartbeatTTL_def second_def)

text \<open>The cap on the lifetime is lost to overflow: the product of the requested seconds and
  a second wraps, so a heartbeat that asks for \<open>2 ^ 55\<close> seconds is stored with lifetime 0,
  which Redis takes as no expiry at all, and one that asks for 9223372037 seconds with a
  negative one.\<close>

theorem heartbeat_ttl_overflow:
  "heartbeat_ttl c \<lparr>Seq = q, hTTL = 2 ^ 55, ExtraData = x\<rparr> = 0
   \<and> heartbeat_ttl c \<lparr>Seq = q, hTTL = 9223372037, ExtraData = x\<rparr> < 0"
  by (simp add: heartbeat_ttl_def wrap64_def MaxHeartbeatTTL_def second_def Let_def)

end
