(* ===== verification/Handshake.thy ===== *)
theory Handshake
  imports Heartbeat
begin

text \<open>
  \<^verbatim>\<open>auth/handshake.go\<close>.  The handshake reads two lines; it is given as the two pieces
  between the reads, so that other connections may run in between, and as their
  composition \<open>PerformHandshake\<close>.  A piece yields the lines written to the robot.
\<close>

record HandshakeResult =
  r_UUID :: string
  r_DeviceType :: string
  r_IP :: string
  r_SessionJWT :: string
  r_SessionID :: string

definition ln :: "string \<Rightarrow> string" where
  "ln s = s @ [CHR 0x0A]"

text \<open>Steps 1 to 3: the line with the UUID has been read.\<close>

definition hs_uuid ::
  "('r, 'p) server \<Rightarrow> bytes option \<Rightarrow> string \<Rightarrow> ('r, 'p) store
   \<Rightarrow> string list \<times> (string \<times> RobotRecord \<times> string) res \<times> ('r, 'p) store" where
  "hs_uuid sv rnd line s =
     (let uuid = TrimSpace line
      in if uuid = [] then ([ln ''ERROR EMPTY_UUID''], Inl ''empty UUID received'', s)
         else
           (case GetRobotByUUID (pg sv) uuid (pst s) of
              (Inl _, p) \<Rightarrow> ([ln ''ERROR UNKNOWN_ROBOT''], Inl (''robot not found: '' @ uuid), s\<lparr>pst := p\<rparr>)
            | (Inr robot, p) \<Rightarrow>
                if rr_IsBlacklisted robot
                then ([ln ''ERROR BLACKLISTED''], Inl (''robot is blacklisted: '' @ uuid), s\<lparr>pst := p\<rparr>)
                else
                  (case GenerateNonce rnd of
                     Inl e \<Rightarrow> ([ln ''ERROR SERVER_ERROR''], Inl (''failed to generate nonce: '' @ e), s\<lparr>pst := p\<rparr>)
                   | Inr nonce \<Rightarrow> ([ln (''NONCE '' @ nonce)], Inr (uuid, robot, nonce), s\<lparr>pst := p\<rparr>))))"

text \<open>
  Issuing a session, which the registration shares: the token and the active entry.  A panic
  while the session identifier is drawn unwinds to the connection handler: it is the error
  \<open>panic\<close>, without a line to the robot.
\<close>

definition panic_msg :: string where
  "panic_msg = ''panic: slice bounds out of range''"

definition open_session ::
  "('r, 'p) server \<Rightarrow> bytes option \<Rightarrow> int \<Rightarrow> string \<Rightarrow> string \<Rightarrow> string \<Rightarrow> 'r
   \<Rightarrow> string list \<times> HandshakeResult res \<times> 'r" where
  "open_session sv rnd nano uuid deviceType ip r =
     (case GenerateSessionID rnd nano of
        None \<Rightarrow> ([], Inl panic_msg, r)
      | Some sessionID \<Rightarrow>
          (case IssueSessionJWT (crypto sv) (Config.Auth (cfg sv)) (nano div second) uuid deviceType ip sessionID of
             Inl e \<Rightarrow> ([ln ''ERROR SERVER_ERROR''], Inl (''failed to issue JWT: '' @ e), r)
           | Inr jwt \<Rightarrow>
               (case SetActiveRobot (rds sv)
                       \<lparr>ar_UUID = uuid, ar_IP = ip, ar_DeviceType = deviceType, ar_SessionJWT = jwt,
                        ar_PID = 0, ar_ConnectedAt = nano div second\<rparr> (TTL (Redis (cfg sv))) r of
                  (Inl e, r') \<Rightarrow> ([ln ''ERROR SERVER_ERROR''], Inl (''failed to register in Redis: '' @ e), r')
                | (Inr _, r') \<Rightarrow>
                    ([], Inr \<lparr>r_UUID = uuid, r_DeviceType = deviceType, r_IP = ip,
                              r_SessionJWT = jwt, r_SessionID = sessionID\<rparr>, r'))))"

text \<open>Steps 4 to 6: the line with the signature has been read.\<close>

definition hs_signature ::
  "('r, 'p) server \<Rightarrow> bytes option \<Rightarrow> int \<Rightarrow> string \<Rightarrow> string \<Rightarrow> RobotRecord \<Rightarrow> string \<Rightarrow> string
   \<Rightarrow> ('r, 'p) store \<Rightarrow> string list \<times> HandshakeResult res \<times> ('r, 'p) store" where
  "hs_signature sv rnd nano ip uuid robot nonce line s =
     (let signature = TrimSpace line
      in if signature = [] then ([ln ''ERROR EMPTY_SIGNATURE''], Inl ''empty signature received'', s)
         else
           (case VerifyRobotSignature (crypto sv) (rr_PublicKey robot) nonce signature of
              Inl e \<Rightarrow> ([ln ''ERROR INVALID_SIGNATURE''],
                       Inl (''signature verification failed for '' @ uuid @ '': '' @ e), s)
            | Inr _ \<Rightarrow>
                (case open_session sv rnd nano uuid (rr_DeviceType robot) ip (rst s) of
                   (ws, Inl e, r) \<Rightarrow> (ws, Inl e, s\<lparr>rst := r\<rparr>)
                 | (ws, Inr res, r) \<Rightarrow>
                     (ws @ [ln (''AUTH_OK '' @ r_SessionJWT res)], Inr res, s\<lparr>rst := r\<rparr>))))"

definition PerformHandshake ::
  "('r, 'p) server \<Rightarrow> bytes option \<Rightarrow> bytes option \<Rightarrow> int \<Rightarrow> string \<Rightarrow> string option \<Rightarrow> string option
   \<Rightarrow> ('r, 'p) store \<Rightarrow> string list \<times> HandshakeResult res \<times> ('r, 'p) store" where
  "PerformHandshake sv rnd1 rnd2 nano ip line1 line2 s =
     (case line1 of
        None \<Rightarrow> ([ln ''AUTH_CHALLENGE''], Inl ''failed to read UUID'', s)
      | Some l1 \<Rightarrow>
          (case hs_uuid sv rnd1 l1 s of
             (ws, Inl e, s1) \<Rightarrow> (ln ''AUTH_CHALLENGE'' # ws, Inl e, s1)
           | (ws, Inr (uuid, robot, nonce), s1) \<Rightarrow>
               (case line2 of
                  None \<Rightarrow> (ln ''AUTH_CHALLENGE'' # ws, Inl ''failed to read signature'', s1)
                | Some l2 \<Rightarrow>
                    (case hs_signature sv rnd2 nano ip uuid robot nonce l2 s1 of
                       (ws', r, s2) \<Rightarrow> (ln ''AUTH_CHALLENGE'' # ws @ ws', r, s2)))))"

section \<open>What success implies\<close>

lemma hs_uuid_ok:
  assumes "hs_uuid sv rnd line s = (ws, Inr (uuid, robot, nonce), s')"
  shows "\<exists>p b. uuid = TrimSpace line \<and> uuid \<noteq> [] \<and> GetRobotByUUID (pg sv) uuid (pst s) = (Inr robot, p)
    \<and> \<not> rr_IsBlacklisted robot \<and> rnd = Some b \<and> nonce = hex_EncodeToString b
    \<and> ws = [ln (''NONCE '' @ nonce)] \<and> s' = s\<lparr>pst := p\<rparr>"
  using assms
  by (auto simp: hs_uuid_def GenerateNonce_def Let_def
      split: if_splits prod.splits sum.splits option.splits)

lemma open_session_ok:
  assumes "open_session sv rnd nano uuid dt ip r = (ws, Inr res, r')"
  shows "ws = []"
    and "r_UUID res = uuid" "r_DeviceType res = dt" "r_IP res = ip"
    and "IssueSessionJWT (crypto sv) (Config.Auth (cfg sv)) (nano div second) uuid dt ip (r_SessionID res)
      = Inr (r_SessionJWT res)"
    and "SetActiveRobot (rds sv)
        \<lparr>ar_UUID = uuid, ar_IP = ip, ar_DeviceType = dt, ar_SessionJWT = r_SessionJWT res,
         ar_PID = 0, ar_ConnectedAt = nano div second\<rparr> (TTL (Redis (cfg sv))) r = (Inr (), r')"
  using assms
  by (auto simp: open_session_def split: prod.splits sum.splits option.splits)

lemma hs_signature_ok:
  assumes "hs_signature sv rnd nano ip uuid robot nonce line s = (ws, Inr res, s')"
  shows "VerifyRobotSignature (crypto sv) (rr_PublicKey robot) nonce (TrimSpace line) = Inr ()"
    and "\<exists>r. open_session sv rnd nano uuid (rr_DeviceType robot) ip (rst s) = ([], Inr res, r) \<and> s' = s\<lparr>rst := r\<rparr>"
    and "ws = [ln (''AUTH_OK '' @ r_SessionJWT res)]"
  using assms
  by (auto simp: hs_signature_def Let_def split: prod.splits sum.splits if_splits dest: open_session_ok(1))

lemma PerformHandshake_ok:
  assumes "PerformHandshake sv rnd1 rnd2 nano ip line1 line2 s = (ws, Inr res, s')"
  shows "\<exists>l1 l2 robot b p. line1 = Some l1 \<and> line2 = Some l2 \<and> r_UUID res = TrimSpace l1
    \<and> GetRobotByUUID (pg sv) (r_UUID res) (pst s) = (Inr robot, p) \<and> \<not> rr_IsBlacklisted robot
    \<and> rnd1 = Some b
    \<and> VerifyRobotSignature (crypto sv) (rr_PublicKey robot) (hex_EncodeToString b) (TrimSpace l2) = Inr ()
    \<and> r_DeviceType res = rr_DeviceType robot
    \<and> IssueSessionJWT (crypto sv) (Config.Auth (cfg sv)) (nano div second) (r_UUID res) (r_DeviceType res) ip
        (r_SessionID res) = Inr (r_SessionJWT res)"
proof -
  obtain l1 l2 ws1 uuid robot nonce s1 ws2 where
    1: "line1 = Some l1" "line2 = Some l2" "hs_uuid sv rnd1 l1 s = (ws1, Inr (uuid, robot, nonce), s1)"
    "hs_signature sv rnd2 nano ip uuid robot nonce l2 s1 = (ws2, Inr res, s')"
    using assms by (auto simp: PerformHandshake_def split: option.splits prod.splits sum.splits)
  obtain r where o: "open_session sv rnd2 nano uuid (rr_DeviceType robot) ip (rst s1) = ([], Inr res, r)"
    using hs_signature_ok(2)[OF 1(4)] by blast
  show ?thesis
    using 1(1,2) hs_uuid_ok[OF 1(3)] hs_signature_ok(1)[OF 1(4)] open_session_ok[OF o] by auto
qed

section \<open>Properties\<close>

lemma PerformHandshake_written:
  assumes "PerformHandshake sv rnd1 rnd2 nano ip line1 line2 s = (ws, Inr res, s')"
  shows "\<exists>b. rnd1 = Some b
    \<and> ws = [ln ''AUTH_CHALLENGE'', ln (''NONCE '' @ hex_EncodeToString b), ln (''AUTH_OK '' @ r_SessionJWT res)]"
proof -
  obtain l1 l2 ws1 uuid robot nonce s1 ws2 where
    1: "hs_uuid sv rnd1 l1 s = (ws1, Inr (uuid, robot, nonce), s1)"
    "hs_signature sv rnd2 nano ip uuid robot nonce l2 s1 = (ws2, Inr res, s')"
    "ws = ln ''AUTH_CHALLENGE'' # ws1 @ ws2"
    using assms by (auto simp: PerformHandshake_def split: option.splits prod.splits sum.splits)
  show ?thesis
    using 1(3) hs_uuid_ok[OF 1(1)] hs_signature_ok(3)[OF 1(2)] by auto
qed

text \<open>C9: A handshake succeeds only for a registered robot that proves its key: the UUID sent is
  in the registry and not blacklisted, the second line is a signature, under the registered
  key, of the nonce drawn for this handshake, and exactly the challenge, that nonce and the
  session token were written.  The token carries the registered UUID and device type.\<close>

theorem PerformHandshake_authentic:
  assumes "postgres_service (pg sv) robots"
    and "PerformHandshake sv rnd1 rnd2 nano ip line1 line2 s = (ws, Inr res, s')"
  shows "\<exists>l1 l2 b robot. line1 = Some l1 \<and> line2 = Some l2 \<and> rnd1 = Some b
    \<and> robots (pst s) (TrimSpace l1) = Some robot \<and> \<not> rr_IsBlacklisted robot
    \<and> VerifyRobotSignature (crypto sv) (rr_PublicKey robot) (hex_EncodeToString b) (TrimSpace l2) = Inr ()
    \<and> r_UUID res = TrimSpace l1 \<and> r_DeviceType res = rr_DeviceType robot
    \<and> IssueSessionJWT (crypto sv) (Config.Auth (cfg sv)) (nano div second) (r_UUID res) (r_DeviceType res) ip
        (r_SessionID res) = Inr (r_SessionJWT res)
    \<and> ws = [ln ''AUTH_CHALLENGE'', ln (''NONCE '' @ hex_EncodeToString b), ln (''AUTH_OK '' @ r_SessionJWT res)]"
  using PerformHandshake_ok[OF assms(2)] PerformHandshake_written[OF assms(2)]
    postgres_service.select_ok[OF assms(1)]
  unfolding GetRobotByUUID_def by fastforce

lemma sample_open_session:
  "\<exists>res r'. open_session sample_server None 7 ''r1'' dt ip r = ([], Inr res, r')"
  by (simp add: open_session_def GenerateSessionID_def GenerateNonce_def IssueSessionJWT_def sample_server_def
      sample_auth_def SetActiveRobot_def mem_redis_def)

lemma sample_hs_uuid:
  "hs_uuid sample_server (Some ''n'') ''r1'' sample_store
    = ([ln (''NONCE '' @ hex_EncodeToString ''n'')], Inr (''r1'', sample_record, hex_EncodeToString ''n''), sample_store)"
  by (simp add: hs_uuid_def Let_def trim_samples GenerateNonce_def GetRobotByUUID_def sample_server_def mem_postgres_def
      sample_store_def sample_record_def del: hex_EncodeToString.simps)

lemma sample_handshake:
  "\<exists>ws res s'. PerformHandshake sample_server (Some ''n'') None 7 ''ip'' (Some ''r1'') (Some sample_sig) sample_store
     = (ws, Inr res, s')"
proof -
  obtain res r' where o: "open_session sample_server None 7 ''r1'' ''arm'' ''ip'' [] = ([], Inr res, r')"
    using sample_open_session by blast
  note u = sample_hs_uuid
  have v: "VerifyRobotSignature (crypto sample_server) (rr_PublicKey sample_record) (hex_EncodeToString ''n'') sample_sig = Inr ()"
    using sample_verify[of "''n''"] by (simp add: sample_server_def sample_record_def)
  have "rr_DeviceType sample_record = ''arm''" "rst sample_store = []"
    by (simp_all add: sample_record_def sample_store_def)
  then show ?thesis
    using o v by (simp add: PerformHandshake_def u hs_signature_def Let_def trim_samples del: hex_EncodeToString.simps)
qed

theorem PerformHandshake_authentic_witness:
  "\<exists>ws res s'. PerformHandshake sample_server (Some ''n'') None 7 ''ip'' (Some ''r1'') (Some sample_sig) sample_store
     = (ws, Inr res, s') \<and> r_UUID res = ''r1'' \<and> mem_robots (pst sample_store) ''r1'' \<noteq> None"
proof -
  obtain ws res s' where h: "PerformHandshake sample_server (Some ''n'') None 7 ''ip'' (Some ''r1'') (Some sample_sig) sample_store
     = (ws, Inr res, s')"
    using sample_handshake by blast
  have sv: "postgres_service (pg sample_server) mem_robots"
    using mem_postgres.postgres_service_axioms by (simp add: sample_server_def)
  show ?thesis
    using PerformHandshake_authentic[OF sv h] h trim_samples(2) by auto
qed

end
