(* ===== verification/Data_Structures.thy ===== *)
theory Data_Structures
  imports Prelude
begin

text \<open>
  \<^verbatim>\<open>shared/data_structures\<close> and \<^verbatim>\<open>shared/utils\<close>: doubly linked nodes on a pointer
  heap, the locked map \<^verbatim>\<open>SafeMap\<close>, the linked set \<^verbatim>\<open>SafeSet\<close>, the linked queue
  \<^verbatim>\<open>SafeQueue\<close> in its non-waiting mode, and the guarded channel close.  An operation is one
  atomic step here; \<open>Node_Locks\<close> shows that the node locks make it one.
  The interfaces their clients rely on are the locales \<open>set_impl\<close> and \<open>queue_impl\<close>, with
  the implementations interpreted at the end of their sections.
\<close>

section \<open>Nodes\<close>

text \<open>
  A heap cell is a \<^verbatim>\<open>Node\<close>; a pointer is an address, \<open>None\<close> is \<^verbatim>\<open>nil\<close>.
  Addresses from \<open>fresh\<close> on are unused; the memory of an unused cell is the zero node.
\<close>

record 'a node =
  nval :: 'a
  nnext :: "nat option"
  nprev :: "nat option"

record 'a heap =
  cells :: "nat \<Rightarrow> 'a node"
  fresh :: nat

definition zero_node :: "'a \<Rightarrow> 'a node" where
  "zero_node z = \<lparr>nval = z, nnext = None, nprev = None\<rparr>"

definition set_next :: "nat \<Rightarrow> nat option \<Rightarrow> 'a heap \<Rightarrow> 'a heap" where
  "set_next a x h = h\<lparr>cells := (cells h)(a := (cells h a)\<lparr>nnext := x\<rparr>)\<rparr>"

definition set_prev :: "nat \<Rightarrow> nat option \<Rightarrow> 'a heap \<Rightarrow> 'a heap" where
  "set_prev a x h = h\<lparr>cells := (cells h)(a := (cells h a)\<lparr>nprev := x\<rparr>)\<rparr>"

lemma set_next_fields [simp]:
  "nnext (cells (set_next a x h) b) = (if b = a then x else nnext (cells h b))"
  "nprev (cells (set_next a x h) b) = nprev (cells h b)"
  "nval (cells (set_next a x h) b) = nval (cells h b)"
  "fresh (set_next a x h) = fresh h"
  by (simp_all add: set_next_def)

lemma set_prev_fields [simp]:
  "nprev (cells (set_prev a x h) b) = (if b = a then x else nprev (cells h b))"
  "nnext (cells (set_prev a x h) b) = nnext (cells h b)"
  "nval (cells (set_prev a x h) b) = nval (cells h b)"
  "fresh (set_prev a x h) = fresh h"
  by (simp_all add: set_prev_def)

definition new_node :: "'a node \<Rightarrow> 'a heap \<Rightarrow> nat \<times> 'a heap" where
  "new_node n h = (fresh h, h\<lparr>cells := (cells h)(fresh h := n), fresh := Suc (fresh h)\<rparr>)"

definition AddRight :: "nat \<Rightarrow> 'a \<Rightarrow> 'a heap \<Rightarrow> nat \<times> 'a heap" where
  "AddRight n value h =
     (let nxt = nnext (cells h n);
          (newNode, h1) = new_node \<lparr>nval = value, nnext = nxt, nprev = Some n\<rparr> h;
          h2 = (case nxt of None \<Rightarrow> h1 | Some b \<Rightarrow> set_prev b (Some newNode) h1)
      in (newNode, set_next n (Some newNode) h2))"

definition AddLeft :: "nat \<Rightarrow> 'a \<Rightarrow> 'a heap \<Rightarrow> nat \<times> 'a heap" where
  "AddLeft n value h =
     (let prv = nprev (cells h n);
          (newNode, h1) = new_node \<lparr>nval = value, nnext = Some n, nprev = prv\<rparr> h;
          h2 = (case prv of None \<Rightarrow> h1 | Some b \<Rightarrow> set_next b (Some newNode) h1)
      in (newNode, set_prev n (Some newNode) h2))"

definition RemoveSelf :: "nat \<Rightarrow> 'a heap \<Rightarrow> 'a \<times> 'a heap" where
  "RemoveSelf n h =
     (let h1 = (case nprev (cells h n) of
                  None \<Rightarrow> h | Some p \<Rightarrow> set_next p (nnext (cells h n)) h);
          h2 = (case nnext (cells h1 n) of
                  None \<Rightarrow> h1 | Some q \<Rightarrow> set_prev q (nprev (cells h1 n)) h1)
      in (nval (cells h2 n), h2))"

definition GetValue :: "nat \<Rightarrow> 'a heap \<Rightarrow> 'a" where
  "GetValue n h = nval (cells h n)"

definition SetValue :: "nat \<Rightarrow> 'a \<Rightarrow> 'a heap \<Rightarrow> 'a heap" where
  "SetValue n v h = h\<lparr>cells := (cells h)(n := (cells h n)\<lparr>nval := v\<rparr>)\<rparr>"

definition GetRight :: "nat \<Rightarrow> 'a heap \<Rightarrow> nat option" where
  "GetRight n h = nnext (cells h n)"

definition GetLeft :: "nat \<Rightarrow> 'a heap \<Rightarrow> nat option" where
  "GetLeft n h = nprev (cells h n)"

subsection \<open>Doubly linked segments\<close>

text \<open>
  \<open>dll c p as e\<close>: from node \<open>p\<close> the right pointers lead through the nodes \<open>as\<close> to
  \<open>e\<close>, and each node of \<open>as\<close> points back to its left neighbour.
\<close>

fun dll :: "(nat \<Rightarrow> 'a node) \<Rightarrow> nat \<Rightarrow> nat list \<Rightarrow> nat option \<Rightarrow> bool" where
  "dll c p [] e \<longleftrightarrow> nnext (c p) = e"
| "dll c p (a # as) e \<longleftrightarrow> nnext (c p) = Some a \<and> nprev (c a) = Some p \<and> dll c a as e"

lemma dll_append:
  "dll c p (xs @ a # ys) e \<longleftrightarrow> dll c p xs (Some a) \<and> nprev (c a) = Some (last (p # xs)) \<and> dll c a ys e"
  by (induction xs arbitrary: p) auto

lemma dll_last: "dll c p xs e \<Longrightarrow> nnext (c (last (p # xs))) = e"
  by (induction xs arbitrary: p) auto

text \<open>Frame: cells outside the segment, and fields it does not read, may change.\<close>

lemma dll_cong:
  assumes "dll c p as e"
    and "\<forall>a \<in> set (p # as). nnext (c' a) = nnext (c a)"
    and "\<forall>a \<in> set as. nprev (c' a) = nprev (c a)"
  shows "dll c' p as e"
  using assms by (induction as arbitrary: p) auto

text \<open>Redirecting the last right pointer of a segment redirects its end.\<close>

lemma dll_set_last:
  assumes "dll (cells h) p as e" and "distinct (p # as)" and "l = last (p # as)"
  shows "dll (cells (set_next l e' h)) p as e'"
  using assms
proof (induction as arbitrary: p)
  case (Cons a as)
  have l: "l = last (a # as)" "l \<noteq> p"
    using Cons.prems(2,3) last_in_set[of "a # as"] by auto
  have "dll (cells (set_next l e' h)) a as e'"
    using Cons.IH[of a] Cons.prems l(1) by simp
  then show ?case
    using Cons.prems l(2) by auto
qed simp

section \<open>SafeMap\<close>

text \<open>The locked map is a Go map; \<^verbatim>\<open>(V, bool)\<close> results are options.\<close>

definition NewSafeMap :: "('k, 'v) gomap" where
  "NewSafeMap = []"

definition sm_Set :: "'k \<Rightarrow> 'v \<Rightarrow> ('k, 'v) gomap \<Rightarrow> ('k, 'v) gomap" where
  "sm_Set key value m = AList.update key value m"

definition sm_Get :: "'k \<Rightarrow> ('k, 'v) gomap \<Rightarrow> 'v option" where
  "sm_Get key m = map_of m key"

definition sm_Pop :: "'k \<Rightarrow> ('k, 'v) gomap \<Rightarrow> 'v option \<times> ('k, 'v) gomap" where
  "sm_Pop key m =
     (case map_of m key of
        None \<Rightarrow> (None, m)
      | Some val \<Rightarrow> (Some val, AList.delete key m))"

definition sm_GetOrDefault :: "'k \<Rightarrow> 'v \<Rightarrow> ('k, 'v) gomap \<Rightarrow> 'v \<times> ('k, 'v) gomap" where
  "sm_GetOrDefault key defaultValue m =
     (case map_of m key of
        Some val \<Rightarrow> (val, m)
      | None \<Rightarrow> (defaultValue, AList.update key defaultValue m))"

definition sm_Delete :: "'k \<Rightarrow> ('k, 'v) gomap \<Rightarrow> ('k, 'v) gomap" where
  "sm_Delete key m = AList.delete key m"

definition sm_GetKeys :: "('k, 'v) gomap \<Rightarrow> 'k list" where
  "sm_GetKeys m = map fst m"

text \<open>
  \<open>isEmpty\<close> is the \<^verbatim>\<open>IsEmpty\<close> method of the value type, \<open>None\<close> where the type has
  no such method.
\<close>

definition sm_DeleteIfEmpty ::
  "('v \<Rightarrow> bool) option \<Rightarrow> 'k \<Rightarrow> ('k, 'v) gomap \<Rightarrow> bool \<times> ('k, 'v) gomap" where
  "sm_DeleteIfEmpty isEmpty key m =
     (case map_of m key of
        None \<Rightarrow> (False, m)
      | Some val \<Rightarrow>
          (case isEmpty of
             None \<Rightarrow> (False, m)
           | Some f \<Rightarrow> if f val then (True, AList.delete key m) else (False, m)))"

definition sm_IsEmpty :: "('k, 'v) gomap \<Rightarrow> bool" where
  "sm_IsEmpty m \<longleftrightarrow> m = []"

lemmas sm_defs = NewSafeMap_def sm_Set_def sm_Get_def sm_Pop_def sm_GetOrDefault_def
  sm_Delete_def sm_GetKeys_def sm_DeleteIfEmpty_def sm_IsEmpty_def

lemma wf_sm [simp]:
  "wf_map NewSafeMap"
  "wf_map m \<Longrightarrow> wf_map (sm_Set k v m)"
  "wf_map m \<Longrightarrow> wf_map (snd (sm_Pop k m))"
  "wf_map m \<Longrightarrow> wf_map (snd (sm_GetOrDefault k v m))"
  "wf_map m \<Longrightarrow> wf_map (sm_Delete k m)"
  "wf_map m \<Longrightarrow> wf_map (snd (sm_DeleteIfEmpty f k m))"
  by (auto simp: sm_defs split: option.splits)

section \<open>SafeSet\<close>

record 'a SafeSet =
  heap :: "'a heap"
  head :: nat
  mp :: "('a, nat) gomap"

definition NewSafeSet :: "'a \<Rightarrow> 'a SafeSet" where
  "NewSafeSet z =
     \<lparr>heap = \<lparr>cells = (\<lambda>_. zero_node z), fresh = 1\<rparr>, head = 0, mp = NewSafeMap\<rparr>"

definition ss_Add :: "'a \<Rightarrow> 'a SafeSet \<Rightarrow> 'a SafeSet" where
  "ss_Add value s =
     (case sm_Get value (mp s) of
        Some _ \<Rightarrow> s
      | None \<Rightarrow>
          (let (n, h) = AddRight (head s) value (heap s)
           in s\<lparr>heap := h, mp := sm_Set value n (mp s)\<rparr>))"

definition ss_Remove :: "'a \<Rightarrow> 'a SafeSet \<Rightarrow> 'a SafeSet" where
  "ss_Remove value s =
     (case sm_Get value (mp s) of
        None \<Rightarrow> s
      | Some n \<Rightarrow> s\<lparr>heap := snd (RemoveSelf n (heap s)), mp := sm_Delete value (mp s)\<rparr>)"

text \<open>The loop over the right pointers; \<open>None\<close> would be a loop that never ends.\<close>

partial_function (option) snap_from ::
  "(nat \<Rightarrow> 'a node) \<Rightarrow> nat option \<Rightarrow> 'a list \<Rightarrow> 'a list option" where
  "snap_from c p out =
     (case p of
        None \<Rightarrow> Some out
      | Some a \<Rightarrow> snap_from c (nnext (c a)) (out @ [nval (c a)]))"

definition ss_Snapshot :: "'a SafeSet \<Rightarrow> 'a list option" where
  "ss_Snapshot s = snap_from (cells (heap s)) (nnext (cells (heap s) (head s))) []"

text \<open>\<^verbatim>\<open>Iterate\<close> fills a channel of the snapshot's length with it and closes the channel.\<close>

definition ss_Iterate :: "'a SafeSet \<Rightarrow> 'a list option" where
  "ss_Iterate s = ss_Snapshot s"

definition ss_IsEmpty :: "'a SafeSet \<Rightarrow> bool" where
  "ss_IsEmpty s \<longleftrightarrow> sm_IsEmpty (mp s)"

definition ss_Contains :: "'a \<Rightarrow> 'a SafeSet \<Rightarrow> bool" where
  "ss_Contains value s \<longleftrightarrow> sm_Get value (mp s) \<noteq> None"

text \<open>
  The invariant: the nodes to the right of the head form a linked list of allocated,
  pairwise distinct cells, and the map sends a value to the cell that holds it.
\<close>

definition ss_list :: "'a SafeSet \<Rightarrow> nat list \<Rightarrow> bool" where
  "ss_list s as \<longleftrightarrow>
     dll (cells (heap s)) (head s) as None
     \<and> distinct (head s # as)
     \<and> (\<forall>a \<in> set (head s # as). a < fresh (heap s))
     \<and> (\<forall>v a. map_of (mp s) v = Some a \<longleftrightarrow> a \<in> set as \<and> nval (cells (heap s) a) = v)
     \<and> wf_map (mp s)"

definition ss_inv :: "'a SafeSet \<Rightarrow> bool" where
  "ss_inv s \<longleftrightarrow> (\<exists>as. ss_list s as)"

definition ss_set :: "'a SafeSet \<Rightarrow> 'a set" where
  "ss_set s = dom (map_of (mp s))"

lemma ss_inv_New: "ss_inv (NewSafeSet z)"
  unfolding ss_inv_def
  by (rule exI[of _ "[]"]) (simp add: ss_list_def NewSafeSet_def zero_node_def NewSafeMap_def)

lemma AddRight_cells:
  assumes "AddRight p v h = (n, h')" and "dll (cells h) p as None"
    and "\<forall>a \<in> set (p # as). a < fresh h" and "distinct (p # as)"
  shows "n = fresh h \<and> fresh h' = Suc (fresh h) \<and> dll (cells h') p (n # as) None
    \<and> nval (cells h' n) = v \<and> (\<forall>a. a \<noteq> n \<longrightarrow> nval (cells h' a) = nval (cells h a))"
proof -
  define h1 where "h1 = snd (new_node \<lparr>nval = v, nnext = nnext (cells h p), nprev = Some p\<rparr> h)"
  have h1: "cells h1 = (cells h)(fresh h := \<lparr>nval = v, nnext = nnext (cells h p), nprev = Some p\<rparr>)"
    "fresh h1 = Suc (fresh h)"
    by (simp_all add: h1_def new_node_def)
  show ?thesis
  proof (cases as)
    case Nil
    have "n = fresh h" "h' = set_next p (Some n) h1"
      using assms(1,2) Nil by (auto simp: AddRight_def h1_def new_node_def Let_def)
    then show ?thesis
      using assms(2,3) h1 Nil by auto
  next
    case (Cons b bs)
    have n: "n = fresh h" "h' = set_next p (Some n) (set_prev b (Some n) h1)"
      using assms(1,2) Cons by (auto simp: AddRight_def h1_def new_node_def Let_def)
    have bs: "dll (cells h) b bs None" "nnext (cells h p) = Some b"
      using assms(2) Cons by auto
    have "dll (cells h') b bs None"
      using bs(1) assms(3,4) Cons n h1 by (elim dll_cong) auto
    then show ?thesis
      using bs(2) assms(3,4) h1 n Cons by auto
  qed
qed

lemma ss_Add_list:
  assumes "ss_list s as" and "map_of (mp s) v = None"
  shows "ss_list (ss_Add v s) (fresh (heap s) # as)"
proof -
  obtain n h where nh: "AddRight (head s) v (heap s) = (n, h)"
    by fastforce
  note A = AddRight_cells[OF nh, of as]
  have "ss_Add v s = s\<lparr>heap := h, mp := AList.update v n (mp s)\<rparr>"
    using assms(2) nh by (simp add: ss_Add_def sm_defs)
  moreover have "\<And>a. a \<in> set as \<Longrightarrow> nval (cells (heap s) a) \<noteq> v"
    using assms unfolding ss_list_def by (metis option.distinct(1))
  moreover have "\<forall>a \<in> set (head s # as). a < fresh (heap s)"
    and "\<And>w a. map_of (mp s) w = Some a \<longleftrightarrow> a \<in> set as \<and> nval (cells (heap s) a) = w"
    and "distinct (head s # as)" and "wf_map (mp s)"
    using assms(1) unfolding ss_list_def by auto
  moreover have "n = fresh (heap s)" "fresh h = Suc (fresh (heap s))"
    "dll (cells h) (head s) (n # as) None" "nval (cells h n) = v"
    "\<And>a. a \<noteq> n \<Longrightarrow> nval (cells h a) = nval (cells (heap s) a)"
    using A assms(1) unfolding ss_list_def by auto
  ultimately show ?thesis
    unfolding ss_list_def by (auto split: if_splits simp: less_Suc_eq)
qed

lemma RemoveSelf_cells:
  assumes "dll (cells h) p (xs @ a # ys) None" and "distinct (p # xs @ a # ys)"
    and "RemoveSelf a h = (v, h')"
  shows "v = nval (cells h a) \<and> fresh h' = fresh h \<and> dll (cells h') p (xs @ ys) None
    \<and> (\<forall>b. nval (cells h' b) = nval (cells h b))"
proof -
  obtain l where l: "l = last (p # xs)"
    by blast
  have seg: "dll (cells h) p xs (Some a)" "nprev (cells h a) = Some l" "dll (cells h) a ys None"
    using assms(1) l by (auto simp: dll_append)
  have "l \<in> set (p # xs)"
    unfolding l by (rule last_in_set) simp
  then have la: "l \<noteq> a" "l \<notin> set ys"
    using assms(2) by auto
  have xs: "distinct (p # xs)"
    using assms(2) by simp
  show ?thesis
  proof (cases ys)
    case Nil
    have h': "h' = set_next l None h" "v = nval (cells h a)"
      using assms(3) seg Nil la(1) by (auto simp: RemoveSelf_def Let_def)
    then show ?thesis
      using dll_set_last[OF seg(1) xs l, of None] Nil by simp
  next
    case (Cons b bs)
    have b: "nnext (cells h a) = Some b" "nprev (cells h b) = Some a" "dll (cells h) b bs None"
      using seg(3) Cons by auto
    have neq: "b \<noteq> a" "b \<noteq> l" "b \<notin> set bs" "b \<notin> set (p # xs)" "l \<notin> set bs"
      using assms(2) la(2) Cons by auto
    have h': "h' = set_prev b (Some l) (set_next l (Some b) h)" "v = nval (cells h a)"
      using assms(3) seg(2) b(1) la(1) neq by (auto simp: RemoveSelf_def Let_def)
    have left: "dll (cells h') p xs (Some b)"
      using dll_set_last[OF seg(1) xs l, of "Some b"] neq(4) h'(1) by (elim dll_cong) auto
    have "dll (cells h') b bs None"
      using neq h'(1) by (intro dll_cong[OF b(3)]) auto
    then show ?thesis
      using left h' Cons l by (auto simp: dll_append)
  qed
qed

lemma ss_Remove_list:
  assumes "ss_list s as" and "map_of (mp s) v = Some n"
  shows "\<exists>as'. ss_list (ss_Remove v s) as'"
proof -
  have n: "n \<in> set as" "nval (cells (heap s) n) = v"
    using assms unfolding ss_list_def by blast+
  then obtain xs ys where as: "as = xs @ n # ys"
    by (meson split_list)
  obtain w h where wh: "RemoveSelf n (heap s) = (w, h)"
    by fastforce
  have R: "fresh h = fresh (heap s)" "dll (cells h) (head s) (xs @ ys) None"
    "\<forall>b. nval (cells h b) = nval (cells (heap s) b)"
    using RemoveSelf_cells[OF _ _ wh, of "head s" xs ys] assms(1) as
    unfolding ss_list_def by auto
  have "ss_Remove v s = s\<lparr>heap := h, mp := AList.delete v (mp s)\<rparr>"
    using assms(2) wh by (simp add: ss_Remove_def sm_defs)
  moreover have "\<And>a. a \<in> set as \<Longrightarrow> nval (cells (heap s) a) = v \<Longrightarrow> a = n"
    using assms unfolding ss_list_def by (metis option.inject)
  ultimately have "ss_list (ss_Remove v s) (xs @ ys)"
    using assms(1) R n as unfolding ss_list_def by auto
  then show ?thesis
    by blast
qed

lemma snap_from_dll:
  "dll c p as None \<Longrightarrow> snap_from c (nnext (c p)) out = Some (out @ map (\<lambda>a. nval (c a)) as)"
  by (induction as arbitrary: p out) (simp_all add: snap_from.simps)

lemma ss_Snapshot_list:
  "ss_list s as \<Longrightarrow> ss_Snapshot s = Some (map (\<lambda>a. nval (cells (heap s) a)) as)"
  using snap_from_dll unfolding ss_list_def ss_Snapshot_def by fastforce

lemma ss_list_values:
  assumes "ss_list s as"
  shows "distinct (map (\<lambda>a. nval (cells (heap s) a)) as)"
    and "set (map (\<lambda>a. nval (cells (heap s) a)) as) = ss_set s"
proof -
  have m: "\<And>v a. map_of (mp s) v = Some a \<longleftrightarrow> a \<in> set as \<and> nval (cells (heap s) a) = v"
    and d: "distinct as"
    using assms unfolding ss_list_def by auto
  have "inj_on (\<lambda>a. nval (cells (heap s) a)) (set as)"
    by (rule inj_onI) (metis m option.inject)
  then show "distinct (map (\<lambda>a. nval (cells (heap s) a)) as)"
    using d by (simp add: distinct_map)
  show "set (map (\<lambda>a. nval (cells (heap s) a)) as) = ss_set s"
    using m by (auto simp: ss_set_def)
qed

subsection \<open>The set interface\<close>

text \<open>What the event bus relies on of a subscriber set.\<close>

locale set_impl =
  fixes new :: 's
    and add remove :: "'a \<Rightarrow> 's \<Rightarrow> 's"
    and contains :: "'a \<Rightarrow> 's \<Rightarrow> bool"
    and is_empty :: "'s \<Rightarrow> bool"
    and snapshot :: "'s \<Rightarrow> 'a list option"
    and elems :: "'s \<Rightarrow> 'a set"
    and inv :: "'s \<Rightarrow> bool"
  assumes inv_new: "inv new"
    and elems_new: "elems new = {}"
    and inv_add: "inv s \<Longrightarrow> inv (add x s)"
    and elems_add: "inv s \<Longrightarrow> elems (add x s) = insert x (elems s)"
    and inv_remove: "inv s \<Longrightarrow> inv (remove x s)"
    and elems_remove: "inv s \<Longrightarrow> elems (remove x s) = elems s - {x}"
    and contains_iff: "inv s \<Longrightarrow> contains x s \<longleftrightarrow> x \<in> elems s"
    and is_empty_iff: "inv s \<Longrightarrow> is_empty s \<longleftrightarrow> elems s = {}"
    and snapshot_some: "inv s \<Longrightarrow> \<exists>xs. snapshot s = Some xs \<and> distinct xs \<and> set xs = elems s"
begin

lemma finite_elems: "inv s \<Longrightarrow> finite (elems s)"
  by (metis List.finite_set snapshot_some)

text \<open>A client's history: \<open>Inl x\<close> adds \<open>x\<close>, \<open>Inr x\<close> removes it.\<close>

lemma run_ops:
  assumes "inv s"
  shows "inv (fold (case_sum add remove) ops s)
    \<and> elems (fold (case_sum add remove) ops s)
      = fold (case_sum insert (\<lambda>x A. A - {x})) ops (elems s)"
  using assms
proof (induction ops arbitrary: s)
  case (Cons opr ops)
  then show ?case
    by (cases opr) (simp_all add: inv_add elems_add inv_remove elems_remove)
qed simp

end

interpretation ss: set_impl "NewSafeSet z" ss_Add ss_Remove ss_Contains ss_IsEmpty ss_Snapshot ss_set ss_inv
proof unfold_locales
  show "ss_inv (NewSafeSet z)"
    by (rule ss_inv_New)
  show "ss_set (NewSafeSet z) = {}"
    by (simp add: ss_set_def NewSafeSet_def NewSafeMap_def)
next
  fix s :: "'a SafeSet" and x
  assume s: "ss_inv s"
  then obtain as where as: "ss_list s as"
    by (auto simp: ss_inv_def)
  show "ss_inv (ss_Add x s)"
  proof (cases "map_of (mp s) x")
    case None
    then show ?thesis using ss_Add_list[OF as] by (auto simp: ss_inv_def)
  next
    case (Some n)
    then show ?thesis using s by (simp add: ss_Add_def sm_defs)
  qed
  show "ss_set (ss_Add x s) = insert x (ss_set s)"
    by (auto simp: ss_set_def ss_Add_def sm_defs Let_def split: option.splits prod.splits)
  show "ss_inv (ss_Remove x s)"
  proof (cases "map_of (mp s) x")
    case None
    then show ?thesis using s by (simp add: ss_Remove_def sm_defs)
  next
    case (Some n)
    then show ?thesis using ss_Remove_list[OF as] by (simp add: ss_inv_def)
  qed
  show "ss_set (ss_Remove x s) = ss_set s - {x}"
    by (auto simp: ss_set_def ss_Remove_def sm_defs split: option.splits)
  show "ss_Contains x s \<longleftrightarrow> x \<in> ss_set s"
    by (auto simp: ss_set_def ss_Contains_def sm_defs)
  show "ss_IsEmpty s \<longleftrightarrow> ss_set s = {}"
    by (simp add: ss_set_def ss_IsEmpty_def sm_defs)
  show "\<exists>xs. ss_Snapshot s = Some xs \<and> distinct xs \<and> set xs = ss_set s"
    using ss_Snapshot_list[OF as] ss_list_values[OF as] by blast
qed

section \<open>SafeQueue, non-waiting mode\<close>

text \<open>
  With \<^verbatim>\<open>useWait = false\<close> the queue is two dummy nodes with the elements between them
  and an atomic length counter; the channels of the waiting mode are unused.
\<close>

record 'a SafeQueue =
  qheap :: "'a heap"
  qhead :: nat
  qtail :: nat
  qlen :: int

definition NewSafeQueue :: "'a \<Rightarrow> 'a SafeQueue" where
  "NewSafeQueue z =
     (let (hd, h1) = new_node (zero_node z) \<lparr>cells = (\<lambda>_. zero_node z), fresh = 0\<rparr>;
          (tl, h2) = new_node (zero_node z) h1
      in \<lparr>qheap = set_prev tl (Some hd) (set_next hd (Some tl) h2), qhead = hd, qtail = tl, qlen = 0\<rparr>)"

definition sq_Enqueue :: "'a \<Rightarrow> 'a SafeQueue \<Rightarrow> 'a SafeQueue" where
  "sq_Enqueue value q =
     q\<lparr>qheap := snd (AddLeft (qtail q) value (qheap q)), qlen := wrap64 (qlen q + 1)\<rparr>"

text \<open>The helper \<^verbatim>\<open>dequeue\<close>; a nil right pointer of the head would be a nil dereference.\<close>

definition sq_dequeue :: "'a SafeQueue \<Rightarrow> 'a option \<times> 'a SafeQueue" where
  "sq_dequeue q =
     (case nnext (cells (qheap q) (qhead q)) of
        None \<Rightarrow> (None, q)
      | Some n \<Rightarrow>
          if n = qtail q then (None, q)
          else (let (value, h) = RemoveSelf n (qheap q) in (Some value, q\<lparr>qheap := h\<rparr>)))"

definition sq_Dequeue :: "'a SafeQueue \<Rightarrow> 'a option \<times> 'a SafeQueue" where
  "sq_Dequeue q = (let (r, q') = sq_dequeue q in (r, q'\<lparr>qlen := wrap64 (qlen q' - 1)\<rparr>))"

definition sq_Size :: "'a SafeQueue \<Rightarrow> int" where
  "sq_Size q = qlen q"

definition sq_list :: "'a SafeQueue \<Rightarrow> nat list \<Rightarrow> bool" where
  "sq_list q as \<longleftrightarrow>
     dll (cells (qheap q)) (qhead q) (as @ [qtail q]) None
     \<and> distinct (qhead q # as @ [qtail q])
     \<and> (\<forall>a \<in> set (qhead q # as @ [qtail q]). a < fresh (qheap q))"

definition sq_inv :: "'a SafeQueue \<Rightarrow> bool" where
  "sq_inv q \<longleftrightarrow> (\<exists>as. sq_list q as)"

text \<open>The queue's contents, as the loop over the right pointers up to the tail reads them.\<close>

definition sq_abs :: "'a SafeQueue \<Rightarrow> 'a list" where
  "sq_abs q = (case snap_from (cells (qheap q)) (nnext (cells (qheap q) (qhead q))) [] of
     Some vs \<Rightarrow> butlast vs | None \<Rightarrow> [])"

lemma sq_abs_list:
  "sq_list q as \<Longrightarrow> sq_abs q = map (\<lambda>a. nval (cells (qheap q) a)) as"
  using snap_from_dll[of "cells (qheap q)" "qhead q" "as @ [qtail q]" "[]"]
  by (simp add: sq_abs_def sq_list_def butlast_append)

lemma sq_qlen [simp]:
  "sq_list (q\<lparr>qlen := x\<rparr>) as = sq_list q as" "sq_abs (q\<lparr>qlen := x\<rparr>) = sq_abs q"
  by (simp_all add: sq_list_def sq_abs_def)

lemma sq_list_New: "sq_list (NewSafeQueue z) []"
  by (simp add: sq_list_def NewSafeQueue_def new_node_def zero_node_def set_prev_def set_next_def Let_def)

lemma AddLeft_cells:
  assumes "AddLeft t v h = (n, h')" and "dll (cells h) p (as @ [t]) None"
    and "\<forall>a \<in> set (p # as @ [t]). a < fresh h" and "distinct (p # as @ [t])"
  shows "n = fresh h \<and> fresh h' = Suc (fresh h) \<and> dll (cells h') p (as @ [n, t]) None
    \<and> nval (cells h' n) = v \<and> (\<forall>a. a \<noteq> n \<longrightarrow> nval (cells h' a) = nval (cells h a))"
proof -
  obtain l where l: "l = last (p # as)"
    by blast
  have seg: "dll (cells h) p as (Some t)" "nprev (cells h t) = Some l" "nnext (cells h t) = None"
    using assms(2) l by (auto simp: dll_append)
  have "l \<in> set (p # as)"
    unfolding l by (rule last_in_set) simp
  then have lt: "l \<noteq> t" "l < fresh h" and t: "t < fresh h" "t \<notin> set (p # as)"
    using assms(3,4) by auto
  define h1 where "h1 = snd (new_node \<lparr>nval = v, nnext = Some t, nprev = Some l\<rparr> h)"
  have h1: "cells h1 = (cells h)(fresh h := \<lparr>nval = v, nnext = Some t, nprev = Some l\<rparr>)"
    "fresh h1 = Suc (fresh h)"
    by (simp_all add: h1_def new_node_def)
  have n: "n = fresh h" "h' = set_prev t (Some n) (set_next l (Some n) h1)"
    using assms(1) seg(2) by (auto simp: AddLeft_def h1_def new_node_def Let_def)
  have "dll (cells h1) p as (Some t)"
    using seg(1) assms(3) h1 by (elim dll_cong) auto
  then have "dll (cells (set_next l (Some n) h1)) p as (Some n)"
    using dll_set_last[of h1 p as "Some t" l "Some n"] assms(4) l by simp
  then have "dll (cells h') p as (Some n)"
    using t n(2) by (elim dll_cong) auto
  then show ?thesis
    using n h1 seg lt t l by (auto simp: dll_append)
qed

lemma sq_Enqueue_list:
  assumes "sq_list q as"
  shows "sq_list (sq_Enqueue v q) (as @ [fresh (qheap q)])
    \<and> nval (cells (qheap (sq_Enqueue v q)) (fresh (qheap q))) = v
    \<and> (\<forall>a \<in> set as. nval (cells (qheap (sq_Enqueue v q)) a) = nval (cells (qheap q) a))"
proof -
  obtain n h where nh: "AddLeft (qtail q) v (qheap q) = (n, h)"
    by fastforce
  note A = AddLeft_cells[OF nh, of "qhead q" as]
  show ?thesis
    using A assms nh unfolding sq_list_def by (auto simp: sq_Enqueue_def)
qed

lemma sq_dequeue_empty: "sq_list q [] \<Longrightarrow> sq_dequeue q = (None, q)"
  by (simp add: sq_list_def sq_dequeue_def)

lemma sq_dequeue_list:
  assumes "sq_list q (a # as)"
  shows "\<exists>q'. sq_dequeue q = (Some (nval (cells (qheap q) a)), q') \<and> sq_list q' as
    \<and> qlen q' = qlen q \<and> (\<forall>b. nval (cells (qheap q') b) = nval (cells (qheap q) b))"
proof -
  obtain w h where wh: "RemoveSelf a (qheap q) = (w, h)"
    by fastforce
  have R: "w = nval (cells (qheap q) a)" "fresh h = fresh (qheap q)"
    "dll (cells h) (qhead q) (as @ [qtail q]) None"
    "\<forall>b. nval (cells h b) = nval (cells (qheap q) b)"
    using RemoveSelf_cells[OF _ _ wh, of "qhead q" "[]" "as @ [qtail q]"] assms
    unfolding sq_list_def by auto
  have "sq_dequeue q = (Some w, q\<lparr>qheap := h\<rparr>)"
    using assms wh by (auto simp: sq_list_def sq_dequeue_def)
  then show ?thesis
    using R assms by (auto simp: sq_list_def)
qed

subsection \<open>The queue interface\<close>

locale queue_impl =
  fixes new :: 'q
    and enq :: "'a \<Rightarrow> 'q \<Rightarrow> 'q"
    and deq :: "'q \<Rightarrow> 'a option \<times> 'q"
    and contents :: "'q \<Rightarrow> 'a list"
    and inv :: "'q \<Rightarrow> bool"
  assumes inv_new: "inv new"
    and contents_new: "contents new = []"
    and inv_enq: "inv q \<Longrightarrow> inv (enq x q)"
    and contents_enq: "inv q \<Longrightarrow> contents (enq x q) = contents q @ [x]"
    and inv_deq: "inv q \<Longrightarrow> inv (snd (deq q))"
    and deq_nil: "inv q \<Longrightarrow> contents q = [] \<Longrightarrow> fst (deq q) = None \<and> contents (snd (deq q)) = []"
    and deq_cons: "inv q \<Longrightarrow> contents q = x # xs \<Longrightarrow>
      fst (deq q) = Some x \<and> contents (snd (deq q)) = xs"
begin

fun drain :: "nat \<Rightarrow> 'q \<Rightarrow> 'a option list" where
  "drain 0 q = []"
| "drain (Suc n) q = fst (deq q) # drain n (snd (deq q))"

lemma enq_all: "inv q \<Longrightarrow> inv (fold enq xs q) \<and> contents (fold enq xs q) = contents q @ xs"
  by (induction xs arbitrary: q) (simp_all add: inv_enq contents_enq)

lemma drain_contents:
  "inv q \<Longrightarrow> drain (length (contents q)) q = map Some (contents q)"
proof (induction "contents q" arbitrary: q)
  case Nil
  then show ?case by (metis drain.simps(1) list.map(1) list.size(3))
next
  case (Cons x xs)
  have d: "fst (deq q) = Some x" "contents (snd (deq q)) = xs" "inv (snd (deq q))"
    using deq_cons[OF Cons.prems Cons.hyps(2)[symmetric]] inv_deq[OF Cons.prems] by auto
  then have "drain (length xs) (snd (deq q)) = map Some xs"
    using Cons.hyps(1)[of "snd (deq q)"] by simp
  then show ?case
    using d(1) Cons.hyps(2)[symmetric] by simp
qed

lemma fifo: "drain (length xs) (fold enq xs new) = map Some xs"
  using enq_all[OF inv_new, of xs] drain_contents[of "fold enq xs new"] by (simp add: contents_new)

end

interpretation sq: queue_impl "NewSafeQueue z" sq_Enqueue sq_Dequeue sq_abs sq_inv
proof unfold_locales
  show "sq_inv (NewSafeQueue z)" "sq_abs (NewSafeQueue z) = []"
    using sq_list_New[of z] sq_abs_list[OF sq_list_New, of z] by (auto simp: sq_inv_def)
next
  fix q :: "'a SafeQueue" and x
  assume "sq_inv q"
  then obtain as where as: "sq_list q as"
    by (auto simp: sq_inv_def)
  note E = sq_Enqueue_list[OF as, of x]
  show "sq_inv (sq_Enqueue x q)"
    using E by (auto simp: sq_inv_def)
  show "sq_abs (sq_Enqueue x q) = sq_abs q @ [x]"
    using E sq_abs_list[OF as] sq_abs_list[of "sq_Enqueue x q" "as @ [fresh (qheap q)]"] by simp
  show "sq_inv (snd (sq_Dequeue q))"
  proof (cases as)
    case Nil
    then show ?thesis
      using as sq_dequeue_empty[of q] by (auto simp: sq_inv_def sq_Dequeue_def)
  next
    case (Cons a bs)
    obtain q' where "sq_dequeue q = (Some (nval (cells (qheap q) a)), q')" "sq_list q' bs"
      using sq_dequeue_list[of q a bs] as Cons by blast
    then show ?thesis
      by (auto simp: sq_inv_def sq_Dequeue_def)
  qed
  show "sq_abs q = [] \<Longrightarrow> fst (sq_Dequeue q) = None \<and> sq_abs (snd (sq_Dequeue q)) = []"
    using as sq_abs_list[OF as] sq_dequeue_empty[of q]
    by (auto simp: sq_Dequeue_def sq_abs_def Let_def)
  show "fst (sq_Dequeue q) = Some x \<and> sq_abs (snd (sq_Dequeue q)) = xs"
    if xs: "sq_abs q = x # xs" for xs
  proof -
    obtain a bs where ab: "as = a # bs" "nval (cells (qheap q) a) = x"
      "map (\<lambda>a. nval (cells (qheap q) a)) bs = xs"
      using xs sq_abs_list[OF as] by auto
    obtain q' where q': "sq_dequeue q = (Some x, q')" "sq_list q' bs"
      "\<forall>b. nval (cells (qheap q') b) = nval (cells (qheap q) b)"
      using sq_dequeue_list[of q a bs] as ab by blast
    then have "sq_abs q' = xs"
      using ab(3) sq_abs_list[of q' bs] by simp
    then show ?thesis
      using q'(1) by (simp add: sq_Dequeue_def)
  qed
qed

section \<open>Closing channels\<close>

text \<open>
  A channel value: \<open>ready\<close> holds the values a receive would get at once (buffered, or
  offered by a blocked sender).  \<open>None\<close> in place of a channel is a nil channel.
\<close>

record 'a chan =
  ready :: "'a list"
  chan_closed :: bool

datatype 'a close_result = Closed "'a chan option" | Panic

text \<open>
  \<^verbatim>\<open>isChannelClosed\<close>: a non-blocking receive.  The pair is its verdict and the channel
  after the receive, which removes a ready value.
\<close>

definition isChannelClosed :: "'a chan option \<Rightarrow> bool \<times> 'a chan option" where
  "isChannelClosed ch =
     (case ch of
        None \<Rightarrow> (False, None)
      | Some c \<Rightarrow>
          (case ready c of
             v # vs \<Rightarrow> (False, Some (c\<lparr>ready := vs\<rparr>))
           | [] \<Rightarrow> (chan_closed c, Some c)))"

text \<open>\<^verbatim>\<open>val.Close()\<close>: closing a nil or a closed channel panics.\<close>

definition chan_Close :: "'a chan option \<Rightarrow> 'a close_result" where
  "chan_Close ch =
     (case ch of
        None \<Rightarrow> Panic
      | Some c \<Rightarrow> if chan_closed c then Panic else Closed (Some (c\<lparr>chan_closed := True\<rparr>)))"

definition SafeCloseChannel :: "'a chan option \<Rightarrow> 'a close_result" where
  "SafeCloseChannel ch =
     (let (closed, ch') = isChannelClosed ch
      in if closed then Closed ch' else chan_Close ch')"

text \<open>\<^verbatim>\<open>SafeClose\<close> of nothing, of something with a \<^verbatim>\<open>Close\<close> method (whose error is dropped),
  and of a channel.\<close>

datatype 'a closer = NoCloser | HasClose "string option" | ChanCloser "'a chan option"

fun SafeClose :: "'a closer \<Rightarrow> 'a close_result" where
  "SafeClose NoCloser = Closed None"
| "SafeClose (HasClose err) = Closed None"
| "SafeClose (ChanCloser ch) = SafeCloseChannel ch"

section \<open>Properties\<close>

text \<open>C31: A SafeSet behaves as a set.  After any sequence of \<^verbatim>\<open>Add\<close> (\<open>Inl\<close>) and
  \<^verbatim>\<open>Remove\<close> (\<open>Inr\<close>) on a new set, the linked list and the map agree with the
  mathematical set: \<^verbatim>\<open>Snapshot\<close> terminates and lists each element once,
  \<^verbatim>\<open>Contains\<close> and \<^verbatim>\<open>IsEmpty\<close> answer membership and emptiness.\<close>

theorem SafeSet_refines_set:
  fixes z :: 'a and ops :: "('a + 'a) list"
  defines "s \<equiv> fold (case_sum ss_Add ss_Remove) ops (NewSafeSet z)"
    and "A \<equiv> fold (case_sum insert (\<lambda>x A. A - {x})) ops {}"
  shows "(\<exists>xs. ss_Snapshot s = Some xs \<and> distinct xs \<and> set xs = A)
    \<and> (\<forall>x. ss_Contains x s \<longleftrightarrow> x \<in> A) \<and> (ss_IsEmpty s \<longleftrightarrow> A = {})"
proof -
  have "ss_inv s" "ss_set s = A"
    using ss.run_ops[OF ss.inv_new[of z], of ops] ss.elems_new[of z] by (simp_all add: s_def A_def)
  then show ?thesis
    using ss.snapshot_some ss.contains_iff ss.is_empty_iff by metis
qed

text \<open>A client's history of a queue: \<open>Some x\<close> enqueues \<open>x\<close>, \<open>None\<close> dequeues.\<close>

fun sq_run :: "'a option list \<Rightarrow> 'a SafeQueue \<Rightarrow> 'a option list" where
  "sq_run [] q = []"
| "sq_run (Some x # ops) q = sq_run ops (sq_Enqueue x q)"
| "sq_run (None # ops) q = (case sq_Dequeue q of (r, q') \<Rightarrow> r # sq_run ops q')"

fun list_run :: "'a option list \<Rightarrow> 'a list \<Rightarrow> 'a option list" where
  "list_run [] xs = []"
| "list_run (Some x # ops) xs = list_run ops (xs @ [x])"
| "list_run (None # ops) xs =
     (case xs of [] \<Rightarrow> None # list_run ops [] | y # ys \<Rightarrow> Some y # list_run ops ys)"

lemma sq_run_abs: "sq_inv q \<Longrightarrow> sq_run ops q = list_run ops (sq_abs q)"
proof (induction ops arbitrary: q)
  case (Cons opr ops)
  show ?case
  proof (cases opr)
    case None
    obtain r q' where d: "sq_Dequeue q = (r, q')"
      by (cases "sq_Dequeue q")
    have "sq_inv q'"
      using sq.inv_deq[OF Cons.prems] d by simp
    then show ?thesis
      using None d Cons.IH[of q'] sq.deq_nil[OF Cons.prems] sq.deq_cons[OF Cons.prems]
      by (cases "sq_abs q") auto
  next
    case (Some x)
    then show ?thesis
      using Cons.IH[OF sq.inv_enq[OF Cons.prems, of x]] sq.contents_enq[OF Cons.prems, of x] by simp
  qed
qed simp

text \<open>A SafeQueue without waiting is a FIFO queue: for every sequence of enqueues and
  dequeues on a new queue, the answers are those of a list used as a queue, empty
  dequeues included.\<close>

theorem SafeQueue_refines_fifo: "sq_run ops (NewSafeQueue z) = list_run ops []"
  using sq_run_abs[OF sq.inv_new[of z], of ops] sq.contents_new[of z] by simp

text \<open>Dequeuing from an empty non-waiting queue decrements the length counter all the
  same: \<^verbatim>\<open>Size\<close> of a new queue is -1 after one failed \<^verbatim>\<open>Dequeue\<close>, and counts one
  element too few from then on.\<close>

theorem SafeQueue_size_negative:
  "fst (sq_Dequeue (NewSafeQueue z)) = None
   \<and> sq_Size (snd (sq_Dequeue (NewSafeQueue z))) = -1
   \<and> sq_Size (sq_Enqueue x (snd (sq_Dequeue (NewSafeQueue z)))) = 0"
  by (simp add: sq_Dequeue_def sq_dequeue_def NewSafeQueue_def sq_Size_def sq_Enqueue_def new_node_def
      set_next_def set_prev_def zero_node_def Let_def in64_def split: prod.splits)

text \<open>\<^verbatim>\<open>SafeCloseChannel\<close> panics exactly on a nil channel and on a closed channel that
  still holds values; on an open channel that holds a value it discards that value.\<close>

theorem SafeCloseChannel_panics:
  "SafeCloseChannel ch = Panic \<longleftrightarrow>
     (case ch of None \<Rightarrow> True | Some c \<Rightarrow> chan_closed c \<and> ready c \<noteq> [])"
  by (auto simp: SafeCloseChannel_def isChannelClosed_def chan_Close_def Let_def
      split: option.splits list.splits)

end
