(* ===== verification/Event_Bus.thy ===== *)
theory Event_Bus
  imports Data_Structures
begin

text \<open>
  \<^verbatim>\<open>shared/event_bus\<close>: the in-process publish/subscribe bus.  Its state is the two maps
  of \<^verbatim>\<open>EventBus_t\<close>, built from the sets and maps of \<^theory_text>\<open>Data_Structures\<close>; a
  handler closure is a value of the type variable \<open>'h\<close>.  The bus refines a finite map
  from (event type, subscriber) to handler, \<open>eb_abs\<close>; the locale \<open>event_bus\<close> states
  that contract for its clients.
\<close>

text \<open>A subscriber is its \<^verbatim>\<open>ID\<close>; the zero value is the empty ID.\<close>

type_synonym Subscriber = string

record 'h EventBus_t =
  subscriptions :: "(string, Subscriber SafeSet) gomap"
  handlers :: "(Subscriber, (string, 'h) gomap) gomap"

datatype 'd event = Event (GetType: string) (GetData: "'d option")

definition EVENT_BUS_BUFFER_SIZE :: int where
  "EVENT_BUS_BUFFER_SIZE = 1000"

definition NewEventBus :: "'h EventBus_t" where
  "NewEventBus = \<lparr>subscriptions = NewSafeMap, handlers = NewSafeMap\<rparr>"

text \<open>\<open>newID\<close> is the identifier that \<^verbatim>\<open>NewSubscriber\<close> (a random UUID) would draw.\<close>

definition Subscribe ::
  "string \<Rightarrow> string \<Rightarrow> Subscriber option \<Rightarrow> 'h \<Rightarrow> 'h EventBus_t \<Rightarrow> Subscriber \<times> 'h EventBus_t" where
  "Subscribe newID eventType subscriber handler eb =
     (let sub = (case subscriber of
                   None \<Rightarrow> newID
                 | Some s \<Rightarrow> if eventType = [] then newID else s);
          (hm, hs) = sm_GetOrDefault sub NewSafeMap (handlers eb);
          hs' = sm_Set sub (sm_Set eventType handler hm) hs;
          (st, ss) = sm_GetOrDefault eventType (NewSafeSet []) (subscriptions eb);
          ss' = sm_Set eventType (ss_Add sub st) ss
      in (sub, \<lparr>subscriptions = ss', handlers = hs'\<rparr>))"

text \<open>The body of \<^verbatim>\<open>Unsubscribe\<close> for a non-empty event type.\<close>

definition unsubscribe_one :: "string \<Rightarrow> Subscriber \<Rightarrow> 'h EventBus_t \<Rightarrow> 'h EventBus_t" where
  "unsubscribe_one eventType sub eb =
     (let ss = (case sm_Get eventType (subscriptions eb) of
                  None \<Rightarrow> subscriptions eb
                | Some st \<Rightarrow>
                    snd (sm_DeleteIfEmpty (Some ss_IsEmpty) eventType
                           (sm_Set eventType (ss_Remove sub st) (subscriptions eb))));
          hs = (case sm_Get sub (handlers eb) of
                  None \<Rightarrow> handlers eb
                | Some hm \<Rightarrow>
                    snd (sm_DeleteIfEmpty (Some sm_IsEmpty) sub
                           (sm_Set sub (sm_Delete eventType hm) (handlers eb))))
      in \<lparr>subscriptions = ss, handlers = hs\<rparr>)"

text \<open>
  \<^verbatim>\<open>Unsubscribe\<close> calls itself for each event of the subscriber when the event type is
  empty.  The first argument bounds the depth of these calls; \<open>None\<close> means it was used
  up, that is, the Go call stack would still be growing.
\<close>

fun Unsubscribe :: "nat \<Rightarrow> string \<Rightarrow> Subscriber option \<Rightarrow> 'h EventBus_t \<Rightarrow> 'h EventBus_t option"
and Unsubscribe_each :: "nat \<Rightarrow> string list \<Rightarrow> Subscriber option \<Rightarrow> 'h EventBus_t \<Rightarrow> 'h EventBus_t option" where
  "Unsubscribe n eventType None eb = Some eb"
| "Unsubscribe 0 eventType (Some sub) eb = None"
| "Unsubscribe (Suc n) eventType (Some sub) eb =
     (if eventType = [] then
        (case sm_Get sub (handlers eb) of
           None \<Rightarrow> Some eb
         | Some events \<Rightarrow> Unsubscribe_each n (sm_GetKeys events) (Some sub) eb)
      else Some (unsubscribe_one eventType sub eb))"
| "Unsubscribe_each n [] sub eb = Some eb"
| "Unsubscribe_each n (e # es) sub eb =
     (case Unsubscribe n e sub eb of
        None \<Rightarrow> None
      | Some eb' \<Rightarrow> Unsubscribe_each n es sub eb')"

text \<open>
  What one \<^verbatim>\<open>Publish\<close> does: the handlers it starts (with their subscribers), the
  subscribers it drops because the bus is saturated, those it schedules for removal, and
  the in-flight counter after it.
\<close>

record 'h publish =
  started :: "(Subscriber \<times> 'h) list"
  dropped :: "Subscriber list"
  stale :: "Subscriber list"
  inFlight :: int

fun deliver :: "'h EventBus_t \<Rightarrow> string \<Rightarrow> Subscriber list \<Rightarrow> 'h publish \<Rightarrow> 'h publish" where
  "deliver eb eventType [] p = p"
| "deliver eb eventType (sub # subs) p =
     deliver eb eventType subs
       (case sm_Get sub (handlers eb) of
          None \<Rightarrow> p\<lparr>stale := stale p @ [sub]\<rparr>
        | Some mp' \<Rightarrow>
            (case sm_Get eventType mp' of
               None \<Rightarrow> p\<lparr>stale := stale p @ [sub]\<rparr>
             | Some handler \<Rightarrow>
                 if inFlight p \<ge> EVENT_BUS_BUFFER_SIZE then p\<lparr>dropped := dropped p @ [sub]\<rparr>
                 else p\<lparr>started := started p @ [(sub, handler)], inFlight := wrap64 (inFlight p + 1)\<rparr>))"

definition Publish :: "'d event option \<Rightarrow> int \<Rightarrow> 'h EventBus_t \<Rightarrow> 'h publish option" where
  "Publish event fl eb =
     (let p0 = \<lparr>started = [], dropped = [], stale = [], inFlight = fl\<rparr>
      in case event of
           None \<Rightarrow> Some p0
         | Some e \<Rightarrow>
             if GetType e = [] then Some p0
             else (case sm_Get (GetType e) (subscriptions eb) of
                     None \<Rightarrow> Some p0
                   | Some st \<Rightarrow>
                       (case ss_Snapshot st of
                          None \<Rightarrow> None
                        | Some subs \<Rightarrow> Some (deliver eb (GetType e) subs p0))))"

definition PublishData :: "string \<Rightarrow> 'd option \<Rightarrow> int \<Rightarrow> 'h EventBus_t \<Rightarrow> 'h publish option" where
  "PublishData eventType data fl eb =
     (if eventType = [] \<or> data = None
      then Some \<lparr>started = [], dropped = [], stale = [], inFlight = fl\<rparr>
      else Publish (Some (Event eventType data)) fl eb)"

section \<open>Invariant and abstraction\<close>

definition eb_abs :: "'h EventBus_t \<Rightarrow> string \<times> Subscriber \<Rightarrow> 'h option" where
  "eb_abs eb = (\<lambda>(ev, sub).
     (case map_of (handlers eb) sub of None \<Rightarrow> None | Some hm \<Rightarrow> map_of hm ev))"

definition eb_inv :: "'h EventBus_t \<Rightarrow> bool" where
  "eb_inv eb \<longleftrightarrow>
     wf_map (subscriptions eb) \<and> wf_map (handlers eb)
     \<and> (\<forall>ev st. map_of (subscriptions eb) ev = Some st \<longrightarrow>
          ss_inv st \<and> ss_set st = {sub. eb_abs eb (ev, sub) \<noteq> None} \<and> ss_set st \<noteq> {})
     \<and> (\<forall>ev sub. map_of (subscriptions eb) ev = None \<longrightarrow> eb_abs eb (ev, sub) = None)
     \<and> (\<forall>sub hm. map_of (handlers eb) sub = Some hm \<longrightarrow> wf_map hm \<and> hm \<noteq> [])"

lemma eb_invD:
  assumes "eb_inv eb"
  shows "wf_map (subscriptions eb)" "wf_map (handlers eb)"
    and "map_of (subscriptions eb) ev = Some st \<Longrightarrow> ss_inv st"
    and "map_of (subscriptions eb) ev = Some st \<Longrightarrow> ss_set st = {sub. eb_abs eb (ev, sub) \<noteq> None}"
    and "map_of (subscriptions eb) ev = Some st \<Longrightarrow> ss_set st \<noteq> {}"
    and "map_of (subscriptions eb) ev = None \<Longrightarrow> eb_abs eb (ev, sub) = None"
    and "map_of (handlers eb) sub = Some hm \<Longrightarrow> wf_map hm \<and> hm \<noteq> []"
  using assms unfolding eb_inv_def by blast+

lemma eb_inv_New: "eb_inv NewEventBus"
  by (simp add: eb_inv_def NewEventBus_def NewSafeMap_def eb_abs_def)

lemma eb_abs_New: "eb_abs NewEventBus = Map.empty"
  by (auto simp: NewEventBus_def NewSafeMap_def eb_abs_def fun_eq_iff)

definition sub_id :: "string \<Rightarrow> string \<Rightarrow> Subscriber option \<Rightarrow> Subscriber" where
  "sub_id newID ev s =
     (case s of None \<Rightarrow> newID | Some s \<Rightarrow> if ev = [] then newID else s)"

lemma Subscribe_abs:
  assumes "Subscribe newID ev s h eb = (sub, eb')"
  shows "sub = sub_id newID ev s" and "eb_abs eb' = (eb_abs eb)((ev, sub) \<mapsto> h)"
  using assms
  by (auto simp: Subscribe_def sub_id_def eb_abs_def sm_defs Let_def fun_eq_iff
      split: option.splits prod.splits if_splits)

lemma Subscribe_sets:
  assumes "Subscribe newID ev s h eb = (sub, eb')"
  shows "map_of (subscriptions eb') =
    (map_of (subscriptions eb))(ev \<mapsto>
       ss_Add sub (case map_of (subscriptions eb) ev of None \<Rightarrow> NewSafeSet [] | Some st \<Rightarrow> st))"
  using assms
  by (auto simp: Subscribe_def sm_defs Let_def fun_eq_iff split: option.splits prod.splits)

lemma Subscribe_handlers:
  assumes "Subscribe newID ev s h eb = (sub, eb')"
  shows "map_of (handlers eb') =
    (map_of (handlers eb))(sub \<mapsto>
       AList.update ev h (case map_of (handlers eb) sub of None \<Rightarrow> [] | Some hm \<Rightarrow> hm))"
  using assms
  by (auto simp: Subscribe_def sm_defs Let_def fun_eq_iff split: option.splits prod.splits)

lemma Subscribe_wf:
  assumes "Subscribe newID ev s h eb = (sub, eb')"
    and "wf_map (subscriptions eb)" and "wf_map (handlers eb)"
  shows "wf_map (subscriptions eb')" "wf_map (handlers eb')"
  using assms
  by (auto simp: Subscribe_def sm_defs Let_def split: option.splits prod.splits)

lemma Subscribe_inv:
  assumes "eb_inv eb" and "Subscribe newID ev s h eb = (sub, eb')"
  shows "eb_inv eb'"
proof -
  note A = Subscribe_abs(2)[OF assms(2)] and S = Subscribe_sets[OF assms(2)]
  let ?st = "case map_of (subscriptions eb) ev of None \<Rightarrow> NewSafeSet [] | Some st \<Rightarrow> st"
  note inv = eb_invD[OF assms(1)]
  have wf: "wf_map (subscriptions eb')" "wf_map (handlers eb')"
    using Subscribe_wf[OF assms(2)] inv(1,2) by auto
  have hm: "\<forall>sub hm. map_of (handlers eb') sub = Some hm \<longrightarrow> wf_map hm \<and> hm \<noteq> []"
    using inv(7) unfolding Subscribe_handlers[OF assms(2)] by (auto split: option.splits if_splits)
  have st: "ss_inv ?st" "ss_set ?st = {x. eb_abs eb (ev, x) \<noteq> None}"
    using inv(3,4,6) ss.inv_new[of "[] :: Subscriber"] ss.elems_new[of "[] :: Subscriber"]
    by (cases "map_of (subscriptions eb) ev"; simp)+
  have new: "ss_inv (ss_Add sub ?st)" "ss_set (ss_Add sub ?st) = insert sub {x. eb_abs eb (ev, x) \<noteq> None}"
    using ss.inv_add[OF st(1)] ss.elems_add[OF st(1)] st(2) by simp_all
  have "\<forall>e t. map_of (subscriptions eb') e = Some t \<longrightarrow>
      ss_inv t \<and> ss_set t = {x. eb_abs eb' (e, x) \<noteq> None} \<and> ss_set t \<noteq> {}"
    using inv(3-5) new unfolding A S by (auto split: if_splits)
  moreover have "\<forall>e x. map_of (subscriptions eb') e = None \<longrightarrow> eb_abs eb' (e, x) = None"
    using inv(6) unfolding A S by (auto split: if_splits)
  ultimately show ?thesis
    using wf hm unfolding eb_inv_def by blast
qed

lemma unsubscribe_one_abs: "eb_abs (unsubscribe_one ev sub eb) = (eb_abs eb)((ev, sub) := None)"
  by (auto simp: unsubscribe_one_def eb_abs_def sm_defs Let_def fun_eq_iff
      split: option.splits if_splits)
     (metis map_of_delete fun_upd_apply map_of.simps(1) option.distinct(1))+

lemma unsubscribe_one_sets:
  assumes "eb_inv eb"
  shows "map_of (subscriptions (unsubscribe_one ev sub eb)) =
    (map_of (subscriptions eb))(ev :=
       (case map_of (subscriptions eb) ev of
          None \<Rightarrow> None
        | Some st \<Rightarrow> if ss_set st \<subseteq> {sub} then None else Some (ss_Remove sub st)))"
proof (cases "map_of (subscriptions eb) ev")
  case None
  then show ?thesis by (auto simp: unsubscribe_one_def sm_defs Let_def fun_eq_iff)
next
  case (Some st)
  have st: "ss_inv st"
    using assms Some by (auto simp: eb_inv_def)
  have "ss_IsEmpty (ss_Remove sub st) \<longleftrightarrow> ss_set st \<subseteq> {sub}"
    using ss.is_empty_iff[OF ss.inv_remove[OF st]] ss.elems_remove[OF st] by auto
  then show ?thesis
    using Some by (auto simp: unsubscribe_one_def sm_defs Let_def fun_eq_iff)
qed

lemma unsubscribe_one_inv:
  assumes "eb_inv eb"
  shows "eb_inv (unsubscribe_one ev sub eb)"
proof -
  let ?eb = "unsubscribe_one ev sub eb"
  note A = unsubscribe_one_abs[of ev sub eb] and S = unsubscribe_one_sets[OF assms, of ev sub]
  have wf: "wf_map (subscriptions ?eb)" "wf_map (handlers ?eb)"
    using eb_invD(1,2)[OF assms]
    by (auto simp: unsubscribe_one_def sm_defs Let_def split: option.splits if_splits)
  have hm: "wf_map hm \<and> hm \<noteq> []" if "map_of (handlers ?eb) x = Some hm" for x hm
    using that eb_invD(7)[OF assms]
    by (auto simp: unsubscribe_one_def sm_defs Let_def split: option.splits if_splits)
  have sets: "\<And>e t. map_of (subscriptions eb) e = Some t \<Longrightarrow>
      ss_inv t \<and> ss_set t = {x. eb_abs eb (e, x) \<noteq> None} \<and> ss_set t \<noteq> {}"
    and none: "\<And>e x. map_of (subscriptions eb) e = None \<Longrightarrow> eb_abs eb (e, x) = None"
    using eb_invD[OF assms] by blast+
  have "ss_inv t \<and> ss_set t = {x. eb_abs ?eb (e, x) \<noteq> None} \<and> ss_set t \<noteq> {}"
    if t: "map_of (subscriptions ?eb) e = Some t" for e t
  proof (cases "e = ev")
    case True
    then obtain st where st: "map_of (subscriptions eb) ev = Some st" "t = ss_Remove sub st"
      "\<not> ss_set st \<subseteq> {sub}"
      using t S by (auto split: option.splits if_splits)
    then show ?thesis
      using sets[OF st(1)] ss.inv_remove[of st sub] ss.elems_remove[of st sub] A True by auto
  next
    case False
    then show ?thesis using t S A sets[of e t] by auto
  qed
  moreover have "eb_abs ?eb (e, x) = None" if t: "map_of (subscriptions ?eb) e = None" for e x
  proof (cases "e = ev")
    case True
    then show ?thesis
      using t S A none sets by (fastforce split: option.splits if_splits)
  next
    case False
    then show ?thesis using t S A none by auto
  qed
  ultimately show ?thesis
    using wf hm unfolding eb_inv_def by blast
qed

lemma Unsubscribe_nonempty [simp]:
  "ev \<noteq> [] \<Longrightarrow> Unsubscribe (Suc n) ev (Some sub) eb = Some (unsubscribe_one ev sub eb)"
  by simp

lemma Unsubscribe_each_nonempty:
  "[] \<notin> set es \<Longrightarrow>
   Unsubscribe_each (Suc n) es (Some sub) eb = Some (fold (\<lambda>e. unsubscribe_one e sub) es eb)"
  by (induction es arbitrary: eb) auto

lemma fold_unsubscribe:
  assumes "eb_inv eb"
  shows "eb_inv (fold (\<lambda>e. unsubscribe_one e sub) es eb)"
    and "eb_abs (fold (\<lambda>e. unsubscribe_one e sub) es eb) =
      (\<lambda>(e, s). if s = sub \<and> e \<in> set es then None else eb_abs eb (e, s))"
  using assms
  by (induction es arbitrary: eb)
     (auto simp: unsubscribe_one_inv unsubscribe_one_abs fun_eq_iff)

text \<open>
  \<^verbatim>\<open>Unsubscribe("", sub)\<close> returns, and removes every subscription of \<open>sub\<close>, whenever
  the subscriber has no handler under the empty event type.
\<close>

lemma Unsubscribe_all:
  assumes inv: "eb_inv eb" and ne: "eb_abs eb ([], sub) = None"
  shows "\<exists>eb'. Unsubscribe (Suc (Suc n)) [] (Some sub) eb = Some eb' \<and> eb_inv eb'
    \<and> eb_abs eb' = (\<lambda>(e, s). if s = sub then None else eb_abs eb (e, s))"
proof (cases "map_of (handlers eb) sub")
  case None
  then show ?thesis
    using inv by (auto simp: sm_defs eb_abs_def fun_eq_iff)
next
  case (Some hm)
  let ?es = "map fst hm"
  have es: "[] \<notin> set ?es"
    using ne Some unfolding in_keys_iff by (simp add: eb_abs_def)
  have "Unsubscribe (Suc (Suc n)) [] (Some sub) eb
      = Some (fold (\<lambda>e. unsubscribe_one e sub) ?es eb)"
    using Some Unsubscribe_each_nonempty[OF es] by (simp add: sm_defs)
  moreover have "eb_abs eb (e, sub) = None" if "e \<notin> set ?es" for e
    using that Some unfolding in_keys_iff by (simp add: eb_abs_def)
  then have "(\<lambda>(e, s). if s = sub \<and> e \<in> set ?es then None else eb_abs eb (e, s))
      = (\<lambda>(e, s). if s = sub then None else eb_abs eb (e, s))"
    by (force simp: fun_eq_iff)
  ultimately show ?thesis
    using fold_unsubscribe[OF inv, of sub ?es] by auto
qed

text \<open>
  With a handler under the empty event type the call never returns: each level meets the
  same entry again.
\<close>

lemma Unsubscribe_each_None:
  "e \<in> set es \<Longrightarrow> (\<And>eb. P eb \<Longrightarrow> Unsubscribe n e sub eb = None) \<Longrightarrow>
   (\<And>x eb eb'. P eb \<Longrightarrow> Unsubscribe n x sub eb = Some eb' \<Longrightarrow> P eb') \<Longrightarrow> P eb \<Longrightarrow>
   Unsubscribe_each n es sub eb = None"
proof (induction es arbitrary: eb)
  case (Cons x es)
  show ?case
  proof (cases "Unsubscribe n x sub eb")
    case (Some eb')
    then have "x \<noteq> e" and "P eb'"
      using Cons.prems by auto
    then show ?thesis
      using Some Cons by auto
  qed simp
qed simp

lemma Unsubscribe_empty_diverges:
  "eb_abs eb ([], sub) \<noteq> None \<Longrightarrow> Unsubscribe n [] (Some sub) eb = None"
proof (induction n arbitrary: eb)
  case (Suc n)
  obtain hm where hm: "map_of (handlers eb) sub = Some hm" "map_of hm [] \<noteq> None"
    using Suc.prems by (auto simp: eb_abs_def split: option.splits)
  have step: "eb_abs eb' ([], sub) \<noteq> None"
    if P: "eb_abs eb1 ([], sub) \<noteq> None" and U: "Unsubscribe n x (Some sub) eb1 = Some eb'"
    for x and eb1 eb' :: "'a EventBus_t"
  proof (cases "x = []")
    case True
    then show ?thesis using Suc.IH[OF P] U by simp
  next
    case False
    then obtain m where "n = Suc m" using U by (cases n) auto
    then show ?thesis using P U False by (auto simp: unsubscribe_one_abs)
  qed
  have "[] \<in> set (map fst hm)"
    using hm(2) unfolding in_keys_iff .
  then have "Unsubscribe_each n (map fst hm) (Some sub) eb = None"
    using Unsubscribe_each_None[where P = "\<lambda>eb. eb_abs eb ([], sub) \<noteq> None"] Suc.IH step Suc.prems
    by blast
  then show ?case
    using hm(1) by (simp add: sm_defs)
qed simp

section \<open>Publishing\<close>

lemma deliver_step:
  "deliver eb ev (sub # subs) p =
     deliver eb ev subs
       (case eb_abs eb (ev, sub) of
          None \<Rightarrow> p\<lparr>stale := stale p @ [sub]\<rparr>
        | Some handler \<Rightarrow>
            if inFlight p \<ge> EVENT_BUS_BUFFER_SIZE then p\<lparr>dropped := dropped p @ [sub]\<rparr>
            else p\<lparr>started := started p @ [(sub, handler)], inFlight := wrap64 (inFlight p + 1)\<rparr>)"
  by (simp add: eb_abs_def sm_defs split: option.splits)

lemmas deliver_unfold = deliver.simps(1) deliver_step

declare deliver.simps(2) [simp del]

lemma wrap64_succ: "in64 i \<Longrightarrow> i < EVENT_BUS_BUFFER_SIZE \<Longrightarrow> wrap64 (i + 1) = i + 1"
  by (rule wrap64_id) (simp add: in64_def EVENT_BUS_BUFFER_SIZE_def)

lemma in64_succ: "in64 i \<Longrightarrow> i < EVENT_BUS_BUFFER_SIZE \<Longrightarrow> in64 (i + 1)"
  by (simp add: in64_def EVENT_BUS_BUFFER_SIZE_def)

text \<open>The subscribers that have a handler are served in order until the bus is saturated.\<close>

lemma deliver_spec:
  assumes "in64 (inFlight p)" and "\<forall>s \<in> set subs. eb_abs eb (ev, s) \<noteq> None"
    and "k = nat (EVENT_BUS_BUFFER_SIZE - inFlight p)"
  shows "deliver eb ev subs p =
    p\<lparr>started := started p @ map (\<lambda>s. (s, the (eb_abs eb (ev, s)))) (take k subs),
      dropped := dropped p @ drop k subs,
      inFlight := inFlight p + int (length (take k subs))\<rparr>"
  using assms
proof (induction subs arbitrary: p k)
  case (Cons s subs)
  obtain h where h: "eb_abs eb (ev, s) = Some h"
    using Cons.prems(2) by auto
  show ?case
  proof (cases "inFlight p \<ge> EVENT_BUS_BUFFER_SIZE")
    case True
    then have "k = 0" using Cons.prems(3) by simp
    then show ?thesis
      using True h Cons.prems Cons.IH[of "p\<lparr>dropped := dropped p @ [s]\<rparr>" 0]
      by (simp add: deliver_unfold)
  next
    case False
    define j where "j = nat (EVENT_BUS_BUFFER_SIZE - (inFlight p + 1))"
    have k: "k = Suc j"
      using False Cons.prems(3) unfolding j_def by linarith
    let ?p = "p\<lparr>started := started p @ [(s, h)], inFlight := inFlight p + 1\<rparr>"
    have "deliver eb ev (s # subs) p = deliver eb ev subs ?p"
      using False h Cons.prems(1) wrap64_succ by (simp add: deliver_unfold)
    also have "\<dots> = ?p\<lparr>started := started ?p @ map (\<lambda>s. (s, the (eb_abs eb (ev, s)))) (take j subs),
      dropped := dropped ?p @ drop j subs,
      inFlight := inFlight ?p + int (length (take j subs))\<rparr>"
      by (rule Cons.IH) (use Cons.prems(1,2) False in64_succ j_def in auto)
    finally show ?thesis
      using k h by simp
  qed
qed simp

lemma Publish_spec:
  assumes inv: "eb_inv eb" and fl: "in64 fl" and ev: "ev \<noteq> []"
  shows "\<exists>subs. distinct subs \<and> set subs = {s. eb_abs eb (ev, s) \<noteq> None} \<and>
    (let k = nat (EVENT_BUS_BUFFER_SIZE - fl) in
     Publish (Some (Event ev d)) fl eb =
       Some \<lparr>started = map (\<lambda>s. (s, the (eb_abs eb (ev, s)))) (take k subs),
             dropped = drop k subs, stale = [], inFlight = fl + int (length (take k subs))\<rparr>)"
proof (cases "map_of (subscriptions eb) ev")
  case None
  then show ?thesis
    using eb_invD(6)[OF inv None] ev by (intro exI[of _ "[]"]) (simp add: Publish_def sm_defs Let_def)
next
  case (Some st)
  note st = eb_invD(3,4)[OF inv Some]
  obtain subs where subs: "ss_Snapshot st = Some subs" "distinct subs" "set subs = ss_set st"
    using ss.snapshot_some[OF st(1)] by blast
  have "\<forall>s \<in> set subs. eb_abs eb (ev, s) \<noteq> None"
    using subs(3) st(2) by auto
  then show ?thesis
    using subs st(2) Some ev fl
    by (intro exI[of _ subs])
       (simp add: Publish_def sm_defs Let_def deliver_spec[OF _ _ refl])
qed

section \<open>The bus interface\<close>

text \<open>
  What the communication layer relies on.  \<open>table\<close> is the abstract bus; the length of a
  list of served subscribers is bounded by the free capacity.
\<close>

locale event_bus =
  fixes new :: 'e
    and subscribe :: "string \<Rightarrow> string \<Rightarrow> Subscriber option \<Rightarrow> 'h \<Rightarrow> 'e \<Rightarrow> Subscriber \<times> 'e"
    and unsubscribe :: "string \<Rightarrow> Subscriber option \<Rightarrow> 'e \<Rightarrow> 'e option"
    and publish :: "string \<Rightarrow> int \<Rightarrow> 'e \<Rightarrow> 'h publish option"
    and table :: "'e \<Rightarrow> string \<times> Subscriber \<Rightarrow> 'h option"
    and inv :: "'e \<Rightarrow> bool"
  assumes inv_new: "inv new"
    and table_new: "table new = Map.empty"
    and subscribe_ok: "inv e \<Longrightarrow> ev \<noteq> [] \<Longrightarrow> subscribe i ev (Some s) h e = (s', e') \<Longrightarrow>
      s' = s \<and> inv e' \<and> table e' = (table e)((ev, s) \<mapsto> h)"
    and unsubscribe_ok: "inv e \<Longrightarrow> ev \<noteq> [] \<Longrightarrow>
      \<exists>e'. unsubscribe ev (Some s) e = Some e' \<and> inv e' \<and> table e' = (table e)((ev, s) := None)"
    and publish_ok: "inv e \<Longrightarrow> in64 fl \<Longrightarrow> ev \<noteq> [] \<Longrightarrow>
      \<exists>subs. distinct subs \<and> set subs = {s. table e (ev, s) \<noteq> None} \<and>
        (let k = nat (EVENT_BUS_BUFFER_SIZE - fl) in
         publish ev fl e =
           Some \<lparr>started = map (\<lambda>s. (s, the (table e (ev, s)))) (take k subs),
                 dropped = drop k subs, stale = [], inFlight = fl + int (length (take k subs))\<rparr>)"
begin

lemma publish_sound:
  assumes "inv e" "in64 fl" "ev \<noteq> []" "publish ev fl e = Some p" "(s, h) \<in> set (started p)"
  shows "table e (ev, s) = Some h"
  using publish_ok[OF assms(1-3)] assms(4,5)
  by (fastforce simp: Let_def dest: in_set_takeD)

lemma publish_bounded:
  assumes "inv e" "in64 fl" "ev \<noteq> []" "publish ev fl e = Some p"
  shows "inFlight p \<le> max fl EVENT_BUS_BUFFER_SIZE"
  using publish_ok[OF assms(1-3)] assms(4) by (auto simp: Let_def)

lemma publish_complete:
  assumes "inv e" "in64 fl" "ev \<noteq> []"
    and room: "fl + int (card {s. table e (ev, s) \<noteq> None}) \<le> EVENT_BUS_BUFFER_SIZE"
  shows "\<exists>p. publish ev fl e = Some p \<and> dropped p = [] \<and> distinct (map fst (started p))
    \<and> set (started p) = {(s, h). table e (ev, s) = Some h}"
proof -
  obtain subs where subs: "distinct subs" "set subs = {s. table e (ev, s) \<noteq> None}"
    "publish ev fl e = Some \<lparr>started = map (\<lambda>s. (s, the (table e (ev, s))))
         (take (nat (EVENT_BUS_BUFFER_SIZE - fl)) subs),
       dropped = drop (nat (EVENT_BUS_BUFFER_SIZE - fl)) subs, stale = [],
       inFlight = fl + int (length (take (nat (EVENT_BUS_BUFFER_SIZE - fl)) subs))\<rparr>"
    using publish_ok[OF assms(1-3)] unfolding Let_def by blast
  have "length subs \<le> nat (EVENT_BUS_BUFFER_SIZE - fl)"
    using room distinct_card[OF subs(1)] subs(2) by simp
  then show ?thesis
    using subs by (auto simp: o_def)
qed

text \<open>Once its cancel function has run, a subscriber is not called any more.\<close>

lemma cancelled_silent:
  assumes "inv e" "ev \<noteq> []" "unsubscribe ev (Some s) e = Some e'" "in64 fl"
    "publish ev fl e' = Some p"
  shows "(s, h) \<notin> set (started p)"
proof -
  have "inv e'" "table e' = (table e)((ev, s) := None)"
    using unsubscribe_ok[OF assms(1,2), of s] assms(3) by auto
  then show ?thesis
    using publish_sound[of e' fl ev p s h] assms(2,4,5) by auto
qed

lemma subscribe_cancel:
  assumes "inv e" "ev \<noteq> []" "table e (ev, s) = None" "subscribe i ev (Some s) h e = (s', e1)"
  shows "\<exists>e2. unsubscribe ev (Some s) e1 = Some e2 \<and> inv e2 \<and> table e2 = table e"
proof -
  have "inv e1" "table e1 = (table e)((ev, s) \<mapsto> h)"
    using subscribe_ok[OF assms(1,2,4)] by auto
  then obtain e2 where "unsubscribe ev (Some s) e1 = Some e2" "inv e2"
    "table e2 = ((table e)((ev, s) \<mapsto> h))((ev, s) := None)"
    using unsubscribe_ok[of e1 ev s] assms(2) by auto
  then show ?thesis
    using assms(3) by (simp add: fun_upd_idem)
qed

end

interpretation bus: event_bus NewEventBus Subscribe "Unsubscribe 2"
  "\<lambda>ev. Publish (Some (Event ev d))" eb_abs eb_inv
proof unfold_locales
  show "eb_inv NewEventBus" "eb_abs NewEventBus = Map.empty"
    by (rule eb_inv_New eb_abs_New)+
  fix e :: "'a EventBus_t" and ev s
  assume inv: "eb_inv e"
  show "s' = s \<and> eb_inv e' \<and> eb_abs e' = (eb_abs e)((ev, s) \<mapsto> h)"
    if "ev \<noteq> []" "Subscribe i ev (Some s) h e = (s', e')" for i h s' e'
    using Subscribe_abs[OF that(2)] Subscribe_inv[OF inv that(2)] that(1) by (simp add: sub_id_def)
  show "\<exists>e'. Unsubscribe 2 ev (Some s) e = Some e' \<and> eb_inv e' \<and> eb_abs e' = (eb_abs e)((ev, s) := None)"
    if "ev \<noteq> []"
    using that unsubscribe_one_inv[OF inv] by (simp add: unsubscribe_one_abs numeral_2_eq_2)
qed (rule Publish_spec)

section \<open>Properties\<close>

text \<open>A client's operations: subscribing a given subscriber, and unsubscribing one event.\<close>

datatype 'h bus_op = Sub string Subscriber 'h | Unsub string Subscriber

fun bus_run :: "'h bus_op list \<Rightarrow> 'h EventBus_t \<Rightarrow> 'h EventBus_t option" where
  "bus_run [] eb = Some eb"
| "bus_run (Sub ev s h # ops) eb = bus_run ops (snd (Subscribe [] ev (Some s) h eb))"
| "bus_run (Unsub ev s # ops) eb =
     (case Unsubscribe 2 ev (Some s) eb of None \<Rightarrow> None | Some eb' \<Rightarrow> bus_run ops eb')"

fun table_run :: "'h bus_op list \<Rightarrow> (string \<times> Subscriber \<Rightarrow> 'h option) \<Rightarrow> string \<times> Subscriber \<Rightarrow> 'h option" where
  "table_run [] t = t"
| "table_run (Sub ev s h # ops) t = table_run ops (t((ev, s) \<mapsto> h))"
| "table_run (Unsub ev s # ops) t = table_run ops (t((ev, s) := None))"

fun op_event :: "'h bus_op \<Rightarrow> string" where
  "op_event (Sub ev s h) = ev"
| "op_event (Unsub ev s) = ev"

lemma bus_run_abs:
  "eb_inv eb \<Longrightarrow> list_all (\<lambda>x. op_event x \<noteq> []) ops \<Longrightarrow>
   \<exists>eb'. bus_run ops eb = Some eb' \<and> eb_inv eb' \<and> eb_abs eb' = table_run ops (eb_abs eb)"
proof (induction ops arbitrary: eb)
  case (Cons x ops)
  show ?case
  proof (cases x)
    case (Sub ev s h)
    obtain s' e' where S: "Subscribe [] ev (Some s) h eb = (s', e')"
      by (cases "Subscribe [] ev (Some s) h eb")
    have "eb_inv e'" "eb_abs e' = (eb_abs eb)((ev, s) \<mapsto> h)"
      using bus.subscribe_ok[OF Cons.prems(1) _ S] Cons.prems(2) Sub by auto
    then show ?thesis
      using Sub S Cons.prems(2) Cons.IH[of e'] by (simp del: fun_upd_apply)
  next
    case (Unsub ev s)
    then obtain e' where "Unsubscribe 2 ev (Some s) eb = Some e'" "eb_inv e'"
      "eb_abs e' = (eb_abs eb)((ev, s) := None)"
      using bus.unsubscribe_ok[OF Cons.prems(1), of ev s] Cons.prems(2) by auto
    then show ?thesis
      using Unsub Cons.prems(2) Cons.IH[of e'] by (simp del: fun_upd_apply)
  qed
qed simp



text \<open>While the number of running handlers leaves room for all subscribers, publishing an
  event starts each handler subscribed to its type exactly once, with none dropped and
  none treated as stale.\<close>

theorem Publish_delivers:
  assumes "eb_inv eb" and "in64 fl" and "ev \<noteq> []"
    and "fl + int (card {s. eb_abs eb (ev, s) \<noteq> None}) \<le> EVENT_BUS_BUFFER_SIZE"
  shows "\<exists>p. Publish (Some (Event ev d)) fl eb = Some p \<and> dropped p = [] \<and> distinct (map fst (started p))
    \<and> set (started p) = {(s, h). eb_abs eb (ev, s) = Some h}"
  using bus.publish_complete[OF assms, of d] .

definition one_sub :: "nat EventBus_t" where
  "one_sub = snd (Subscribe [] ''a'' (Some ''s'') 7 NewEventBus)"

lemma one_sub_ok: "eb_inv one_sub" "eb_abs one_sub = [(''a'', ''s'') \<mapsto> 7]"
proof -
  obtain s e where S: "Subscribe [] ''a'' (Some ''s'') (7 :: nat) NewEventBus = (s, e)"
    by (cases "Subscribe [] ''a'' (Some ''s'') (7 :: nat) NewEventBus")
  then show "eb_inv one_sub" "eb_abs one_sub = [(''a'', ''s'') \<mapsto> 7]"
    using Subscribe_inv[OF eb_inv_New S] Subscribe_abs[OF S]
    by (simp_all add: one_sub_def eb_abs_New sub_id_def)
qed

theorem Publish_delivers_witness:
  "\<exists>p. Publish (Some (Event ''a'' (Some ()))) 0 one_sub = Some p \<and> set (started p) = {(''s'', 7)}"
proof -
  have "{s. eb_abs one_sub (''a'', s) \<noteq> None} = {''s''}"
    "{(s, h). eb_abs one_sub (''a'', s) = Some h} = {(''s'', 7)}"
    by (auto simp: one_sub_ok split: if_splits)
  then show ?thesis
    using Publish_delivers[of one_sub 0 "''a''" "Some ()"] one_sub_ok(1)
    by (auto simp: in64_def EVENT_BUS_BUFFER_SIZE_def)
qed



text \<open>\<^verbatim>\<open>Unsubscribe("", s)\<close> removes all subscriptions of \<open>s\<close> and no other, at
  recursion depth two, provided \<open>s\<close> has no handler under the empty event type.\<close>

theorem Unsubscribe_everything:
  assumes "eb_inv eb" and "eb_abs eb ([], s) = None"
  shows "\<exists>eb'. Unsubscribe 2 [] (Some s) eb = Some eb' \<and> eb_inv eb'
    \<and> eb_abs eb' = (\<lambda>(e, x). if x = s then None else eb_abs eb (e, x))"
  using Unsubscribe_all[OF assms, of 0] by (simp only: numeral_2_eq_2)

theorem Unsubscribe_everything_witness:
  "\<exists>eb'. Unsubscribe 2 [] (Some ''s'') one_sub = Some eb' \<and> eb_abs eb' (''a'', ''s'') = None"
  using Unsubscribe_everything[OF one_sub_ok(1), of "''s''"] by (auto simp: one_sub_ok(2))

text \<open>A subscriber that holds a handler under the empty event type (which
  \<^verbatim>\<open>Subscribe("", nil, h)\<close> creates) cannot be unsubscribed from everything: the call
  recurses without end, at whatever depth it is cut off.\<close>

theorem Unsubscribe_empty_event_diverges:
  assumes "Subscribe newID [] s h eb = (sub, eb')"
  shows "Unsubscribe n [] (Some sub) eb' = None"
proof -
  have "eb_abs eb' ([], sub) \<noteq> None"
    using Subscribe_abs(2)[OF assms] by simp
  then show ?thesis by (rule Unsubscribe_empty_diverges)
qed

theorem Unsubscribe_empty_event_diverges_witness:
  "\<exists>eb'. Subscribe ''id'' [] None (1 :: nat) NewEventBus = (''id'', eb') \<and> Unsubscribe 50 [] (Some ''id'') eb' = None"
proof -
  obtain s e where S: "Subscribe ''id'' [] None (1 :: nat) NewEventBus = (s, e)"
    by (cases "Subscribe ''id'' [] None (1 :: nat) NewEventBus")
  moreover have "s = ''id''"
    using Subscribe_abs(1)[OF S] by (simp add: sub_id_def)
  ultimately show ?thesis
    using Unsubscribe_empty_event_diverges[OF S, of 50] by blast
qed

end
