(* ===== verification/Comms.thy ===== *)
theory Comms
  imports Event_Bus "HOL-Library.Word"
begin

text \<open>
  \<^verbatim>\<open>comms/local.go\<close>: the bus the services use.  Broadcast goes to the event bus;
  point-to-point delivery goes round-robin over the members of a consumer group.  A cancel
  function is the value it closes over; running it is \<open>cancelEvent\<close> and \<open>cancelGroup\<close>.
  Counters keep their 64 bits.
\<close>

lemma unat_of_nat64: "n < 2 ^ 64 \<Longrightarrow> unat (word_of_nat n :: 64 word) = n"
  by (simp add: unsigned_of_nat take_bit_nat_eq_self)

lemma unat_succ64: "unat (c :: 64 word) + 1 < 2 ^ 64 \<Longrightarrow> unat (c + 1) = unat c + 1"
  by (simp add: unat_word_ariths)

lemma word_less_succ: "i < - 1 \<Longrightarrow> x \<le> i \<Longrightarrow> x < (i :: 64 word) + 1"
proof -
  assume a: "i < -1" "x \<le> i"
  have "unat (- 1 :: 64 word) = 2 ^ 64 - 1"
    by (simp add: unsigned_minus_1_eq_mask mask_eq_exp_minus_1)
  then have "unat i + 1 < 2 ^ 64"
    using a(1) unfolding word_less_nat_alt by linarith
  then show ?thesis
    using a(2) unat_succ64[of i] unfolding word_less_nat_alt word_le_nat_alt by linarith
qed

record 'h consumerGroup =
  cg_handlers :: "(64 word \<times> 'h) list"
  counter :: "64 word"
  nextID :: "64 word"

record 'h LocalBus =
  eb :: "'h EventBus_t"
  groups :: "(string, 'h consumerGroup) gomap"

definition NewLocalBus :: "'h EventBus_t \<Rightarrow> 'h LocalBus" where
  "NewLocalBus e = \<lparr>eb = e, groups = []\<rparr>"

definition new_group :: "'h consumerGroup" where
  "new_group = \<lparr>cg_handlers = [], counter = 0, nextID = 0\<rparr>"

definition PublishEvent :: "string \<Rightarrow> 'd option \<Rightarrow> int \<Rightarrow> 'h LocalBus \<Rightarrow> 'h publish option" where
  "PublishEvent eventType data fl b = PublishData eventType data fl (eb b)"

text \<open>
  \<open>sub\<close> is the identifier drawn by \<^verbatim>\<open>event_bus.NewSubscriber\<close>; \<open>newID\<close> the one
  the event bus would draw by itself.  The cancel closure is the pair of event type and
  subscriber.
\<close>

definition SubscribeEvent ::
  "string \<Rightarrow> string \<Rightarrow> string \<Rightarrow> 'h \<Rightarrow> 'h LocalBus \<Rightarrow> (string \<times> Subscriber) \<times> 'h LocalBus" where
  "SubscribeEvent newID sub eventType handler b =
     ((eventType, sub), b\<lparr>eb := snd (Subscribe newID eventType (Some sub) handler (eb b))\<rparr>)"

definition cancelEvent :: "string \<times> Subscriber \<Rightarrow> 'h LocalBus \<Rightarrow> 'h LocalBus option" where
  "cancelEvent c b =
     (case Unsubscribe 2 (fst c) (Some (snd c)) (eb b) of
        None \<Rightarrow> None
      | Some e \<Rightarrow> Some (b\<lparr>eb := e\<rparr>))"

definition groupKey :: "string \<Rightarrow> string \<Rightarrow> string" where
  "groupKey grp eventType = grp @ ''::'' @ eventType"

text \<open>The result is the handler that is called, if any.\<close>

definition PublishToGroup :: "string \<Rightarrow> string \<Rightarrow> 'h LocalBus \<Rightarrow> 'h option \<times> 'h LocalBus" where
  "PublishToGroup grp eventType b =
     (let key = groupKey grp eventType
      in case map_of (groups b) key of
           None \<Rightarrow> (None, b)
         | Some cg \<Rightarrow>
             let n = length (cg_handlers cg)
             in if n = 0 then (None, b)
                else
                  let idx = (counter cg + 1) - 1;
                      entry = cg_handlers cg ! unat (idx mod of_nat n)
                  in (Some (snd entry),
                      b\<lparr>groups := AList.update key (cg\<lparr>counter := counter cg + 1\<rparr>) (groups b)\<rparr>))"

definition SubscribeAsGroup ::
  "string \<Rightarrow> string \<Rightarrow> 'h \<Rightarrow> 'h LocalBus \<Rightarrow> (string \<times> 64 word) \<times> 'h LocalBus" where
  "SubscribeAsGroup grp eventType handler b =
     (let key = groupKey grp eventType;
          cg = (case map_of (groups b) key of None \<Rightarrow> new_group | Some cg \<Rightarrow> cg);
          entryID = nextID cg + 1;
          cg' = cg\<lparr>nextID := entryID, cg_handlers := cg_handlers cg @ [(entryID, handler)]\<rparr>
      in ((key, entryID), b\<lparr>groups := AList.update key cg' (groups b)\<rparr>))"

text \<open>The loop of the cancel function: the first entry with the identifier is cut out.\<close>

fun remove_entry :: "64 word \<Rightarrow> (64 word \<times> 'h) list \<Rightarrow> (64 word \<times> 'h) list" where
  "remove_entry i [] = []"
| "remove_entry i (e # es) = (if fst e = i then es else e # remove_entry i es)"

definition cancelGroup :: "string \<times> 64 word \<Rightarrow> 'h LocalBus \<Rightarrow> 'h LocalBus" where
  "cancelGroup c b =
     (case map_of (groups b) (fst c) of
        None \<Rightarrow> b
      | Some cg \<Rightarrow>
          b\<lparr>groups := AList.update (fst c)
               (cg\<lparr>cg_handlers := remove_entry (snd c) (cg_handlers cg)\<rparr>) (groups b)\<rparr>)"

section \<open>Broadcast\<close>

lemma SubscribeEvent_ok:
  assumes "eb_inv (eb b)" and "ev \<noteq> []" and "SubscribeEvent i sub ev h b = (c, b')"
  shows "c = (ev, sub)" "eb_inv (eb b')" "eb_abs (eb b') = (eb_abs (eb b))((ev, sub) \<mapsto> h)"
    "groups b' = groups b"
proof -
  obtain s' e' where S: "Subscribe i ev (Some sub) h (eb b) = (s', e')"
    by (cases "Subscribe i ev (Some sub) h (eb b)")
  then have "c = (ev, sub)" "b' = b\<lparr>eb := e'\<rparr>"
    using assms(3) by (auto simp: SubscribeEvent_def)
  then show "c = (ev, sub)" "eb_inv (eb b')" "eb_abs (eb b') = (eb_abs (eb b))((ev, sub) \<mapsto> h)"
    "groups b' = groups b"
    using bus.subscribe_ok[OF assms(1,2) S] by auto
qed

section \<open>Consumer groups\<close>

text \<open>Identifiers are increasing along the member list and bounded by \<open>nextID\<close>.\<close>

definition cg_inv :: "'h consumerGroup \<Rightarrow> bool" where
  "cg_inv cg \<longleftrightarrow> sorted_wrt (<) (map fst (cg_handlers cg))
     \<and> (\<forall>i \<in> set (map fst (cg_handlers cg)). i \<le> nextID cg)"

definition groups_inv :: "'h LocalBus \<Rightarrow> bool" where
  "groups_inv b \<longleftrightarrow> wf_map (groups b) \<and> (\<forall>k cg. map_of (groups b) k = Some cg \<longrightarrow> cg_inv cg)"

definition members :: "string \<Rightarrow> 'h LocalBus \<Rightarrow> (64 word \<times> 'h) list" where
  "members key b = (case map_of (groups b) key of None \<Rightarrow> [] | Some cg \<Rightarrow> cg_handlers cg)"

definition last_id :: "string \<Rightarrow> 'h LocalBus \<Rightarrow> 64 word" where
  "last_id key b = (case map_of (groups b) key of None \<Rightarrow> 0 | Some cg \<Rightarrow> nextID cg)"

lemma remove_entry_set: "set (remove_entry i es) \<subseteq> set es"
  by (induction es) auto

lemma remove_entry_sorted:
  "sorted_wrt (<) (map fst es) \<Longrightarrow> sorted_wrt (<) (map fst (remove_entry i es))"
  using remove_entry_set by (induction es) fastforce+

lemma remove_entry_filter:
  "sorted_wrt (<) (map fst es) \<Longrightarrow> remove_entry i es = filter (\<lambda>e. fst e \<noteq> i) es"
proof (induction es)
  case (Cons e es)
  then show ?case
    by (auto simp: less_imp_neq intro!: filter_True[symmetric] dest: less_imp_neq)
qed simp

lemma groups_inv_New: "groups_inv (NewLocalBus e)"
  by (simp add: groups_inv_def NewLocalBus_def)

lemma SubscribeAsGroup_inv:
  assumes "groups_inv b" and "last_id (groupKey g ev) b < - 1"
    and "SubscribeAsGroup g ev h b = (c, b')"
  shows "groups_inv b'"
    and "members (groupKey g ev) b' = members (groupKey g ev) b @ [(snd c, h)]"
    and "snd c \<notin> fst ` set (members (groupKey g ev) b)"
    and "fst c = groupKey g ev"
proof -
  let ?k = "groupKey g ev"
  define cg where "cg = (case map_of (groups b) ?k of None \<Rightarrow> new_group | Some cg \<Rightarrow> cg)"
  have cg: "cg_inv cg" "nextID cg < - 1" "cg_handlers cg = members ?k b"
    using assms(1,2) unfolding cg_def groups_inv_def last_id_def members_def
    by (auto simp: cg_inv_def new_group_def split: option.splits)
  have lt: "\<forall>i \<in> set (map fst (cg_handlers cg)). i < nextID cg + 1"
    using cg(1,2) word_less_succ unfolding cg_inv_def by blast
  have b': "b' = b\<lparr>groups := AList.update ?k
      (cg\<lparr>nextID := nextID cg + 1, cg_handlers := cg_handlers cg @ [(nextID cg + 1, h)]\<rparr>) (groups b)\<rparr>"
    and c: "c = (?k, nextID cg + 1)"
    using assms(3) by (auto simp: SubscribeAsGroup_def Let_def cg_def)
  have "cg_inv (cg\<lparr>nextID := nextID cg + 1, cg_handlers := cg_handlers cg @ [(nextID cg + 1, h)]\<rparr>)"
    using cg(1) lt by (auto simp: cg_inv_def sorted_wrt_append less_imp_le)
  then show "groups_inv b'"
    using assms(1) by (auto simp: groups_inv_def b')
  show "members ?k b' = members ?k b @ [(snd c, h)]"
    using cg(3) by (simp add: members_def b' c)
  show "snd c \<notin> fst ` set (members ?k b)"
    using lt cg(3) c by fastforce
  show "fst c = ?k" by (simp add: c)
qed

lemma cancelGroup_members:
  assumes "groups_inv b"
  shows "members k (cancelGroup (k', i) b) =
    (if k = k' then filter (\<lambda>e. fst e \<noteq> i) (members k b) else members k b)"
    and "groups_inv (cancelGroup (k', i) b)"
proof -
  have s: "sorted_wrt (<) (map fst (members k' b))"
    using assms by (auto simp: groups_inv_def members_def cg_inv_def split: option.splits)
  then show "members k (cancelGroup (k', i) b) =
    (if k = k' then filter (\<lambda>e. fst e \<noteq> i) (members k b) else members k b)"
    using remove_entry_filter[OF s]
    by (auto simp: members_def cancelGroup_def split: option.splits)
  show "groups_inv (cancelGroup (k', i) b)"
    using assms remove_entry_set remove_entry_sorted
    by (fastforce simp: groups_inv_def cancelGroup_def cg_inv_def split: option.splits if_splits)
qed

subsection \<open>Round-robin delivery\<close>

fun publish_many :: "nat \<Rightarrow> string \<Rightarrow> string \<Rightarrow> 'h LocalBus \<Rightarrow> 'h option list \<times> 'h LocalBus" where
  "publish_many 0 g ev b = ([], b)"
| "publish_many (Suc k) g ev b =
     (let (h, b1) = PublishToGroup g ev b; (hs, b2) = publish_many k g ev b1 in (h # hs, b2))"

definition group_count :: "string \<Rightarrow> 'h LocalBus \<Rightarrow> 64 word" where
  "group_count key b = (case map_of (groups b) key of None \<Rightarrow> 0 | Some cg \<Rightarrow> counter cg)"

lemma PublishToGroup_step:
  assumes "members (groupKey g ev) b = es" and "es \<noteq> []" and "length es < 2 ^ 64"
    and "PublishToGroup g ev b = (h, b')"
  shows "h = Some (snd (es ! (unat (group_count (groupKey g ev) b) mod length es)))"
    and "members (groupKey g ev) b' = es"
    and "group_count (groupKey g ev) b' = group_count (groupKey g ev) b + 1"
  using assms
  by (auto simp: PublishToGroup_def members_def group_count_def Let_def unat_mod unat_of_nat64
      split: option.splits if_splits)

lemma publish_many_spec:
  assumes "members (groupKey g ev) b = es" and "es \<noteq> []" and "length es < 2 ^ 64"
    and "unat (group_count (groupKey g ev) b) + k \<le> 2 ^ 64"
    and "publish_many k g ev b = (hs, b')"
  shows "hs = map (\<lambda>i. Some (snd (es ! ((unat (group_count (groupKey g ev) b) + i) mod length es)))) [0..<k]"
  using assms
proof (induction k arbitrary: b hs)
  case (Suc k)
  obtain h b1 where P: "PublishToGroup g ev b = (h, b1)"
    by (cases "PublishToGroup g ev b")
  obtain hs' where M: "publish_many k g ev b1 = (hs', b')" "hs = h # hs'"
    using Suc.prems(5) P by (auto simp: Let_def split: prod.splits)
  note step = PublishToGroup_step[OF Suc.prems(1-3) P]
  let ?c = "group_count (groupKey g ev) b"
  show ?case
  proof (cases "k = 0")
    case True
    then show ?thesis using step(1) M by simp
  next
    case False
    then have "unat ?c + 1 < 2 ^ 64" using Suc.prems(4) by simp
    then have "unat (?c + 1) = unat ?c + 1"
      by (rule unat_succ64)
    then show ?thesis
      using Suc.IH[OF step(2) Suc.prems(2,3) _ M(1)] step Suc.prems(4) M(2)
      by (simp add: upt_conv_Cons map_Suc_upt[symmetric] del: upt_Suc)
  qed
qed simp

text \<open>Whole rounds serve every member equally often.\<close>

lemma count_list_rotate: "count_list (rotate c es) x = count_list es x"
proof -
  have "rotate c es = drop (c mod length es) es @ take (c mod length es) es"
    by (rule rotate_drop_take)
  then have "count_list (rotate c es) x
      = count_list (take (c mod length es) es @ drop (c mod length es) es) x"
    by (simp only: count_list_append add.commute)
  then show ?thesis by (simp only: append_take_drop_id)
qed

lemma count_rounds:
  "n = length es \<Longrightarrow>
   count_list (map (\<lambda>i. es ! ((c + i) mod n)) [0..<m * n]) x = m * count_list es x"
proof (induction m)
  case (Suc m)
  have rot: "map (\<lambda>i. es ! ((c + i) mod n)) [0..<n] = rotate c es"
    using Suc.prems by (intro nth_equalityI) (auto simp: nth_rotate)
  have "[0..<n + m * n] = [0..<m * n] @ map (\<lambda>i. i + m * n) [0..<n]"
    unfolding map_add_upt by (metis add.commute add_0 upt_add_eq_append zero_le)
  moreover have "map (\<lambda>i. es ! ((c + i) mod n)) (map (\<lambda>i. i + m * n) [0..<n]) = rotate c es"
    unfolding rot[symmetric] map_map o_def add.assoc[symmetric] by simp
  moreover have "count_list (rotate c es) x = count_list es x"
    by (simp add: count_list_rotate)
  ultimately show ?case
    using Suc by (simp add: algebra_simps)
qed simp

section \<open>Properties\<close>

text \<open>C32: Round-robin delivery is fair: if the group keeps its members and the 64-bit counter
  does not wrap, \<open>m\<close> full rounds of publications call every handler exactly \<open>m\<close> times
  for each of its memberships.\<close>

theorem PublishToGroup_fair:
  assumes "members (groupKey g ev) b \<noteq> []" and "length (members (groupKey g ev) b) < 2 ^ 64"
    and "n = m * length (members (groupKey g ev) b)"
    and "unat (group_count (groupKey g ev) b) + n \<le> 2 ^ 64"
    and "publish_many n g ev b = (hs, b')"
  shows "length hs = n
    \<and> count_list hs (Some h) = m * count_list (map snd (members (groupKey g ev) b)) h"
proof -
  let ?es = "members (groupKey g ev) b" and ?c = "unat (group_count (groupKey g ev) b)"
  let ?xs = "map snd ?es"
  have hs: "hs = map (\<lambda>i. Some (snd (?es ! ((?c + i) mod length ?es)))) [0..<n]"
    using publish_many_spec[OF refl assms(1,2,4,5)] .
  let ?ys = "map (\<lambda>i. ?xs ! ((?c + i) mod length ?es)) [0..<m * length ?es]"
  have "hs = map Some ?ys"
    using hs assms(1,3) by (auto simp: nth_map)
  moreover have "count_list (map Some ?ys) (Some h) = count_list ?ys h"
    by (rule count_list_map_conv) simp
  moreover have "count_list ?ys h = m * count_list ?xs h"
    by (rule count_rounds) simp
  ultimately have "count_list hs (Some h) = m * count_list ?xs h"
    by (simp only:)
  then show ?thesis
    using hs by simp
qed

definition two_workers :: "nat LocalBus" where
  "two_workers = snd (SubscribeAsGroup ''w'' ''job'' 2 (snd (SubscribeAsGroup ''w'' ''job'' 1
     (NewLocalBus NewEventBus))))"

lemma two_workers_members: "members (groupKey ''w'' ''job'') two_workers = [(1, 1), (2, 2)]"
  "group_count (groupKey ''w'' ''job'') two_workers = 0"
  by (simp_all add: two_workers_def SubscribeAsGroup_def members_def group_count_def NewLocalBus_def
      new_group_def Let_def)

theorem PublishToGroup_fair_witness:
  "count_list (fst (publish_many 6 ''w'' ''job'' two_workers)) (Some 2) = 3"
proof -
  obtain hs b where P: "publish_many 6 ''w'' ''job'' two_workers = (hs, b)"
    by (cases "publish_many 6 ''w'' ''job'' two_workers")
  show ?thesis
    using PublishToGroup_fair[of "''w''" "''job''" two_workers 6 3 hs b 2] P
    by (simp add: two_workers_members)
qed

text \<open>Members of a group carry distinct identifiers, and cancelling a membership removes
  exactly that member and leaves the others, in order, as long as fewer than \<open>2 ^ 64 - 1\<close>
  memberships were created.\<close>

theorem SubscribeAsGroup_cancel:
  assumes "groups_inv b" and "last_id (groupKey g ev) b < - 1"
    and "SubscribeAsGroup g ev h b = (c, b')"
  shows "members (groupKey g ev) b' = members (groupKey g ev) b @ [(snd c, h)]
    \<and> members (groupKey g ev) (cancelGroup c b') = members (groupKey g ev) b
    \<and> groups_inv (cancelGroup c b')"
proof -
  note S = SubscribeAsGroup_inv[OF assms]
  obtain i where c: "c = (groupKey g ev, i)"
    using S(4) by (cases c) auto
  have "filter (\<lambda>e. fst e \<noteq> i) (members (groupKey g ev) b) = members (groupKey g ev) b"
    using S(3) c by (auto simp: filter_id_conv)
  then show ?thesis
    using S c cancelGroup_members(1)[OF S(1), of "groupKey g ev" "groupKey g ev" i]
      cancelGroup_members(2)[OF S(1), of "groupKey g ev" i] by simp
qed

theorem SubscribeAsGroup_cancel_witness:
  "members (groupKey ''w'' ''job'') (cancelGroup (fst (SubscribeAsGroup ''w'' ''job'' (1 :: nat)
     (NewLocalBus NewEventBus))) (snd (SubscribeAsGroup ''w'' ''job'' (1 :: nat) (NewLocalBus NewEventBus)))) = []"
proof -
  obtain c b' where S: "SubscribeAsGroup ''w'' ''job'' (1 :: nat) (NewLocalBus NewEventBus) = (c, b')"
    by (cases "SubscribeAsGroup ''w'' ''job'' (1 :: nat) (NewLocalBus NewEventBus)")
  have "last_id (groupKey ''w'' ''job'') (NewLocalBus NewEventBus :: nat LocalBus) < - 1"
    "members (groupKey ''w'' ''job'') (NewLocalBus NewEventBus :: nat LocalBus) = []"
    by (simp_all add: last_id_def members_def NewLocalBus_def word_gt_0)
  then show ?thesis
    using SubscribeAsGroup_cancel[OF groups_inv_New _ S] S by simp
qed

text \<open>Cancelling an event subscription restores the bus and silences the handler: the
  table is as before the subscription, and no later publication of that type starts the
  cancelled subscriber.\<close>

theorem SubscribeEvent_cancel:
  assumes "eb_inv (eb b)" and "ev \<noteq> []" and "eb_abs (eb b) (ev, sub) = None"
    and "SubscribeEvent i sub ev h b = (c, b1)"
  shows "\<exists>b2. cancelEvent c b1 = Some b2 \<and> eb_abs (eb b2) = eb_abs (eb b) \<and>
    (\<forall>(d :: 'd) fl p x. in64 fl \<longrightarrow> PublishEvent ev (Some d) fl b2 = Some p \<longrightarrow> (sub, x) \<notin> set (started p))"
proof -
  obtain s' e1 where S: "Subscribe i ev (Some sub) h (eb b) = (s', e1)"
    by (cases "Subscribe i ev (Some sub) h (eb b)")
  then have c: "c = (ev, sub)" "b1 = b\<lparr>eb := e1\<rparr>"
    using assms(4) by (auto simp: SubscribeEvent_def)
  obtain e2 where e2: "Unsubscribe 2 ev (Some sub) e1 = Some e2" "eb_inv e2" "eb_abs e2 = eb_abs (eb b)"
    using bus.subscribe_cancel[OF assms(1-3) S] by blast
  have "(sub, x) \<notin> set (started p)"
    if "in64 fl" "PublishEvent ev (Some d) fl (b1\<lparr>eb := e2\<rparr>) = Some p" for d :: 'd and fl p x
    using bus.publish_sound[OF e2(2) that(1) assms(2), of "Some d" p sub x] that(2) assms(2,3) e2(3)
    by (auto simp: PublishEvent_def PublishData_def)
  then show ?thesis
    using e2 c by (auto simp: cancelEvent_def)
qed

theorem SubscribeEvent_cancel_witness:
  "\<exists>b2. cancelEvent (''a'', ''s'') (snd (SubscribeEvent [] ''s'' ''a'' (5 :: nat) (NewLocalBus NewEventBus))) = Some b2
     \<and> eb_abs (eb b2) = Map.empty"
proof -
  have "eb_inv (eb (NewLocalBus NewEventBus :: nat LocalBus))"
    "eb_abs (eb (NewLocalBus NewEventBus :: nat LocalBus)) = Map.empty"
    by (simp_all add: NewLocalBus_def eb_inv_New eb_abs_New)
  then show ?thesis
    using SubscribeEvent_cancel[of "NewLocalBus NewEventBus" "''a''" "''s''" "[]" "5 :: nat" "(''a'', ''s'')"
        "snd (SubscribeEvent [] ''s'' ''a'' (5 :: nat) (NewLocalBus NewEventBus))"]
    by (auto simp: SubscribeEvent_def)
qed

end
