(* ===== verification/Handler_Registry.thy ===== *)
theory Handler_Registry
  imports Prelude
begin

text \<open>
  \<^verbatim>\<open>handler_engine/registry.go\<close>: from a device type to the handler script.
  \<^verbatim>\<open>filepath.Clean\<close>, \<^verbatim>\<open>Join\<close> and \<^verbatim>\<open>Abs\<close> are the lexical functions of
  the Unix \<^verbatim>\<open>path/filepath\<close>; the file system is the parameter \<open>fs\<close>.
\<close>

record fsys =
  getwd :: "string res"
  stat :: "string \<Rightarrow> bool res"
  readDir :: "string \<Rightarrow> (string \<times> bool) list option"

text \<open>\<open>stat\<close> tells whether the file is a directory; \<open>readDir\<close> lists names with that flag.\<close>

definition device_char :: "char \<Rightarrow> bool" where
  "device_char c \<longleftrightarrow> c \<in> set ''abcdefghijklmnopqrstuvwxyzABCDEFGHIJKLMNOPQRSTUVWXYZ0123456789_-''"

definition IsValidDeviceType :: "string \<Rightarrow> bool" where
  "IsValidDeviceType dt \<longleftrightarrow> 1 \<le> length dt \<and> length dt \<le> 64 \<and> list_all device_char dt"

fun clean_comps :: "bool \<Rightarrow> string list \<Rightarrow> string list \<Rightarrow> string list" where
  "clean_comps rooted out [] = rev out"
| "clean_comps rooted out (c # cs) =
     (if c = [] \<or> c = ''.'' then clean_comps rooted out cs
      else if c = ''..'' then
        (case out of
           [] \<Rightarrow> if rooted then clean_comps rooted [] cs else clean_comps rooted [''..''] cs
         | x # xs \<Rightarrow> if x = ''..'' then clean_comps rooted (''..'' # out) cs
                     else clean_comps rooted xs cs)
      else clean_comps rooted (c # out) cs)"

definition IsAbs :: "string \<Rightarrow> bool" where
  "IsAbs p \<longleftrightarrow> HasPrefix p ''/''"

definition path_comps :: "string \<Rightarrow> string list" where
  "path_comps p = clean_comps (IsAbs p) [] (Split p (CHR ''/''))"

fun join_slash :: "string list \<Rightarrow> string" where
  "join_slash [] = []"
| "join_slash [c] = c"
| "join_slash (c # cs) = c @ ''/'' @ join_slash cs"

definition Clean :: "string \<Rightarrow> string" where
  "Clean p =
     (if IsAbs p then ''/'' @ join_slash (path_comps p)
      else if path_comps p = [] then ''.'' else join_slash (path_comps p))"

text \<open>\<^verbatim>\<open>Join\<close> drops leading empty elements and cleans the rest.\<close>

definition Join :: "string list \<Rightarrow> string" where
  "Join es =
     (case dropWhile (\<lambda>e. e = []) es of [] \<Rightarrow> [] | fs \<Rightarrow> Clean (join_slash fs))"

definition Abs :: "fsys \<Rightarrow> string \<Rightarrow> string res" where
  "Abs fs p =
     (if IsAbs p then Inr (Clean p)
      else (case getwd fs of Inl e \<Rightarrow> Inl e | Inr wd \<Rightarrow> Inr (Join [wd, p])))"

text \<open>\<^verbatim>\<open>%q\<close>, without the escapes of special characters.\<close>

definition quoted :: "string \<Rightarrow> string" where
  "quoted s = [CHR 0x22] @ s @ [CHR 0x22]"

definition ResolveHandlerScript :: "fsys \<Rightarrow> string \<Rightarrow> string \<Rightarrow> string res" where
  "ResolveHandlerScript fs basePath deviceType =
     (if \<not> IsValidDeviceType deviceType
      then Inl (''invalid device type '' @ quoted deviceType
             @ '': must be alphanumeric/hyphens/underscores, max 64 chars'')
      else
        (case Abs fs (Join [basePath, deviceType, ''start_handler.sh'']) of
           Inl e \<Rightarrow> Inl (''failed to resolve handler path: '' @ e)
         | Inr absPath \<Rightarrow>
             (case stat fs absPath of
                Inl e \<Rightarrow> Inl (''handler script not found for device type '' @ quoted deviceType @ '': '' @ e)
              | Inr isDir \<Rightarrow>
                  if isDir then Inl (''handler path is a directory, not a script: '' @ absPath)
                  else Inr absPath)))"

definition ResolveHandlerDir :: "fsys \<Rightarrow> string \<Rightarrow> string \<Rightarrow> string res" where
  "ResolveHandlerDir fs basePath deviceType =
     (case Abs fs (Join [basePath, deviceType]) of
        Inl e \<Rightarrow> Inl (''failed to resolve handler dir: '' @ e)
      | Inr absPath \<Rightarrow>
          (case stat fs absPath of
             Inl e \<Rightarrow> Inl (''handler directory not found for device type '' @ quoted deviceType @ '': '' @ e)
           | Inr isDir \<Rightarrow>
               if \<not> isDir then Inl (''handler path is not a directory: '' @ absPath)
               else Inr absPath))"

definition ListHandlerTypes :: "fsys \<Rightarrow> string \<Rightarrow> string list" where
  "ListHandlerTypes fs basePath =
     (case readDir fs basePath of
        None \<Rightarrow> []
      | Some entries \<Rightarrow>
          map fst (filter (\<lambda>(name, isDir). isDir \<and>
            isr_val (stat fs (Join [basePath, name, ''start_handler.sh''])) \<noteq> None) entries))"

section \<open>Paths\<close>

lemma clean_comps_append:
  "clean_comps r out (xs @ ys) = clean_comps r (rev (clean_comps r out xs)) ys"
  by (induction r out xs rule: clean_comps.induct) (auto split: list.splits)

lemma clean_comps_plain:
  "list_all (\<lambda>c. c \<noteq> [] \<and> c \<noteq> ''.'' \<and> c \<noteq> ''..'') cs \<Longrightarrow> clean_comps r out cs = rev out @ cs"
  by (induction cs arbitrary: out) auto

lemma Split_append: "Split (a @ c # b) c = Split a c @ Split b c"
  by (induction a) (auto split: list.splits)

lemma Split_plain: "c \<notin> set a \<Longrightarrow> Split a c = [a]"
  by (induction a) auto

lemma IsAbs_append: "a \<noteq> [] \<Longrightarrow> IsAbs (a @ b) = IsAbs a"
  by (cases a) (auto simp: IsAbs_def HasPrefix_def)

lemma path_comps_append:
  assumes "a \<noteq> []"
  shows "path_comps (a @ ''/'' @ b) = clean_comps (IsAbs a) (rev (path_comps a)) (Split b (CHR ''/''))"
  using IsAbs_append[OF assms] by (simp add: path_comps_def Split_append clean_comps_append)

text \<open>A cleaned list: leading parents (none below the root), then plain names.\<close>

definition plain :: "string \<Rightarrow> bool" where
  "plain c \<longleftrightarrow> c \<noteq> [] \<and> c \<noteq> ''.'' \<and> c \<noteq> ''..'' \<and> CHR ''/'' \<notin> set c"

definition clean_ok :: "bool \<Rightarrow> string list \<Rightarrow> bool" where
  "clean_ok r cs \<longleftrightarrow> (\<exists>n ps. cs = replicate n ''..'' @ ps \<and> (r \<longrightarrow> n = 0) \<and> list_all plain ps)"

lemma clean_comps_ups:
  "(r \<longrightarrow> n = 0) \<Longrightarrow> clean_comps r (replicate m ''..'') (replicate n ''..'' @ ps)
    = clean_comps r (replicate (m + n) ''..'') ps"
proof (induction n arbitrary: m)
  case (Suc n)
  have "clean_comps r (replicate m ''..'') (''..'' # replicate n ''..'' @ ps)
      = clean_comps r (replicate (Suc m) ''..'') (replicate n ''..'' @ ps)"
    using Suc.prems by (cases m) simp_all
  also have "\<dots> = clean_comps r (replicate (Suc m + n) ''..'') ps"
    by (rule Suc.IH) (use Suc.prems in simp)
  finally show ?case by simp
qed simp

lemma clean_ok_id: "clean_ok r cs \<Longrightarrow> clean_comps r [] cs = cs"
proof -
  assume "clean_ok r cs"
  then obtain n ps where cs: "cs = replicate n ''..'' @ ps" "r \<longrightarrow> n = 0" "list_all plain ps"
    by (auto simp: clean_ok_def)
  have "clean_comps r [] cs = clean_comps r (replicate n ''..'') ps"
    using clean_comps_ups[of r n 0 ps] cs(1,2) by simp
  also have "\<dots> = rev (replicate n ''..'') @ ps"
    by (rule clean_comps_plain) (use cs(3) in \<open>auto simp: list_all_iff plain_def\<close>)
  finally show ?thesis
    using cs(1) by simp
qed

lemma clean_comps_ok:
  "clean_ok r (rev out) \<Longrightarrow> list_all (\<lambda>c. CHR ''/'' \<notin> set c) cs \<Longrightarrow> clean_ok r (clean_comps r out cs)"
proof (induction r out cs rule: clean_comps.induct)
  case (2 r out c cs)
  have push: "clean_ok r (rev (c # out))" if "plain c"
  proof -
    obtain n ps where "rev out = replicate n ''..'' @ ps" "r \<longrightarrow> n = 0" "list_all plain ps"
      using "2.prems"(1) by (auto simp: clean_ok_def)
    then show ?thesis
      using that unfolding clean_ok_def by (intro exI[of _ n] exI[of _ "ps @ [c]"]) simp
  qed
  have up: "clean_ok r (rev (''..'' # out))" if "out = [] \<or> hd out = ''..''" "\<not> r \<or> out \<noteq> []"
  proof -
    obtain n ps where n: "rev out = replicate n ''..'' @ ps" "r \<longrightarrow> n = 0" "list_all plain ps"
      using "2.prems"(1) by (auto simp: clean_ok_def)
    have "ps = []"
    proof (rule ccontr)
      assume "ps \<noteq> []"
      then have "hd out = last ps" "out \<noteq> []"
        using n(1) by (metis hd_rev last_appendR rev_rev_ident, metis append_is_Nil_conv n(1) rev.simps(1))
      then show False
        using that(1) n(3) \<open>ps \<noteq> []\<close> by (metis last_in_set list_all_iff plain_def)
    qed
    then have "rev (''..'' # out) = replicate (Suc n) ''..'' @ []" "r \<longrightarrow> Suc n = 0"
      using n(1,2) that by (auto simp: replicate_append_same)
    then show ?thesis
      unfolding clean_ok_def by (intro exI[of _ "Suc n"] exI[of _ "[]"]) simp
  qed
  have pop: "clean_ok r (rev xs)" if "out = x # xs" for x xs
  proof -
    obtain n ps where n: "rev out = replicate n ''..'' @ ps" "r \<longrightarrow> n = 0" "list_all plain ps"
      using "2.prems"(1) by (auto simp: clean_ok_def)
    have "rev xs = butlast (replicate n ''..'' @ ps)"
      using n(1) that by (metis butlast_snoc rev.simps(2))
    then have "rev xs = replicate n ''..'' @ butlast ps \<or> ps = [] \<and> rev xs = replicate (n - 1) ''..'' @ []"
      by (simp add: butlast_append butlast_conv_take[of "replicate _ _"] min_def)
    then show ?thesis
    proof
      assume "rev xs = replicate n ''..'' @ butlast ps"
      then show ?thesis
        unfolding clean_ok_def using n(2,3)
        by (intro exI[of _ n] exI[of _ "butlast ps"]) (auto simp: list_all_iff dest: in_set_butlastD)
    next
      assume "ps = [] \<and> rev xs = replicate (n - 1) ''..'' @ []"
      then show ?thesis
        unfolding clean_ok_def using n(2) by (intro exI[of _ "n - 1"] exI[of _ "[]"]) simp
    qed
  qed
  show ?case
    using 2 push up pop by (auto simp: plain_def split: list.splits)
qed simp

lemma path_comps_ok: "clean_ok (IsAbs p) (path_comps p)"
  unfolding path_comps_def
  by (rule clean_comps_ok) (auto simp: clean_ok_def list_all_iff dest: Split_no_sep)

lemma Split_join: "cs \<noteq> [] \<Longrightarrow> list_all (\<lambda>c. CHR ''/'' \<notin> set c) cs \<Longrightarrow> Split (join_slash cs) (CHR ''/'') = cs"
  by (induction cs rule: join_slash.induct) (simp_all add: Split_plain Split_append)

lemma clean_ok_no_slash: "clean_ok r cs \<Longrightarrow> list_all (\<lambda>c. CHR ''/'' \<notin> set c \<and> c \<noteq> []) cs"
proof -
  assume "clean_ok r cs"
  then obtain n ps where cs: "cs = replicate n ''..'' @ ps" "list_all plain ps"
    unfolding clean_ok_def by blast
  have "c = ''..'' \<or> plain c" if "c \<in> set cs" for c
    using that cs by (auto simp: list_all_iff)
  then show ?thesis
    by (fastforce simp: list_all_iff plain_def)
qed

lemma path_comps_Clean: "path_comps (Clean p) = path_comps p" "IsAbs (Clean p) = IsAbs p"
proof -
  let ?cs = "path_comps p"
  have ok: "clean_ok (IsAbs p) ?cs" by (rule path_comps_ok)
  have ns: "list_all (\<lambda>c. CHR ''/'' \<notin> set c) ?cs" "list_all (\<lambda>c. c \<noteq> []) ?cs"
    using clean_ok_no_slash[OF ok] by (auto simp: list_all_iff)
  have rel: "\<not> IsAbs (join_slash ?cs)" if "?cs \<noteq> []"
    using ns that by (cases ?cs rule: join_slash.cases) (auto simp: IsAbs_def HasPrefix_def take_Cons' neq_Nil_conv)
  show A: "IsAbs (Clean p) = IsAbs p"
    using rel by (auto simp: Clean_def IsAbs_def HasPrefix_def)
  show "path_comps (Clean p) = ?cs"
  proof (cases "?cs = []")
    case True
    then show ?thesis
      using A by (auto simp: path_comps_def Clean_def IsAbs_def HasPrefix_def split: if_splits)
  next
    case False
    then have "Split (Clean p) (CHR ''/'') = (if IsAbs p then [] # ?cs else ?cs)"
      using Split_join[OF False ns(1)] by (simp add: Clean_def)
    then show ?thesis
      using A clean_ok_id[OF ok] unfolding path_comps_def[of "Clean p"] by (simp split: if_splits)
  qed
qed

lemma device_char_neq: "\<not> device_char (CHR ''/'')" "\<not> device_char (CHR ''.'')"
  by (simp_all add: device_char_def)

lemma device_plain: "IsValidDeviceType dt \<Longrightarrow> plain dt"
  using device_char_neq by (auto simp: IsValidDeviceType_def plain_def list_all_iff)

text \<open>Appending plain names to a directory appends them to its components.\<close>

lemma path_comps_under:
  assumes "a \<noteq> []" and "list_all plain cs" and "cs \<noteq> []"
  shows "path_comps (a @ ''/'' @ join_slash cs) = path_comps a @ cs"
proof -
  have "Split (join_slash cs) (CHR ''/'') = cs"
    by (rule Split_join) (use assms in \<open>auto simp: plain_def list_all_iff\<close>)
  then show ?thesis
    using path_comps_append[OF assms(1)] clean_comps_plain[of cs] assms(2)
    by (auto simp: plain_def list_all_iff)
qed

lemma Join_two: "a \<noteq> [] \<Longrightarrow> Join [a, b] = Clean (a @ ''/'' @ b)"
  by (simp add: Join_def)

lemma Abs_comps:
  assumes "Abs fs p = Inr q" and "\<And>wd. getwd fs = Inr wd \<Longrightarrow> IsAbs wd"
  shows "IsAbs q"
    and "path_comps q = (if IsAbs p then path_comps p
      else clean_comps True (rev (path_comps (case getwd fs of Inl e \<Rightarrow> [] | Inr wd \<Rightarrow> wd)))
        (Split p (CHR ''/'')))"
proof -
  have "IsAbs q \<and> path_comps q = (if IsAbs p then path_comps p
      else clean_comps True (rev (path_comps (case getwd fs of Inl e \<Rightarrow> [] | Inr wd \<Rightarrow> wd)))
        (Split p (CHR ''/'')))"
  proof (cases "IsAbs p")
    case True
    then show ?thesis using assms(1) by (auto simp: Abs_def path_comps_Clean)
  next
    case False
    then obtain wd where wd: "getwd fs = Inr wd" "q = Join [wd, p]"
      using assms(1) by (auto simp: Abs_def split: sum.splits)
    have "wd \<noteq> []" "IsAbs wd"
      using assms(2)[OF wd(1)] by (auto simp: IsAbs_def HasPrefix_def)
    then show ?thesis
      using wd False Join_two[of wd p] path_comps_append[of wd p] IsAbs_append[of wd "''/'' @ p"]
      by (simp add: path_comps_Clean)
  qed
  then show "IsAbs q" "path_comps q = (if IsAbs p then path_comps p
      else clean_comps True (rev (path_comps (case getwd fs of Inl e \<Rightarrow> [] | Inr wd \<Rightarrow> wd)))
        (Split p (CHR ''/'')))"
    by blast+
qed

text \<open>
  Resolving relative components against an absolute directory one by one, or after cleaning
  them first, gives the same directory.
\<close>

lemma clean_comps_rel:
  "list_all (\<lambda>c. c \<noteq> [] \<and> c \<noteq> ''.'') acc \<Longrightarrow>
   clean_comps True out (clean_comps False acc xs)
     = clean_comps True (rev (clean_comps True out (rev acc))) xs"
proof (induction xs arbitrary: acc)
  case (Cons c xs)
  let ?s = "rev (clean_comps True out (rev acc))"
  have snoc: "rev (clean_comps True out (rev acc @ [d])) = rev (clean_comps True ?s [d])" for d
    by (simp add: clean_comps_append)
  have step: "clean_comps True ?s (d # xs) = clean_comps True (rev (clean_comps True ?s [d])) xs" for d
    using clean_comps_append[of True ?s "[d]" xs] by simp
  consider "c = [] \<or> c = ''.''" | "c = ''..''" "acc = [] \<or> hd acc = ''..''"
    | x ys where "c = ''..''" "acc = x # ys" "x \<noteq> ''..''" | "plain c \<or> c \<noteq> [] \<and> c \<noteq> ''.'' \<and> c \<noteq> ''..''"
    by (cases acc) auto
  then show ?case
  proof cases
    case 1
    then show ?thesis using Cons by auto
  next
    case 2
    then have "clean_comps False acc (c # xs) = clean_comps False (''..'' # acc) xs"
      by (cases acc) auto
    then show ?thesis
      using Cons.IH[of "''..'' # acc"] Cons.prems step[of c] snoc[of c] 2(1) by simp
  next
    case 3
    then have "clean_comps False acc (c # xs) = clean_comps False ys xs"
      by simp
    moreover have "rev (clean_comps True ?s [''..'']) = rev (clean_comps True out (rev ys))"
      using 3 Cons.prems by (simp add: clean_comps_append)
    ultimately show ?thesis
      using Cons.IH[of ys] Cons.prems step[of c] 3(1,2) by simp
  next
    case 4
    then have "clean_comps False acc (c # xs) = clean_comps False (c # acc) xs"
      by (auto simp: plain_def)
    then show ?thesis
      using Cons.IH[of "c # acc"] Cons.prems step[of c] snoc[of c] 4 by (auto simp: plain_def)
  qed
qed simp

lemma script_under_base:
  assumes base: "base \<noteq> []" and dt: "IsValidDeviceType dt"
    and wd: "\<And>wd. getwd fs = Inr wd \<Longrightarrow> IsAbs wd"
    and abs: "Abs fs (Join [base, dt, ''start_handler.sh'']) = Inr p"
  shows "\<exists>b. Abs fs base = Inr b \<and> IsAbs p \<and> path_comps p = path_comps b @ [dt, ''start_handler.sh'']"
proof -
  let ?f = "''start_handler.sh''" and ?q = "Join [base, dt, ''start_handler.sh'']"
  have pl: "list_all plain [dt, ?f]"
    using device_plain[OF dt] by (simp add: plain_def)
  have q: "?q = Clean (base @ ''/'' @ join_slash [dt, ?f])"
    using base by (simp add: Join_def)
  have qc: "path_comps ?q = path_comps base @ [dt, ?f]" "IsAbs ?q = IsAbs base"
    using path_comps_under[OF base pl] IsAbs_append[OF base]
    unfolding q path_comps_Clean by simp_all
  have b: "\<exists>b. Abs fs base = Inr b"
    using abs qc(2) by (auto simp: Abs_def split: if_splits sum.splits)
  then obtain b where b: "Abs fs base = Inr b" by blast
  note P = Abs_comps[OF abs wd] and B = Abs_comps[OF b wd]
  have "path_comps p = path_comps b @ [dt, ?f]"
  proof (cases "IsAbs base")
    case True
    then show ?thesis using P(2) B(2) qc by simp
  next
    case False
    let ?W = "rev (path_comps (case getwd fs of Inl e \<Rightarrow> [] | Inr wd \<Rightarrow> wd))"
    have nz: "path_comps base @ [dt, ?f] \<noteq> []" by simp
    have ns: "list_all (\<lambda>c. CHR ''/'' \<notin> set c) (path_comps base @ [dt, ?f])"
      using clean_ok_no_slash[OF path_comps_ok] pl by (auto simp: list_all_iff plain_def)
    have "\<not> IsAbs (base @ ''/'' @ join_slash [dt, ?f])"
      using False IsAbs_append[OF base] by blast
    then have "?q = join_slash (path_comps base @ [dt, ?f])"
      using path_comps_under[OF base pl] unfolding q by (simp add: Clean_def)
    then have "path_comps p = clean_comps True ?W (path_comps base @ [dt, ?f])"
      using P(2) qc(2) False Split_join[OF nz ns] by simp
    also have "\<dots> = clean_comps True (rev (clean_comps True ?W (path_comps base))) [dt, ?f]"
      by (rule clean_comps_append)
    also have "\<dots> = clean_comps True ?W (path_comps base) @ [dt, ?f]"
      using clean_comps_plain[of "[dt, ?f]"] pl by (simp add: plain_def)
    also have "clean_comps True ?W (path_comps base) = path_comps b"
      using B(2) False clean_comps_rel[of "[]" ?W] by (simp add: path_comps_def)
    finally show ?thesis .
  qed
  then show ?thesis
    using b P(1) by blast
qed

section \<open>Properties\<close>

text \<open>C33: The script a device type resolves to lies directly below the handler directory: its
  absolute path has the components of the base directory followed by the device type and
  \<^verbatim>\<open>start_handler.sh\<close>, so no accepted device type leads out of the directory, and it is
  a file that is not a directory.\<close>

theorem ResolveHandlerScript_confined:
  assumes "ResolveHandlerScript fs base dt = Inr p" and "base \<noteq> []"
    and "\<And>wd. getwd fs = Inr wd \<Longrightarrow> IsAbs wd"
  shows "\<exists>b. Abs fs base = Inr b \<and> IsAbs p \<and> path_comps p = path_comps b @ [dt, ''start_handler.sh'']
    \<and> stat fs p = Inr False"
proof -
  have "IsValidDeviceType dt" "Abs fs (Join [base, dt, ''start_handler.sh'']) = Inr p" "stat fs p = Inr False"
    using assms(1) by (auto simp: ResolveHandlerScript_def split: if_splits sum.splits)
  then show ?thesis
    using script_under_base[OF assms(2) _ assms(3)] by blast
qed

definition sample_fs :: fsys where
  "sample_fs = \<lparr>getwd = Inr ''/srv/app'', stat = (\<lambda>_. Inr False), readDir = (\<lambda>_. None)\<rparr>"

theorem ResolveHandlerScript_confined_witness:
  "\<exists>p b. ResolveHandlerScript sample_fs ''../handlers'' ''arm'' = Inr p \<and> Abs sample_fs ''../handlers'' = Inr b
     \<and> path_comps p = path_comps b @ [''arm'', ''start_handler.sh'']"
proof -
  have wd: "\<And>wd. getwd sample_fs = Inr wd \<Longrightarrow> IsAbs wd"
    by (simp add: sample_fs_def IsAbs_def HasPrefix_def)
  have "IsValidDeviceType ''arm''"
    by (simp add: IsValidDeviceType_def device_char_def)
  then have "\<exists>p. ResolveHandlerScript sample_fs ''../handlers'' ''arm'' = Inr p"
    by (simp add: ResolveHandlerScript_def Abs_def sample_fs_def)
  then obtain p where p: "ResolveHandlerScript sample_fs ''../handlers'' ''arm'' = Inr p"
    by blast
  show ?thesis
    using ResolveHandlerScript_confined[OF p _ wd] p by auto
qed

end
