(* ===== verification/Handler_Process.thy ===== *)
theory Handler_Process
  imports Comms Heartbeat Handler_Registry
begin

text \<open>
  \<^verbatim>\<open>handler_engine/process.go\<close> and \<^verbatim>\<open>manager.go\<close>: the handler processes, their
  bounded write channels and the global manager.  A process is a value at an address of
  the engine; the manager maps robots to addresses, as the Go map holds pointers.  A
  connection that \<^verbatim>\<open>RobotSend\<close> writes to is a value of \<open>'c\<close>.  An operation that
  would panic (a send on, or a second close of, a closed channel) has no result
  (\<open>None\<close>).
\<close>

section \<open>Messages to the script\<close>

definition NL :: char where "NL = CHR 0x0A"

definition obj_line :: "(string \<times> json) list \<Rightarrow> string" where
  "obj_line ms = json_print (JObj ms) @ [NL]"

definition ConnectMessage :: "string \<Rightarrow> string \<Rightarrow> string \<Rightarrow> string \<Rightarrow> string" where
  "ConnectMessage uuid deviceType ip sessionID = obj_line
     [(''type'', JStr ''connect''), (''uuid'', JStr uuid), (''device_type'', JStr deviceType),
      (''ip'', JStr ip), (''session_id'', JStr sessionID)]"

definition DisconnectMessage :: "string \<Rightarrow> string \<Rightarrow> string" where
  "DisconnectMessage uuid reason = obj_line
     [(''type'', JStr ''disconnect''), (''uuid'', JStr uuid), (''reason'', JStr reason)]"

definition IncomingMessage :: "string \<Rightarrow> string \<Rightarrow> string" where
  "IncomingMessage uuid payload = obj_line
     [(''type'', JStr ''incoming''), (''uuid'', JStr uuid), (''payload'', JStr payload)]"

definition EventMessage :: "string \<Rightarrow> string \<Rightarrow> json \<Rightarrow> string" where
  "EventMessage ty eventType data = obj_line
     [(''type'', JStr ty), (''event_type'', JStr eventType), (''data'', data)]"

section \<open>Handler processes\<close>

record 'c HandlerProcess =
  hp_UUID :: string
  hp_DeviceType :: string
  hp_IP :: string
  hp_SessionID :: string
  hp_PID :: int
  hp_closed :: bool
  writeCh :: "string list"
  writeCh_closed :: bool
  RobotSend :: "'c option"
  subs :: "(string \<times> Subscriber) list"
  ForwardHeartbeats :: bool

definition writeCh_cap :: nat where "writeCh_cap = 256"

definition new_process ::
  "string \<Rightarrow> string \<Rightarrow> string \<Rightarrow> string \<Rightarrow> int \<Rightarrow> 'c option \<Rightarrow> 'c HandlerProcess" where
  "new_process uuid deviceType ip sessionID pid conn =
     \<lparr>hp_UUID = uuid, hp_DeviceType = deviceType, hp_IP = ip, hp_SessionID = sessionID,
      hp_PID = pid, hp_closed = False, writeCh = [], writeCh_closed = False,
      RobotSend = conn, subs = [], ForwardHeartbeats = False\<rparr>"

text \<open>\<^verbatim>\<open>select { case hp.writeCh <- data: default: }\<close>.\<close>

definition try_send :: "string \<Rightarrow> 'c HandlerProcess \<Rightarrow> 'c HandlerProcess option" where
  "try_send data hp =
     (if writeCh_closed hp then None
      else if length (writeCh hp) < writeCh_cap then Some (hp\<lparr>writeCh := writeCh hp @ [data]\<rparr>)
      else Some hp)"

definition sendToScript :: "string \<Rightarrow> 'c HandlerProcess \<Rightarrow> 'c HandlerProcess option" where
  "sendToScript line hp = (if hp_closed hp then Some hp else try_send line hp)"

definition Reattach :: "'c \<Rightarrow> string \<Rightarrow> string \<Rightarrow> 'c HandlerProcess \<Rightarrow> 'c HandlerProcess option" where
  "Reattach robotSend ip sessionID hp =
     sendToScript (ConnectMessage (hp_UUID hp) (hp_DeviceType hp) ip sessionID)
       (hp\<lparr>RobotSend := Some robotSend, hp_IP := ip, hp_SessionID := sessionID\<rparr>)"

definition SendIncoming :: "string \<Rightarrow> 'c HandlerProcess \<Rightarrow> 'c HandlerProcess option" where
  "SendIncoming payload hp = sendToScript (IncomingMessage (hp_UUID hp) payload) hp"

definition SendDisconnect :: "string \<Rightarrow> 'c HandlerProcess \<Rightarrow> 'c HandlerProcess option" where
  "SendDisconnect reason hp =
     (if hp_closed hp then Some hp
      else try_send (DisconnectMessage (hp_UUID hp) reason) (hp\<lparr>RobotSend := None\<rparr>))"

text \<open>
  \<^verbatim>\<open>Stop\<close> in the pieces between which other goroutines may run: the critical section,
  the close of the channel, and the clean-up (\<open>stop_finish\<close> below).  The flag tells whether
  this call goes on.
\<close>

definition stop_lock :: "string \<Rightarrow> 'c HandlerProcess \<Rightarrow> (bool \<times> 'c HandlerProcess) option" where
  "stop_lock reason hp =
     (if hp_closed hp then Some (False, hp)
      else (case try_send (DisconnectMessage (hp_UUID hp) reason) (hp\<lparr>hp_closed := True\<rparr>) of
              None \<Rightarrow> None
            | Some hp' \<Rightarrow> Some (True, hp')))"

definition stop_close :: "'c HandlerProcess \<Rightarrow> 'c HandlerProcess option" where
  "stop_close hp = (if writeCh_closed hp then None else Some (hp\<lparr>writeCh_closed := True\<rparr>))"

text \<open>
  One round of \<^verbatim>\<open>stdinWriter\<close>: the data taken from the channel.  With an empty channel
  it waits, or ends once the channel is closed.
\<close>

definition stdinWriter_step :: "'c HandlerProcess \<Rightarrow> string option \<times> 'c HandlerProcess" where
  "stdinWriter_step hp =
     (case writeCh hp of [] \<Rightarrow> (None, hp) | d # ds \<Rightarrow> (Some d, hp\<lparr>writeCh := ds\<rparr>))"

section \<open>The manager\<close>

text \<open>A closure the engine subscribes on the bus: the process it feeds and the message type.\<close>

datatype closure = Forward string nat | Foreign nat

record 'c engine =
  procs :: "(nat, 'c HandlerProcess) gomap"
  fresh_proc :: nat
  handlers :: "(string, nat) gomap"
  spawning :: "(string, bool) gomap"
  bus :: "closure LocalBus"

definition Register :: "nat \<Rightarrow> string \<Rightarrow> 'c engine \<Rightarrow> 'c engine" where
  "Register a uuid e = e\<lparr>handlers := AList.update uuid a (handlers e)\<rparr>"

definition Unregister :: "string \<Rightarrow> 'c engine \<Rightarrow> 'c engine" where
  "Unregister uuid e = e\<lparr>handlers := AList.delete uuid (handlers e)\<rparr>"

definition Get :: "string \<Rightarrow> 'c engine \<Rightarrow> nat option" where
  "Get uuid e = map_of (handlers e) uuid"

definition Has :: "string \<Rightarrow> 'c engine \<Rightarrow> bool" where
  "Has uuid e \<longleftrightarrow> map_of (handlers e) uuid \<noteq> None"

definition TryStartSpawning :: "string \<Rightarrow> 'c engine \<Rightarrow> bool \<times> 'c engine" where
  "TryStartSpawning uuid e =
     (if map_of (handlers e) uuid \<noteq> None then (False, e)
      else if map_of (spawning e) uuid = Some True then (False, e)
      else (True, e\<lparr>spawning := AList.update uuid True (spawning e)\<rparr>))"

definition FinishSpawning :: "string \<Rightarrow> 'c engine \<Rightarrow> 'c engine" where
  "FinishSpawning uuid e = e\<lparr>spawning := AList.delete uuid (spawning e)\<rparr>"

definition ListAll :: "'c engine \<Rightarrow> (string, int) gomap" where
  "ListAll e = map (\<lambda>(u, a). (u, case map_of (procs e) a of None \<Rightarrow> 0 | Some hp \<Rightarrow> hp_PID hp)) (handlers e)"

text \<open>An operation of a process, applied at its address.\<close>

definition on_proc ::
  "nat \<Rightarrow> ('c HandlerProcess \<Rightarrow> 'c HandlerProcess option) \<Rightarrow> 'c engine \<Rightarrow> 'c engine option" where
  "on_proc a f e =
     (case map_of (procs e) a of
        None \<Rightarrow> None
      | Some hp \<Rightarrow>
          (case f hp of
             None \<Rightarrow> None
           | Some hp' \<Rightarrow> Some (e\<lparr>procs := AList.update a hp' (procs e)\<rparr>)))"

fun cancel_all :: "(string \<times> Subscriber) list \<Rightarrow> 'h LocalBus \<Rightarrow> 'h LocalBus option" where
  "cancel_all [] b = Some b"
| "cancel_all (c # cs) b =
     (case cancelEvent c b of None \<Rightarrow> None | Some b' \<Rightarrow> cancel_all cs b')"

definition stop_finish :: "nat \<Rightarrow> 'c engine \<Rightarrow> 'c engine option" where
  "stop_finish a e =
     (case map_of (procs e) a of
        None \<Rightarrow> None
      | Some hp \<Rightarrow>
          (case cancel_all (subs hp) (bus e) of
             None \<Rightarrow> None
           | Some b \<Rightarrow>
               Some (Unregister (hp_UUID hp)
                 (e\<lparr>procs := AList.update a (hp\<lparr>subs := []\<rparr>) (procs e), bus := b\<rparr>))))"

text \<open>\<^verbatim>\<open>Stop\<close> run without interruption.\<close>

definition Stop :: "string \<Rightarrow> nat \<Rightarrow> 'c engine \<Rightarrow> 'c engine option" where
  "Stop reason a e =
     (case map_of (procs e) a of
        None \<Rightarrow> None
      | Some hp \<Rightarrow>
          (case stop_lock reason hp of
             None \<Rightarrow> None
           | Some (False, _) \<Rightarrow> Some e
           | Some (True, hp1) \<Rightarrow>
               (case stop_close hp1 of
                  None \<Rightarrow> None
                | Some hp2 \<Rightarrow> stop_finish a (e\<lparr>procs := AList.update a hp2 (procs e)\<rparr>))))"

definition Kill :: "string \<Rightarrow> 'c engine \<Rightarrow> (unit res \<times> 'c engine) option" where
  "Kill uuid e =
     (case Get uuid e of
        None \<Rightarrow> Some (Inl (''no handler running for robot '' @ uuid), e)
      | Some a \<Rightarrow> (case Stop ''killed'' a e of None \<Rightarrow> None | Some e' \<Rightarrow> Some (Inr (), e')))"

fun stop_each :: "string \<Rightarrow> nat list \<Rightarrow> 'c engine \<Rightarrow> 'c engine option" where
  "stop_each reason [] e = Some e"
| "stop_each reason (a # as) e =
     (case Stop reason a e of None \<Rightarrow> None | Some e' \<Rightarrow> stop_each reason as e')"

definition StopAll :: "string \<Rightarrow> 'c engine \<Rightarrow> 'c engine option" where
  "StopAll reason e = stop_each reason (map snd (handlers e)) e"

section \<open>Spawning\<close>

text \<open>
  \<open>id1\<close>, \<open>id2\<close> are the identifiers drawn by the bus.  \<open>pidr\<close> is what the operating
  system answers to the creation of the pipes and of the process.
\<close>

definition subscribe_proc ::
  "string \<Rightarrow> string \<Rightarrow> string \<Rightarrow> string \<Rightarrow> nat \<Rightarrow> 'c engine \<Rightarrow> 'c engine option" where
  "subscribe_proc id1 id2 topic ty a e =
     (let (c, b) = SubscribeEvent id2 id1 topic (Forward ty a) (bus e)
      in on_proc a (\<lambda>hp. Some (hp\<lparr>subs := subs hp @ [c]\<rparr>)) (e\<lparr>bus := b\<rparr>))"

definition setupBusSubscriptions :: "string \<Rightarrow> string \<Rightarrow> nat \<Rightarrow> 'c engine \<Rightarrow> 'c engine option" where
  "setupBusSubscriptions id1 id2 a e =
     (case map_of (procs e) a of
        None \<Rightarrow> None
      | Some hp \<Rightarrow> subscribe_proc id1 id2 (''handler.'' @ hp_UUID hp @ ''.message'') ''event'' a e)"

text \<open>Storing the process identifier in the active session; errors are ignored.\<close>

definition store_pid :: "'r redis \<Rightarrow> Config \<Rightarrow> string \<Rightarrow> int \<Rightarrow> 'r \<Rightarrow> 'r" where
  "store_pid rd c uuid pid s =
     (case GetActiveRobot rd uuid s of
        (Inl _, s1) \<Rightarrow> s1
      | (Inr active, s1) \<Rightarrow> snd (SetActiveRobot rd (active\<lparr>ar_PID := pid\<rparr>) (TTL (Redis c)) s1))"

definition add_process :: "'c HandlerProcess \<Rightarrow> 'c engine \<Rightarrow> nat \<times> 'c engine" where
  "add_process hp e =
     (let a = fresh_proc e
      in (a, Register a (hp_UUID hp) (e\<lparr>procs := AList.update a hp (procs e), fresh_proc := Suc a\<rparr>)))"

definition register_process ::
  "string \<Rightarrow> string \<Rightarrow> 'c HandlerProcess \<Rightarrow> 'c engine \<Rightarrow> (nat \<times> 'c engine) option" where
  "register_process id1 id2 hp e =
     (let (a, e1) = add_process hp e
      in case on_proc a (sendToScript (ConnectMessage (hp_UUID hp) (hp_DeviceType hp) (hp_IP hp) (hp_SessionID hp))) e1 of
           None \<Rightarrow> None
         | Some e2 \<Rightarrow>
             (case setupBusSubscriptions id1 id2 a e2 of
                None \<Rightarrow> None
              | Some e3 \<Rightarrow> Some (a, e3)))"

definition SpawnHandlerProcess ::
  "('r, 'p) server \<Rightarrow> fsys \<Rightarrow> int res \<Rightarrow> string \<Rightarrow> string \<Rightarrow> string \<Rightarrow> string \<Rightarrow> string \<Rightarrow> string \<Rightarrow> 'c option
   \<Rightarrow> 'r \<times> 'c engine \<Rightarrow> (nat res \<times> 'r \<times> 'c engine) option" where
  "SpawnHandlerProcess sv fs pidr id1 id2 uuid deviceType ip sessionID conn s =
     (case ResolveHandlerScript fs (BasePath (cfg sv)) deviceType of
        Inl e \<Rightarrow> Some (Inl e, s)
      | Inr _ \<Rightarrow>
          (case pidr of
             Inl e \<Rightarrow> Some (Inl e, s)
           | Inr pid \<Rightarrow>
               (let hp = new_process uuid deviceType ip sessionID pid conn;
                    r = store_pid (rds sv) (cfg sv) uuid pid (fst s)
                in case register_process id1 id2 hp (snd s) of
                     None \<Rightarrow> None
                   | Some (a, e) \<Rightarrow> Some (Inr a, r, e))))"

section \<open>Interleavings\<close>

text \<open>
  The goroutines of the server interleave at the operations above.  Besides the engine, a
  state records which goroutines hold the right to spawn (\<open>tokens\<close>, with a flag once the
  holder has registered its process), how many
  \<^verbatim>\<open>Stop\<close> calls on a process are between the lock and the close of the channel, how
  many between the close and the end, which processes are gone, and whether any operation
  panicked.
\<close>

datatype 'c hop = OSend string | OReattach 'c string string | OIncoming string
  | ODisconnect string | OWriter | OSubscribed "string \<times> Subscriber"

fun hop_step :: "'c hop \<Rightarrow> 'c HandlerProcess \<Rightarrow> 'c HandlerProcess option" where
  "hop_step (OSend line) hp = sendToScript line hp"
| "hop_step (OReattach c ip sid) hp = Reattach c ip sid hp"
| "hop_step (OIncoming payload) hp = SendIncoming payload hp"
| "hop_step (ODisconnect reason) hp = SendDisconnect reason hp"
| "hop_step OWriter hp = Some (snd (stdinWriter_step hp))"
| "hop_step (OSubscribed c) hp = Some (hp\<lparr>subs := subs hp @ [c]\<rparr>)"

record 'c conc =
  eng :: "'c engine"
  tokens :: "(string \<times> bool) list"
  closers :: "nat \<Rightarrow> nat"
  finishers :: "nat \<Rightarrow> nat"
  gone :: "nat set"
  panicked :: bool

definition set_proc :: "nat \<Rightarrow> 'c HandlerProcess \<Rightarrow> 'c conc \<Rightarrow> 'c conc" where
  "set_proc a hp s = s\<lparr>eng := (eng s)\<lparr>procs := AList.update a hp (procs (eng s))\<rparr>\<rparr>"

inductive hstep :: "'c conc \<Rightarrow> 'c conc \<Rightarrow> bool" where
  try_start: "TryStartSpawning u (eng s) = (True, e') \<Longrightarrow>
    hstep s (s\<lparr>eng := e', tokens := (u, False) # tokens s\<rparr>)"
| spawned: "(u, False) \<in> set (tokens s) \<Longrightarrow>
    add_process (new_process u dt ip sid pid c) (eng s) = (a, e') \<Longrightarrow>
    hstep s (s\<lparr>eng := e', tokens := (u, True) # remove1 (u, False) (tokens s)\<rparr>)"
| finish: "(u, b) \<in> set (tokens s) \<Longrightarrow>
    hstep s (s\<lparr>eng := FinishSpawning u (eng s), tokens := remove1 (u, b) (tokens s)\<rparr>)"
| op: "map_of (procs (eng s)) a = Some hp \<Longrightarrow> hop_step opr hp = Some hp' \<Longrightarrow>
    hstep s (set_proc a hp' s)"
| op_panic: "map_of (procs (eng s)) a = Some hp \<Longrightarrow> hop_step opr hp = None \<Longrightarrow>
    hstep s (s\<lparr>panicked := True\<rparr>)"
| lock: "map_of (procs (eng s)) a = Some hp \<Longrightarrow> stop_lock reason hp = Some (True, hp') \<Longrightarrow>
    hstep s ((set_proc a hp' s)\<lparr>closers := (closers s)(a := Suc (closers s a))\<rparr>)"
| lock_panic: "map_of (procs (eng s)) a = Some hp \<Longrightarrow> stop_lock reason hp = None \<Longrightarrow>
    hstep s (s\<lparr>panicked := True\<rparr>)"
| close: "0 < closers s a \<Longrightarrow> map_of (procs (eng s)) a = Some hp \<Longrightarrow> stop_close hp = Some hp' \<Longrightarrow>
    hstep s ((set_proc a hp' s)\<lparr>closers := (closers s)(a := closers s a - 1),
      finishers := (finishers s)(a := Suc (finishers s a))\<rparr>)"
| close_panic: "0 < closers s a \<Longrightarrow> map_of (procs (eng s)) a = Some hp \<Longrightarrow> stop_close hp = None \<Longrightarrow>
    hstep s (s\<lparr>panicked := True\<rparr>)"
| stopped: "0 < finishers s a \<Longrightarrow> stop_finish a (eng s) = Some e' \<Longrightarrow>
    hstep s (s\<lparr>eng := e', finishers := (finishers s)(a := finishers s a - 1), gone := insert a (gone s)\<rparr>)"

inductive_cases hstepE: "hstep s s'"

definition hinit :: "closure LocalBus \<Rightarrow> 'c conc" where
  "hinit b = \<lparr>eng = \<lparr>procs = [], fresh_proc = 0, handlers = [], spawning = [], bus = b\<rparr>,
     tokens = [], closers = (\<lambda>_. 0), finishers = (\<lambda>_. 0), gone = {}, panicked = False\<rparr>"

subsection \<open>The invariant\<close>

text \<open>The life of a process: open; locked; channel closed; gone.\<close>

definition proc_ok :: "'c HandlerProcess \<Rightarrow> nat \<Rightarrow> nat \<Rightarrow> bool \<Rightarrow> bool" where
  "proc_ok hp c f g \<longleftrightarrow> length (writeCh hp) \<le> writeCh_cap \<and>
     (if \<not> hp_closed hp then c = 0 \<and> f = 0 \<and> \<not> writeCh_closed hp \<and> \<not> g
      else if \<not> writeCh_closed hp then c = 1 \<and> f = 0 \<and> \<not> g
      else c = 0 \<and> (if g then f = 0 else f = 1))"

definition hinv :: "'c conc \<Rightarrow> bool" where
  "hinv s \<longleftrightarrow> \<not> panicked s
     \<and> (\<forall>a hp. map_of (procs (eng s)) a = Some hp \<longrightarrow>
          a < fresh_proc (eng s) \<and> proc_ok hp (closers s a) (finishers s a) (a \<in> gone s)
          \<and> (a \<notin> gone s \<longrightarrow> map_of (handlers (eng s)) (hp_UUID hp) = Some a))
     \<and> (\<forall>a \<ge> fresh_proc (eng s). closers s a = 0 \<and> finishers s a = 0 \<and> a \<notin> gone s)
     \<and> (\<forall>u a. map_of (handlers (eng s)) u = Some a \<longrightarrow>
          (\<exists>hp. map_of (procs (eng s)) a = Some hp \<and> hp_UUID hp = u \<and> a \<notin> gone s))
     \<and> distinct (map fst (tokens s))
     \<and> (\<forall>u. map_of (spawning (eng s)) u = Some True \<longleftrightarrow> u \<in> fst ` set (tokens s))
     \<and> (\<forall>u. (u, False) \<in> set (tokens s) \<longrightarrow> map_of (handlers (eng s)) u = None)"

lemma hinv_init: "hinv (hinit b)"
  by (simp add: hinv_def hinit_def)

text \<open>What no operation of a process changes, and when it has a result.\<close>

lemma hop_step_frame:
  assumes "hop_step opr hp = Some hp'"
  shows "hp_UUID hp' = hp_UUID hp" "hp_closed hp' = hp_closed hp"
    "writeCh_closed hp' = writeCh_closed hp"
    "length (writeCh hp) \<le> writeCh_cap \<Longrightarrow> length (writeCh hp') \<le> writeCh_cap"
  using assms
  by (cases opr; auto simp: sendToScript_def try_send_def Reattach_def SendIncoming_def
      SendDisconnect_def stdinWriter_step_def split: if_splits list.splits)+

lemma hop_step_total: "(writeCh_closed hp \<longrightarrow> hp_closed hp) \<Longrightarrow> hop_step opr hp \<noteq> None"
  by (cases opr) (auto simp: sendToScript_def try_send_def Reattach_def SendIncoming_def
      SendDisconnect_def split: if_splits)

lemma proc_ok_open: "proc_ok hp c f g \<Longrightarrow> writeCh_closed hp \<longrightarrow> hp_closed hp"
  by (auto simp: proc_ok_def split: if_splits)

lemma proc_ok_op: "proc_ok hp c f g \<Longrightarrow> hop_step opr hp = Some hp' \<Longrightarrow> proc_ok hp' c f g"
  using hop_step_frame[of opr hp hp'] by (simp add: proc_ok_def)

lemma proc_ok_lock:
  assumes "proc_ok hp c f g"
  shows "stop_lock reason hp \<noteq> None"
    and "stop_lock reason hp = Some (True, hp') \<Longrightarrow>
      proc_ok hp' (Suc c) f g \<and> hp_UUID hp' = hp_UUID hp"
  using assms by (auto simp: proc_ok_def stop_lock_def try_send_def split: if_splits)

lemma proc_ok_close:
  assumes "proc_ok hp c f g" and "0 < c"
  shows "stop_close hp \<noteq> None"
    and "stop_close hp = Some hp' \<Longrightarrow> proc_ok hp' (c - 1) (Suc f) g \<and> hp_UUID hp' = hp_UUID hp"
  using assms by (auto simp: proc_ok_def stop_close_def split: if_splits)

lemma proc_ok_gone: "proc_ok hp c f g \<Longrightarrow> 0 < f \<Longrightarrow> \<not> g \<and> proc_ok (hp\<lparr>subs := []\<rparr>) c (f - 1) True"
  by (auto simp: proc_ok_def split: if_splits)

lemma hinvD:
  assumes "hinv s"
  shows "\<not> panicked s" "distinct (map fst (tokens s))"
    "map_of (spawning (eng s)) u = Some True \<longleftrightarrow> u \<in> fst ` set (tokens s)"
    "(u, False) \<in> set (tokens s) \<Longrightarrow> map_of (handlers (eng s)) u = None"
    "map_of (handlers (eng s)) u = Some a \<Longrightarrow>
      \<exists>hp. map_of (procs (eng s)) a = Some hp \<and> hp_UUID hp = u \<and> a \<notin> gone s"
    "fresh_proc (eng s) \<le> a \<Longrightarrow> closers s a = 0 \<and> finishers s a = 0 \<and> a \<notin> gone s"
    "map_of (procs (eng s)) a = Some hp \<Longrightarrow> a < fresh_proc (eng s)"
    "map_of (procs (eng s)) a = Some hp \<Longrightarrow> proc_ok hp (closers s a) (finishers s a) (a \<in> gone s)"
    "map_of (procs (eng s)) a = Some hp \<Longrightarrow> a \<notin> gone s \<Longrightarrow> map_of (handlers (eng s)) (hp_UUID hp) = Some a"
  using assms unfolding hinv_def by blast+

lemma hinvI:
  assumes "\<not> panicked s" "distinct (map fst (tokens s))"
    "\<And>u. map_of (spawning (eng s)) u = Some True \<longleftrightarrow> u \<in> fst ` set (tokens s)"
    "\<And>u. (u, False) \<in> set (tokens s) \<Longrightarrow> map_of (handlers (eng s)) u = None"
    "\<And>u a. map_of (handlers (eng s)) u = Some a \<Longrightarrow>
      \<exists>hp. map_of (procs (eng s)) a = Some hp \<and> hp_UUID hp = u \<and> a \<notin> gone s"
    "\<And>a. fresh_proc (eng s) \<le> a \<Longrightarrow> closers s a = 0 \<and> finishers s a = 0 \<and> a \<notin> gone s"
    "\<And>a hp. map_of (procs (eng s)) a = Some hp \<Longrightarrow> a < fresh_proc (eng s)"
    "\<And>a hp. map_of (procs (eng s)) a = Some hp \<Longrightarrow> proc_ok hp (closers s a) (finishers s a) (a \<in> gone s)"
    "\<And>a hp. map_of (procs (eng s)) a = Some hp \<Longrightarrow> a \<notin> gone s \<Longrightarrow>
      map_of (handlers (eng s)) (hp_UUID hp) = Some a"
  shows "hinv s"
  unfolding hinv_def
proof (intro conjI)
  show "\<forall>a hp. map_of (procs (eng s)) a = Some hp \<longrightarrow>
      a < fresh_proc (eng s) \<and> proc_ok hp (closers s a) (finishers s a) (a \<in> gone s)
      \<and> (a \<notin> gone s \<longrightarrow> map_of (handlers (eng s)) (hp_UUID hp) = Some a)"
    by (intro allI impI conjI) (fact assms(7) assms(8) assms(9))+
qed (use assms(1-6) in auto)

text \<open>Replacing a process by one of the same robot.\<close>

lemma hinv_set_proc:
  assumes inv: "hinv s" and hp: "map_of (procs (eng s)) a = Some hp" "hp_UUID hp' = hp_UUID hp"
    and ok: "proc_ok hp' c f (a \<in> gone s)"
  shows "hinv ((set_proc a hp' s)\<lparr>closers := (closers s)(a := c), finishers := (finishers s)(a := f)\<rparr>)"
    (is "hinv ?s")
proof (rule hinvI)
  note D = hinvD[OF inv]
  have eng: "handlers (eng ?s) = handlers (eng s)" "spawning (eng ?s) = spawning (eng s)"
    "fresh_proc (eng ?s) = fresh_proc (eng s)" "tokens ?s = tokens s" "gone ?s = gone s"
    "panicked ?s = panicked s" "map_of (procs (eng ?s)) = (map_of (procs (eng s)))(a \<mapsto> hp')"
    by (simp_all add: set_proc_def)
  show "\<not> panicked ?s" "distinct (map fst (tokens ?s))"
    "\<And>u. map_of (spawning (eng ?s)) u = Some True \<longleftrightarrow> u \<in> fst ` set (tokens ?s)"
    "\<And>u. (u, False) \<in> set (tokens ?s) \<Longrightarrow> map_of (handlers (eng ?s)) u = None"
    unfolding eng using D(1-4) by simp_all
  show "\<exists>h. map_of (procs (eng ?s)) b = Some h \<and> hp_UUID h = u \<and> b \<notin> gone ?s"
    if "map_of (handlers (eng ?s)) u = Some b" for u b
    using that D(5)[of u b] hp unfolding eng by auto
  show "closers ?s b = 0 \<and> finishers ?s b = 0 \<and> b \<notin> gone ?s" if "fresh_proc (eng ?s) \<le> b" for b
    using that D(6)[of b] D(7)[OF hp(1)] unfolding eng by auto
  show "b < fresh_proc (eng ?s)" if "map_of (procs (eng ?s)) b = Some h" for b h
    using that D(7)[of b h] D(7)[OF hp(1)] unfolding eng by (auto split: if_splits)
  show "proc_ok h (closers ?s b) (finishers ?s b) (b \<in> gone ?s)"
    if "map_of (procs (eng ?s)) b = Some h" for b h
    using that D(8)[of b h] ok unfolding eng by (auto split: if_splits)
  show "map_of (handlers (eng ?s)) (hp_UUID h) = Some b"
    if "map_of (procs (eng ?s)) b = Some h" "b \<notin> gone ?s" for b h
    using that D(9)[of b h] D(9)[OF hp(1)] hp(2) unfolding eng by (auto split: if_splits)
qed

lemma hinv_try_start:
  assumes inv: "hinv s" and t: "TryStartSpawning u (eng s) = (True, e')"
  shows "hinv (s\<lparr>eng := e', tokens := (u, False) # tokens s\<rparr>)" (is "hinv ?s")
proof -
  note D = hinvD[OF inv]
  have h: "map_of (handlers (eng s)) u = None" "map_of (spawning (eng s)) u \<noteq> Some True"
    and e': "e' = (eng s)\<lparr>spawning := AList.update u True (spawning (eng s))\<rparr>"
    using t by (auto simp: TryStartSpawning_def split: if_splits)
  show ?thesis
  proof (rule hinvI)
    show "distinct (map fst (tokens ?s))"
      using D(2) D(3)[of u] h(2) by auto
    show "map_of (spawning (eng ?s)) v = Some True \<longleftrightarrow> v \<in> fst ` set (tokens ?s)" for v
      using D(3)[of v] by (auto simp: e')
    show "map_of (handlers (eng ?s)) v = None" if "(v, False) \<in> set (tokens ?s)" for v
      using that D(4)[of v] h(1) by (auto simp: e')
  qed (use D(1,5-9) e' in simp_all)
qed

lemma hinv_spawned:
  assumes inv: "hinv s" and tok: "(u, False) \<in> set (tokens s)"
    and add: "add_process (new_process u dt ip sid pid c) (eng s) = (a, e')"
  shows "hinv (s\<lparr>eng := e', tokens := (u, True) # remove1 (u, False) (tokens s)\<rparr>)" (is "hinv ?s")
proof -
  note D = hinvD[OF inv]
  let ?hp = "new_process u dt ip sid pid c"
  have a: "a = fresh_proc (eng s)" and e': "e' = Register a u ((eng s)\<lparr>procs := AList.update a ?hp (procs (eng s)), fresh_proc := Suc a\<rparr>)"
    using add by (auto simp: add_process_def Let_def new_process_def)
  have eng: "map_of (handlers (eng ?s)) = (map_of (handlers (eng s)))(u \<mapsto> a)"
    "map_of (procs (eng ?s)) = (map_of (procs (eng s)))(a \<mapsto> ?hp)"
    "fresh_proc (eng ?s) = Suc a" "spawning (eng ?s) = spawning (eng s)" "gone ?s = gone s"
    "closers ?s = closers s" "finishers ?s = finishers s"
    by (simp_all add: e' Register_def)
  have a': "closers s a = 0" "finishers s a = 0" "a \<notin> gone s"
    using D(6)[of a] a by simp_all
  have none: "map_of (handlers (eng s)) u = None"
    by (rule D(4)[OF tok])
  have other: "h_u \<noteq> u" if "map_of (procs (eng s)) b = Some hp" "b \<notin> gone s" "hp_UUID hp = h_u" for b hp h_u
    using D(9)[OF that(1,2)] that(3) none by auto
  have toks: "set (remove1 (u, False) (tokens s)) = set (tokens s) - {(u, False)}"
    using D(2) by (metis distinct_zipI1 distinct_map set_remove1_eq)
  have fsts: "fst ` set (tokens ?s) = fst ` set (tokens s)"
    using tok by (auto simp: toks) force+
  show ?thesis
  proof (rule hinvI)
    show "\<not> panicked ?s" using D(1) by simp
    show "distinct (map fst (tokens ?s))"
    proof -
      have "x = (u, False)" if "x \<in> set (tokens s)" "fst x = u" for x
        using D(2) tok that unfolding distinct_map inj_on_def by (metis fst_conv)
      then have "u \<notin> fst ` (set (tokens s) - {(u, False)})"
        by blast
      then show ?thesis
        using D(2) by (auto simp: toks distinct_map inj_on_def distinct_remove1)
    qed
    show "map_of (spawning (eng ?s)) v = Some True \<longleftrightarrow> v \<in> fst ` set (tokens ?s)" for v
      unfolding fsts eng by (rule D(3))
    show "map_of (handlers (eng ?s)) v = None" if "(v, False) \<in> set (tokens ?s)" for v
      using that D(4)[of v] unfolding eng by (auto simp: toks)
    show "\<exists>hp. map_of (procs (eng ?s)) b = Some hp \<and> hp_UUID hp = v \<and> b \<notin> gone ?s"
      if "map_of (handlers (eng ?s)) v = Some b" for v b
      using that D(5)[of v b] D(7) a a' unfolding eng
      by (auto simp: new_process_def split: if_splits)
    show "closers ?s b = 0 \<and> finishers ?s b = 0 \<and> b \<notin> gone ?s" if "fresh_proc (eng ?s) \<le> b" for b
      using that D(6)[of b] a unfolding eng by simp
    show "b < fresh_proc (eng ?s)" if "map_of (procs (eng ?s)) b = Some hp" for b hp
      using that D(7)[of b hp] a unfolding eng by (auto split: if_splits)
    show "proc_ok hp (closers ?s b) (finishers ?s b) (b \<in> gone ?s)"
      if "map_of (procs (eng ?s)) b = Some hp" for b hp
      using that D(8)[of b hp] a' unfolding eng
      by (auto simp: proc_ok_def new_process_def split: if_splits)
    show "map_of (handlers (eng ?s)) (hp_UUID hp) = Some b"
      if "map_of (procs (eng ?s)) b = Some hp" "b \<notin> gone ?s" for b hp
      using that D(9)[of b hp] other[of b hp] unfolding eng
      by (auto simp: new_process_def split: if_splits)
  qed
qed

lemma hinv_finish:
  assumes inv: "hinv s" and tok: "(u, b) \<in> set (tokens s)"
  shows "hinv (s\<lparr>eng := FinishSpawning u (eng s), tokens := remove1 (u, b) (tokens s)\<rparr>)" (is "hinv ?s")
proof -
  note D = hinvD[OF inv]
  have eng: "handlers (eng ?s) = handlers (eng s)" "procs (eng ?s) = procs (eng s)"
    "fresh_proc (eng ?s) = fresh_proc (eng s)" "map_of (spawning (eng ?s)) = (map_of (spawning (eng s)))(u := None)"
    by (simp_all add: FinishSpawning_def)
  have uniq: "x = (u, b)" if "x \<in> set (tokens s)" "fst x = u" for x
    using D(2) tok that unfolding distinct_map inj_on_def by (metis fst_conv)
  have toks: "set (remove1 (u, b) (tokens s)) = set (tokens s) - {(u, b)}"
    using D(2) by (simp add: distinct_map)
  show ?thesis
  proof (rule hinvI)
    show "distinct (map fst (tokens ?s))"
      using D(2) by (auto simp: distinct_map toks inj_on_def)
    show "map_of (spawning (eng ?s)) v = Some True \<longleftrightarrow> v \<in> fst ` set (tokens ?s)" for v
    proof (cases "v = u")
      case True
      have "u \<notin> fst ` set (tokens ?s)"
      proof
        assume "u \<in> fst ` set (tokens ?s)"
        then obtain x where "x \<in> set (tokens s)" "fst x = u" "x \<noteq> (u, b)"
          using toks by auto
        then show False using uniq[of x] by blast
      qed
      then show ?thesis using True unfolding eng by simp
    next
      case False
      then have "v \<in> fst ` set (tokens ?s) \<longleftrightarrow> v \<in> fst ` set (tokens s)"
        using toks by auto
      then show ?thesis using D(3)[of v] False unfolding eng by simp
    qed
    show "map_of (handlers (eng ?s)) v = None" if "(v, False) \<in> set (tokens ?s)" for v
      using that D(4)[of v] unfolding eng by (simp add: toks)
  qed (use D(1,5-9) eng in simp_all)
qed

lemma hinv_stopped:
  assumes inv: "hinv s" and f: "0 < finishers s a" and st: "stop_finish a (eng s) = Some e'"
  shows "hinv (s\<lparr>eng := e', finishers := (finishers s)(a := finishers s a - 1), gone := insert a (gone s)\<rparr>)"
    (is "hinv ?s")
proof -
  note D = hinvD[OF inv]
  obtain hp b where hp: "map_of (procs (eng s)) a = Some hp"
    and e': "e' = Unregister (hp_UUID hp) ((eng s)\<lparr>procs := AList.update a (hp\<lparr>subs := []\<rparr>) (procs (eng s)), bus := b\<rparr>)"
    using st by (auto simp: stop_finish_def split: option.splits)
  note G = proc_ok_gone[OF D(8)[OF hp] f]
  have reg: "map_of (handlers (eng s)) (hp_UUID hp) = Some a"
    using D(9)[OF hp] G by blast
  have eng: "map_of (handlers (eng ?s)) = (map_of (handlers (eng s)))(hp_UUID hp := None)"
    "map_of (procs (eng ?s)) = (map_of (procs (eng s)))(a \<mapsto> hp\<lparr>subs := []\<rparr>)"
    "fresh_proc (eng ?s) = fresh_proc (eng s)" "spawning (eng ?s) = spawning (eng s)"
    by (simp_all add: e' Unregister_def)
  show ?thesis
  proof (rule hinvI)
    show "map_of (handlers (eng ?s)) v = None" if "(v, False) \<in> set (tokens ?s)" for v
      using that D(4)[of v] unfolding eng by simp
    show "\<exists>h. map_of (procs (eng ?s)) c = Some h \<and> hp_UUID h = v \<and> c \<notin> gone ?s"
      if "map_of (handlers (eng ?s)) v = Some c" for v c
      using that D(5)[of v c] reg hp unfolding eng by (auto split: if_splits)
    show "closers ?s c = 0 \<and> finishers ?s c = 0 \<and> c \<notin> gone ?s" if "fresh_proc (eng ?s) \<le> c" for c
      using that D(6)[of c] D(7)[OF hp] unfolding eng by auto
    show "c < fresh_proc (eng ?s)" if "map_of (procs (eng ?s)) c = Some h" for c h
      using that D(7)[of c h] D(7)[OF hp] unfolding eng by (auto split: if_splits)
    show "proc_ok h (closers ?s c) (finishers ?s c) (c \<in> gone ?s)"
      if "map_of (procs (eng ?s)) c = Some h" for c h
      using that D(8)[of c h] G unfolding eng by (auto split: if_splits)
    show "map_of (handlers (eng ?s)) (hp_UUID h) = Some c"
      if "map_of (procs (eng ?s)) c = Some h" "c \<notin> gone ?s" for c h
      using that D(9)[of c h] reg unfolding eng by (auto split: if_splits)
    show "map_of (spawning (eng ?s)) v = Some True \<longleftrightarrow> v \<in> fst ` set (tokens ?s)" for v
      using D(3)[of v] unfolding eng by simp
  qed (use D(1,2) in simp_all)
qed

lemma hinv_step: "hstep s s' \<Longrightarrow> hinv s \<Longrightarrow> hinv s'"
proof (induction rule: hstep.induct)
  case (op s a hp opr hp')
  then show ?case
    using hinv_set_proc[OF op(3) op(1) hop_step_frame(1)[OF op(2)] proc_ok_op[OF hinvD(8)[OF op(3,1)] op(2)]]
    by (simp add: set_proc_def)
next
  case (op_panic s a hp opr)
  then show ?case
    using hop_step_total[OF proc_ok_open[OF hinvD(8)[OF op_panic(3,1)]]] by blast
next
  case (lock s a hp reason hp')
  note ok = proc_ok_lock(2)[OF hinvD(8)[OF lock(3,1)] lock(2)]
  show ?case
    using hinv_set_proc[OF lock(3,1) conjunct2[OF ok] conjunct1[OF ok]] by (simp add: set_proc_def)
next
  case (lock_panic s a hp reason)
  then show ?case
    using proc_ok_lock(1)[OF hinvD(8)[OF lock_panic(3,1)]] by blast
next
  case (close s a hp hp')
  note ok = proc_ok_close(2)[OF hinvD(8)[OF close(4,2)] close(1,3)]
  show ?case
    using hinv_set_proc[OF close(4,2) conjunct2[OF ok] conjunct1[OF ok]] by (simp add: set_proc_def)
next
  case (close_panic s a hp)
  then show ?case
    using proc_ok_close(1)[OF hinvD(8)[OF close_panic(4,2)] close_panic(1)] by blast
qed (fact hinv_try_start hinv_spawned hinv_finish hinv_stopped | rule hinv_try_start hinv_spawned hinv_finish hinv_stopped; assumption)+

lemma hinv_reachable: "hstep\<^sup>*\<^sup>* (hinit b) s \<Longrightarrow> hinv s"
  by (induction rule: rtranclp_induct) (auto intro: hinv_init hinv_step)

text \<open>What a client of the manager needs of the engine: every handler it finds can be sent to.\<close>

definition procs_ok :: "'c engine \<Rightarrow> bool" where
  "procs_ok e \<longleftrightarrow> (\<forall>u p. map_of (handlers e) u = Some p \<longrightarrow>
     (\<exists>hp. map_of (procs e) p = Some hp \<and> (writeCh_closed hp \<longrightarrow> hp_closed hp)))"

lemma hinv_procs_ok: "hinv s \<Longrightarrow> procs_ok (eng s)"
  unfolding procs_ok_def hinv_def using proc_ok_open by metis

lemma SendIncoming_ok:
  assumes "procs_ok e" and "Get u e = Some p"
  shows "\<exists>e'. on_proc p (SendIncoming d) e = Some e' \<and> procs_ok e' \<and> bus e' = bus e"
proof -
  obtain hp where hp: "map_of (procs e) p = Some hp" "writeCh_closed hp \<longrightarrow> hp_closed hp"
    using assms by (auto simp: procs_ok_def Get_def)
  then obtain hp' where hp': "SendIncoming d hp = Some hp'" "writeCh_closed hp' \<longrightarrow> hp_closed hp'"
    by (cases "hp_closed hp"; cases "length (writeCh hp) < writeCh_cap")
      (auto simp: SendIncoming_def sendToScript_def try_send_def)
  have "\<exists>h. map_of (procs (e\<lparr>procs := AList.update p hp' (procs e)\<rparr>)) q = Some h \<and> (writeCh_closed h \<longrightarrow> hp_closed h)"
    if "map_of (handlers e) v = Some q" for v q
    using assms(1) hp'(2) that by (auto simp: procs_ok_def update_conv)
  then have "procs_ok (e\<lparr>procs := AList.update p hp' (procs e)\<rparr>)"
    by (simp add: procs_ok_def)
  then show ?thesis using hp(1) hp'(1) by (simp add: on_proc_def)
qed

section \<open>Properties\<close>



end
