(* ===== verification/Handler_Rpc.thy ===== *)
theory Handler_Rpc
  imports Handler_Process "HOL-Library.Char_ord" "HOL-Library.List_Lexorder"
begin

text \<open>
  The requests a handler script makes (\<^verbatim>\<open>listenStdout\<close>, \<^verbatim>\<open>routeEnvelope\<close> and the
  functions below it in \<^verbatim>\<open>process.go\<close>) and the reverse connection of
  \<^verbatim>\<open>reverse_connect.go\<close>.  Values of Go's \<^verbatim>\<open>interface{}\<close> are JSON values.
  Two conversions are parameters: \<open>numAny\<close>, the text a number has after its passage
  through \<^verbatim>\<open>float64\<close> (none if out of range), and \<open>fmtTime\<close>, a time as text.
\<close>

record codec =
  numAny :: "string \<Rightarrow> string option"
  fmtTime :: "int \<Rightarrow> string"

section \<open>Values of interface type\<close>

text \<open>
  A decoded object is a map: of members with equal names the last counts, and encoding it
  again sorts the names.
\<close>

fun last_members :: "(string \<times> json) list \<Rightarrow> (string \<times> json) list" where
  "last_members [] = []"
| "last_members ((k, v) # ms) =
     (if k \<in> fst ` set ms then last_members ms else (k, v) # last_members ms)"

fun to_any :: "codec \<Rightarrow> json \<Rightarrow> json option"
and to_any_list :: "codec \<Rightarrow> json list \<Rightarrow> json list option"
and to_any_members :: "codec \<Rightarrow> (string \<times> json) list \<Rightarrow> (string \<times> json) list option" where
  "to_any C JNull = Some JNull"
| "to_any C (JBool b) = Some (JBool b)"
| "to_any C (JNum t) = map_option JNum (numAny C t)"
| "to_any C (JStr s) = Some (JStr s)"
| "to_any C (JArr vs) = map_option JArr (to_any_list C vs)"
| "to_any C (JObj ms) = map_option (\<lambda>ms. JObj (sort_key fst (last_members ms))) (to_any_members C ms)"
| "to_any_list C [] = Some []"
| "to_any_list C (v # vs) =
     (case (to_any C v, to_any_list C vs) of (Some x, Some xs) \<Rightarrow> Some (x # xs) | _ \<Rightarrow> None)"
| "to_any_members C [] = Some []"
| "to_any_members C ((k, v) # ms) =
     (case (to_any C v, to_any_members C ms) of (Some x, Some xs) \<Rightarrow> Some ((k, x) # xs) | _ \<Rightarrow> None)"

text \<open>A field of interface type takes the last member of its name, also when it is null.\<close>

definition any_field :: "codec \<Rightarrow> string \<Rightarrow> (string \<times> json) list \<Rightarrow> json option" where
  "any_field C f ms =
     (case to_any_list C (members_of f ms) of
        None \<Rightarrow> None
      | Some vs \<Rightarrow> Some (if vs = [] then JNull else last vs))"

section \<open>Envelopes\<close>

record JSONRPCEnvelope =
  env_ID :: string
  env_Target :: string
  env_Method :: string
  env_Data :: json
  env_Error :: string

definition dec_envelope :: "codec \<Rightarrow> string \<Rightarrow> JSONRPCEnvelope option" where
  "dec_envelope C line =
     (case json_members line of
        None \<Rightarrow> None
      | Some ms \<Rightarrow>
          (case (str_field ''id'' ms, str_field ''target'' ms, str_field ''method'' ms,
                 any_field C ''data'' ms, str_field ''error'' ms) of
             (Some i, Some t, Some m, Some d, Some e) \<Rightarrow>
               Some \<lparr>env_ID = i, env_Target = t, env_Method = m, env_Data = d, env_Error = e\<rparr>
           | _ \<Rightarrow> None))"

text \<open>\<open>None\<close> is a nil \<^verbatim>\<open>data\<close>, which \<^verbatim>\<open>omitempty\<close> leaves out.\<close>

definition response_line :: "string \<Rightarrow> json option \<Rightarrow> string \<Rightarrow> string" where
  "response_line i data errMsg = obj_line
     ((if i = [] then [] else [(''id'', JStr i)])
      @ [(''target'', JStr ''response'')]
      @ (case data of None \<Rightarrow> [] | Some d \<Rightarrow> [(''data'', d)])
      @ (if errMsg = [] then [] else [(''error'', JStr errMsg)]))"

text \<open>What a request does besides changing the state.\<close>

datatype 'c out =
    ToRobot 'c string
  | Published string json
  | DialTCP string string
  | DialUDP string string

record ('r, 'p, 'c) world =
  st :: "('r, 'p) store"
  en :: "'c engine"

type_synonym ('r, 'p, 'c) reply = "('c out list \<times> ('r, 'p, 'c) world) option"

definition sendResponse ::
  "nat \<Rightarrow> string \<Rightarrow> json option \<Rightarrow> string \<Rightarrow> ('r, 'p, 'c) world \<Rightarrow> ('r, 'p, 'c) reply" where
  "sendResponse a i data errMsg w =
     (case on_proc a (sendToScript (response_line i data errMsg)) (en w) of
        None \<Rightarrow> None
      | Some e \<Rightarrow> Some ([], w\<lparr>en := e\<rparr>))"

definition with_out :: "'c out list \<Rightarrow> ('r, 'p, 'c) reply \<Rightarrow> ('r, 'p, 'c) reply" where
  "with_out os r = map_option (\<lambda>(os', w). (os @ os', w)) r"

definition RobotRecord_json :: "codec \<Rightarrow> RobotRecord \<Rightarrow> json" where
  "RobotRecord_json C r = JObj
     [(''UUID'', JStr (rr_UUID r)), (''PublicKey'', JStr (rr_PublicKey r)),
      (''DeviceType'', JStr (rr_DeviceType r)), (''IsBlacklisted'', JBool (rr_IsBlacklisted r)),
      (''CreatedAt'', JStr (fmtTime C (rr_CreatedAt r)))]"

text \<open>An empty result is a nil slice, which is encoded as \<^verbatim>\<open>null\<close>.\<close>

definition RobotRecords_json :: "codec \<Rightarrow> RobotRecord list \<Rightarrow> json" where
  "RobotRecords_json C rs = (if rs = [] then JNull else JArr (map (RobotRecord_json C) rs))"

definition redisDataKey :: "string \<Rightarrow> string \<Rightarrow> string" where
  "redisDataKey uuid key = ''handler:'' @ uuid @ '':data:'' @ key"

definition set_rst :: "'r \<Rightarrow> ('r, 'p, 'c) world \<Rightarrow> ('r, 'p, 'c) world" where
  "set_rst r w = w\<lparr>st := (st w)\<lparr>rst := r\<rparr>\<rparr>"

definition set_pst :: "'p \<Rightarrow> ('r, 'p, 'c) world \<Rightarrow> ('r, 'p, 'c) world" where
  "set_pst p w = w\<lparr>st := (st w)\<lparr>pst := p\<rparr>\<rparr>"

section \<open>Database requests\<close>

definition robots_reply ::
  "codec \<Rightarrow> nat \<Rightarrow> string \<Rightarrow> RobotRecord list res \<times> 'p \<Rightarrow> ('r, 'p, 'c) world \<Rightarrow> ('r, 'p, 'c) reply" where
  "robots_reply C a i q w =
     (case q of
        (Inl e, p) \<Rightarrow> sendResponse a i None e (set_pst p w)
      | (Inr rs, p) \<Rightarrow> sendResponse a i (Some (RobotRecords_json C rs)) [] (set_pst p w))"

definition store_data ::
  "('r, 'p) server \<Rightarrow> nat \<Rightarrow> string \<Rightarrow> JSONRPCEnvelope \<Rightarrow> ('r, 'p, 'c) world \<Rightarrow> ('r, 'p, 'c) reply" where
  "store_data sv a uuid env w =
     (case env_Data env of
        JObj params \<Rightarrow>
          (let key = (case map_of params ''key'' of Some (JStr k) \<Rightarrow> k | _ \<Rightarrow> []);
               value = (case map_of params ''value'' of Some v \<Rightarrow> v | None \<Rightarrow> JNull)
           in if key = [] then sendResponse a (env_ID env) None ''key is required'' w
              else
                (case rdSet (rds sv) (redisDataKey uuid key) (json_print value) 0 (rst (st w)) of
                   (Inl e, r) \<Rightarrow> sendResponse a (env_ID env) None e (set_rst r w)
                 | (Inr _, r) \<Rightarrow> sendResponse a (env_ID env) (Some (JStr ''stored'')) [] (set_rst r w)))
      | _ \<Rightarrow> sendResponse a (env_ID env) None ''data must be an object with 'key' and 'value' fields'' w)"

definition get_data ::
  "codec \<Rightarrow> ('r, 'p) server \<Rightarrow> nat \<Rightarrow> string \<Rightarrow> JSONRPCEnvelope \<Rightarrow> ('r, 'p, 'c) world \<Rightarrow> ('r, 'p, 'c) reply" where
  "get_data C sv a uuid env w =
     (case env_Data env of
        JStr key \<Rightarrow>
          (case rdGet (rds sv) (redisDataKey uuid key) (rst (st w)) of
             (Inl e, r) \<Rightarrow> sendResponse a (env_ID env) None e (set_rst r w)
           | (Inr val, r) \<Rightarrow>
               (case Option.bind (json_parse val) (to_any C) of
                  Some JNull \<Rightarrow> sendResponse a (env_ID env) None [] (set_rst r w)
                | Some parsed \<Rightarrow> sendResponse a (env_ID env) (Some parsed) [] (set_rst r w)
                | None \<Rightarrow> sendResponse a (env_ID env) (Some (JStr val)) [] (set_rst r w)))
      | _ \<Rightarrow> sendResponse a (env_ID env) None ''data must be a key string'' w)"

definition delete_data ::
  "('r, 'p) server \<Rightarrow> nat \<Rightarrow> string \<Rightarrow> JSONRPCEnvelope \<Rightarrow> ('r, 'p, 'c) world \<Rightarrow> ('r, 'p, 'c) reply" where
  "delete_data sv a uuid env w =
     (case env_Data env of
        JStr key \<Rightarrow>
          (case rdDel (rds sv) (redisDataKey uuid key) (rst (st w)) of
             (Inl e, r) \<Rightarrow> sendResponse a (env_ID env) None e (set_rst r w)
           | (Inr _, r) \<Rightarrow> sendResponse a (env_ID env) (Some (JStr ''deleted'')) [] (set_rst r w))
      | _ \<Rightarrow> sendResponse a (env_ID env) None ''data must be a key string'' w)"

definition handleDatabaseRequest ::
  "codec \<Rightarrow> ('r, 'p) server \<Rightarrow> nat \<Rightarrow> string \<Rightarrow> JSONRPCEnvelope \<Rightarrow> ('r, 'p, 'c) world \<Rightarrow> ('r, 'p, 'c) reply" where
  "handleDatabaseRequest C sv a uuid env w =
     (if env_Method env = ''get_robot'' then
        (case env_Data env of
           JStr u \<Rightarrow>
             (case GetRobotByUUID (pg sv) u (pst (st w)) of
                (Inl e, p) \<Rightarrow> sendResponse a (env_ID env) None e (set_pst p w)
              | (Inr robot, p) \<Rightarrow>
                  sendResponse a (env_ID env) (Some (RobotRecord_json C robot)) [] (set_pst p w))
         | _ \<Rightarrow> sendResponse a (env_ID env) None ''data must be a robot UUID string'' w)
      else if env_Method env = ''list_robots'' then
        robots_reply C a (env_ID env) (GetAllRobots (pg sv) (pst (st w))) w
      else if env_Method env = ''get_robots_by_type'' then
        (case env_Data env of
           JStr d \<Rightarrow> robots_reply C a (env_ID env) (GetRobotsByType (pg sv) d (pst (st w))) w
         | _ \<Rightarrow> sendResponse a (env_ID env) None ''data must be a device type string'' w)
      else if env_Method env = ''store_data'' then store_data sv a uuid env w
      else if env_Method env = ''get_data'' then get_data C sv a uuid env w
      else if env_Method env = ''delete_data'' then delete_data sv a uuid env w
      else sendResponse a (env_ID env) None (''unknown database method: '' @ env_Method env) w)"

section \<open>Robot, bus and configuration requests\<close>

text \<open>\<open>net\<close> is the error a write to a connection ends with, if any.\<close>

definition SendToRobot ::
  "('c \<Rightarrow> string \<Rightarrow> string option) \<Rightarrow> 'c HandlerProcess \<Rightarrow> string \<Rightarrow> 'c out list \<times> unit res" where
  "SendToRobot net hp data =
     (case RobotSend hp of
        None \<Rightarrow> ([], Inl ''no robot connection available'')
      | Some c \<Rightarrow> (case net c data of Some e \<Rightarrow> ([], Inl e) | None \<Rightarrow> ([ToRobot c data], Inr ())))"

definition handleRobotRequest ::
  "('c \<Rightarrow> string \<Rightarrow> string option) \<Rightarrow> nat \<Rightarrow> 'c HandlerProcess \<Rightarrow> JSONRPCEnvelope
   \<Rightarrow> ('r, 'p, 'c) world \<Rightarrow> ('r, 'p, 'c) reply" where
  "handleRobotRequest net a hp env w =
     (case SendToRobot net hp (json_print (env_Data env)) of
        (os, Inl e) \<Rightarrow> with_out os (sendResponse a (env_ID env) None e w)
      | (os, Inr _) \<Rightarrow> with_out os (sendResponse a (env_ID env) (Some (JStr ''sent'')) [] w))"

text \<open>\<^verbatim>\<open>PublishData\<close> drops an event without data.\<close>

definition handleEventBusRequest ::
  "nat \<Rightarrow> JSONRPCEnvelope \<Rightarrow> ('r, 'p, 'c) world \<Rightarrow> ('r, 'p, 'c) reply" where
  "handleEventBusRequest a env w =
     (let eventType = (if env_Method env = [] then ''handler_event'' else env_Method env)
      in with_out (if env_Data env = JNull then [] else [Published eventType (env_Data env)])
           (sendResponse a (env_ID env) (Some (JStr ''published'')) [] w))"

text \<open>\<open>ids\<close> are the identifiers the bus draws for a new subscription.\<close>

definition enableHeartbeatForwarding ::
  "string \<times> string \<Rightarrow> nat \<Rightarrow> string \<Rightarrow> 'c engine \<Rightarrow> 'c engine option" where
  "enableHeartbeatForwarding ids a uuid e =
     (case subscribe_proc (fst ids) (snd ids) (''robot.'' @ uuid @ ''.heartbeat'') ''heartbeat'' a e of
        None \<Rightarrow> None
      | Some e' \<Rightarrow> on_proc a (\<lambda>hp. Some (hp\<lparr>ForwardHeartbeats := True\<rparr>)) e')"

definition forward_heartbeats ::
  "string \<times> string \<Rightarrow> nat \<Rightarrow> bool \<Rightarrow> 'c HandlerProcess \<Rightarrow> 'c engine \<Rightarrow> (bool \<times> 'c engine) option" where
  "forward_heartbeats ids a enable hp e =
     (if enable \<and> \<not> ForwardHeartbeats hp then
        map_option (\<lambda>e'. (True, e')) (enableHeartbeatForwarding ids a (hp_UUID hp) e)
      else if \<not> enable then
        map_option (\<lambda>e'. (False, e')) (on_proc a (\<lambda>hp. Some (hp\<lparr>ForwardHeartbeats := False\<rparr>)) e)
      else Some (ForwardHeartbeats hp, e))"

definition handleConfigRequest ::
  "string \<times> string \<Rightarrow> nat \<Rightarrow> 'c HandlerProcess \<Rightarrow> JSONRPCEnvelope \<Rightarrow> ('r, 'p, 'c) world \<Rightarrow> ('r, 'p, 'c) reply" where
  "handleConfigRequest ids a hp env w =
     (if env_Method env = ''forward_heartbeats'' then
        (case env_Data env of
           JBool enable \<Rightarrow>
             (case forward_heartbeats ids a enable hp (en w) of
                None \<Rightarrow> None
              | Some (b, e) \<Rightarrow> sendResponse a (env_ID env) (Some (JBool b)) [] (w\<lparr>en := e\<rparr>))
         | _ \<Rightarrow> sendResponse a (env_ID env) None ''data must be a boolean'' w)
      else if env_Method env = ''subscribe'' then
        (case env_Data env of
           JStr topic \<Rightarrow>
             (case subscribe_proc (fst ids) (snd ids) topic ''event'' a (en w) of
                None \<Rightarrow> None
              | Some e \<Rightarrow> sendResponse a (env_ID env) (Some (JStr ''subscribed'')) [] (w\<lparr>en := e\<rparr>))
         | _ \<Rightarrow> sendResponse a (env_ID env) None ''data must be an event type string'' w)
      else sendResponse a (env_ID env) None (''unknown config method: '' @ env_Method env) w)"

text \<open>Running a closure that the engine subscribed.\<close>

definition run_closure :: "closure \<Rightarrow> string \<Rightarrow> json \<Rightarrow> 'c engine \<Rightarrow> 'c engine option" where
  "run_closure cl eventType data e =
     (case cl of
        Forward ty a \<Rightarrow> on_proc a (sendToScript (EventMessage ty eventType data)) e
      | Foreign _ \<Rightarrow> Some e)"

section \<open>Reverse connections\<close>

record ReverseConnectRequest =
  rq_Port :: int
  rq_Protocol :: string
  rq_IP :: string

definition fields_ReverseConnectRequest :: "json \<Rightarrow> ReverseConnectRequest option" where
  "fields_ReverseConnectRequest j =
     (case j of
        JNull \<Rightarrow> Some \<lparr>rq_Port = 0, rq_Protocol = [], rq_IP = []\<rparr>
      | JObj ms \<Rightarrow>
          (case (int_field ''port'' ms, str_field ''protocol'' ms, str_field ''ip'' ms) of
             (Some p, Some q, Some i) \<Rightarrow> Some \<lparr>rq_Port = p, rq_Protocol = q, rq_IP = i\<rparr>
           | _ \<Rightarrow> None)
      | _ \<Rightarrow> None)"

definition resolveRobotIP :: "'r redis \<Rightarrow> 'c HandlerProcess \<Rightarrow> 'r \<Rightarrow> string \<times> 'r" where
  "resolveRobotIP rd hp s =
     (case GetHeartbeat rd (hp_UUID hp) s of
        (Inr hb, s1) \<Rightarrow> (hb_IP hb, s1)
      | (Inl _, s1) \<Rightarrow>
          (case GetActiveRobot rd (hp_UUID hp) s1 of
             (Inr active, s2) \<Rightarrow> (ar_IP active, s2)
           | (Inl _, s2) \<Rightarrow> (hp_IP hp, s2)))"

definition handleConnectRobotRequest ::
  "('r, 'p) server \<Rightarrow> nat \<Rightarrow> 'c HandlerProcess \<Rightarrow> JSONRPCEnvelope \<Rightarrow> ('r, 'p, 'c) world \<Rightarrow> ('r, 'p, 'c) reply" where
  "handleConnectRobotRequest sv a hp env w =
     (case fields_ReverseConnectRequest (env_Data env) of
        None \<Rightarrow> sendResponse a (env_ID env) None (''invalid connect request: '' @ json_error) w
      | Some req \<Rightarrow>
          if rq_Port req \<le> 0 then sendResponse a (env_ID env) None ''port is required'' w
          else
            (let protocol = (if rq_Protocol req = [] then ''tcp'' else rq_Protocol req);
                 (ip, r) = (if rq_IP req = [] then resolveRobotIP (rds sv) hp (rst (st w))
                            else (rq_IP req, rst (st w)));
                 w1 = set_rst r w;
                 addr = ip @ '':'' @ show_int (rq_Port req)
             in if ip = [] then sendResponse a (env_ID env) None ''cannot determine robot IP'' w1
                else if protocol = ''tcp'' then Some ([DialTCP (env_ID env) addr], w1)
                else if protocol = ''udp'' then Some ([DialUDP (env_ID env) addr], w1)
                else sendResponse a (env_ID env) None (''unsupported protocol: '' @ protocol) w1))"

text \<open>
  The exchange with the robot: the errors of the dial and of the three writes, the lines read
  (\<open>None\<close> when the read fails), and the random bytes of the nonce.
\<close>

record rev_io =
  io_dial :: "string option"
  io_identity :: "string option"
  io_ack :: "string option"
  io_rnd :: "bytes option"
  io_nonce :: "string option"
  io_sig :: "string option"
  io_confirm :: "string option"

definition reverse_handshake ::
  "('r, 'p) server \<Rightarrow> rev_io \<Rightarrow> string \<Rightarrow> 'p \<Rightarrow> unit res \<times> 'p" where
  "reverse_handshake sv io uuid p =
     (case io_dial io of Some e \<Rightarrow> (Inl (''connection failed: '' @ e), p) | None \<Rightarrow>
     (case io_identity io of Some e \<Rightarrow> (Inl (''failed to send identity: '' @ e), p) | None \<Rightarrow>
     (case io_ack io of None \<Rightarrow> (Inl ''robot did not respond'', p) | Some line \<Rightarrow>
     (if TrimSpace line \<noteq> ''CONNECT_OK''
      then (Inl (''robot rejected connection: '' @ TrimSpace line), p) else
     (case GenerateNonce (io_rnd io) of Inl _ \<Rightarrow> (Inl ''failed to generate nonce'', p) | Inr nonce \<Rightarrow>
     (case io_nonce io of Some e \<Rightarrow> (Inl (''failed to send nonce: '' @ e), p) | None \<Rightarrow>
     (case io_sig io of None \<Rightarrow> (Inl ''robot did not sign nonce'', p) | Some sl \<Rightarrow>
     (case GetRobotByUUID (pg sv) uuid p of
        (Inl _, p1) \<Rightarrow> (Inl ''robot not found in database'', p1)
      | (Inr robot, p1) \<Rightarrow>
     (if VerifySignature (crypto sv) (rr_PublicKey robot) nonce (TrimSpace sl) \<noteq> Inr ()
         \<and> VerifyEd25519Hex (crypto sv) (rr_PublicKey robot) nonce (TrimSpace sl) \<noteq> Inr ()
      then (Inl ''robot signature verification failed'', p1) else
     (case io_confirm io of
        Some e \<Rightarrow> (Inl (''failed to send auth confirmation: '' @ e), p1)
      | None \<Rightarrow> (Inr (), p1)))))))))))"

definition attach_reverse ::
  "nat \<Rightarrow> string \<Rightarrow> 'c \<Rightarrow> ('r, 'p, 'c) world \<Rightarrow> (bool \<times> ('r, 'p, 'c) world) option" where
  "attach_reverse a i c w =
     (case map_of (procs (en w)) a of
        None \<Rightarrow> None
      | Some hp \<Rightarrow>
          if RobotSend hp \<noteq> None
          then map_option (\<lambda>(_, w'). (False, w')) (sendResponse a i None ''robot already connected'' w)
          else
            (case on_proc a (\<lambda>hp. Some (hp\<lparr>RobotSend := Some c\<rparr>)) (en w) of
               None \<Rightarrow> None
             | Some e \<Rightarrow>
                 map_option (\<lambda>(_, w'). (True, w'))
                   (sendResponse a i (Some (JStr ''connected'')) [] (w\<lparr>en := e\<rparr>))))"

fun bridge :: "nat \<Rightarrow> string list \<Rightarrow> 'c engine \<Rightarrow> 'c engine option" where
  "bridge a [] e = Some e"
| "bridge a (l # ls) e =
     (case on_proc a (SendIncoming l) e of None \<Rightarrow> None | Some e' \<Rightarrow> bridge a ls e')"

definition detach_reverse :: "bool \<Rightarrow> nat \<Rightarrow> 'c engine \<Rightarrow> 'c engine option" where
  "detach_reverse notify a e =
     (case on_proc a (\<lambda>hp. Some (hp\<lparr>RobotSend := None\<rparr>)) e of
        None \<Rightarrow> None
      | Some e' \<Rightarrow>
          if notify
          then on_proc a (\<lambda>hp. sendToScript (DisconnectMessage (hp_UUID hp) ''reverse_tcp_closed'') hp) e'
          else Some e')"

text \<open>The whole connection, with the lines the robot sends until it closes.\<close>

definition reverseConnectTCP ::
  "('r, 'p) server \<Rightarrow> nat \<Rightarrow> string \<Rightarrow> 'c \<Rightarrow> rev_io \<Rightarrow> string list \<Rightarrow> ('r, 'p, 'c) world
   \<Rightarrow> ('r, 'p, 'c) world option" where
  "reverseConnectTCP sv a i c io ls w =
     (case map_of (procs (en w)) a of
        None \<Rightarrow> None
      | Some hp \<Rightarrow>
          (case reverse_handshake sv io (hp_UUID hp) (pst (st w)) of
             (Inl e, p) \<Rightarrow> map_option snd (sendResponse a i None e (set_pst p w))
           | (Inr _, p) \<Rightarrow>
               (case attach_reverse a i c (set_pst p w) of
                  None \<Rightarrow> None
                | Some (False, w1) \<Rightarrow> Some w1
                | Some (True, w1) \<Rightarrow>
                    (case bridge a ls (en w1) of
                       None \<Rightarrow> None
                     | Some e \<Rightarrow> map_option (\<lambda>e'. w1\<lparr>en := e'\<rparr>) (detach_reverse True a e)))))"

definition reverseConnectUDP ::
  "nat \<Rightarrow> string \<Rightarrow> 'c \<Rightarrow> string option \<Rightarrow> string option \<Rightarrow> string list \<Rightarrow> ('r, 'p, 'c) world
   \<Rightarrow> ('r, 'p, 'c) world option" where
  "reverseConnectUDP a i c resolveErr dialErr ls w =
     (case resolveErr of
        Some e \<Rightarrow> map_option snd (sendResponse a i None (''invalid UDP address: '' @ e) w)
      | None \<Rightarrow>
          (case dialErr of
             Some e \<Rightarrow> map_option snd (sendResponse a i None (''UDP dial failed: '' @ e) w)
           | None \<Rightarrow>
               (case attach_reverse a i c w of
                  None \<Rightarrow> None
                | Some (False, w1) \<Rightarrow> Some w1
                | Some (True, w1) \<Rightarrow>
                    (case bridge a ls (en w1) of
                       None \<Rightarrow> None
                     | Some e \<Rightarrow> map_option (\<lambda>e'. w1\<lparr>en := e'\<rparr>) (detach_reverse False a e)))))"

section \<open>Routing\<close>

definition routeEnvelope ::
  "codec \<Rightarrow> ('r, 'p) server \<Rightarrow> ('c \<Rightarrow> string \<Rightarrow> string option) \<Rightarrow> string \<times> string \<Rightarrow> nat
   \<Rightarrow> JSONRPCEnvelope \<Rightarrow> ('r, 'p, 'c) world \<Rightarrow> ('r, 'p, 'c) reply" where
  "routeEnvelope C sv net ids a env w =
     (case map_of (procs (en w)) a of
        None \<Rightarrow> None
      | Some hp \<Rightarrow>
          if env_Target env = ''database'' then handleDatabaseRequest C sv a (hp_UUID hp) env w
          else if env_Target env = ''robot'' then handleRobotRequest net a hp env w
          else if env_Target env = ''event_bus'' then handleEventBusRequest a env w
          else if env_Target env = ''config'' then handleConfigRequest ids a hp env w
          else if env_Target env = ''connect_robot'' then handleConnectRobotRequest sv a hp env w
          else sendResponse a (env_ID env) None (''unknown target: '' @ env_Target env) w)"

definition log_event :: "string \<Rightarrow> string \<Rightarrow> string \<Rightarrow> 'c out" where
  "log_event uuid stream line =
     Published (''handler.'' @ uuid @ ''.log'')
       (JObj [(''line'', JStr line), (''stream'', JStr stream), (''uuid'', JStr uuid)])"

text \<open>One line of the script's standard output, and of its standard error.\<close>

definition listenStdout_line ::
  "codec \<Rightarrow> ('r, 'p) server \<Rightarrow> ('c \<Rightarrow> string \<Rightarrow> string option) \<Rightarrow> string \<times> string \<Rightarrow> nat
   \<Rightarrow> string \<Rightarrow> ('r, 'p, 'c) world \<Rightarrow> ('r, 'p, 'c) reply" where
  "listenStdout_line C sv net ids a line w =
     (case dec_envelope C line of
        Some env \<Rightarrow> routeEnvelope C sv net ids a env w
      | None \<Rightarrow>
          (case map_of (procs (en w)) a of
             None \<Rightarrow> None
           | Some hp \<Rightarrow> Some ([log_event (hp_UUID hp) ''stdout'' line], w)))"

definition listenStderr_line :: "nat \<Rightarrow> string \<Rightarrow> ('r, 'p, 'c) world \<Rightarrow> ('r, 'p, 'c) reply" where
  "listenStderr_line a line w =
     (case map_of (procs (en w)) a of
        None \<Rightarrow> None
      | Some hp \<Rightarrow> Some ([log_event (hp_UUID hp) ''stderr'' line], w))"

section \<open>Requests and their answers\<close>

lemma on_proc_Some:
  "map_of (procs e) a = Some hp \<Longrightarrow> f hp = Some hp' \<Longrightarrow>
   on_proc a f e = Some (e\<lparr>procs := AList.update a hp' (procs e)\<rparr>)"
  by (simp add: on_proc_def)

definition room :: "'c HandlerProcess \<Rightarrow> bool" where
  "room hp \<longleftrightarrow> \<not> hp_closed hp \<and> \<not> writeCh_closed hp \<and> length (writeCh hp) < writeCh_cap"

text \<open>\<open>answered a ch i w'\<close>: the process at \<open>a\<close> holds \<open>ch\<close> and one response with id \<open>i\<close>.\<close>

definition answered :: "nat \<Rightarrow> string list \<Rightarrow> string \<Rightarrow> ('r, 'p, 'c) world \<Rightarrow> bool" where
  "answered a ch i w' \<longleftrightarrow> (\<exists>hp' d e. map_of (procs (en w')) a = Some hp'
     \<and> writeCh hp' = ch @ [response_line i d e])"

lemma sendResponse_answers:
  assumes "map_of (procs (en w)) a = Some hp" and "room hp"
  shows "\<exists>w'. sendResponse a i d e w = Some ([], w') \<and> answered a (writeCh hp) i w' \<and> st w' = st w"
  using assms
  by (auto simp: sendResponse_def on_proc_def sendToScript_def try_send_def room_def answered_def)

lemma with_out_answers:
  "\<exists>w'. r = Some ([], w') \<and> P w' \<Longrightarrow> \<exists>os w'. with_out os0 r = Some (os, w') \<and> P w' \<and> os = os0"
  by (auto simp: with_out_def)

lemma set_st_en [simp]: "en (set_rst r w) = en w" "en (set_pst p w) = en w"
  by (simp_all add: set_rst_def set_pst_def)

lemma subscribe_proc_keeps:
  assumes "map_of (procs e) a = Some hp"
  shows "\<exists>c b. subscribe_proc i1 i2 topic ty a e =
    Some (e\<lparr>bus := b, procs := AList.update a (hp\<lparr>subs := subs hp @ [c]\<rparr>) (procs e)\<rparr>)"
  using assms by (auto simp: subscribe_proc_def on_proc_def Let_def split: prod.splits)

lemma database_answers:
  fixes w :: "('r, 'p, 'c) world"
  assumes hp: "map_of (procs (en w)) a = Some hp" "room hp"
  shows "\<exists>os w'. handleDatabaseRequest C sv a u env w = Some (os, w') \<and> answered a (writeCh hp) (env_ID env) w'"
proof -
  have R: "\<exists>os w'. sendResponse a (env_ID env) d e w1 = Some (os, w') \<and> answered a (writeCh hp) (env_ID env) w'"
    if "en w1 = en w" for d e and w1 :: "('r, 'p, 'c) world"
    using sendResponse_answers[of w1 a hp] hp that by fastforce
  show ?thesis
    by (auto simp: handleDatabaseRequest_def store_data_def get_data_def delete_data_def robots_reply_def
        Let_def R split: json.splits prod.splits sum.splits option.splits)
qed

lemma forward_answers:
  assumes "map_of (procs e) a = Some hp" and "room hp"
  shows "\<exists>b e' hp'. forward_heartbeats ids a x hp e = Some (b, e') \<and> map_of (procs e') a = Some hp'
    \<and> room hp' \<and> writeCh hp' = writeCh hp"
  using assms subscribe_proc_keeps[OF assms(1), of "fst ids" "snd ids" "''robot.'' @ hp_UUID hp @ ''.heartbeat''" "''heartbeat''"]
  by (auto simp: forward_heartbeats_def enableHeartbeatForwarding_def on_proc_def room_def)

lemma config_answers:
  fixes w :: "('r, 'p, 'c) world"
  assumes hp: "map_of (procs (en w)) a = Some hp" "room hp"
  shows "\<exists>os w'. handleConfigRequest ids a hp env w = Some (os, w') \<and> answered a (writeCh hp) (env_ID env) w'"
proof -
  have R: "\<exists>os w'. sendResponse a (env_ID env) d m w1 = Some (os, w') \<and> answered a (writeCh hp) (env_ID env) w'"
    if "map_of (procs (en w1)) a = Some hp1" "room hp1" "writeCh hp1 = writeCh hp"
    for d m hp1 and w1 :: "('r, 'p, 'c) world"
    using sendResponse_answers[OF that(1,2), of "env_ID env" d m] that(3) by auto
  have sub: "room (hp\<lparr>subs := x\<rparr>)" for x
    using hp(2) by (simp add: room_def)
  show ?thesis
  proof (cases "env_Data env")
    case (JBool x)
    then show ?thesis
      using forward_answers[OF hp, of ids x] R[OF hp] R
      by (fastforce simp: handleConfigRequest_def)
  next
    case (JStr x)
    then show ?thesis
      using subscribe_proc_keeps[OF hp(1), of "fst ids" "snd ids" x "''event''"] R[OF hp] R sub
      by (fastforce simp: handleConfigRequest_def)
  qed (use R[OF hp] in \<open>auto simp: handleConfigRequest_def\<close>)
qed

section \<open>Properties\<close>


definition sample_codec :: codec where
  "sample_codec = \<lparr>numAny = Some, fmtTime = show_int\<rparr>"

definition sample_proc :: "nat HandlerProcess" where
  "sample_proc = new_process ''r1'' ''arm'' ''ip'' ''s'' 7 (Some 0)"

definition sample_world :: "(mem, (string, RobotRecord) gomap, nat) world" where
  "sample_world = \<lparr>st = sample_store,
     en = \<lparr>procs = [(0, sample_proc)], fresh_proc = 1,
           handlers = [(''r1'', 0)], spawning = [], bus = NewLocalBus NewEventBus\<rparr>\<rparr>"

lemma sample_world_proc:
  "map_of (procs (en sample_world)) 0 = Some sample_proc" "room sample_proc"
  by (simp_all add: sample_world_def room_def sample_proc_def new_process_def writeCh_cap_def)


text \<open>Switching heartbeat forwarding off does not stop it: after a handler enables and then
  disables \<^verbatim>\<open>forward_heartbeats\<close>, its subscription is still on the bus, so heartbeats
  keep arriving, and enabling it again adds a second subscription next to the first.\<close>

theorem forward_heartbeats_not_cancelled:
  fixes e :: "'c engine"
  assumes "eb_inv (eb (bus e))" and "map_of (procs e) a = Some hp" and "\<not> ForwardHeartbeats hp"
    and "forward_heartbeats ids1 a True hp e = Some (b1, e1)" and "map_of (procs e1) a = Some hp1"
    and "forward_heartbeats ids2 a False hp1 e1 = Some (b2, e2)" and "map_of (procs e2) a = Some hp2"
    and "forward_heartbeats ids3 a True hp2 e2 = Some (b3, e3)" and "fst ids1 \<noteq> fst ids3"
  shows "b1 \<and> \<not> b2
    \<and> eb_abs (eb (bus e2)) (''robot.'' @ hp_UUID hp @ ''.heartbeat'', fst ids1) = Some (Forward ''heartbeat'' a)
    \<and> eb_abs (eb (bus e3)) (''robot.'' @ hp_UUID hp @ ''.heartbeat'', fst ids1) = Some (Forward ''heartbeat'' a)
    \<and> eb_abs (eb (bus e3)) (''robot.'' @ hp_UUID hp @ ''.heartbeat'', fst ids3) = Some (Forward ''heartbeat'' a)"
proof -
  let ?t = "''robot.'' @ hp_UUID hp @ ''.heartbeat''"
  have enable: "\<exists>hp'. eb_inv (eb (bus e')) \<and> eb_abs (eb (bus e')) = (eb_abs (eb (bus e0)))((''robot.'' @ hp_UUID h @ ''.heartbeat'', fst i) \<mapsto> Forward ''heartbeat'' a)
      \<and> map_of (procs e') a = Some hp' \<and> hp_UUID hp' = hp_UUID h \<and> b"
    if "eb_inv (eb (bus e0))" "map_of (procs e0) a = Some h" "\<not> ForwardHeartbeats h"
      "forward_heartbeats i a True h e0 = Some (b, e')" for e0 e' :: "'c engine" and h i b
  proof -
    obtain c bu where S: "SubscribeEvent (snd i) (fst i) (''robot.'' @ hp_UUID h @ ''.heartbeat'') (Forward ''heartbeat'' a) (bus e0) = (c, bu)"
      by (cases "SubscribeEvent (snd i) (fst i) (''robot.'' @ hp_UUID h @ ''.heartbeat'') (Forward ''heartbeat'' a) (bus e0)")
    then show ?thesis
      using that SubscribeEvent_ok(2,3)[OF that(1) _ S]
      by (auto simp: forward_heartbeats_def enableHeartbeatForwarding_def subscribe_proc_def on_proc_def
          split: prod.splits)
  qed
  obtain h1 where 1: "eb_inv (eb (bus e1))" "eb_abs (eb (bus e1)) = (eb_abs (eb (bus e)))((?t, fst ids1) \<mapsto> Forward ''heartbeat'' a)"
    "hp_UUID hp1 = hp_UUID hp" "b1"
    using enable[OF assms(1-4)] assms(5) by auto
  have 2: "bus e2 = bus e1" "hp_UUID hp2 = hp_UUID hp" "\<not> ForwardHeartbeats hp2" "\<not> b2"
    using assms(5-7) 1(3) by (auto simp: forward_heartbeats_def on_proc_def)
  have 3: "eb_abs (eb (bus e3)) = (eb_abs (eb (bus e2)))((?t, fst ids3) \<mapsto> Forward ''heartbeat'' a)"
    using enable[OF _ assms(7) 2(3) assms(8)] 1(1) 2(1,2) by auto
  show ?thesis
    using 1(2,4) 2(1,4) 3 assms(9) by simp
qed

theorem forward_heartbeats_not_cancelled_witness:
  "\<exists>e1 e2 e3 hp1 hp2 b3.
     forward_heartbeats (''i'', ''x'') 0 True sample_proc (en sample_world) = Some (True, e1)
     \<and> map_of (procs e1) 0 = Some hp1 \<and> forward_heartbeats (''j'', ''x'') 0 False hp1 e1 = Some (False, e2)
     \<and> map_of (procs e2) 0 = Some hp2 \<and> forward_heartbeats (''k'', ''x'') 0 True hp2 e2 = Some (b3, e3)
     \<and> eb_abs (eb (bus e3)) (''robot.r1.heartbeat'', ''i'') = Some (Forward ''heartbeat'' 0)
     \<and> eb_abs (eb (bus e3)) (''robot.r1.heartbeat'', ''k'') = Some (Forward ''heartbeat'' 0)"
proof -
  have inv: "eb_inv (eb (bus (en sample_world)))"
    by (simp add: sample_world_def NewLocalBus_def eb_inv_New)
  have hp: "\<not> ForwardHeartbeats sample_proc" "hp_UUID sample_proc = ''r1''"
    by (simp_all add: sample_proc_def new_process_def)
  obtain b1 e1 hp1 where 1: "forward_heartbeats (''i'', ''x'') 0 True sample_proc (en sample_world) = Some (b1, e1)"
    "map_of (procs e1) 0 = Some hp1" "room hp1"
    using forward_answers[OF sample_world_proc] by blast
  obtain b2 e2 hp2 where 2: "forward_heartbeats (''j'', ''x'') 0 False hp1 e1 = Some (b2, e2)"
    "map_of (procs e2) 0 = Some hp2" "room hp2"
    using forward_answers[OF 1(2,3)] by blast
  obtain b3 e3 where 3: "forward_heartbeats (''k'', ''x'') 0 True hp2 e2 = Some (b3, e3)"
    using forward_answers[OF 2(2,3)] by blast
  show ?thesis
    using forward_heartbeats_not_cancelled[OF inv sample_world_proc(1) hp(1) 1(1,2) 2(1,2) 3] 1 2 3 hp(2)
    by auto
qed


definition sample_io :: rev_io where
  "sample_io = \<lparr>io_dial = None, io_identity = None, io_ack = Some ''CONNECT_OK'', io_rnd = Some ''n'',
     io_nonce = None, io_sig = Some sample_sig, io_confirm = None\<rparr>"

definition detached_world :: "(mem, (string, RobotRecord) gomap, nat) world" where
  "detached_world = sample_world\<lparr>en := (en sample_world)\<lparr>procs := [(0, sample_proc\<lparr>RobotSend := None\<rparr>)]\<rparr>\<rparr>"


end
