(* ===== verification/TCP_Server.thy ===== *)
theory TCP_Server
  imports Handshake Handler_Rpc
begin

text \<open>
  \<^verbatim>\<open>tcp_server/tcp_server.go\<close>: one connection as a state machine.  A state names the
  point of the code at which the connection's goroutine waits (for a line, for the
  administrator, for another connection's spawn); \<open>tcp_step\<close> runs it from there to the
  next such point.  Everything the goroutine draws from its environment on the way (clock,
  random bytes, answers of the operating system, shutdown flag) is the record
  \<open>tenv\<close>.
\<close>

definition MaxTCPMessageSize :: nat where
  "MaxTCPMessageSize = 64 * 1024"

datatype cstate =
    Idle
  | AuthUUID
  | AuthSig string RobotRecord string
  | RegUUID
  | RegType string
  | RegKey string string
  | RegWait string string string
  | Spawning HandshakeResult bool
  | WaitSpawn int HandshakeResult bool
  | Session nat HandshakeResult bool
  | HeartbeatMode
  | Closed

text \<open>\<open>deadline\<close> is the read deadline in nanoseconds, \<open>None\<close> when there is none.\<close>

record conn =
  cst :: cstate
  deadline :: "int option"

text \<open>
  A line either comes from the network or is already in the scanner's buffer, in which case
  the deadline plays no part.
\<close>

datatype tcp_event = Line bool string | ReadEnd | Response wait_outcome | Resume

datatype tcp_out = Wr string | EvStr string string | EvHb string HeartbeatResult

record tenv =
  nano :: int
  rndNonce :: "bytes option"
  rndSession :: "bytes option"
  osPid :: "int res"
  ids :: "string \<times> string"
  shutdown :: bool

record dbs =
  has_db :: bool
  has_pg :: bool
  has_rds :: bool

record ('r, 'p) tcp_server =
  sv :: "('r, 'p) server"
  fs :: fsys
  db :: dbs

type_synonym ('r, 'p, 'c) tcp_result = "tcp_out list \<times> conn \<times> ('r, 'p, 'c) world"

definition handshake_deadline :: "('r, 'p) tcp_server \<Rightarrow> tenv \<Rightarrow> int option" where
  "handshake_deadline T te = Some (nano te + HandshakeTimeout (Timeouts (cfg (sv T))))"

definition closed :: "conn \<Rightarrow> conn" where
  "closed k = k\<lparr>cst := Closed\<rparr>"

definition to_state :: "cstate \<Rightarrow> conn \<Rightarrow> conn" where
  "to_state x k = k\<lparr>cst := x\<rparr>"

definition set_store :: "('r, 'p) store \<Rightarrow> ('r, 'p, 'c) world \<Rightarrow> ('r, 'p, 'c) world" where
  "set_store s w = w\<lparr>st := s\<rparr>"

section \<open>Heartbeats\<close>

definition parse_heartbeat :: "string \<Rightarrow> (string \<times> string \<times> string) option" where
  "parse_heartbeat message =
     (case SplitN message (CHR '' '') 3 of
        [_, uuid, rest] \<Rightarrow>
          (case split_last (CHR '' '') rest of
             None \<Rightarrow> None
           | Some (payloadJSON, signature) \<Rightarrow> Some (uuid, payloadJSON, signature))
      | _ \<Rightarrow> None)"

definition handleHeartbeat ::
  "('r, 'p) tcp_server \<Rightarrow> tenv \<Rightarrow> string \<Rightarrow> string \<Rightarrow> ('r, 'p, 'c) world
   \<Rightarrow> tcp_out list \<times> ('r, 'p, 'c) world" where
  "handleHeartbeat T te ip message w =
     (if \<not> has_db (db T) \<or> \<not> has_pg (db T) \<or> \<not> has_rds (db T)
      then ([Wr (ln ''ERROR NO_DATABASE'')], w)
      else
        (case parse_heartbeat message of
           None \<Rightarrow> ([Wr (ln ''ERROR INVALID_HEARTBEAT_FORMAT'')], w)
         | Some (uuid, payloadJSON, signature) \<Rightarrow>
             (case ProcessHeartbeat (sv T) (nano te div second) uuid payloadJSON signature ip (st w) of
                (Inl _, s) \<Rightarrow> ([Wr (ln ''ERROR HEARTBEAT_REJECTED'')], set_store s w)
              | (Inr result, s) \<Rightarrow>
                  ([EvHb (''robot.'' @ hr_UUID result @ ''.heartbeat'') result, Wr (ln ''HEARTBEAT_OK'')],
                   set_store s w))))"

definition is_heartbeat :: "string \<Rightarrow> bool" where
  "is_heartbeat message \<longleftrightarrow> HasPrefix message ''HEARTBEAT ''"

definition heartbeatLoop_line ::
  "('r, 'p) tcp_server \<Rightarrow> tenv \<Rightarrow> string \<Rightarrow> string \<Rightarrow> conn \<Rightarrow> ('r, 'p, 'c) world
   \<Rightarrow> ('r, 'p, 'c) tcp_result" where
  "heartbeatLoop_line T te ip line k w =
     (if shutdown te then ([], closed k, w)
      else
        (let message = TrimSpace line
         in if message = [] then ([], k, w)
            else if is_heartbeat message then
              (case handleHeartbeat T te ip message w of (os, w') \<Rightarrow> (os, k, w'))
            else ([Wr (ln ''ERROR EXPECTED_HEARTBEAT'')], k, w)))"

section \<open>Entering session mode\<close>

text \<open>An operation on the process at an address; a panic there closes the connection.\<close>

definition enter_session ::
  "tenv \<Rightarrow> ('r, 'p) tcp_server \<Rightarrow> 'c \<Rightarrow> HandshakeResult \<Rightarrow> bool \<Rightarrow> conn \<Rightarrow> ('r, 'p, 'c) world
   \<Rightarrow> ('r, 'p, 'c) tcp_result" where
  "enter_session te T cid result persisted k w =
     (case Get (r_UUID result) (en w) of
        Some a \<Rightarrow>
          (case on_proc a (Reattach cid (r_IP result) (r_SessionID result)) (en w) of
             None \<Rightarrow> ([], closed k, w)
           | Some e \<Rightarrow> ([], to_state (Session a result persisted) k, w\<lparr>en := e\<rparr>))
      | None \<Rightarrow>
          (case TryStartSpawning (r_UUID result) (en w) of
             (True, e) \<Rightarrow> ([], to_state (Spawning result persisted) k, w\<lparr>en := e\<rparr>)
           | (False, e) \<Rightarrow>
               ([], to_state (WaitSpawn (nano te + HandshakeTimeout (Timeouts (cfg (sv T)))) result persisted) k,
                w\<lparr>en := e\<rparr>)))"

text \<open>The spawn itself; the mark is released in every case.\<close>

definition spawn_session ::
  "tenv \<Rightarrow> ('r, 'p) tcp_server \<Rightarrow> 'c \<Rightarrow> HandshakeResult \<Rightarrow> bool \<Rightarrow> conn \<Rightarrow> ('r, 'p, 'c) world
   \<Rightarrow> ('r, 'p, 'c) tcp_result" where
  "spawn_session te T cid result persisted k w =
     (case SpawnHandlerProcess (sv T) (fs T) (osPid te) (fst (ids te)) (snd (ids te))
             (r_UUID result) (r_DeviceType result) (r_IP result) (r_SessionID result) (Some cid)
             (rst (st w), en w) of
        None \<Rightarrow> ([], closed k, w\<lparr>en := FinishSpawning (r_UUID result) (en w)\<rparr>)
      | Some (Inl _, r, e) \<Rightarrow>
          (let w1 = set_rst r (w\<lparr>en := FinishSpawning (r_UUID result) e\<rparr>);
               r2 = snd (RemoveActiveRobot (rds (sv T)) (r_UUID result) (rst (st w1)))
           in ([Wr (ln ''ERROR HANDLER_SPAWN_FAILED'')], closed k, set_rst r2 w1))
      | Some (Inr a, r, e) \<Rightarrow>
          ([], to_state (Session a result persisted) k,
           set_rst r (w\<lparr>en := FinishSpawning (r_UUID result) e\<rparr>)))"

text \<open>One round of the loop that waits for another connection's spawn.\<close>

definition wait_spawn ::
  "tenv \<Rightarrow> 'c \<Rightarrow> int \<Rightarrow> HandshakeResult \<Rightarrow> bool \<Rightarrow> conn \<Rightarrow> ('r, 'p, 'c) world \<Rightarrow> ('r, 'p, 'c) tcp_result" where
  "wait_spawn te cid waitDeadline result persisted k w =
     (if nano te < waitDeadline then
        (case Get (r_UUID result) (en w) of
           Some a \<Rightarrow>
             (case on_proc a (Reattach cid (r_IP result) (r_SessionID result)) (en w) of
                None \<Rightarrow> ([], closed k, w)
              | Some e \<Rightarrow> ([], to_state (Session a result persisted) k, w\<lparr>en := e\<rparr>))
         | None \<Rightarrow>
             if shutdown te then ([Wr (ln ''ERROR SERVER_SHUTTING_DOWN'')], closed k, w)
             else ([], k, w))
      else ([Wr (ln ''ERROR HANDLER_UNAVAILABLE'')], closed k, w))"

section \<open>Session mode\<close>

definition handlePersist ::
  "('r, 'p) tcp_server \<Rightarrow> HandshakeResult \<Rightarrow> ('r, 'p) store \<Rightarrow> tcp_out list \<times> ('r, 'p) store" where
  "handlePersist T result s =
     (if \<not> has_pg (db T) \<or> \<not> has_rds (db T) then ([Wr (ln ''ERROR NO_DATABASE'')], s)
      else
        (case GetRobotByUUID (pg (sv T)) (r_UUID result) (pst s) of
           (Inr _, p) \<Rightarrow> ([Wr (ln ''PERSIST_OK ALREADY_PERSISTED'')], s\<lparr>pst := p\<rparr>)
         | (Inl _, p) \<Rightarrow>
             (case GetRobotPublicKey (rds (sv T)) (r_UUID result) (rst s) of
                (Inl _, r) \<Rightarrow> ([Wr (ln ''ERROR NO_PUBLIC_KEY'')], s\<lparr>pst := p, rst := r\<rparr>)
              | (Inr publicKey, r) \<Rightarrow>
                  if publicKey = [] then ([Wr (ln ''ERROR NO_PUBLIC_KEY'')], s\<lparr>pst := p, rst := r\<rparr>)
                  else
                    (case RegisterRobot (pg (sv T)) (r_UUID result) publicKey (r_DeviceType result) p of
                       (Inl _, p') \<Rightarrow> ([Wr (ln ''ERROR PERSIST_FAILED'')], s\<lparr>pst := p', rst := r\<rparr>)
                     | (Inr _, p') \<Rightarrow> ([Wr (ln ''PERSIST_OK'')], s\<lparr>pst := p', rst := r\<rparr>)))))"

definition session_line ::
  "('r, 'p) tcp_server \<Rightarrow> tenv \<Rightarrow> nat \<Rightarrow> HandshakeResult \<Rightarrow> bool \<Rightarrow> string \<Rightarrow> conn \<Rightarrow> ('r, 'p, 'c) world
   \<Rightarrow> ('r, 'p, 'c) tcp_result" where
  "session_line T te a result persisted line k w =
     (if shutdown te then
        (case Stop ''server_shutdown'' a (en w) of
           None \<Rightarrow> ([], closed k, w)
         | Some e \<Rightarrow> ([], closed k, w\<lparr>en := e\<rparr>))
      else
        (let l = TrimSpace line
         in if l = [] then ([], k, w)
            else if l = ''PERSIST'' \<and> \<not> persisted then
              (case handlePersist T result (st w) of
                 (os, s) \<Rightarrow> (os, to_state (Session a result True) k, set_store s w))
            else
              (case on_proc a (SendIncoming l) (en w) of
                 None \<Rightarrow> ([], closed k, w)
               | Some e \<Rightarrow> ([], k, w\<lparr>en := e\<rparr>))))"

definition session_end :: "nat \<Rightarrow> conn \<Rightarrow> ('r, 'p, 'c) world \<Rightarrow> ('r, 'p, 'c) tcp_result" where
  "session_end a k w =
     (case on_proc a (SendDisconnect ''tcp_closed'') (en w) of
        None \<Rightarrow> ([], closed k, w)
      | Some e \<Rightarrow> ([], closed k, w\<lparr>en := e\<rparr>))"

section \<open>Registration\<close>

definition pendingTTL :: int where
  "pendingTTL = 5 * 60 * second"

definition reg_uuid ::
  "('r, 'p) tcp_server \<Rightarrow> tenv \<Rightarrow> string \<Rightarrow> conn \<Rightarrow> ('r, 'p, 'c) world \<Rightarrow> ('r, 'p, 'c) tcp_result" where
  "reg_uuid T te line k w =
     (let uuid = TrimSpace line
      in if uuid = [] then ([Wr (ln ''ERROR EMPTY_UUID'')], closed k, w)
         else
           (let (known, p) = (if has_pg (db T)
                              then (case GetRobotByUUID (pg (sv T)) uuid (pst (st w)) of (x, p) \<Rightarrow> (isr_val x \<noteq> None, p))
                              else (False, pst (st w)));
                w1 = set_pst p w
            in if known then ([Wr (ln ''ERROR UUID_ALREADY_REGISTERED'')], closed k, w1)
               else
                 (case GetActiveRobot (rds (sv T)) uuid (rst (st w1)) of
                    (Inr _, r) \<Rightarrow> ([Wr (ln ''ERROR UUID_ALREADY_ACTIVE'')], closed k, set_rst r w1)
                  | (Inl _, r) \<Rightarrow>
                      (case GetPendingRobot (rds (sv T)) uuid r of
                         (Inr _, r2) \<Rightarrow> ([Wr (ln ''ERROR UUID_ALREADY_PENDING'')], closed k, set_rst r2 w1)
                       | (Inl _, r2) \<Rightarrow>
                           ([Wr (ln ''SEND_DEVICE_TYPE'')],
                            k\<lparr>cst := RegType uuid, deadline := handshake_deadline T te\<rparr>, set_rst r2 w1)))))"

definition reg_type ::
  "('r, 'p) tcp_server \<Rightarrow> tenv \<Rightarrow> string \<Rightarrow> string \<Rightarrow> conn \<Rightarrow> ('r, 'p, 'c) world \<Rightarrow> ('r, 'p, 'c) tcp_result" where
  "reg_type T te uuid line k w =
     (let deviceType = TrimSpace line
      in if deviceType = [] then ([Wr (ln ''ERROR EMPTY_DEVICE_TYPE'')], closed k, w)
         else if \<not> IsValidDeviceType deviceType then ([Wr (ln ''ERROR INVALID_DEVICE_TYPE'')], closed k, w)
         else ([Wr (ln ''SEND_PUBLIC_KEY'')],
               k\<lparr>cst := RegKey uuid deviceType, deadline := handshake_deadline T te\<rparr>, w))"

definition register_event :: "string \<Rightarrow> string \<Rightarrow> string \<Rightarrow> tcp_out" where
  "register_event uuid ip deviceType = EvStr ''robot.registering''
     (json_print (JObj [(''device_id'', JStr uuid), (''ip'', JStr ip), (''robot_type'', JStr deviceType)]))"

definition reg_key ::
  "('r, 'p) tcp_server \<Rightarrow> tenv \<Rightarrow> string \<Rightarrow> string \<Rightarrow> string \<Rightarrow> string \<Rightarrow> conn \<Rightarrow> ('r, 'p, 'c) world
   \<Rightarrow> ('r, 'p, 'c) tcp_result" where
  "reg_key T te ip uuid deviceType line k w =
     (let publicKey = TrimSpace line
      in if publicKey = [] then ([Wr (ln ''ERROR EMPTY_PUBLIC_KEY'')], closed k, w)
         else
           (case SetPendingRobot (rds (sv T))
                   \<lparr>pr_UUID = uuid, pr_IP = ip, pr_DeviceType = deviceType, pr_PublicKey = publicKey,
                    pr_RequestedAt = nano te div second\<rparr> pendingTTL (rst (st w)) of
              (Inl _, r) \<Rightarrow>
                ([Wr (ln ''ERROR REGISTRATION_FAILED'')], k\<lparr>cst := Closed, deadline := None\<rparr>, set_rst r w)
            | (Inr _, r) \<Rightarrow>
                ([register_event uuid ip deviceType, Wr (ln ''REGISTER_PENDING'')],
                 k\<lparr>cst := RegWait uuid deviceType publicKey, deadline := None\<rparr>, set_rst r w)))"

definition reg_response ::
  "('r, 'p) tcp_server \<Rightarrow> tenv \<Rightarrow> 'c \<Rightarrow> string \<Rightarrow> string \<Rightarrow> string \<Rightarrow> string \<Rightarrow> wait_outcome \<Rightarrow> conn
   \<Rightarrow> ('r, 'p, 'c) world \<Rightarrow> ('r, 'p, 'c) tcp_result" where
  "reg_response T te cid ip uuid deviceType publicKey outcome k w =
     (let w1 = set_rst (snd (RemovePendingRobot (rds (sv T)) uuid (rst (st w)))) w
      in case WaitForRegistrationResponse outcome of
           Inl _ \<Rightarrow> ([Wr (ln ''ERROR REGISTRATION_TIMEOUT'')], closed k, w1)
         | Inr accepted \<Rightarrow>
             if \<not> accepted then ([Wr (ln ''REGISTER_REJECTED'')], closed k, w1)
             else
               (case open_session (sv T) (rndSession te) (nano te) uuid deviceType ip (rst (st w1)) of
                  (ws, Inl _, r) \<Rightarrow> (map Wr ws, closed k, set_rst r w1)
                | (ws, Inr result, r) \<Rightarrow>
                    (let r2 = snd (SetRobotPublicKey (rds (sv T)) uuid publicKey (TTL (Redis (cfg (sv T)))) r);
                         (os, k', w2) = enter_session te T cid result False k (set_rst r2 w1)
                     in (Wr (ln (''REGISTER_OK '' @ r_SessionJWT result)) # os, k', w2))))"

section \<open>Authentication\<close>

definition auth_uuid ::
  "('r, 'p) tcp_server \<Rightarrow> tenv \<Rightarrow> string \<Rightarrow> conn \<Rightarrow> ('r, 'p, 'c) world \<Rightarrow> ('r, 'p, 'c) tcp_result" where
  "auth_uuid T te line k w =
     (case hs_uuid (sv T) (rndNonce te) line (st w) of
        (ws, Inl _, s) \<Rightarrow> (map Wr ws, closed k, set_store s w)
      | (ws, Inr (uuid, robot, nonce), s) \<Rightarrow>
          (map Wr ws, k\<lparr>cst := AuthSig uuid robot nonce, deadline := handshake_deadline T te\<rparr>, set_store s w))"

definition auth_signature ::
  "('r, 'p) tcp_server \<Rightarrow> tenv \<Rightarrow> 'c \<Rightarrow> string \<Rightarrow> string \<Rightarrow> RobotRecord \<Rightarrow> string \<Rightarrow> string \<Rightarrow> conn
   \<Rightarrow> ('r, 'p, 'c) world \<Rightarrow> ('r, 'p, 'c) tcp_result" where
  "auth_signature T te cid ip uuid robot nonce line k w =
     (case hs_signature (sv T) (rndSession te) (nano te) ip uuid robot nonce line (st w) of
        (ws, Inl _, s) \<Rightarrow> (map Wr ws, closed k, set_store s w)
      | (ws, Inr result, s) \<Rightarrow>
          (case enter_session te T cid result True k (set_store s w) of
             (os, k', w') \<Rightarrow> (map Wr ws @ os, k', w')))"

section \<open>The connection\<close>

text \<open>The two handlers up to their first read.\<close>

definition handleAuthAndSession ::
  "('r, 'p) tcp_server \<Rightarrow> tenv \<Rightarrow> conn \<Rightarrow> ('r, 'p, 'c) world \<Rightarrow> ('r, 'p, 'c) tcp_result" where
  "handleAuthAndSession T te k w =
     (if \<not> has_db (db T) then ([Wr (ln ''ERROR NO_DATABASE'')], closed k, w)
      else if \<not> has_pg (db T) \<or> \<not> has_rds (db T) then ([Wr (ln ''ERROR NO_DATABASE'')], closed k, w)
      else ([Wr (ln ''AUTH_CHALLENGE'')], k\<lparr>cst := AuthUUID, deadline := handshake_deadline T te\<rparr>, w))"

definition handleRegisterAndSession ::
  "('r, 'p) tcp_server \<Rightarrow> tenv \<Rightarrow> conn \<Rightarrow> ('r, 'p, 'c) world \<Rightarrow> ('r, 'p, 'c) tcp_result" where
  "handleRegisterAndSession T te k w =
     (if \<not> has_db (db T) then ([], closed k, w)
      else if \<not> has_rds (db T) then ([Wr (ln ''ERROR NO_DATABASE'')], closed k, w)
      else ([Wr (ln ''REGISTER_CHALLENGE'')], k\<lparr>cst := RegUUID, deadline := handshake_deadline T te\<rparr>, w))"

definition handleConnection_line ::
  "('r, 'p) tcp_server \<Rightarrow> tenv \<Rightarrow> string \<Rightarrow> string \<Rightarrow> conn \<Rightarrow> ('r, 'p, 'c) world \<Rightarrow> ('r, 'p, 'c) tcp_result" where
  "handleConnection_line T te ip line k w =
     (let message = TrimSpace line
      in if message = [] then ([], k, w)
         else if message = ''AUTH'' then
           handleAuthAndSession T te k w
         else if message = ''REGISTER'' then handleRegisterAndSession T te k w
         else if is_heartbeat message then
           (case handleHeartbeat T te ip message w of (os, w') \<Rightarrow> (os, to_state HeartbeatMode k, w'))
         else ([Wr (ln ''ERROR EXPECTED_AUTH_OR_REGISTER'')], k, w))"

text \<open>
  \<^verbatim>\<open>scanner.Scan\<close>: a line that is too long, or that would have to be read after the
  deadline, ends the reading.
\<close>

definition scan :: "tenv \<Rightarrow> conn \<Rightarrow> tcp_event \<Rightarrow> string option" where
  "scan te k ev =
     (case ev of
        Line buffered l \<Rightarrow>
          if length l \<ge> MaxTCPMessageSize then None
          else if \<not> buffered \<and> (case deadline k of None \<Rightarrow> False | Some d \<Rightarrow> d < nano te) then None
          else Some l
      | _ \<Rightarrow> None)"

definition is_read :: "tcp_event \<Rightarrow> bool" where
  "is_read ev = (case ev of Line _ _ \<Rightarrow> True | ReadEnd \<Rightarrow> True | _ \<Rightarrow> False)"

definition reading :: "cstate \<Rightarrow> bool" where
  "reading x = (case x of RegWait _ _ _ \<Rightarrow> False | Spawning _ _ \<Rightarrow> False | WaitSpawn _ _ _ \<Rightarrow> False
     | Closed \<Rightarrow> False | _ \<Rightarrow> True)"

definition tcp_line ::
  "('r, 'p) tcp_server \<Rightarrow> tenv \<Rightarrow> 'c \<Rightarrow> string \<Rightarrow> string \<Rightarrow> conn \<Rightarrow> ('r, 'p, 'c) world
   \<Rightarrow> ('r, 'p, 'c) tcp_result" where
  "tcp_line T te cid ip l k w =
     (case cst k of
        Idle \<Rightarrow> handleConnection_line T te ip l k w
      | AuthUUID \<Rightarrow> auth_uuid T te l k w
      | AuthSig uuid robot nonce \<Rightarrow> auth_signature T te cid ip uuid robot nonce l k w
      | RegUUID \<Rightarrow> reg_uuid T te l k w
      | RegType uuid \<Rightarrow> reg_type T te uuid l k w
      | RegKey uuid deviceType \<Rightarrow> reg_key T te ip uuid deviceType l k w
      | Session a result persisted \<Rightarrow> session_line T te a result persisted l k w
      | HeartbeatMode \<Rightarrow> heartbeatLoop_line T te ip l k w
      | _ \<Rightarrow> ([], k, w))"

definition tcp_end :: "conn \<Rightarrow> ('r, 'p, 'c) world \<Rightarrow> ('r, 'p, 'c) tcp_result" where
  "tcp_end k w = (case cst k of Session a _ _ \<Rightarrow> session_end a k w | _ \<Rightarrow> ([], closed k, w))"

definition tcp_step ::
  "('r, 'p) tcp_server \<Rightarrow> tenv \<Rightarrow> 'c \<Rightarrow> string \<Rightarrow> tcp_event \<Rightarrow> conn \<Rightarrow> ('r, 'p, 'c) world
   \<Rightarrow> ('r, 'p, 'c) tcp_result" where
  "tcp_step T te cid ip ev k w =
     (if reading (cst k) then
        (if is_read ev
         then (case scan te k ev of Some l \<Rightarrow> tcp_line T te cid ip l k w | None \<Rightarrow> tcp_end k w)
         else ([], k, w))
      else
        (case (cst k, ev) of
           (RegWait uuid deviceType publicKey, Response outcome) \<Rightarrow>
             reg_response T te cid ip uuid deviceType publicKey outcome k w
         | (Spawning result persisted, Resume) \<Rightarrow> spawn_session te T cid result persisted k w
         | (WaitSpawn d result persisted, Resume) \<Rightarrow> wait_spawn te cid d result persisted k w
         | _ \<Rightarrow> ([], k, w)))"

section \<open>Parsing heartbeats\<close>

lemma parse_heartbeat_Some:
  "parse_heartbeat m = Some (uuid, payload, sig) \<longleftrightarrow>
   (\<exists>cmd. m = cmd @ '' '' @ uuid @ '' '' @ payload @ '' '' @ sig
      \<and> CHR '' '' \<notin> set cmd \<and> CHR '' '' \<notin> set uuid \<and> CHR '' '' \<notin> set sig)"
proof
  assume "parse_heartbeat m = Some (uuid, payload, sig)"
  then obtain cmd rest where "SplitN m (CHR '' '') 3 = [cmd, uuid, rest]"
    "split_last (CHR '' '') rest = Some (payload, sig)"
    by (auto simp: parse_heartbeat_def split: list.splits option.splits)
  then show "\<exists>cmd. m = cmd @ '' '' @ uuid @ '' '' @ payload @ '' '' @ sig
      \<and> CHR '' '' \<notin> set cmd \<and> CHR '' '' \<notin> set uuid \<and> CHR '' '' \<notin> set sig"
    unfolding SplitN_3_iff by (auto dest!: split_last_Some)
next
  assume "\<exists>cmd. m = cmd @ '' '' @ uuid @ '' '' @ payload @ '' '' @ sig
      \<and> CHR '' '' \<notin> set cmd \<and> CHR '' '' \<notin> set uuid \<and> CHR '' '' \<notin> set sig"
  then obtain cmd where "SplitN m (CHR '' '') 3 = [cmd, uuid, payload @ CHR '' '' # sig]"
    "CHR '' '' \<notin> set sig"
    unfolding SplitN_3_iff by auto
  then show "parse_heartbeat m = Some (uuid, payload, sig)"
    by (simp add: parse_heartbeat_def)
qed

section \<open>Who reaches a session\<close>

fun session_of :: "cstate \<Rightarrow> HandshakeResult option" where
  "session_of (Spawning res p) = Some res"
| "session_of (WaitSpawn d res p) = Some res"
| "session_of (Session a res p) = Some res"
| "session_of _ = None"

text \<open>
  \<open>conn_reach T cid ip ps evs os k\<close>: after the events \<open>evs\<close>, which found the registry in the
  states \<open>ps\<close>, the connection can be in state \<open>k\<close> having emitted \<open>os\<close>.  The world at each step
  is arbitrary, so other connections and services may do anything in between.
\<close>

inductive conn_reach ::
  "('r, 'p) tcp_server \<Rightarrow> 'c \<Rightarrow> string \<Rightarrow> 'p list \<Rightarrow> tcp_event list \<Rightarrow> tcp_out list \<Rightarrow> conn \<Rightarrow> bool"
  for T :: "('r, 'p) tcp_server" and cid :: 'c and ip :: string where
  start: "conn_reach T cid ip [] [] [] \<lparr>cst = Idle, deadline = None\<rparr>"
| step: "conn_reach T cid ip ps evs os k \<Longrightarrow> tcp_step T te cid ip ev k w = (os', k', w') \<Longrightarrow>
    conn_reach T cid ip (ps @ [pst (st w)]) (evs @ [ev]) (os @ os') k'"

text \<open>A challenge: the robot was found, is not blacklisted and was sent the nonce.\<close>

definition challenged :: "('r, 'p) tcp_server \<Rightarrow> 'p list \<Rightarrow> tcp_out list \<Rightarrow> string \<Rightarrow> RobotRecord \<Rightarrow> string \<Rightarrow> bool" where
  "challenged T ps os uuid robot nonce \<longleftrightarrow>
     (\<exists>p \<in> set ps. \<exists>p'. GetRobotByUUID (pg (sv T)) uuid p = (Inr robot, p')) \<and> \<not> rr_IsBlacklisted robot
     \<and> Wr (ln (''NONCE '' @ nonce)) \<in> set os"

definition authenticated :: "('r, 'p) tcp_server \<Rightarrow> 'p list \<Rightarrow> tcp_event list \<Rightarrow> tcp_out list \<Rightarrow> HandshakeResult \<Rightarrow> bool" where
  "authenticated T ps evs os res \<longleftrightarrow>
     (\<exists>robot nonce b l. challenged T ps os (r_UUID res) robot nonce \<and> Line b l \<in> set evs
        \<and> VerifyRobotSignature (crypto (sv T)) (rr_PublicKey robot) nonce (TrimSpace l) = Inr ()
        \<and> r_DeviceType res = rr_DeviceType robot
        \<and> Wr (ln (''AUTH_OK '' @ r_SessionJWT res)) \<in> set os)"

definition admitted :: "tcp_event list \<Rightarrow> tcp_out list \<Rightarrow> string \<Rightarrow> HandshakeResult \<Rightarrow> bool" where
  "admitted evs os ip res \<longleftrightarrow>
     register_event (r_UUID res) ip (r_DeviceType res) \<in> set os
     \<and> (\<exists>oc. Response oc \<in> set evs \<and> WaitForRegistrationResponse oc = Inr True)
     \<and> IsValidDeviceType (r_DeviceType res)
     \<and> Wr (ln (''REGISTER_OK '' @ r_SessionJWT res)) \<in> set os"

definition conn_inv :: "('r, 'p) tcp_server \<Rightarrow> string \<Rightarrow> 'p list \<Rightarrow> tcp_event list \<Rightarrow> tcp_out list \<Rightarrow> conn \<Rightarrow> bool" where
  "conn_inv T ip ps evs os k \<longleftrightarrow>
     (case cst k of
        AuthSig uuid robot nonce \<Rightarrow> challenged T ps os uuid robot nonce
      | RegKey uuid dt \<Rightarrow> IsValidDeviceType dt
      | RegWait uuid dt key \<Rightarrow> IsValidDeviceType dt \<and> register_event uuid ip dt \<in> set os
      | x \<Rightarrow> (case session_of x of None \<Rightarrow> True
          | Some res \<Rightarrow> authenticated T ps evs os res \<or> admitted evs os ip res))"

lemma challenged_mono: "challenged T ps os u r n \<Longrightarrow> challenged T ps (os @ os') u r n"
  by (auto simp: challenged_def)

lemma authenticated_mono: "authenticated T ps evs os res \<Longrightarrow> authenticated T ps evs (os @ os') res"
  using challenged_mono by (fastforce simp: authenticated_def)

lemma admitted_mono: "admitted evs os ip res \<Longrightarrow> admitted evs (os @ os') ip res"
  by (auto simp: admitted_def)

lemma conn_inv_simps [simp]:
  "conn_inv T ip ps evs os (k\<lparr>cst := Closed\<rparr>)" "conn_inv T ip ps evs os (closed k)"
  "conn_inv T ip ps evs os (k\<lparr>cst := AuthUUID, deadline := d\<rparr>)"
  "conn_inv T ip ps evs os (k\<lparr>cst := RegUUID, deadline := d\<rparr>)"
  "conn_inv T ip ps evs os (k\<lparr>cst := RegType u, deadline := d\<rparr>)"
  "conn_inv T ip ps evs os (k\<lparr>cst := Closed, deadline := d\<rparr>)"
  "conn_inv T ip ps evs os (to_state HeartbeatMode k)"
  by (simp_all add: conn_inv_def closed_def to_state_def)

lemma conn_inv_mono: "conn_inv T ip ps evs os k \<Longrightarrow> conn_inv T ip ps evs (os @ os') k"
  using challenged_mono authenticated_mono admitted_mono
  by (fastforce simp: conn_inv_def split: cstate.splits option.splits)

lemma conn_inv_events: "conn_inv T ip ps evs os k \<Longrightarrow> conn_inv T ip (ps @ qs) (evs @ es) os k"
  by (fastforce simp: conn_inv_def authenticated_def admitted_def challenged_def split: cstate.splits option.splits)

lemma scan_Some: "scan te k ev = Some l \<Longrightarrow> \<exists>b. ev = Line b l"
  by (auto simp: scan_def split: tcp_event.splits if_splits)

lemma conn_inv_session:
  assumes "session_of x = Some res" and "authenticated T ps evs os res \<or> admitted evs os ip res"
  shows "conn_inv T ip ps evs os (to_state x k)"
  using assms by (cases x) (auto simp: conn_inv_def to_state_def)

text \<open>Entering a session keeps what is known of its owner.\<close>

lemma enter_session_inv:
  assumes "enter_session te T cid res p k w = (os', k', w')"
    and "authenticated T ps evs os res \<or> admitted evs os ip res"
  shows "conn_inv T ip ps evs os k'" and "os' = []" and "deadline k' = deadline k"
  using assms
  by (auto simp: enter_session_def conn_inv_session to_state_def closed_def
      split: option.splits prod.splits bool.splits) (auto simp: conn_inv_def split: option.splits)

lemma conn_inv_line_simple:
  "handleConnection_line T te ip l k w = (os', k', w') \<Longrightarrow> conn_inv T ip ps evs os k \<Longrightarrow> conn_inv T ip ps evs (os @ os') k'"
  "heartbeatLoop_line T te ip l k w = (os', k', w') \<Longrightarrow> conn_inv T ip ps evs os k \<Longrightarrow> conn_inv T ip ps evs (os @ os') k'"
  "reg_uuid T te l k w = (os', k', w') \<Longrightarrow> conn_inv T ip ps evs os k \<Longrightarrow> conn_inv T ip ps evs (os @ os') k'"
  "tcp_end k w = (os', k', w') \<Longrightarrow> conn_inv T ip ps evs os k \<Longrightarrow> conn_inv T ip ps evs (os @ os') k'"
  by (auto simp: handleConnection_line_def handleAuthAndSession_def handleRegisterAndSession_def heartbeatLoop_line_def reg_uuid_def tcp_end_def
      session_end_def Let_def conn_inv_mono
      split: if_splits prod.splits sum.splits option.splits cstate.splits)

lemma conn_inv_auth_uuid:
  assumes "auth_uuid T te l k w = (os', k', w')"
    and "pst (st w) \<in> set ps"
  shows "conn_inv T ip ps evs (os @ os') k'"
proof (cases "hs_uuid (sv T) (rndNonce te) l (st w)")
  case (fields ws r s1)
  show ?thesis
  proof (cases r)
    case (Inl e)
    then show ?thesis using assms fields by (auto simp: auth_uuid_def)
  next
    case (Inr x)
    obtain uuid robot nonce where x: "x = (uuid, robot, nonce)"
      by (cases x)
    have "challenged T ps (os @ map Wr ws) uuid robot nonce"
      using hs_uuid_ok[of "sv T" "rndNonce te" l "st w" ws uuid robot nonce s1] fields Inr x assms(2)
      by (auto simp: challenged_def)
    then show ?thesis
      using assms fields Inr x by (auto simp: auth_uuid_def conn_inv_def)
  qed
qed

lemma conn_inv_auth_signature:
  assumes "auth_signature T te cid ip uuid robot nonce l k w = (os', k', w')"
    and "challenged T ps os uuid robot nonce" and "Line b l \<in> set evs"
  shows "conn_inv T ip ps evs (os @ os') k'"
proof (cases "hs_signature (sv T) (rndSession te) (nano te) ip uuid robot nonce l (st w)")
  case (fields ws r s1)
  show ?thesis
  proof (cases r)
    case (Inl e)
    then show ?thesis using assms fields by (auto simp: auth_signature_def)
  next
    case (Inr res)
    note ok = hs_signature_ok[OF fields[unfolded Inr]]
    obtain r' where o: "open_session (sv T) (rndSession te) (nano te) uuid (rr_DeviceType robot) ip (rst (st w)) = ([], Inr res, r')"
      using ok(2) by blast
    have A: "authenticated T ps evs (os @ map Wr ws) res"
      unfolding authenticated_def
      using ok(1,3) open_session_ok[OF o] challenged_mono[OF assms(2)] assms(3) by auto
    obtain os2 where e: "enter_session te T cid res True k (set_store s1 w) = (os2, k', w')"
      and os': "os' = map Wr ws @ os2"
      using assms(1) fields Inr by (auto simp: auth_signature_def split: prod.splits)
    then show ?thesis
      using enter_session_inv(1,2)[OF e disjI1[OF A]] by simp
  qed
qed

lemma conn_inv_reg_type:
  "reg_type T te uuid l k w = (os', k', w') \<Longrightarrow> conn_inv T ip ps evs (os @ os') k'"
  by (auto simp: reg_type_def Let_def conn_inv_def closed_def split: if_splits)

lemma conn_inv_reg_key:
  "reg_key T te ip uuid dt l k w = (os', k', w') \<Longrightarrow> IsValidDeviceType dt \<Longrightarrow> conn_inv T ip ps evs (os @ os') k'"
  by (auto simp: reg_key_def Let_def conn_inv_def closed_def split: if_splits prod.splits sum.splits)

lemma conn_inv_reg_response:
  assumes "reg_response T te cid ip uuid dt key oc k w = (os', k', w')"
    and "IsValidDeviceType dt" and "register_event uuid ip dt \<in> set os" and "Response oc \<in> set evs"
  shows "conn_inv T ip ps evs (os @ os') k'"
proof (cases "WaitForRegistrationResponse oc")
  case (Inl e)
  then show ?thesis using assms(1) by (auto simp: reg_response_def Let_def)
next
  case (Inr accepted)
  let ?w1 = "set_rst (snd (RemovePendingRobot (rds (sv T)) uuid (rst (st w)))) w"
  show ?thesis
  proof (cases accepted)
    case False
    then have "k' = closed k" using assms(1) Inr by (simp add: reg_response_def Let_def)
    then show ?thesis by simp
  next
    case True
    obtain ws x r where o: "open_session (sv T) (rndSession te) (nano te) uuid dt ip (rst (st ?w1)) = (ws, x, r)"
      by (metis prod_cases3)
    show ?thesis
    proof (cases x)
      case (Inl e)
      then have "k' = closed k"
        using assms(1) True o \<open>WaitForRegistrationResponse oc = Inr accepted\<close> by (simp add: reg_response_def Let_def)
      then show ?thesis by simp
    next
      case (Inr res)
      then have ok: "open_session (sv T) (rndSession te) (nano te) uuid dt ip (rst (st ?w1)) = (ws, Inr res, r)"
        using o by simp
      obtain e_os where e: "enter_session te T cid res False k
           (set_rst (snd (SetRobotPublicKey (rds (sv T)) uuid key (TTL (Redis (cfg (sv T)))) r)) ?w1) = (e_os, k', w')"
        and os': "os' = Wr (ln (''REGISTER_OK '' @ r_SessionJWT res)) # e_os"
        using assms(1) True ok \<open>WaitForRegistrationResponse oc = Inr accepted\<close>
        by (auto simp: reg_response_def Let_def split: prod.splits)
      have "admitted evs (os @ os') ip res"
        using open_session_ok(2,3)[OF ok] assms(2,3,4) True os' \<open>WaitForRegistrationResponse oc = Inr accepted\<close>
        by (auto simp: admitted_def)
      then show ?thesis using enter_session_inv(1)[OF e disjI2] by simp
    qed
  qed
qed

lemma conn_inv_spawn:
  assumes "conn_inv T ip ps evs os k" and "session_of (cst k) = Some res"
  shows "spawn_session te T cid res p k w = (os', k', w') \<Longrightarrow> conn_inv T ip ps evs (os @ os') k'"
    and "wait_spawn te cid d res p k w = (os', k', w') \<Longrightarrow> conn_inv T ip ps evs (os @ os') k'"
    and "session_line T te a res p l k w = (os', k', w') \<Longrightarrow> conn_inv T ip ps evs (os @ os') k'"
proof -
  have A: "authenticated T ps evs os res \<or> admitted evs os ip res"
    using assms by (cases "cst k") (auto simp: conn_inv_def)
  then have S: "conn_inv T ip ps evs (os @ os'') (to_state (Session a res q) k)" for os'' a q
    using conn_inv_session[of "Session a res q" res T ps evs "os @ os''" ip k] authenticated_mono admitted_mono
    by fastforce
  show "spawn_session te T cid res p k w = (os', k', w') \<Longrightarrow> conn_inv T ip ps evs (os @ os') k'"
    using S S[of "[]"] by (auto simp: spawn_session_def Let_def split: option.splits prod.splits sum.splits)
  show "wait_spawn te cid d res p k w = (os', k', w') \<Longrightarrow> conn_inv T ip ps evs (os @ os') k'"
    using S S[of "[]"] assms(1) by (auto simp: wait_spawn_def split: option.splits if_splits)
  show "session_line T te a res p l k w = (os', k', w') \<Longrightarrow> conn_inv T ip ps evs (os @ os') k'"
    using S S[of "[]"] assms(1)
    by (auto simp: session_line_def Let_def split: option.splits if_splits prod.splits)
qed

lemma conn_inv_step:
  assumes inv: "conn_inv T ip ps evs os k" and step: "tcp_step T te cid ip ev k w = (os', k', w')"
    and ev: "ev \<in> set evs" "pst (st w) \<in> set ps"
  shows "conn_inv T ip ps evs (os @ os') k'"
proof (cases "cst k")
  case (AuthSig u r n)
  then have "challenged T ps os u r n" using inv by (simp add: conn_inv_def)
  then show ?thesis
    using step inv AuthSig ev(1) scan_Some[of te k ev] conn_inv_auth_signature conn_inv_line_simple(4)
    by (fastforce simp: tcp_step_def tcp_line_def reading_def conn_inv_mono split: if_splits option.splits)
next
  case (RegKey u d)
  then have "IsValidDeviceType d" using inv by (simp add: conn_inv_def)
  then show ?thesis
    using step inv RegKey conn_inv_reg_key conn_inv_line_simple(4)
    by (fastforce simp: tcp_step_def tcp_line_def reading_def split: if_splits option.splits)
next
  case (RegWait u d key)
  then have "IsValidDeviceType d" "register_event u ip d \<in> set os" using inv by (simp_all add: conn_inv_def)
  then show ?thesis
    using step inv RegWait ev(1) conn_inv_reg_response conn_inv_mono
    by (fastforce simp: tcp_step_def reading_def split: tcp_event.splits)
next
  case (Spawning res p)
  then show ?thesis
    using step inv conn_inv_spawn(1)[OF inv] conn_inv_mono
    by (fastforce simp: tcp_step_def reading_def split: tcp_event.splits)
next
  case (WaitSpawn d res p)
  then show ?thesis
    using step inv conn_inv_spawn(2)[OF inv] conn_inv_mono
    by (fastforce simp: tcp_step_def reading_def split: tcp_event.splits)
next
  case (Session a res p)
  then show ?thesis
    using step inv conn_inv_spawn(3)[OF inv] conn_inv_line_simple(4)
    by (fastforce simp: tcp_step_def tcp_line_def reading_def split: if_splits option.splits)
next
  case (RegType u)
  then show ?thesis
    using step inv conn_inv_reg_type conn_inv_line_simple(4)
    by (fastforce simp: tcp_step_def tcp_line_def reading_def split: if_splits option.splits)
next
  case AuthUUID
  then show ?thesis
    using step inv conn_inv_auth_uuid[OF _ ev(2)] conn_inv_line_simple(4)
    by (fastforce simp: tcp_step_def tcp_line_def reading_def split: if_splits option.splits)
qed (use step inv conn_inv_line_simple in
      \<open>fastforce simp: tcp_step_def tcp_line_def reading_def split: if_splits option.splits\<close>)+

lemma conn_reach_inv: "conn_reach T cid ip ps evs os k \<Longrightarrow> conn_inv T ip ps evs os k"
proof (induction rule: conn_reach.induct)
  case start
  then show ?case by (simp add: conn_inv_def)
next
  case (step ps evs os k te ev w os' k' w')
  show ?case
    by (rule conn_inv_step[OF conn_inv_events[OF step.IH] step.hyps(2)]) simp_all
qed

section \<open>Properties\<close>

text \<open>C1: No connection reaches a session (spawning a handler, waiting for one, or talking to one)
  without credentials.  In every reachable state that belongs to a session, under any
  interleaving with other connections, either the registry, at one of the connection's own
  steps, held the robot and did not have it blacklisted, and the robot was sent a nonce and
  answered with a line that is a signature of it under its registered key; or its
  registration was announced with a valid device type and an administrator's acceptance came
  back.  The token was sent in both cases.\<close>

theorem tcp_session_authorized:
  assumes "postgres_service (pg (sv T)) robots" and "conn_reach T cid ip ps evs os k" and "session_of (cst k) = Some res"
  shows "(\<exists>p robot nonce b l. p \<in> set ps \<and> robots p (r_UUID res) = Some robot \<and> \<not> rr_IsBlacklisted robot
      \<and> Wr (ln (''NONCE '' @ nonce)) \<in> set os \<and> Line b l \<in> set evs
      \<and> VerifyRobotSignature (crypto (sv T)) (rr_PublicKey robot) nonce (TrimSpace l) = Inr ()
      \<and> Wr (ln (''AUTH_OK '' @ r_SessionJWT res)) \<in> set os)
    \<or> (IsValidDeviceType (r_DeviceType res) \<and> register_event (r_UUID res) ip (r_DeviceType res) \<in> set os
      \<and> (\<exists>oc. Response oc \<in> set evs \<and> WaitForRegistrationResponse oc = Inr True)
      \<and> Wr (ln (''REGISTER_OK '' @ r_SessionJWT res)) \<in> set os)"
proof -
  have "authenticated T ps evs os res \<or> admitted evs os ip res"
    using conn_reach_inv[OF assms(2)] assms(3) by (cases "cst k") (auto simp: conn_inv_def)
  then show ?thesis
    using postgres_service.select_ok[OF assms(1)]
    unfolding authenticated_def challenged_def admitted_def GetRobotByUUID_def by blast
qed

text \<open>Example connections, on the in-memory services.\<close>

definition sample_tcp :: "(mem, (string, RobotRecord) gomap) tcp_server" where
  "sample_tcp = \<lparr>sv = sample_server, fs = sample_fs, db = \<lparr>has_db = True, has_pg = True, has_rds = True\<rparr>\<rparr>"

definition sample_env :: "int \<Rightarrow> tenv" where
  "sample_env t = \<lparr>nano = t, rndNonce = Some ''n'', rndSession = None, osPid = Inr 1, ids = (''i'', ''j''), shutdown = False\<rparr>"

definition sig_conn :: conn where
  "sig_conn = \<lparr>cst = AuthSig ''r1'' sample_record (hex_EncodeToString ''n''), deadline = Some 30000000007\<rparr>"

lemma trim_commands: "TrimSpace ''AUTH'' = ''AUTH''" "TrimSpace ''PERSIST'' = ''PERSIST''"
  by (simp_all add: TrimSpace_visible visible_def)

lemma sample_timeout: "handshake_deadline sample_tcp (sample_env 7) = Some 30000000007"
  using default_durations(3)
  by (simp add: handshake_deadline_def sample_tcp_def sample_env_def sample_server_def second_def defaultConfig_def)

lemma Reattach_open: "room hp \<Longrightarrow> \<exists>hp'. Reattach c ip sid hp = Some hp' \<and> hp_closed hp' = hp_closed hp"
  by (auto simp: Reattach_def sendToScript_def try_send_def room_def)

lemma sample_enter:
  assumes "r_UUID res = ''r1''"
  shows "\<exists>w'. enter_session te T c res p k (sample_world\<lparr>st := s\<rparr>) = ([], to_state (Session 0 res p) k, w')"
proof -
  obtain hp' where "Reattach c (r_IP res) (r_SessionID res) sample_proc = Some hp'"
    using Reattach_open[OF sample_world_proc(2)] by blast
  then show ?thesis
    using assms sample_world_proc(1)
    by (simp add: enter_session_def Get_def on_proc_def sample_world_def)
qed

lemma sample_sig_step:
  "\<exists>os res w'. tcp_step sample_tcp (sample_env 7) 5 ''ip'' (Line True sample_sig) sig_conn sample_world
     = (os, sig_conn\<lparr>cst := Session 0 res True\<rparr>, w') \<and> r_UUID res = ''r1''"
proof -
  obtain res r' where o: "open_session sample_server None 7 ''r1'' ''arm'' ''ip'' [] = ([], Inr res, r')"
    using sample_open_session by blast
  have v: "VerifyRobotSignature (crypto sample_server) sample_key (hex_EncodeToString ''n'') sample_sig = Inr ()"
    using sample_verify[of "''n''"] by (simp add: sample_server_def)
  let ?s = "sample_store\<lparr>rst := r'\<rparr>"
  have h: "hs_signature sample_server None 7 ''ip'' ''r1'' sample_record (hex_EncodeToString ''n'') sample_sig (st sample_world)
     = ([ln (''AUTH_OK '' @ r_SessionJWT res)], Inr res, ?s)"
    using o v by (simp add: hs_signature_def trim_samples sample_record_def sample_world_def sample_store_def
        del: hex_EncodeToString.simps)
  have u: "r_UUID res = ''r1''" using open_session_ok(2)[OF o] .
  obtain w' where "enter_session (sample_env 7) sample_tcp 5 res True sig_conn (set_store ?s sample_world)
      = ([], to_state (Session 0 res True) sig_conn, w')"
    using sample_enter[OF u] unfolding set_store_def by blast
  moreover have "length sample_sig < MaxTCPMessageSize"
    by (simp only: sample_sig_def length_hex_Encode length_replicate MaxTCPMessageSize_def)
  ultimately show ?thesis
    using u h by (simp add: tcp_step_def reading_def sig_conn_def is_read_def scan_def tcp_line_def auth_signature_def
        sample_tcp_def sample_env_def to_state_def del: hex_EncodeToString.simps)
qed

lemma sample_auth_step:
  "tcp_step sample_tcp (sample_env 7) (5 :: nat) ''ip'' (Line True ''AUTH'') \<lparr>cst = Idle, deadline = None\<rparr> sample_world
     = ([Wr (ln ''AUTH_CHALLENGE'')], \<lparr>cst = AuthUUID, deadline = Some 30000000007\<rparr>, sample_world)"
  by (simp add: tcp_step_def reading_def is_read_def scan_def MaxTCPMessageSize_def tcp_line_def sample_timeout
      handleConnection_line_def handleAuthAndSession_def handleRegisterAndSession_def trim_commands Let_def) (simp add: sample_tcp_def)

lemma sample_world_st: "st sample_world = sample_store"
  by (simp add: sample_world_def)

lemma sample_reach:
  "conn_reach sample_tcp (5 :: nat) ''ip'' [pst sample_store, pst sample_store] [Line True ''AUTH'', Line True ''r1'']
     [Wr (ln ''AUTH_CHALLENGE''), Wr (ln (''NONCE '' @ hex_EncodeToString ''n''))] sig_conn"
proof -
  let ?k1 = "\<lparr>cst = AuthUUID, deadline = Some 30000000007\<rparr>"
  note s1 = sample_auth_step
  have s2: "tcp_step sample_tcp (sample_env 7) 5 ''ip'' (Line True ''r1'') ?k1 sample_world
      = ([Wr (ln (''NONCE '' @ hex_EncodeToString ''n''))], sig_conn, sample_world)"
  proof -
    note st = sample_world_st
    then have "set_store sample_store sample_world = sample_world" by (simp add: set_store_def)
    moreover have "sv sample_tcp = sample_server" "rndNonce (sample_env 7) = Some ''n''"
      by (simp_all add: sample_tcp_def sample_env_def)
    ultimately show ?thesis
      by (simp add: tcp_step_def reading_def is_read_def scan_def MaxTCPMessageSize_def tcp_line_def sample_timeout
          auth_uuid_def sample_hs_uuid st sig_conn_def del: hex_EncodeToString.simps)
  qed
  show ?thesis
    using conn_reach.step[OF conn_reach.step[OF conn_reach.start s1] s2] by (simp add: sample_world_st)
qed

theorem tcp_session_authorized_witness:
  "\<exists>os res. conn_reach sample_tcp (5 :: nat) ''ip'' [pst sample_store, pst sample_store, pst sample_store]
       [Line True ''AUTH'', Line True ''r1'', Line True sample_sig] os
       (sig_conn\<lparr>cst := Session 0 res True\<rparr>) \<and> mem_robots (pst sample_store) (r_UUID res) \<noteq> None"
proof -
  obtain os res w' where s: "tcp_step sample_tcp (sample_env 7) 5 ''ip'' (Line True sample_sig) sig_conn sample_world
     = (os, sig_conn\<lparr>cst := Session 0 res True\<rparr>, w')"
    using sample_sig_step by blast
  have r: "conn_reach sample_tcp (5 :: nat) ''ip'' [pst sample_store, pst sample_store, pst sample_store]
       [Line True ''AUTH'', Line True ''r1'', Line True sample_sig]
      ([Wr (ln ''AUTH_CHALLENGE''), Wr (ln (''NONCE '' @ hex_EncodeToString ''n''))] @ os) (sig_conn\<lparr>cst := Session 0 res True\<rparr>)"
    using conn_reach.step[OF sample_reach s] by (simp add: sample_world_st)
  have sv: "postgres_service (pg (sv sample_tcp)) mem_robots"
    using mem_postgres.postgres_service_axioms by (simp add: sample_tcp_def sample_server_def)
  show ?thesis
    using tcp_session_authorized[OF sv r, of res] r by auto
qed

subsection \<open>Before authentication\<close>

lemma set_store_en [simp]: "en (set_store s w) = en w"
  by (simp add: set_store_def)

lemma enter_session_en:
  "enter_session te T c res p k w = (os, k', w') \<Longrightarrow> session_of (cst k') = None \<Longrightarrow> en w' = en w"
  by (auto simp: enter_session_def to_state_def split: option.splits prod.splits bool.splits)

lemma auth_steps_en:
  "auth_uuid T te l k w = (os, k', w') \<Longrightarrow> en w' = en w"
  "auth_signature T te c ip u r n l k w = (os, k', w') \<Longrightarrow> session_of (cst k') = None \<Longrightarrow> en w' = en w"
  by (auto simp: auth_uuid_def auth_signature_def split: prod.splits sum.splits dest: enter_session_en)

lemma reg_steps_en:
  "reg_uuid T te l k w = (os, k', w') \<Longrightarrow> en w' = en w"
  "reg_type T te u l k w = (os, k', w') \<Longrightarrow> en w' = en w"
  "reg_key T te ip u dt l k w = (os, k', w') \<Longrightarrow> en w' = en w"
  "reg_response T te c ip u dt key oc k w = (os, k', w') \<Longrightarrow> session_of (cst k') = None \<Longrightarrow> en w' = en w"
  by (auto simp: reg_uuid_def reg_type_def reg_key_def reg_response_def Let_def
      split: if_splits prod.splits sum.splits dest: enter_session_en)

lemma idle_steps_en:
  "handleConnection_line T te ip l k w = (os, k', w') \<Longrightarrow> en w' = en w"
  "heartbeatLoop_line T te ip l k w = (os, k', w') \<Longrightarrow> en w' = en w"
  by (auto simp: handleConnection_line_def handleAuthAndSession_def handleRegisterAndSession_def heartbeatLoop_line_def handleHeartbeat_def Let_def
      split: if_splits prod.splits sum.splits option.splits)



subsection \<open>The read deadline\<close>

lemma session_deadline:
  assumes "tcp_step T te cid ip ev k w = (os, k', w')" and "cst k = AuthSig u r n"
    and "session_of (cst k') = Some res"
  shows "deadline k' = deadline k"
proof -
  obtain l where l: "auth_signature T te cid ip u r n l k w = (os, k', w')"
    using assms by (auto simp: tcp_step_def reading_def tcp_line_def tcp_end_def closed_def split: if_splits option.splits)
  obtain ws x s1 where h: "hs_signature (sv T) (rndSession te) (nano te) ip u r n l (st w) = (ws, x, s1)"
    by (cases "hs_signature (sv T) (rndSession te) (nano te) ip u r n l (st w)")
  then obtain res' os2 where "enter_session te T cid res' True k (set_store s1 w) = (os2, k', w')"
    using l assms(3) by (cases x) (auto simp: auth_signature_def closed_def split: prod.splits)
  then show ?thesis
    by (auto simp: enter_session_def to_state_def closed_def split: option.splits prod.splits bool.splits)
qed

lemma regwait_deadline:
  "conn_reach T cid ip ps evs os j \<Longrightarrow> (\<exists>u dt key. cst j = RegWait u dt key) \<longrightarrow> deadline j = None"
proof (induction rule: conn_reach.induct)
  case (step ps evs os k te ev w os' k' w')
  then show ?case
    by (cases "cst k")
       (auto simp: tcp_step_def reading_def tcp_line_def tcp_end_def closed_def to_state_def session_end_def
         handleConnection_line_def handleAuthAndSession_def handleRegisterAndSession_def heartbeatLoop_line_def auth_uuid_def auth_signature_def enter_session_def
         reg_uuid_def reg_type_def reg_key_def reg_response_def spawn_session_def wait_spawn_def session_line_def Let_def
         split: if_splits option.splits prod.splits sum.splits tcp_event.splits bool.splits)
qed simp

text \<open>An authenticated session inherits the read deadline of the handshake: it stays in force,
  so the first line that arrives from the network after it ends the session, and the
  handler is told that the connection closed, however lively the robot was.\<close>

theorem auth_session_expires:
  assumes "tcp_step T te cid ip ev k w = (os, k', w')" and "cst k = AuthSig u r n" and "deadline k = Some d"
    and "cst k' = Session a res p" and "d < nano te'"
  shows "deadline k' = Some d \<and> tcp_step T te' cid ip (Line False l) k' w'' = session_end a k' w''"
proof -
  have "deadline k' = Some d"
    using session_deadline[OF assms(1,2)] assms(3,4) by simp
  then show ?thesis
    using assms(4,5) by (simp add: tcp_step_def reading_def is_read_def scan_def tcp_end_def)
qed

theorem auth_session_expires_witness:
  "\<exists>os k' w' res. tcp_step sample_tcp (sample_env 7) (5 :: nat) ''ip'' (Line True sample_sig) sig_conn sample_world
       = (os, k', w') \<and> cst k' = Session 0 res True
     \<and> tcp_step sample_tcp (sample_env 30000000008) 5 ''ip'' (Line False ''hello'') k' w' = session_end 0 k' w'"
proof -
  obtain os res w' where s: "tcp_step sample_tcp (sample_env 7) (5 :: nat) ''ip'' (Line True sample_sig) sig_conn sample_world
     = (os, sig_conn\<lparr>cst := Session 0 res True\<rparr>, w')"
    using sample_sig_step by blast
  have k: "cst sig_conn = AuthSig ''r1'' sample_record (hex_EncodeToString ''n'')" "deadline sig_conn = Some 30000000007"
    by (simp_all add: sig_conn_def)
  have "(30000000007 :: int) < nano (sample_env 30000000008)"
    by (simp add: sample_env_def)
  then show ?thesis
    using auth_session_expires[OF s k] s by fastforce
qed

subsection \<open>Persisting a robot\<close>

text \<open>\<^verbatim>\<open>PERSIST\<close> is attempted at most once per connection, even when it fails: after the
  first one the session counts as persisted whatever the databases answered, so a second
  \<^verbatim>\<open>PERSIST\<close> is passed to the handler as an ordinary message and the stores are left
  alone.\<close>

theorem persist_not_retried:
  assumes "session_line T te a res False ''PERSIST'' k w = (os, k', w')" and "\<not> shutdown te"
    and "session_line T te' a res True ''PERSIST'' k' w1 = (os2, k2, w2)" and "\<not> shutdown te'"
  shows "cst k' = Session a res True \<and> st w2 = st w1
    \<and> (\<forall>e. on_proc a (SendIncoming ''PERSIST'') (en w1) = Some e \<longrightarrow> w2 = w1\<lparr>en := e\<rparr> \<and> os2 = [])"
  using assms trim_commands(2)
  by (auto simp: session_line_def to_state_def split: prod.splits option.splits)

definition no_pg_tcp :: "(mem, (string, RobotRecord) gomap) tcp_server" where
  "no_pg_tcp = sample_tcp\<lparr>db := \<lparr>has_db = True, has_pg = False, has_rds = True\<rparr>\<rparr>"

theorem persist_not_retried_witness:
  "\<exists>os k' w' os2 k2 w2 res. session_line no_pg_tcp (sample_env 7) 0 res
        False ''PERSIST'' sig_conn sample_world = (os, k', w') \<and> os = [Wr (ln ''ERROR NO_DATABASE'')]
     \<and> session_line no_pg_tcp (sample_env 8) 0 res True ''PERSIST'' k' w' = (os2, k2, w2) \<and> st w2 = st w'"
proof -
  let ?T = no_pg_tcp
  obtain res :: HandshakeResult where True by simp
  obtain os k' w' where 1: "session_line ?T (sample_env 7) 0 res False ''PERSIST'' sig_conn sample_world = (os, k', w')"
    by (cases "session_line ?T (sample_env 7) 0 res False ''PERSIST'' sig_conn sample_world")
  obtain os2 k2 w2 where 2: "session_line ?T (sample_env 8) 0 res True ''PERSIST'' k' w' = (os2, k2, w2)"
    by (cases "session_line ?T (sample_env 8) 0 res True ''PERSIST'' k' w'")
  have "os = [Wr (ln ''ERROR NO_DATABASE'')]"
    using 1 by (simp add: session_line_def trim_commands sample_env_def handlePersist_def no_pg_tcp_def)
  moreover have "\<not> shutdown (sample_env t)" for t
    by (simp add: sample_env_def)
  then have "st w2 = st w'"
    using persist_not_retried[OF 1 _ 2] by blast
  ultimately show ?thesis
    using 1 2 by blast
qed

text \<open>\<^verbatim>\<open>PERSIST\<close> never changes a registered robot and never invents a key: the registry
  afterwards is the one before, or the one before with this robot added under the key and
  with the device type of its session, where the key is what Redis holds from its
  registration; and \<^verbatim>\<open>PERSIST_OK\<close> is sent only if the robot is then registered.\<close>

theorem handlePersist_registers:
  assumes "redis_service (rds (sv T)) live" and "postgres_service (pg (sv T)) robots"
    and "handlePersist T res s = (os, s')"
  shows "(robots (pst s') = robots (pst s)
      \<or> robots (pst s) (r_UUID res) = None
        \<and> (\<exists>key t c. key \<noteq> [] \<and> live (rst s) (robotPublicKeyKey (r_UUID res)) = Some (key, t)
          \<and> robots (pst s') = (robots (pst s))(r_UUID res \<mapsto> \<lparr>rr_UUID = r_UUID res, rr_PublicKey = key,
              rr_DeviceType = r_DeviceType res, rr_IsBlacklisted = False, rr_CreatedAt = c\<rparr>)))
    \<and> ((\<exists>x. os = [Wr (ln (''PERSIST_OK'' @ x))]) \<longrightarrow> robots (pst s') (r_UUID res) \<noteq> None)"
proof (cases "\<not> has_pg (db T) \<or> \<not> has_rds (db T)")
  case True
  then show ?thesis using assms(3) by (auto simp: handlePersist_def ln_def)
next
  case False
  obtain x p where g: "GetRobotByUUID (pg (sv T)) (r_UUID res) (pst s) = (x, p)"
    by (cases "GetRobotByUUID (pg (sv T)) (r_UUID res) (pst s)")
  have p: "robots p = robots (pst s)"
    using postgres_service.select_frame[OF assms(2)] g by (simp add: GetRobotByUUID_def)
  show ?thesis
  proof (cases x)
    case (Inr r)
    then have "robots (pst s) (r_UUID res) = Some r"
      using postgres_service.select_ok[OF assms(2)] g by (simp add: GetRobotByUUID_def)
    then show ?thesis
      using assms(3) False g Inr p by (auto simp: handlePersist_def)
  next
    case (Inl e)
    obtain y q where k: "GetRobotPublicKey (rds (sv T)) (r_UUID res) (rst s) = (y, q)"
      by (cases "GetRobotPublicKey (rds (sv T)) (r_UUID res) (rst s)")
    show ?thesis
    proof (cases "\<exists>key. y = Inr key \<and> key \<noteq> []")
      case False
      then show ?thesis
        using assms(3) \<open>\<not> (\<not> has_pg (db T) \<or> \<not> has_rds (db T))\<close> g Inl p k
        by (cases y) (auto simp: handlePersist_def ln_def)
    next
      case True
      then obtain key where key: "y = Inr key" "key \<noteq> []" by blast
      obtain t where t: "live (rst s) (robotPublicKeyKey (r_UUID res)) = Some (key, t)"
        using redis_service.get_ok[OF assms(1)] k key by (fastforce simp: GetRobotPublicKey_def)
      obtain z p' where r: "RegisterRobot (pg (sv T)) (r_UUID res) key (r_DeviceType res) p = (z, p')"
        by (cases "RegisterRobot (pg (sv T)) (r_UUID res) key (r_DeviceType res) p")
      have o: "pst s' = p'" "os = (case z of Inl _ \<Rightarrow> [Wr (ln ''ERROR PERSIST_FAILED'')] | Inr _ \<Rightarrow> [Wr (ln ''PERSIST_OK'')])"
        using assms(3) \<open>\<not> (\<not> has_pg (db T) \<or> \<not> has_rds (db T))\<close> g Inl k key r
        by (auto simp: handlePersist_def split: sum.splits)
      show ?thesis
        using postgres_service.insert_ok[OF assms(2), of "r_UUID res" key "r_DeviceType res" p _ p']
          postgres_service.insert_err[OF assms(2), of "r_UUID res" key "r_DeviceType res" p _ p']
          r o t key(2) p
        by (cases z) (auto simp: RegisterRobot_def ln_def)
    qed
  qed
qed

definition reg_result :: HandshakeResult where
  "reg_result = \<lparr>r_UUID = ''r2'', r_DeviceType = ''arm'', r_IP = ''ip'', r_SessionJWT = [], r_SessionID = ''s''\<rparr>"

theorem handlePersist_registers_witness:
  "\<exists>s'. handlePersist sample_tcp reg_result (sample_store\<lparr>rst := [(robotPublicKeyKey ''r2'', (''k'', 0))]\<rparr>)
       = ([Wr (ln ''PERSIST_OK'')], s') \<and> mem_robots (pst s') ''r2'' \<noteq> None"
proof -
  let ?s = "sample_store\<lparr>rst := [(robotPublicKeyKey ''r2'', (''k'', 0))]\<rparr>"
  have "\<exists>s'. handlePersist sample_tcp reg_result ?s = ([Wr (ln ''PERSIST_OK'')], s')"
    by (simp add: handlePersist_def sample_tcp_def sample_server_def sample_store_def reg_result_def GetRobotByUUID_def
        mem_postgres_def GetRobotPublicKey_def mem_redis_def RegisterRobot_def)
  then obtain s' where h: "handlePersist sample_tcp reg_result ?s = ([Wr (ln ''PERSIST_OK'')], s')" by blast
  have sv: "redis_service (rds (sv sample_tcp)) map_of" "postgres_service (pg (sv sample_tcp)) mem_robots"
    using mem_redis.redis_service_axioms mem_postgres.postgres_service_axioms
    by (simp_all add: sample_tcp_def sample_server_def)
  show ?thesis
    using handlePersist_registers[OF sv h] h by (auto simp: reg_result_def)
qed

end
