(* ===== verification/Nonce_Auth.thy ===== *)
theory Nonce_Auth
  imports Handshake
begin

text \<open>
  The two-step authentication that \<^verbatim>\<open>udp_server.go\<close> and \<^verbatim>\<open>mqtt_server.go\<close> have in
  common, with the same messages and a different prefix of the Redis key: a request either
  asks for a nonce or presents a signature.  The locale \<open>nonce_auth\<close> is the contract of one
  request, that a granted session uses up the nonce pending for the robot; what follows for
  any traffic is proved once.
\<close>

section \<open>The two steps\<close>

definition nonceTTL :: int where "nonceTTL = 30 * second"

definition authCache :: "string \<Rightarrow> string \<Rightarrow> string \<Rightarrow> string" where
  "authCache nonce publicKey deviceType = nonce @ ''|'' @ publicKey @ ''|'' @ deviceType"

text \<open>Step 1, no signature: the nonce and the robot's data go to Redis; the result of that write
  is not looked at.\<close>

definition challenge_nonce ::
  "('r, 'p) server \<Rightarrow> string \<Rightarrow> bytes option \<Rightarrow> string \<Rightarrow> ('r, 'p) store \<Rightarrow> string res \<times> ('r, 'p) store" where
  "challenge_nonce sv nonceKey rnd uuid s =
     (case GetRobotByUUID (pg sv) uuid (pst s) of
        (Inl _, p) \<Rightarrow> (Inl ''unknown robot'', s\<lparr>pst := p\<rparr>)
      | (Inr robot, p) \<Rightarrow>
          if rr_IsBlacklisted robot then (Inl ''blacklisted'', s\<lparr>pst := p\<rparr>)
          else
            (case GenerateNonce rnd of
               Inl _ \<Rightarrow> (Inl ''nonce generation failed'', s\<lparr>pst := p\<rparr>)
             | Inr nonce \<Rightarrow>
                 (Inr nonce, s\<lparr>pst := p, rst := snd (rdSet (rds sv) nonceKey
                    (authCache nonce (rr_PublicKey robot) (rr_DeviceType robot)) nonceTTL (rst s))\<rparr>)))"

text \<open>
  Step 2, with a signature: the nonce is taken out of Redis, the signature checked, a session
  issued and stored.  \<open>None\<close> is the panic while the session identifier is drawn.
\<close>

definition answer_nonce ::
  "('r, 'p) server \<Rightarrow> string \<Rightarrow> bytes option \<Rightarrow> int \<Rightarrow> string \<Rightarrow> string \<Rightarrow> string \<Rightarrow> 'r
   \<Rightarrow> HandshakeResult res option \<times> 'r" where
  "answer_nonce sv nonceKey rnd nano ip uuid signature r =
     (case rdGetDel (rds sv) nonceKey r of
        (Inl _, r1) \<Rightarrow> (Some (Inl ''no pending nonce (send auth request first)''), r1)
      | (Inr cache, r1) \<Rightarrow>
          if cache = [] then (Some (Inl ''no pending nonce (send auth request first)''), r1)
          else
            (case SplitN cache (CHR ''|'') 3 of
               [nonce, publicKey, deviceType] \<Rightarrow>
                 (case VerifyRobotSignature (crypto sv) publicKey nonce signature of
                    Inl _ \<Rightarrow> (Some (Inl ''signature verification failed''), r1)
                  | Inr _ \<Rightarrow>
                      (case GenerateSessionID rnd nano of
                         None \<Rightarrow> (None, r1)
                       | Some sessionID \<Rightarrow>
                           (case IssueSessionJWT (crypto sv) (Config.Auth (cfg sv)) (nano div second)
                                   uuid deviceType ip sessionID of
                              Inl _ \<Rightarrow> (Some (Inl ''failed to issue JWT''), r1)
                            | Inr jwt \<Rightarrow>
                                (case SetActiveRobot (rds sv)
                                        \<lparr>ar_UUID = uuid, ar_IP = ip, ar_DeviceType = deviceType,
                                         ar_SessionJWT = jwt, ar_PID = 0, ar_ConnectedAt = nano div second\<rparr>
                                        (TTL (Redis (cfg sv))) r1 of
                                   (Inl _, r2) \<Rightarrow> (Some (Inl ''failed to store session''), r2)
                                 | (Inr _, r2) \<Rightarrow>
                                     (Some (Inr \<lparr>r_UUID = uuid, r_DeviceType = deviceType, r_IP = ip,
                                        r_SessionJWT = jwt, r_SessionID = sessionID\<rparr>), r2)))))
             | _ \<Rightarrow> (Some (Inl ''corrupted auth state''), r1)))"

lemma authCache_split:
  "CHR ''|'' \<notin> set nonce \<Longrightarrow> CHR ''|'' \<notin> set key \<Longrightarrow>
   SplitN (authCache nonce key dt) (CHR ''|'') 3 = [nonce, key, dt]"
  using SplitN_3[of "CHR ''|''" nonce key dt] by (simp add: authCache_def)

lemma hex_no_bar: "CHR ''|'' \<notin> set (hex_EncodeToString b)"
  using hex_Encode_chars by fastforce

lemma SetActive_frame:
  assumes "redis_service rd live" and "SetActiveRobot rd ar ttl s = (x, s')" and "k \<noteq> robotKey (ar_UUID ar)"
    and "live s' k \<noteq> None"
  shows "live s' k = live s k"
  using redis_service.set_frame[OF assms(1)] assms(2-) by (simp add: SetActiveRobot_def)

lemma answer_nonce_ok:
  assumes "answer_nonce sv nk rnd nano ip u sig r = (Some (Inr res), r')"
  shows "\<exists>nonce key dt r1 sid jwt.
    rdGetDel (rds sv) nk r = (Inr (authCache nonce key dt), r1)
    \<and> CHR ''|'' \<notin> set nonce \<and> CHR ''|'' \<notin> set key
    \<and> VerifyRobotSignature (crypto sv) key nonce sig = Inr ()
    \<and> IssueSessionJWT (crypto sv) (Config.Auth (cfg sv)) (nano div second) u dt ip sid = Inr jwt
    \<and> SetActiveRobot (rds sv) \<lparr>ar_UUID = u, ar_IP = ip, ar_DeviceType = dt, ar_SessionJWT = jwt,
        ar_PID = 0, ar_ConnectedAt = nano div second\<rparr> (TTL (Redis (cfg sv))) r1 = (Inr (), r')
    \<and> res = \<lparr>r_UUID = u, r_DeviceType = dt, r_IP = ip, r_SessionJWT = jwt, r_SessionID = sid\<rparr>"
proof -
  obtain x r1 where g: "rdGetDel (rds sv) nk r = (x, r1)"
    by (cases "rdGetDel (rds sv) nk r")
  obtain cache where c: "x = Inr cache" "cache \<noteq> []"
    using assms g by (cases x) (auto simp: answer_nonce_def split: if_splits)
  obtain nonce key dt where s: "SplitN cache (CHR ''|'') 3 = [nonce, key, dt]"
    using assms g c by (auto simp: answer_nonce_def split: list.splits)
  have v: "VerifyRobotSignature (crypto sv) key nonce sig = Inr ()"
    using assms g c s by (auto simp: answer_nonce_def split: sum.splits)
  obtain sid where i: "GenerateSessionID rnd nano = Some sid"
    using assms g c s v by (cases "GenerateSessionID rnd nano") (auto simp: answer_nonce_def)
  obtain jwt where j: "IssueSessionJWT (crypto sv) (Config.Auth (cfg sv)) (nano div second) u dt ip sid = Inr jwt"
    using assms g c s v i by (auto simp: answer_nonce_def split: sum.splits)
  have "SetActiveRobot (rds sv) \<lparr>ar_UUID = u, ar_IP = ip, ar_DeviceType = dt, ar_SessionJWT = jwt,
        ar_PID = 0, ar_ConnectedAt = nano div second\<rparr> (TTL (Redis (cfg sv))) r1 = (Inr (), r')"
    "res = \<lparr>r_UUID = u, r_DeviceType = dt, r_IP = ip, r_SessionJWT = jwt, r_SessionID = sid\<rparr>"
    using assms g c s v i j by (auto simp: answer_nonce_def split: prod.splits sum.splits)
  then show ?thesis
    using g c s v j unfolding SplitN_3_iff
    by (intro exI[of _ nonce] exI[of _ key] exI[of _ dt] exI[of _ r1] exI[of _ sid] exI[of _ jwt])
       (simp add: authCache_def)
qed

section \<open>What the steps do to the nonces\<close>

lemma challenge_nonce_frame:
  assumes "redis_service (rds sv) live" and "challenge_nonce sv nk rnd u s = (x, s')"
    and "live (rst s') k \<noteq> None" and "k \<noteq> nk"
  shows "live (rst s) k \<noteq> None"
proof -
  obtain y p where g: "GetRobotByUUID (pg sv) u (pst s) = (y, p)"
    by (cases "GetRobotByUUID (pg sv) u (pst s)")
  have "rst s' = rst s \<or> (\<exists>v. rst s' = snd (rdSet (rds sv) nk v nonceTTL (rst s)))"
    using assms(2) g
    by (cases y; cases "GenerateNonce rnd") (auto simp: challenge_nonce_def split: if_splits)
  then show ?thesis
    using redis_service.set_frame[OF assms(1), of nk _ nonceTTL "rst s" _ _ k] assms(3,4)
    by (metis prod.collapse)
qed

lemma answer_nonce_frame:
  assumes "redis_service (rds sv) live" and "answer_nonce sv nk rnd nano ip u sig r = (x, r')"
    and "live r' k \<noteq> None" and "\<And>v. k \<noteq> robotKey v"
  shows "live r k \<noteq> None"
proof -
  obtain y r1 where g: "rdGetDel (rds sv) nk r = (y, r1)"
    by (cases "rdGetDel (rds sv) nk r")
  have "r' = r1 \<or> (\<exists>ar z. SetActiveRobot (rds sv) ar (TTL (Redis (cfg sv))) r1 = (z, r'))"
    using assms(2) g
    by (auto simp: answer_nonce_def split: sum.splits if_splits list.splits option.splits prod.splits)
  then have "live r1 k \<noteq> None"
    using SetActive_frame[OF assms(1)] assms(3,4) by metis
  then show ?thesis
    using redis_service.getdel_frame[OF assms(1) g] by (metis map_le_None)
qed

lemma answer_nonce_uses:
  assumes "redis_service (rds sv) live" and "answer_nonce sv nk rnd nano ip u sig r = (Some (Inr res), r')"
    and "\<And>v. nk \<noteq> robotKey v"
  shows "live r nk \<noteq> None" and "live r' nk = None"
proof -
  obtain cache r1 ar where k: "rdGetDel (rds sv) nk r = (Inr cache, r1)"
    "SetActiveRobot (rds sv) ar (TTL (Redis (cfg sv))) r1 = (Inr (), r')"
    using answer_nonce_ok[OF assms(2)] by blast
  have "live r1 nk = None" "live r nk \<noteq> None"
    using redis_service.getdel_ok[OF assms(1) k(1)] by (auto intro: map_le_None)
  then show "live r nk \<noteq> None" "live r' nk = None"
    using SetActive_frame[OF assms(1) k(2)] assms(3) by metis+
qed

text \<open>
  One request as a server handles it: refused without touching Redis, a challenge, or an
  answer; only an accepted answer is a grant.
\<close>

definition nonce_exchange ::
  "('r, 'p) server \<Rightarrow> string \<Rightarrow> string \<Rightarrow> bool \<Rightarrow> bool \<Rightarrow> ('r, 'p) store \<Rightarrow> ('r, 'p) store \<Rightarrow> bool" where
  "nonce_exchange sv nk u asks granted s s' \<longleftrightarrow>
     \<not> granted \<and> s' = s
     \<or> asks \<and> \<not> granted \<and> (\<exists>rnd x. challenge_nonce sv nk rnd u s = (x, s'))
     \<or> \<not> asks \<and> (\<exists>rnd nano ip sig x. answer_nonce sv nk rnd nano ip u sig (rst s) = (x, rst s')
          \<and> (granted \<longrightarrow> (\<exists>res. x = Some (Inr res))))"

lemma exchange_grant:
  assumes "redis_service (rds sv) live" and "nonce_exchange sv nk u asks True s s'" and "\<And>v. nk \<noteq> robotKey v"
  shows "\<not> asks \<and> live (rst s) nk \<noteq> None \<and> live (rst s') nk = None"
  using assms(2) answer_nonce_uses[OF assms(1) _ assms(3)] unfolding nonce_exchange_def by blast

lemma exchange_keep:
  assumes "redis_service (rds sv) live" and "nonce_exchange sv nk u asks b s s'" and "\<And>v. k \<noteq> robotKey v"
    and "live (rst s') k \<noteq> None"
  shows "live (rst s) k \<noteq> None \<or> asks \<and> k = nk"
  using assms(2) challenge_nonce_frame[OF assms(1) _ assms(4)] answer_nonce_frame[OF assms(1) _ assms(4,3)] assms(4)
  unfolding nonce_exchange_def by blast

text \<open>What a granted session rests on, and what Redis then holds for the robot.\<close>

definition nonce_proof ::
  "('r, 'p) server \<Rightarrow> (string \<Rightarrow> (string \<times> int) option) \<Rightarrow> (string \<Rightarrow> (string \<times> int) option) \<Rightarrow> string
   \<Rightarrow> string \<Rightarrow> string \<Rightarrow> string \<Rightarrow> int \<Rightarrow> bool" where
  "nonce_proof sv before after nk u sig ip now \<longleftrightarrow>
     (\<exists>nonce key dt ttl jwt sid.
        before nk = Some (authCache nonce key dt, ttl)
        \<and> VerifyRobotSignature (crypto sv) key nonce sig = Inr ()
        \<and> IssueSessionJWT (crypto sv) (Config.Auth (cfg sv)) now u dt ip sid = Inr jwt
        \<and> (after (robotKey u) \<noteq> None \<longrightarrow> after (robotKey u) = Some (enc_ActiveRobot \<lparr>ar_UUID = u, ar_IP = ip,
             ar_DeviceType = dt, ar_SessionJWT = jwt, ar_PID = 0, ar_ConnectedAt = now\<rparr>, TTL (Redis (cfg sv)))))"

lemma answer_nonce_proof:
  assumes "redis_service (rds sv) live" and "answer_nonce sv nk rnd nano ip u sig r = (Some (Inr res), r')"
  shows "nonce_proof sv (live r) (live r') nk u sig ip (nano div second)"
proof -
  obtain nonce key dt r1 sid jwt where k: "rdGetDel (rds sv) nk r = (Inr (authCache nonce key dt), r1)"
    "VerifyRobotSignature (crypto sv) key nonce sig = Inr ()"
    "IssueSessionJWT (crypto sv) (Config.Auth (cfg sv)) (nano div second) u dt ip sid = Inr jwt"
    "SetActiveRobot (rds sv) \<lparr>ar_UUID = u, ar_IP = ip, ar_DeviceType = dt, ar_SessionJWT = jwt,
        ar_PID = 0, ar_ConnectedAt = nano div second\<rparr> (TTL (Redis (cfg sv))) r1 = (Inr (), r')"
    using answer_nonce_ok[OF assms(2)] by blast
  obtain ttl where "live r nk = Some (authCache nonce key dt, ttl)"
    using redis_service.getdel_ok[OF assms(1) k(1)] by blast
  moreover have "live r' \<subseteq>\<^sub>m (live r1)(robotKey u \<mapsto> (enc_ActiveRobot \<lparr>ar_UUID = u, ar_IP = ip,
      ar_DeviceType = dt, ar_SessionJWT = jwt, ar_PID = 0, ar_ConnectedAt = nano div second\<rparr>, TTL (Redis (cfg sv))))"
    by (rule redis_service.set_ok[OF assms(1)]) (use k(4) in \<open>simp add: SetActiveRobot_def\<close>)
  then have "live r' (robotKey u) \<noteq> None \<longrightarrow> live r' (robotKey u) = Some (enc_ActiveRobot
      \<lparr>ar_UUID = u, ar_IP = ip, ar_DeviceType = dt, ar_SessionJWT = jwt, ar_PID = 0,
       ar_ConnectedAt = nano div second\<rparr>, TTL (Redis (cfg sv)))"
    by (auto dest: map_le_Some)
  ultimately show ?thesis
    using k(2,3) unfolding nonce_proof_def by blast
qed

text \<open>A challenge and its answer, while Redis answers and nothing expires.\<close>

lemma nonce_roundtrip:
  assumes "redis_steady (rds sv) live" and "challenge_nonce sv nk rnd u s = (Inr nonce, s1)"
    and "GetRobotByUUID (pg sv) u (pst s) = (Inr robot, p)" and "CHR ''|'' \<notin> set (rr_PublicKey robot)"
    and "VerifyRobotSignature (crypto sv) (rr_PublicKey robot) nonce sig = Inr ()"
    and "GenerateSessionID rnd' nano = Some sid"
    and "IssueSessionJWT (crypto sv) (Config.Auth (cfg sv)) (nano div second) u (rr_DeviceType robot) ip sid = Inr jwt"
  shows "\<exists>r'. answer_nonce sv nk rnd' nano ip u sig (rst s1) = (Some (Inr \<lparr>r_UUID = u,
    r_DeviceType = rr_DeviceType robot, r_IP = ip, r_SessionJWT = jwt, r_SessionID = sid\<rparr>), r')"
proof -
  let ?v = "authCache nonce (rr_PublicKey robot) (rr_DeviceType robot)"
  obtain b where n: "nonce = hex_EncodeToString b"
    and s1: "rst s1 = snd (rdSet (rds sv) nk ?v nonceTTL (rst s))"
    using assms(2,3) by (auto simp: challenge_nonce_def GenerateNonce_def split: if_splits option.splits)
  obtain q where "rdSet (rds sv) nk ?v nonceTTL (rst s) = (Inr (), q)" "live q = (live (rst s))(nk \<mapsto> (?v, nonceTTL))"
    using redis_steady.set_total[OF assms(1)] by blast
  then have "live (rst s1) nk = Some (?v, nonceTTL)"
    using s1 by simp
  then obtain s2 where g: "rdGetDel (rds sv) nk (rst s1) = (Inr ?v, s2)"
    using redis_steady.getdel_total[OF assms(1)] by blast
  let ?ar = "\<lparr>ar_UUID = u, ar_IP = ip, ar_DeviceType = rr_DeviceType robot, ar_SessionJWT = jwt,
        ar_PID = 0, ar_ConnectedAt = nano div second\<rparr>"
  obtain s3 where "SetActiveRobot (rds sv) ?ar (TTL (Redis (cfg sv))) s2 = (Inr (), s3)"
    using redis_steady.set_total[OF assms(1)] unfolding SetActiveRobot_def by blast
  moreover have "SplitN ?v (CHR ''|'') 3 = [nonce, rr_PublicKey robot, rr_DeviceType robot]"
    using authCache_split[OF _ assms(4)] hex_no_bar n by blast
  moreover have "?v \<noteq> []" by (simp add: authCache_def)
  ultimately show ?thesis
    using g assms(5-7) by (auto simp: answer_nonce_def)
qed

lemma sample_nonce:
  "\<exists>s1 res r'. challenge_nonce sample_server nk (Some ''n'') ''r1'' sample_store = (Inr (hex_EncodeToString ''n''), s1)
     \<and> answer_nonce sample_server nk None 8 ''ip'' ''r1'' sample_sig (rst s1) = (Some (Inr res), r') \<and> r_UUID res = ''r1''"
proof -
  have "\<exists>s1. challenge_nonce sample_server nk (Some ''n'') ''r1'' sample_store = (Inr (hex_EncodeToString ''n''), s1)"
    by (simp add: challenge_nonce_def sample_server_def sample_store_def GetRobotByUUID_def
        mem_postgres_def sample_record_def GenerateNonce_def del: hex_EncodeToString.simps)
  then obtain s1 where c: "challenge_nonce sample_server nk (Some ''n'') ''r1'' sample_store = (Inr (hex_EncodeToString ''n''), s1)"
    by blast
  have rs: "redis_steady (rds sample_server) map_of"
    using mem_redis.redis_steady_axioms by (simp add: sample_server_def)
  have g: "GetRobotByUUID (pg sample_server) ''r1'' (pst sample_store) = (Inr sample_record, pst sample_store)"
    by (simp add: sample_server_def sample_store_def GetRobotByUUID_def mem_postgres_def sample_record_def)
  have key: "CHR ''|'' \<notin> set (rr_PublicKey sample_record)"
    unfolding sample_record_def sample_key_def by (simp add: hex_no_bar del: hex_EncodeToString.simps replicate.simps)
  have v: "VerifyRobotSignature (crypto sample_server) (rr_PublicKey sample_record) (hex_EncodeToString ''n'') sample_sig = Inr ()"
    using sample_verify[of "''n''"] by (simp add: sample_server_def sample_record_def)
  obtain sid where i: "GenerateSessionID None 8 = Some sid"
    by (simp add: GenerateSessionID_def GenerateNonce_def)
  obtain jwt where j: "IssueSessionJWT (crypto sample_server) (Config.Auth (cfg sample_server)) (8 div second)
      ''r1'' (rr_DeviceType sample_record) ''ip'' sid = Inr jwt"
    by (simp add: IssueSessionJWT_def sample_server_def sample_auth_def)
  show ?thesis
    using nonce_roundtrip[OF rs c g key v i j] c by force
qed

section \<open>The contract\<close>

text \<open>
  Traffic: authentication requests of any robots, interleaved with anything else that
  happens to the state.
\<close>

datatype ('i, 's) traffic = Req 'i | Other "'s \<Rightarrow> 's"

fun grants :: "('i \<Rightarrow> 's \<Rightarrow> bool \<times> 's) \<Rightarrow> ('i \<Rightarrow> string) \<Rightarrow> string \<Rightarrow> ('i, 's) traffic list \<Rightarrow> 's \<Rightarrow> nat" where
  "grants step who u [] s = 0"
| "grants step who u (Other f # ts) s = grants step who u ts (f s)"
| "grants step who u (Req i # ts) s =
     (case step i s of (b, s') \<Rightarrow> (if b \<and> who i = u then 1 else 0) + grants step who u ts s')"

fun challenges :: "('i \<Rightarrow> bool) \<Rightarrow> ('i \<Rightarrow> string) \<Rightarrow> string \<Rightarrow> ('i, 's) traffic list \<Rightarrow> nat" where
  "challenges asks who u [] = 0"
| "challenges asks who u (Other f # ts) = challenges asks who u ts"
| "challenges asks who u (Req i # ts) = (if asks i \<and> who i = u then 1 else 0) + challenges asks who u ts"

text \<open>Other traffic does not make a nonce pending.\<close>

fun no_nonces :: "('s \<Rightarrow> string \<Rightarrow> bool) \<Rightarrow> ('i, 's) traffic \<Rightarrow> bool" where
  "no_nonces pending (Req i) = True"
| "no_nonces pending (Other f) = (\<forall>s u. pending (f s) u \<longrightarrow> pending s u)"

locale nonce_auth =
  fixes step :: "'i \<Rightarrow> 's \<Rightarrow> bool \<times> 's"
    and who :: "'i \<Rightarrow> string"
    and asks :: "'i \<Rightarrow> bool"
    and pending :: "'s \<Rightarrow> string \<Rightarrow> bool"
  assumes grant: "step i s = (True, s') \<Longrightarrow> \<not> asks i \<and> pending s (who i) \<and> \<not> pending s' (who i)"
    and keep: "step i s = (b, s') \<Longrightarrow> pending s' u \<Longrightarrow> pending s u \<or> asks i \<and> who i = u"
begin

lemma grants_bounded:
  "list_all (no_nonces pending) ts \<Longrightarrow>
   grants step who u ts s \<le> challenges asks who u ts + (if pending s u then 1 else 0)"
proof (induction ts arbitrary: s)
  case (Cons t ts)
  show ?case
  proof (cases t)
    case (Other f)
    then have "pending (f s) u \<Longrightarrow> pending s u" using Cons.prems by simp
    then show ?thesis
      using Other Cons.IH[of "f s"] Cons.prems by (auto split: if_splits)
  next
    case (Req i)
    obtain b s' where s: "step i s = (b, s')" by (cases "step i s")
    have IH: "grants step who u ts s' \<le> challenges asks who u ts + (if pending s' u then 1 else 0)"
      using Cons.IH Cons.prems by simp
    show ?thesis
      using Req s IH grant[of i s s'] keep[OF s, of u] by (cases "b \<and> who i = u") (auto split: if_splits)
  qed
qed simp

lemma no_replay:
  "step i s = (True, s') \<Longrightarrow> who j = who i \<Longrightarrow> step j s' = (b, s'') \<Longrightarrow> \<not> b"
  using grant by metis

end

end
