(* ===== verification/UDP_Server.thy ===== *)
theory UDP_Server
  imports TCP_Server Nonce_Auth
begin

text \<open>
  \<^verbatim>\<open>udp_server/udp_server.go\<close>: each datagram is handled by a goroutine of its own.
  The goroutine of the second authentication step may wait for a spawn; it is then a
  \<open>task\<close> that \<open>udp_resume\<close> continues.
\<close>

record UDPPacket =
  p_Type :: string
  p_UUID :: string
  p_Nonce :: string
  p_Signature :: string
  p_JWT :: string
  p_Payload :: string

record UDPResponse =
  u_Type :: string
  u_Status :: string
  u_Nonce :: string
  u_JWT :: string
  u_Error :: string

definition dec_UDPPacket :: "string \<Rightarrow> UDPPacket option" where
  "dec_UDPPacket s =
     (case json_members s of
        None \<Rightarrow> None
      | Some ms \<Rightarrow>
          (case (str_field ''type'' ms, str_field ''uuid'' ms, str_field ''nonce'' ms,
                 str_field ''signature'' ms, str_field ''jwt'' ms) of
             (Some t, Some u, Some n, Some g, Some j) \<Rightarrow>
               Some \<lparr>p_Type = t, p_UUID = u, p_Nonce = n, p_Signature = g, p_JWT = j,
                     p_Payload = raw_field ''payload'' s\<rparr>
           | _ \<Rightarrow> None))"

definition opt_str :: "string \<Rightarrow> string \<Rightarrow> (string \<times> json) list" where
  "opt_str k v = (if v = [] then [] else [(k, JStr v)])"

definition enc_UDPResponse :: "UDPResponse \<Rightarrow> string" where
  "enc_UDPResponse r = json_print (JObj
     ([(''type'', JStr (u_Type r)), (''status'', JStr (u_Status r))]
      @ opt_str ''nonce'' (u_Nonce r) @ opt_str ''jwt'' (u_JWT r) @ opt_str ''error'' (u_Error r)))"

definition resp :: "string \<Rightarrow> string \<Rightarrow> string \<Rightarrow> string \<Rightarrow> string \<Rightarrow> UDPResponse" where
  "resp ty status nonce jwt err =
     \<lparr>u_Type = ty, u_Status = status, u_Nonce = nonce, u_JWT = jwt, u_Error = err\<rparr>"

definition resp_error :: "string \<Rightarrow> string \<Rightarrow> UDPResponse" where
  "resp_error ty err = resp ty ''error'' [] [] err"

text \<open>What a goroutine ends with: nothing more to do, a spawn, or a wait with its deadline.\<close>

datatype task = UDone | USpawn HandshakeResult | UWait int HandshakeResult

datatype udp_out = Reply UDPResponse | UEvHb string HeartbeatResult

type_synonym ('r, 'p, 'c) udp_result = "udp_out list \<times> task \<times> ('r, 'p, 'c) world"

definition udpNonceKey :: "string \<Rightarrow> string" where
  "udpNonceKey uuid = ''udp:nonce:'' @ uuid"

definition auth_err :: "string \<Rightarrow> ('r, 'p, 'c) world \<Rightarrow> ('r, 'p, 'c) udp_result" where
  "auth_err msg w = ([Reply (resp_error ''auth_response'' msg)], UDone, w)"

text \<open>Step 1: no signature.\<close>

definition udp_challenge ::
  "('r, 'p) tcp_server \<Rightarrow> tenv \<Rightarrow> string \<Rightarrow> ('r, 'p, 'c) world \<Rightarrow> ('r, 'p, 'c) udp_result" where
  "udp_challenge T te uuid w =
     (case challenge_nonce (sv T) (udpNonceKey uuid) (rndNonce te) uuid (st w) of
        (Inl msg, s) \<Rightarrow> auth_err msg (set_store s w)
      | (Inr nonce, s) \<Rightarrow>
          ([Reply (resp ''auth_response'' ''nonce'' nonce [] [])], UDone, set_store s w))"

definition udp_ready :: "HandshakeResult \<Rightarrow> udp_out list" where
  "udp_ready res = [Reply (resp ''auth_response'' ''ok'' [] (r_SessionJWT res) [])]"

definition udp_attach ::
  "('r, 'p) tcp_server \<Rightarrow> tenv \<Rightarrow> 'c \<Rightarrow> HandshakeResult \<Rightarrow> ('r, 'p, 'c) world \<Rightarrow> ('r, 'p, 'c) udp_result" where
  "udp_attach T te cid res w =
     (case Get (r_UUID res) (en w) of
        Some a \<Rightarrow>
          (case on_proc a (Reattach cid (r_IP res) (r_SessionID res)) (en w) of
             None \<Rightarrow> ([], UDone, w)
           | Some e \<Rightarrow> (udp_ready res, UDone, w\<lparr>en := e\<rparr>))
      | None \<Rightarrow>
          (case TryStartSpawning (r_UUID res) (en w) of
             (True, e) \<Rightarrow> ([], USpawn res, w\<lparr>en := e\<rparr>)
           | (False, e) \<Rightarrow>
               ([], UWait (nano te + HandshakeTimeout (Timeouts (cfg (sv T)))) res, w\<lparr>en := e\<rparr>)))"

text \<open>Step 2: the signature is checked and a session issued; then a handler is found for it.\<close>

definition udp_verify ::
  "('r, 'p) tcp_server \<Rightarrow> tenv \<Rightarrow> 'c \<Rightarrow> string \<Rightarrow> string \<Rightarrow> string \<Rightarrow> ('r, 'p, 'c) world
   \<Rightarrow> ('r, 'p, 'c) udp_result" where
  "udp_verify T te cid ip uuid signature w =
     (case answer_nonce (sv T) (udpNonceKey uuid) (rndSession te) (nano te) ip uuid signature (rst (st w)) of
        (None, r) \<Rightarrow> ([], UDone, set_rst r w)
      | (Some (Inl msg), r) \<Rightarrow> auth_err msg (set_rst r w)
      | (Some (Inr res), r) \<Rightarrow> udp_attach T te cid res (set_rst r w))"

definition handleAuth ::
  "('r, 'p) tcp_server \<Rightarrow> tenv \<Rightarrow> 'c \<Rightarrow> string \<Rightarrow> UDPPacket \<Rightarrow> ('r, 'p, 'c) world \<Rightarrow> ('r, 'p, 'c) udp_result" where
  "handleAuth T te cid ip pkt w =
     (if \<not> has_db (db T) then auth_err ''no database'' w
      else if \<not> has_pg (db T) \<or> \<not> has_rds (db T) then auth_err ''database unavailable'' w
      else if p_UUID pkt = [] then auth_err ''uuid required'' w
      else if p_Signature pkt = [] then udp_challenge T te (p_UUID pkt) w
      else udp_verify T te cid ip (p_UUID pkt) (p_Signature pkt) w)"

definition hb_err :: "string \<Rightarrow> ('r, 'p, 'c) world \<Rightarrow> ('r, 'p, 'c) udp_result" where
  "hb_err msg w = ([Reply (resp_error ''heartbeat_response'' msg)], UDone, w)"

definition udp_handleHeartbeat ::
  "('r, 'p) tcp_server \<Rightarrow> tenv \<Rightarrow> string \<Rightarrow> UDPPacket \<Rightarrow> ('r, 'p, 'c) world \<Rightarrow> ('r, 'p, 'c) udp_result" where
  "udp_handleHeartbeat T te ip pkt w =
     (if \<not> has_db (db T) then hb_err ''no database'' w
      else if \<not> has_pg (db T) \<or> \<not> has_rds (db T) then hb_err ''database unavailable'' w
      else if p_UUID pkt = [] \<or> p_Signature pkt = [] \<or> p_Payload pkt = []
      then hb_err ''uuid, payload, and signature required'' w
      else
        (case ProcessHeartbeat (sv T) (nano te div second) (p_UUID pkt) (p_Payload pkt) (p_Signature pkt) ip (st w) of
           (Inl _, s) \<Rightarrow> hb_err ''heartbeat rejected'' (set_store s w)
         | (Inr result, s) \<Rightarrow>
             ([UEvHb (''robot.'' @ hr_UUID result @ ''.heartbeat'') result,
               Reply (resp ''heartbeat_response'' ''ok'' [] [] [])], UDone, set_store s w)))"

definition msg_err :: "string \<Rightarrow> ('r, 'p, 'c) world \<Rightarrow> ('r, 'p, 'c) udp_result" where
  "msg_err msg w = ([Reply (resp_error ''message_response'' msg)], UDone, w)"

definition handleMessage ::
  "('r, 'p) tcp_server \<Rightarrow> tenv \<Rightarrow> UDPPacket \<Rightarrow> ('r, 'p, 'c) world \<Rightarrow> ('r, 'p, 'c) udp_result" where
  "handleMessage T te pkt w =
     (if p_UUID pkt = [] \<or> p_JWT pkt = [] then msg_err ''uuid and jwt required'' w
      else
        (case ValidateSessionJWT (crypto (sv T)) (Config.Auth (cfg (sv T))) (nano te div second) (p_JWT pkt) of
           Inl _ \<Rightarrow> msg_err ''invalid or mismatched JWT'' w
         | Inr claims \<Rightarrow>
             if c_Sub claims \<noteq> p_UUID pkt then msg_err ''invalid or mismatched JWT'' w
             else
               (case Get (p_UUID pkt) (en w) of
                  None \<Rightarrow> msg_err ''no handler running'' w
                | Some a \<Rightarrow>
                    (case on_proc a (SendIncoming (p_Payload pkt)) (en w) of
                       None \<Rightarrow> ([], UDone, w)
                     | Some e \<Rightarrow> ([Reply (resp ''message_response'' ''ok'' [] [] [])], UDone, w\<lparr>en := e\<rparr>)))))"

definition handlePacket ::
  "('r, 'p) tcp_server \<Rightarrow> tenv \<Rightarrow> 'c \<Rightarrow> string \<Rightarrow> string \<Rightarrow> ('r, 'p, 'c) world \<Rightarrow> ('r, 'p, 'c) udp_result" where
  "handlePacket T te cid ip data w =
     (case dec_UDPPacket data of
        None \<Rightarrow> ([Reply (resp_error ''error'' ''invalid JSON'')], UDone, w)
      | Some pkt \<Rightarrow>
          if p_Type pkt = ''auth'' then handleAuth T te cid ip pkt w
          else if p_Type pkt = ''heartbeat'' then udp_handleHeartbeat T te ip pkt w
          else if p_Type pkt = ''message'' then handleMessage T te pkt w
          else ([Reply (resp_error ''error'' ''unknown packet type'')], UDone, w))"

section \<open>Waiting tasks\<close>

definition drop_session :: "('r, 'p) tcp_server \<Rightarrow> HandshakeResult \<Rightarrow> ('r, 'p, 'c) world \<Rightarrow> ('r, 'p, 'c) world" where
  "drop_session T res w = set_rst (snd (RemoveActiveRobot (rds (sv T)) (r_UUID res) (rst (st w)))) w"

definition udp_spawn ::
  "('r, 'p) tcp_server \<Rightarrow> tenv \<Rightarrow> 'c \<Rightarrow> HandshakeResult \<Rightarrow> ('r, 'p, 'c) world \<Rightarrow> ('r, 'p, 'c) udp_result" where
  "udp_spawn T te cid res w =
     (case SpawnHandlerProcess (sv T) (fs T) (osPid te) (fst (ids te)) (snd (ids te))
             (r_UUID res) (r_DeviceType res) (r_IP res) (r_SessionID res) (Some cid) (rst (st w), en w) of
        None \<Rightarrow> ([], UDone, w\<lparr>en := FinishSpawning (r_UUID res) (en w)\<rparr>)
      | Some (Inl _, r, e) \<Rightarrow>
          auth_err ''handler spawn failed''
            (drop_session T res (set_rst r (w\<lparr>en := FinishSpawning (r_UUID res) e\<rparr>)))
      | Some (Inr a, r, e) \<Rightarrow>
          (udp_ready res, UDone, set_rst r (w\<lparr>en := FinishSpawning (r_UUID res) e\<rparr>)))"

definition udp_wait ::
  "('r, 'p) tcp_server \<Rightarrow> tenv \<Rightarrow> 'c \<Rightarrow> int \<Rightarrow> HandshakeResult \<Rightarrow> ('r, 'p, 'c) world \<Rightarrow> ('r, 'p, 'c) udp_result" where
  "udp_wait T te cid waitDeadline res w =
     (if nano te < waitDeadline then
        (case Get (r_UUID res) (en w) of
           Some a \<Rightarrow>
             (case on_proc a (Reattach cid (r_IP res) (r_SessionID res)) (en w) of
                None \<Rightarrow> ([], UDone, w)
              | Some e \<Rightarrow> (udp_ready res, UDone, w\<lparr>en := e\<rparr>))
         | None \<Rightarrow> if shutdown te then ([], UDone, w) else ([], UWait waitDeadline res, w))
      else auth_err ''handler unavailable'' (drop_session T res w))"

fun udp_resume ::
  "('r, 'p) tcp_server \<Rightarrow> tenv \<Rightarrow> 'c \<Rightarrow> task \<Rightarrow> ('r, 'p, 'c) world \<Rightarrow> ('r, 'p, 'c) udp_result" where
  "udp_resume T te cid UDone w = ([], UDone, w)"
| "udp_resume T te cid (USpawn res) w = udp_spawn T te cid res w"
| "udp_resume T te cid (UWait d res) w = udp_wait T te cid d res w"

section \<open>The two-step authentication\<close>

text \<open>A session was granted: the robot is told so, or its handler is being spawned or awaited.\<close>

definition udp_granted :: "udp_out list \<Rightarrow> task \<Rightarrow> bool" where
  "udp_granted os t \<longleftrightarrow> t \<noteq> UDone \<or> (\<exists>r. os = [Reply r] \<and> u_Status r = ''ok'')"

record 'c udp_req =
  q_env :: tenv
  q_conn :: 'c
  q_ip :: string
  q_pkt :: UDPPacket

definition udp_step ::
  "('r, 'p) tcp_server \<Rightarrow> 'c udp_req \<Rightarrow> ('r, 'p, 'c) world \<Rightarrow> bool \<times> ('r, 'p, 'c) world" where
  "udp_step T q w =
     (case handleAuth T (q_env q) (q_conn q) (q_ip q) (q_pkt q) w of (os, t, w') \<Rightarrow> (udp_granted os t, w'))"

lemma auth_err_simps [simp]: "auth_err m w = (os, t, w') \<longleftrightarrow>
    os = [Reply (resp_error ''auth_response'' m)] \<and> t = UDone \<and> w' = w"
  by (auto simp: auth_err_def)

lemma not_granted_err [simp]: "\<not> udp_granted [Reply (resp_error ty m)] UDone" "\<not> udp_granted [] UDone"
  by (simp_all add: udp_granted_def resp_error_def resp_def)

lemma udp_attach_st: "udp_attach T te c res w = (os, t, w') \<Longrightarrow> st w' = st w"
  by (auto simp: udp_attach_def split: option.splits prod.splits bool.splits)

lemma nonce_key_neq: "udpNonceKey u \<noteq> robotKey v" "udpNonceKey u = udpNonceKey v \<longleftrightarrow> u = v"
  by (auto simp: udpNonceKey_def robotKey_def)

lemma udp_challenge_step:
  assumes "udp_challenge T te u w = (os, t, w')"
  shows "\<not> udp_granted os t"
    and "\<exists>x. challenge_nonce (sv T) (udpNonceKey u) (rndNonce te) u (st w) = (x, st w')"
  using assms
  by (auto simp: udp_challenge_def udp_granted_def resp_def resp_error_def set_store_def split: prod.splits sum.splits)

lemma udp_verify_step:
  assumes "udp_verify T te c ip u sig w = (os, t, w')"
  shows "\<exists>x. answer_nonce (sv T) (udpNonceKey u) (rndSession te) (nano te) ip u sig (rst (st w)) = (x, rst (st w'))
    \<and> (udp_granted os t \<longrightarrow> (\<exists>res. x = Some (Inr res)))"
proof (cases "answer_nonce (sv T) (udpNonceKey u) (rndSession te) (nano te) ip u sig (rst (st w))")
  case (Pair x r)
  show ?thesis
  proof (cases x)
    case None
    then show ?thesis using assms Pair by (auto simp: udp_verify_def set_rst_def)
  next
    case (Some y)
    then show ?thesis
      using assms Pair udp_attach_st[of T te c _ "set_rst r w" os t w']
      by (cases y) (auto simp: udp_verify_def set_rst_def)
  qed
qed

lemma udp_exchange:
  assumes "handleAuth T te c ip pkt w = (os, t, w')"
  shows "nonce_exchange (sv T) (udpNonceKey (p_UUID pkt)) (p_UUID pkt) (p_Signature pkt = [])
    (udp_granted os t) (st w) (st w')"
proof -
  consider m where "os = [Reply (resp_error ''auth_response'' m)]" "t = UDone" "w' = w"
    | "p_Signature pkt = []" "udp_challenge T te (p_UUID pkt) w = (os, t, w')"
    | "p_Signature pkt \<noteq> []" "udp_verify T te c ip (p_UUID pkt) (p_Signature pkt) w = (os, t, w')"
    using assms by (auto simp: handleAuth_def split: if_splits)
  then show ?thesis
  proof cases
    case 2
    then show ?thesis using udp_challenge_step[OF 2(2)] unfolding nonce_exchange_def by blast
  next
    case 3
    then show ?thesis using udp_verify_step[OF 3(2)] unfolding nonce_exchange_def by blast
  qed (simp add: nonce_exchange_def)
qed

locale udp_redis =
  redis_service "rds (sv T)" live for T :: "('r, 'p) tcp_server" and live

sublocale udp_redis \<subseteq> nonces: nonce_auth "udp_step T" "\<lambda>q. p_UUID (q_pkt q)" "\<lambda>q. p_Signature (q_pkt q) = []"
  "\<lambda>w u. live (rst (st w)) (udpNonceKey u) \<noteq> None"
proof unfold_locales
  fix i :: "'c udp_req" and s s' u b
  have x: "nonce_exchange (sv T) (udpNonceKey (p_UUID (q_pkt i))) (p_UUID (q_pkt i)) (p_Signature (q_pkt i) = [])
      b (st s) (st s')" if "udp_step T i s = (b, s')" for b
    using that udp_exchange by (fastforce simp: udp_step_def split: prod.splits)
  show "\<not> p_Signature (q_pkt i) = [] \<and> live (rst (st s)) (udpNonceKey (p_UUID (q_pkt i))) \<noteq> None
      \<and> \<not> live (rst (st s')) (udpNonceKey (p_UUID (q_pkt i))) \<noteq> None"
    if "udp_step T i s = (True, s')"
    using exchange_grant[OF redis_service_axioms x[OF that] nonce_key_neq(1)] by simp
  show "live (rst (st s)) (udpNonceKey u) \<noteq> None \<or> p_Signature (q_pkt i) = [] \<and> p_UUID (q_pkt i) = u"
    if "udp_step T i s = (b, s')" "live (rst (st s')) (udpNonceKey u) \<noteq> None"
    using exchange_keep[OF redis_service_axioms x[OF that(1)] nonce_key_neq(1) that(2)] by (auto simp: nonce_key_neq(2))
qed

context udp_redis
begin

lemmas udp_grants = nonces.grants_bounded

lemmas udp_no_replay = nonces.no_replay

end

interpretation sample_udp: udp_redis sample_tcp map_of
  using mem_redis.redis_service_axioms by (simp add: udp_redis_def sample_tcp_def sample_server_def)

section \<open>Properties\<close>

text \<open>C30: A nonce authenticates once.  In any traffic, with requests of any robots from any
  addresses and anything else that does not write UDP nonces in between, a robot is
  granted at most as many sessions over UDP as nonces were asked for in its name, plus the
  one that may be pending at the start; in particular no signed answer can be replayed.\<close>

theorem udp_nonce_once:
  fixes live :: "'r \<Rightarrow> string \<Rightarrow> (string \<times> int) option"
  assumes "redis_service (rds (sv T)) live"
    and "list_all (no_nonces (\<lambda>w u. live (rst (st w)) (udpNonceKey u) \<noteq> None)) ts"
  shows "grants (udp_step T) (\<lambda>q. p_UUID (q_pkt q)) u ts w
    \<le> challenges (\<lambda>q. p_Signature (q_pkt q) = []) (\<lambda>q. p_UUID (q_pkt q)) u ts
      + (if live (rst (st w)) (udpNonceKey u) \<noteq> None then 1 else 0)"
proof -
  have "udp_redis T live" using assms(1) by (simp add: udp_redis_def)
  from udp_redis.udp_grants[OF this assms(2)]
  show ?thesis .
qed

definition udp_auth_pkt :: "string \<Rightarrow> string \<Rightarrow> UDPPacket" where
  "udp_auth_pkt uuid sig = \<lparr>p_Type = ''auth'', p_UUID = uuid, p_Nonce = [], p_Signature = sig, p_JWT = [], p_Payload = []\<rparr>"

definition sample_udp_req :: "string \<Rightarrow> nat udp_req" where
  "sample_udp_req sig = \<lparr>q_env = sample_env 7, q_conn = 5, q_ip = ''ip'', q_pkt = udp_auth_pkt ''r1'' sig\<rparr>"

theorem udp_nonce_once_witness:
  "grants (udp_step sample_tcp) (\<lambda>q. p_UUID (q_pkt q)) ''r1''
     [Req (sample_udp_req []), Req (sample_udp_req sample_sig), Req (sample_udp_req sample_sig)] sample_world \<le> 1"
proof -
  let ?ts = "[Req (sample_udp_req []), Req (sample_udp_req sample_sig), Req (sample_udp_req sample_sig)]"
  have "list_all (no_nonces (\<lambda>w u. map_of (rst (st w)) (udpNonceKey u) \<noteq> None)) ?ts"
    by simp
  from udp_nonce_once[OF sample_udp.redis_service_axioms this, of "''r1''" sample_world]
  show ?thesis
    using trim_samples(4) by (simp add: sample_udp_req_def udp_auth_pkt_def sample_world_def sample_store_def)
qed

text \<open>A session over UDP is granted only for a signature of the pending nonce: Redis held an
  unexpired entry for the robot, the signature verifies its nonce under its public key,
  and the session stored in Redis is for the robot that asked, with the cached device type
  and a token issued for it.\<close>

theorem udp_grant_authentic:
  assumes "redis_service (rds (sv T)) live" and "handleAuth T te c ip pkt w = (os, t, w')" and "udp_granted os t"
  shows "\<exists>nonce key dt ttl jwt sid.
    live (rst (st w)) (udpNonceKey (p_UUID pkt)) = Some (authCache nonce key dt, ttl)
    \<and> VerifyRobotSignature (crypto (sv T)) key nonce (p_Signature pkt) = Inr ()
    \<and> IssueSessionJWT (crypto (sv T)) (Config.Auth (cfg (sv T))) (nano te div second) (p_UUID pkt) dt ip sid = Inr jwt
    \<and> (live (rst (st w')) (robotKey (p_UUID pkt)) \<noteq> None \<longrightarrow>
        live (rst (st w')) (robotKey (p_UUID pkt)) = Some (enc_ActiveRobot \<lparr>ar_UUID = p_UUID pkt, ar_IP = ip,
          ar_DeviceType = dt, ar_SessionJWT = jwt, ar_PID = 0, ar_ConnectedAt = nano te div second\<rparr>, TTL (Redis (cfg (sv T)))))"
proof -
  have v: "udp_verify T te c ip (p_UUID pkt) (p_Signature pkt) w = (os, t, w')"
    using assms(2,3) by (auto simp: handleAuth_def split: if_splits dest: udp_challenge_step(1))
  obtain res where "answer_nonce (sv T) (udpNonceKey (p_UUID pkt)) (rndSession te) (nano te) ip (p_UUID pkt)
      (p_Signature pkt) (rst (st w)) = (Some (Inr res), rst (st w'))"
    using udp_verify_step[OF v] assms(3) by blast
  from answer_nonce_proof[OF assms(1) this] show ?thesis
    unfolding nonce_proof_def .
qed

lemma sample_udp_verify:
  "\<exists>w1 os w'. udp_challenge sample_tcp (sample_env 7) ''r1'' sample_world
       = ([Reply (resp ''auth_response'' ''nonce'' (hex_EncodeToString ''n'') [] [])], UDone, w1)
     \<and> udp_verify sample_tcp (sample_env 8) (5 :: nat) ''ip'' ''r1'' sample_sig w1 = (os, UDone, w') \<and> udp_granted os UDone"
proof -
  obtain s1 res r' where c: "challenge_nonce sample_server (udpNonceKey ''r1'') (Some ''n'') ''r1'' sample_store
      = (Inr (hex_EncodeToString ''n''), s1)"
    and v: "answer_nonce sample_server (udpNonceKey ''r1'') None 8 ''ip'' ''r1'' sample_sig (rst s1) = (Some (Inr res), r')"
    and u: "r_UUID res = ''r1''"
    using sample_nonce by blast
  let ?w1 = "set_store s1 sample_world"
  have 1: "udp_challenge sample_tcp (sample_env 7) ''r1'' sample_world
      = ([Reply (resp ''auth_response'' ''nonce'' (hex_EncodeToString ''n'') [] [])], UDone, ?w1)"
    using c by (simp add: udp_challenge_def sample_tcp_def sample_env_def sample_world_def del: hex_EncodeToString.simps)
  obtain hp' where "Reattach 5 (r_IP res) (r_SessionID res) sample_proc = Some hp'"
    using Reattach_open[OF sample_world_proc(2)] by blast
  then have "\<exists>w'. udp_attach sample_tcp (sample_env 8) 5 res (set_rst r' ?w1) = (udp_ready res, UDone, w')"
    using u by (simp add: udp_attach_def Get_def sample_world_def on_proc_def)
  then have "\<exists>w'. udp_verify sample_tcp (sample_env 8) (5 :: nat) ''ip'' ''r1'' sample_sig ?w1 = (udp_ready res, UDone, w')"
    using v by (simp add: udp_verify_def sample_tcp_def sample_env_def set_store_def)
  moreover have "udp_granted (udp_ready res) UDone"
    by (simp add: udp_granted_def udp_ready_def resp_def)
  ultimately show ?thesis
    using 1 by blast
qed

theorem udp_grant_authentic_witness:
  "\<exists>w1 os w'. udp_challenge sample_tcp (sample_env 7) ''r1'' sample_world
       = ([Reply (resp ''auth_response'' ''nonce'' (hex_EncodeToString ''n'') [] [])], UDone, w1)
     \<and> handleAuth sample_tcp (sample_env 8) (5 :: nat) ''ip'' (udp_auth_pkt ''r1'' sample_sig) w1 = (os, UDone, w')
     \<and> map_of (rst (st w1)) (udpNonceKey ''r1'') \<noteq> None"
proof -
  obtain w1 os w' where c: "udp_challenge sample_tcp (sample_env 7) ''r1'' sample_world
       = ([Reply (resp ''auth_response'' ''nonce'' (hex_EncodeToString ''n'') [] [])], UDone, w1)"
    and v: "udp_verify sample_tcp (sample_env 8) (5 :: nat) ''ip'' ''r1'' sample_sig w1 = (os, UDone, w')"
    and gr: "udp_granted os UDone"
    using sample_udp_verify by blast
  have h: "handleAuth sample_tcp (sample_env 8) (5 :: nat) ''ip'' (udp_auth_pkt ''r1'' sample_sig) w1 = (os, UDone, w')"
    using v trim_samples(4) by (simp add: handleAuth_def udp_auth_pkt_def) (simp add: sample_tcp_def)
  show ?thesis
    using udp_grant_authentic[OF sample_udp.redis_service_axioms h gr] c h by (auto simp: udp_auth_pkt_def)
qed

text \<open>A message over UDP reaches a handler only with a valid session token of that robot: if
  handling it changes anything at all, the token carries the server's signature, has not
  expired and names the robot whose handler receives the payload, and only that handler
  is touched.\<close>

theorem udp_message_authorized:
  assumes "handleMessage T te pkt w = (os, t, w')" and "w' \<noteq> w"
  shows "\<exists>claims a. ValidateSessionJWT (crypto (sv T)) (Config.Auth (cfg (sv T))) (nano te div second) (p_JWT pkt) = Inr claims
    \<and> c_Sub claims = p_UUID pkt \<and> Get (p_UUID pkt) (en w) = Some a
    \<and> on_proc a (SendIncoming (p_Payload pkt)) (en w) = Some (en w') \<and> st w' = st w"
  using assms by (auto simp: handleMessage_def msg_err_def split: if_splits sum.splits option.splits)

definition udp_msg_pkt :: "string \<Rightarrow> UDPPacket" where
  "udp_msg_pkt jwt = \<lparr>p_Type = ''message'', p_UUID = ''r1'', p_Nonce = [], p_Signature = [], p_JWT = jwt, p_Payload = ''1''\<rparr>"

theorem udp_message_authorized_witness:
  "\<exists>jwt os t w' claims. handleMessage sample_tcp (sample_env 7) (udp_msg_pkt jwt) sample_world = (os, t, w')
     \<and> w' \<noteq> sample_world
     \<and> ValidateSessionJWT sample_crypto sample_auth 0 jwt = Inr claims \<and> c_Sub claims = ''r1''"
proof -
  let ?c = "\<lparr>c_Sub = ''r1'', c_Type = ''arm'', c_IP = ''ip'', c_Iat = 0, c_Exp = 10, c_SessionID = ''s''\<rparr>"
  let ?jwt = "sign_token sample_crypto (JWTSecret sample_auth) (enc_JWTClaims ?c)"
  have "ok_JWTClaims ?c"
    by (auto simp: ok_JWTClaims_def in64_def intro!: valid_utf8_ascii) (simp_all add: byte_in_def)
  then have "dec_JWTClaims (enc_JWTClaims ?c) = Some ?c"
    by (rule claims_codec.dec_enc)
  then have v: "ValidateSessionJWT sample_crypto sample_auth 0 ?jwt = Inr ?c"
    by (simp add: ValidateSessionJWT_def sample_auth_def check_token_sign)
  have "sign_token C k x \<noteq> []" for C k x
    by (simp add: sign_token_def Let_def)
  then have "\<exists>os t w'. handleMessage sample_tcp (sample_env 7) (udp_msg_pkt ?jwt) sample_world = (os, t, w') \<and> w' \<noteq> sample_world"
    using v by (simp add: handleMessage_def udp_msg_pkt_def sample_tcp_def sample_server_def sample_env_def second_def
        sample_world_def sample_proc_def new_process_def Get_def on_proc_def SendIncoming_def sendToScript_def
        try_send_def writeCh_cap_def)
  then obtain os t w' where h: "handleMessage sample_tcp (sample_env 7) (udp_msg_pkt ?jwt) sample_world = (os, t, w')"
    and ne: "w' \<noteq> sample_world" by blast
  obtain claims where "ValidateSessionJWT sample_crypto sample_auth 0 ?jwt = Inr claims" "c_Sub claims = ''r1''"
    using udp_message_authorized[OF h ne]
    by (auto simp: sample_tcp_def sample_server_def sample_env_def second_def udp_msg_pkt_def)
  then show ?thesis
    using h ne by blast
qed

end
