(* ===== verification/MQTT_Server.thy ===== *)
theory MQTT_Server
  imports UDP_Server
begin

text \<open>
  \<^verbatim>\<open>mqtt_server/\<close>: the access-control hook, the bridge to the event bus and the hook
  that runs the robots' protocol on the topics below \<^verbatim>\<open>robomesh/\<close>.  The broker itself
  is third-party code: it calls the hooks with a client's identifier and address, a topic
  and a payload, and what the hooks hand back to it are the publications \<open>MPub\<close>.
\<close>

section \<open>Access control\<close>

definition OnConnectAuthenticate :: "string \<Rightarrow> bool" where
  "OnConnectAuthenticate clientID = True"

definition OnACLCheck :: "string \<Rightarrow> string \<Rightarrow> bool \<Rightarrow> bool" where
  "OnACLCheck clientID topic write =
     (if write then True
      else if HasPrefix topic ''robomesh/auth/'' \<and> HasSuffix topic ''/response'' then
        TrimSuffix (TrimPrefix topic ''robomesh/auth/'') ''/response'' = clientID
      else if HasPrefix topic ''robomesh/heartbeat/'' \<and> HasSuffix topic ''/response'' then
        TrimSuffix (TrimPrefix topic ''robomesh/heartbeat/'') ''/response'' = clientID
      else if HasPrefix topic ''robomesh/to_robot/'' then
        TrimPrefix topic ''robomesh/to_robot/'' = clientID
      else True)"

section \<open>Publications\<close>

datatype mqtt_out = MPub string string | MEvStr string string | MEvHb string HeartbeatResult

text \<open>The bridge to the event bus.\<close>

definition bridge_OnPublished :: "string \<Rightarrow> string \<Rightarrow> mqtt_out list" where
  "bridge_OnPublished topic payload =
     (let prefix = ''robomesh/message/''
      in if length topic > length prefix \<and> take (length prefix) topic = prefix
         then [MEvStr (''mqtt.message.'' @ drop (length prefix) topic) payload]
         else [])"

text \<open>The subscription of \<^verbatim>\<open>setupOutboundBridge\<close> to \<^verbatim>\<open>mqtt.to_robot\<close>.\<close>

definition outbound :: "json \<Rightarrow> mqtt_out list" where
  "outbound data =
     (case data of
        JObj msg \<Rightarrow>
          (let uuid = (case map_of msg ''uuid'' of Some (JStr u) \<Rightarrow> u | _ \<Rightarrow> []);
               payload = (case map_of msg ''payload'' of Some v \<Rightarrow> v | None \<Rightarrow> JNull)
           in if uuid = [] then [] else [MPub (''robomesh/to_robot/'' @ uuid) (json_print payload)])
      | _ \<Rightarrow> [])"

datatype route = RAuth string | RHeartbeat string | RMessage string | RNone

definition one_level :: "string \<Rightarrow> bool" where
  "one_level uuid \<longleftrightarrow> uuid \<noteq> [] \<and> CHR ''/'' \<notin> set uuid"

definition route_topic :: "string \<Rightarrow> route" where
  "route_topic topic =
     (if HasPrefix topic ''robomesh/auth/'' then
        (let uuid = TrimSuffix (TrimPrefix topic ''robomesh/auth/'') ''/request''
         in if one_level uuid then RAuth uuid else RNone)
      else if HasPrefix topic ''robomesh/heartbeat/'' then
        (let uuid = TrimPrefix topic ''robomesh/heartbeat/''
         in if one_level uuid then RHeartbeat uuid else RNone)
      else if HasPrefix topic ''robomesh/message/'' then
        (let uuid = TrimPrefix topic ''robomesh/message/''
         in if one_level uuid then RMessage uuid else RNone)
      else RNone)"

section \<open>Authentication\<close>

definition dec_AuthRequest :: "string \<Rightarrow> string option" where
  "dec_AuthRequest payload =
     (case json_members payload of
        None \<Rightarrow> None
      | Some ms \<Rightarrow>
          (case (str_field ''uuid'' ms, str_field ''signature'' ms, str_field ''nonce'' ms) of
             (Some _, Some sig, Some _) \<Rightarrow> Some sig
           | _ \<Rightarrow> None))"

definition AuthResponse :: "string \<Rightarrow> string \<Rightarrow> string \<Rightarrow> string \<Rightarrow> string" where
  "AuthResponse status nonce jwt err = json_print (JObj
     ([(''status'', JStr status)] @ opt_str ''nonce'' nonce @ opt_str ''jwt'' jwt @ opt_str ''error'' err))"

definition auth_topic :: "string \<Rightarrow> string" where
  "auth_topic uuid = ''robomesh/auth/'' @ uuid @ ''/response''"

definition mqttNonceKey :: "string \<Rightarrow> string" where
  "mqttNonceKey uuid = ''mqtt:nonce:'' @ uuid"

text \<open>A spawn is a task of its own, so that other goroutines may run before it.\<close>

datatype mqtt_task = MDone | MSpawn HandshakeResult

type_synonym ('r, 'p, 'c) mqtt_result = "mqtt_out list \<times> mqtt_task \<times> ('r, 'p, 'c) world"

definition mqtt_err :: "string \<Rightarrow> string \<Rightarrow> ('r, 'p, 'c) world \<Rightarrow> ('r, 'p, 'c) mqtt_result" where
  "mqtt_err uuid msg w = ([MPub (auth_topic uuid) (AuthResponse ''error'' [] [] msg)], MDone, w)"

definition mqtt_ready :: "HandshakeResult \<Rightarrow> mqtt_out list" where
  "mqtt_ready res = [MPub (auth_topic (r_UUID res)) (AuthResponse ''ok'' [] (r_SessionJWT res) [])]"

text \<open>
  A running handler is reattached.  When another connection is spawning it, this one neither
  waits nor fails: the robot is told that it is authenticated.
\<close>

definition mqtt_attach :: "'c \<Rightarrow> HandshakeResult \<Rightarrow> ('r, 'p, 'c) world \<Rightarrow> ('r, 'p, 'c) mqtt_result" where
  "mqtt_attach cid res w =
     (case Get (r_UUID res) (en w) of
        Some a \<Rightarrow>
          (case on_proc a (Reattach cid (r_IP res) (r_SessionID res)) (en w) of
             None \<Rightarrow> ([], MDone, w)
           | Some e \<Rightarrow> (mqtt_ready res, MDone, w\<lparr>en := e\<rparr>))
      | None \<Rightarrow>
          (case TryStartSpawning (r_UUID res) (en w) of
             (True, e) \<Rightarrow> ([], MSpawn res, w\<lparr>en := e\<rparr>)
           | (False, e) \<Rightarrow> (mqtt_ready res, MDone, w\<lparr>en := e\<rparr>)))"

definition mqtt_handleAuth ::
  "('r, 'p) tcp_server \<Rightarrow> tenv \<Rightarrow> 'c \<Rightarrow> string \<Rightarrow> string \<Rightarrow> string \<Rightarrow> ('r, 'p, 'c) world
   \<Rightarrow> ('r, 'p, 'c) mqtt_result" where
  "mqtt_handleAuth T te cid ip uuid payload w =
     (if \<not> has_db (db T) then mqtt_err uuid ''no database'' w
      else if \<not> has_pg (db T) \<or> \<not> has_rds (db T) then mqtt_err uuid ''database unavailable'' w
      else
        (case dec_AuthRequest payload of
           None \<Rightarrow> mqtt_err uuid ''invalid JSON'' w
         | Some sig \<Rightarrow>
             if sig = [] then
               (case challenge_nonce (sv T) (mqttNonceKey uuid) (rndNonce te) uuid (st w) of
                  (Inl msg, s) \<Rightarrow> mqtt_err uuid msg (set_store s w)
                | (Inr nonce, s) \<Rightarrow>
                    ([MPub (auth_topic uuid) (AuthResponse ''nonce'' nonce [] [])], MDone, set_store s w))
             else
               (case answer_nonce (sv T) (mqttNonceKey uuid) (rndSession te) (nano te) ip uuid sig (rst (st w)) of
                  (None, r) \<Rightarrow> ([], MDone, set_rst r w)
                | (Some (Inl msg), r) \<Rightarrow> mqtt_err uuid msg (set_rst r w)
                | (Some (Inr res), r) \<Rightarrow> mqtt_attach cid res (set_rst r w))))"

text \<open>
  The spawn.  The mark is not released if it panics, and a failed spawn is only logged: the
  session stays in Redis and the robot is told that it is authenticated.
\<close>

definition mqtt_spawn ::
  "('r, 'p) tcp_server \<Rightarrow> tenv \<Rightarrow> 'c \<Rightarrow> HandshakeResult \<Rightarrow> ('r, 'p, 'c) world \<Rightarrow> ('r, 'p, 'c) mqtt_result" where
  "mqtt_spawn T te cid res w =
     (case SpawnHandlerProcess (sv T) (fs T) (osPid te) (fst (ids te)) (snd (ids te))
             (r_UUID res) (r_DeviceType res) (r_IP res) (r_SessionID res) (Some cid) (rst (st w), en w) of
        None \<Rightarrow> ([], MDone, w)
      | Some (_, r, e) \<Rightarrow>
          (mqtt_ready res, MDone, set_rst r (w\<lparr>en := FinishSpawning (r_UUID res) e\<rparr>)))"

section \<open>Heartbeats and messages\<close>

definition dec_HeartbeatRequest :: "string \<Rightarrow> (string \<times> string) option" where
  "dec_HeartbeatRequest payload =
     (case json_members payload of
        None \<Rightarrow> None
      | Some ms \<Rightarrow>
          (case (str_field ''payload'' ms, str_field ''signature'' ms) of
             (Some p, Some g) \<Rightarrow> Some (p, g)
           | _ \<Rightarrow> None))"

definition heartbeat_topic :: "string \<Rightarrow> string" where
  "heartbeat_topic uuid = ''robomesh/heartbeat/'' @ uuid @ ''/response''"

definition mqtt_handleHeartbeat ::
  "('r, 'p) tcp_server \<Rightarrow> tenv \<Rightarrow> string \<Rightarrow> string \<Rightarrow> string \<Rightarrow> ('r, 'p, 'c) world
   \<Rightarrow> mqtt_out list \<times> ('r, 'p, 'c) world" where
  "mqtt_handleHeartbeat T te ip uuid payload w =
     (if \<not> has_db (db T) \<or> \<not> has_pg (db T) \<or> \<not> has_rds (db T) then ([], w)
      else
        (case dec_HeartbeatRequest payload of
           None \<Rightarrow> ([], w)
         | Some (p, sig) \<Rightarrow>
             (case ProcessHeartbeat (sv T) (nano te div second) uuid p sig ip (st w) of
                (Inl _, s) \<Rightarrow>
                  ([MPub (heartbeat_topic uuid) (json_print (JObj
                      [(''error'', JStr ''heartbeat rejected''), (''status'', JStr ''error'')]))], set_store s w)
              | (Inr result, s) \<Rightarrow>
                  ([MEvHb (''robot.'' @ hr_UUID result @ ''.heartbeat'') result,
                    MPub (heartbeat_topic uuid) (json_print (JObj [(''status'', JStr ''ok'')]))], set_store s w))))"

definition mqtt_handleMessage ::
  "('r, 'p) tcp_server \<Rightarrow> string \<Rightarrow> string \<Rightarrow> ('r, 'p, 'c) world \<Rightarrow> ('r, 'p, 'c) world" where
  "mqtt_handleMessage T uuid payload w =
     (if \<not> has_db (db T) \<or> \<not> has_rds (db T) then w
      else
        (case GetActiveRobot (rds (sv T)) uuid (rst (st w)) of
           (Inl _, r) \<Rightarrow> set_rst r w
         | (Inr _, r) \<Rightarrow>
             (case Get uuid (en w) of
                None \<Rightarrow> set_rst r w
              | Some a \<Rightarrow>
                  (case on_proc a (SendIncoming payload) (en w) of
                     None \<Rightarrow> set_rst r w
                   | Some e \<Rightarrow> set_rst r (w\<lparr>en := e\<rparr>)))))"

definition mqtt_OnPublished ::
  "('r, 'p) tcp_server \<Rightarrow> tenv \<Rightarrow> 'c \<Rightarrow> string \<Rightarrow> string \<Rightarrow> string \<Rightarrow> ('r, 'p, 'c) world
   \<Rightarrow> ('r, 'p, 'c) mqtt_result" where
  "mqtt_OnPublished T te cid ip topic payload w =
     (case route_topic topic of
        RAuth uuid \<Rightarrow> mqtt_handleAuth T te cid ip uuid payload w
      | RHeartbeat uuid \<Rightarrow>
          (case mqtt_handleHeartbeat T te ip uuid payload w of (os, w') \<Rightarrow> (os, MDone, w'))
      | RMessage uuid \<Rightarrow> ([], MDone, mqtt_handleMessage T uuid payload w)
      | RNone \<Rightarrow> ([], MDone, w))"

section \<open>The two-step authentication\<close>

lemma AuthResponse_ok:
  "AuthResponse ''error'' n j e \<noteq> AuthResponse ''ok'' n' j' e'"
  "AuthResponse ''nonce'' n j e \<noteq> AuthResponse ''ok'' n' j' e'"
proof -
  have 1: "take 12 (AuthResponse ''ok'' n j e) = ''{'' @ print_str ''status'' @ '':'' @ [QUOTE, CHR ''o'']" for n j e
    by (simp add: AuthResponse_def print_str_def json_escape.simps byte_in_def rune2_def esc_ascii_def)
  show "AuthResponse ''error'' n j e \<noteq> AuthResponse ''ok'' n' j' e'"
    using 1 [of n' j' e'] by (auto simp: AuthResponse_def print_str_def json_escape.simps byte_in_def rune2_def esc_ascii_def)
  show "AuthResponse ''nonce'' n j e \<noteq> AuthResponse ''ok'' n' j' e'"
    using 1 [of n' j' e'] by (auto simp: AuthResponse_def print_str_def json_escape.simps byte_in_def rune2_def esc_ascii_def)
qed

text \<open>A session was granted: the robot is told so, or its handler is being spawned.\<close>

definition mqtt_granted :: "mqtt_out list \<Rightarrow> mqtt_task \<Rightarrow> bool" where
  "mqtt_granted os t \<longleftrightarrow> t \<noteq> MDone \<or> (\<exists>u jwt. os = [MPub (auth_topic u) (AuthResponse ''ok'' [] jwt [])])"

record 'c mqtt_req =
  m_env :: tenv
  m_conn :: 'c
  m_ip :: string
  m_uuid :: string
  m_payload :: string

definition mqtt_step ::
  "('r, 'p) tcp_server \<Rightarrow> 'c mqtt_req \<Rightarrow> ('r, 'p, 'c) world \<Rightarrow> bool \<times> ('r, 'p, 'c) world" where
  "mqtt_step T q w =
     (case mqtt_handleAuth T (m_env q) (m_conn q) (m_ip q) (m_uuid q) (m_payload q) w of
        (os, t, w') \<Rightarrow> (mqtt_granted os t, w'))"

lemma mqtt_err_simps [simp]: "mqtt_err u m w = (os, t, w') \<longleftrightarrow>
    os = [MPub (auth_topic u) (AuthResponse ''error'' [] [] m)] \<and> t = MDone \<and> w' = w"
  by (auto simp: mqtt_err_def)

lemma mqtt_not_granted [simp]:
  "\<not> mqtt_granted [MPub tp (AuthResponse ''error'' n j e)] MDone"
  "\<not> mqtt_granted [MPub tp (AuthResponse ''nonce'' n j e)] MDone" "\<not> mqtt_granted [] MDone"
  using AuthResponse_ok by (auto simp: mqtt_granted_def)

lemma mqtt_attach_st: "mqtt_attach c res w = (os, t, w') \<Longrightarrow> st w' = st w"
  by (auto simp: mqtt_attach_def split: option.splits prod.splits bool.splits)

lemma mqtt_key_neq: "mqttNonceKey u \<noteq> robotKey v" "mqttNonceKey u = mqttNonceKey v \<longleftrightarrow> u = v"
  by (auto simp: mqttNonceKey_def robotKey_def)

lemma mqtt_answer:
  assumes "mqtt_handleAuth T te c ip u payload w = (os, t, w')" and "dec_AuthRequest payload = Some sig" and "sig \<noteq> []"
    and "has_db (db T)" and "has_pg (db T)" and "has_rds (db T)"
  shows "\<exists>x. answer_nonce (sv T) (mqttNonceKey u) (rndSession te) (nano te) ip u sig (rst (st w)) = (x, rst (st w'))
    \<and> (mqtt_granted os t \<longrightarrow> (\<exists>res. x = Some (Inr res)))"
proof (cases "answer_nonce (sv T) (mqttNonceKey u) (rndSession te) (nano te) ip u sig (rst (st w))")
  case (Pair x r)
  show ?thesis
  proof (cases x)
    case None
    then show ?thesis using assms Pair by (auto simp: mqtt_handleAuth_def set_rst_def)
  next
    case (Some y)
    then show ?thesis
      using assms Pair mqtt_attach_st[of c _ "set_rst r w" os t w']
      by (cases y) (auto simp: mqtt_handleAuth_def set_rst_def)
  qed
qed

lemma mqtt_asked:
  assumes "mqtt_handleAuth T te c ip u payload w = (os, t, w')" and "dec_AuthRequest payload = Some []"
    and "has_db (db T)" and "has_pg (db T)" and "has_rds (db T)"
  shows "\<not> mqtt_granted os t"
    and "\<exists>x. challenge_nonce (sv T) (mqttNonceKey u) (rndNonce te) u (st w) = (x, st w')"
  using assms by (auto simp: mqtt_handleAuth_def set_store_def split: prod.splits sum.splits)

lemma mqtt_exchange:
  assumes "mqtt_handleAuth T te c ip u payload w = (os, t, w')"
  shows "nonce_exchange (sv T) (mqttNonceKey u) u (dec_AuthRequest payload = Some []) (mqtt_granted os t) (st w) (st w')"
proof -
  let ?up = "has_db (db T) \<and> has_pg (db T) \<and> has_rds (db T)"
  consider m where "os = [MPub (auth_topic u) (AuthResponse ''error'' [] [] m)]" "t = MDone" "w' = w"
    | "?up" "dec_AuthRequest payload = Some []" | sig where "?up" "dec_AuthRequest payload = Some sig" "sig \<noteq> []"
    using assms by (cases "dec_AuthRequest payload") (auto simp: mqtt_handleAuth_def split: if_splits)
  then show ?thesis
  proof cases
    case 2
    then show ?thesis using mqtt_asked[OF assms 2(2)] unfolding nonce_exchange_def by blast
  next
    case 3
    then have "dec_AuthRequest payload \<noteq> Some []" by simp
    then show ?thesis using mqtt_answer[OF assms 3(2,3)] 3(1) unfolding nonce_exchange_def by blast
  qed (simp add: nonce_exchange_def)
qed

locale mqtt_redis =
  redis_service "rds (sv T)" live for T :: "('r, 'p) tcp_server" and live

sublocale mqtt_redis \<subseteq> nonces: nonce_auth "mqtt_step T" m_uuid "\<lambda>q. dec_AuthRequest (m_payload q) = Some []"
  "\<lambda>w u. live (rst (st w)) (mqttNonceKey u) \<noteq> None"
proof unfold_locales
  fix i :: "'c mqtt_req" and s s' u b
  have x: "nonce_exchange (sv T) (mqttNonceKey (m_uuid i)) (m_uuid i) (dec_AuthRequest (m_payload i) = Some [])
      b (st s) (st s')" if "mqtt_step T i s = (b, s')" for b
    using that mqtt_exchange by (fastforce simp: mqtt_step_def split: prod.splits)
  show "\<not> dec_AuthRequest (m_payload i) = Some [] \<and> live (rst (st s)) (mqttNonceKey (m_uuid i)) \<noteq> None
      \<and> \<not> live (rst (st s')) (mqttNonceKey (m_uuid i)) \<noteq> None"
    if "mqtt_step T i s = (True, s')"
    using exchange_grant[OF redis_service_axioms x[OF that] mqtt_key_neq(1)] by simp
  show "live (rst (st s)) (mqttNonceKey u) \<noteq> None \<or> dec_AuthRequest (m_payload i) = Some [] \<and> m_uuid i = u"
    if "mqtt_step T i s = (b, s')" "live (rst (st s')) (mqttNonceKey u) \<noteq> None"
    using exchange_keep[OF redis_service_axioms x[OF that(1)] mqtt_key_neq(1) that(2)] by (auto simp: mqtt_key_neq(2))
qed

context mqtt_redis
begin

lemmas mqtt_grants = nonces.grants_bounded

end

interpretation sample_mqtt: mqtt_redis sample_tcp map_of
  using mem_redis.redis_service_axioms by (simp add: mqtt_redis_def sample_tcp_def sample_server_def)

section \<open>Properties\<close>

text \<open>A nonce authenticates once over MQTT.  In any traffic, with requests published by any
  clients and anything else that does not write MQTT nonces in between, a robot is granted
  at most as many sessions as nonces were asked for in its name, plus the one that may be
  pending at the start.\<close>

theorem mqtt_nonce_once:
  fixes live :: "'r \<Rightarrow> string \<Rightarrow> (string \<times> int) option"
  assumes "redis_service (rds (sv T)) live"
    and "list_all (no_nonces (\<lambda>w u. live (rst (st w)) (mqttNonceKey u) \<noteq> None)) ts"
  shows "grants (mqtt_step T) m_uuid u ts w
    \<le> challenges (\<lambda>q. dec_AuthRequest (m_payload q) = Some []) m_uuid u ts
      + (if live (rst (st w)) (mqttNonceKey u) \<noteq> None then 1 else 0)"
proof -
  have "mqtt_redis T live" using assms(1) by (simp add: mqtt_redis_def)
  from mqtt_redis.mqtt_grants[OF this assms(2)]
  show ?thesis .
qed

definition auth_payload :: "string \<Rightarrow> string" where
  "auth_payload sig = json_print (JObj [(''signature'', JStr sig)])"

lemma dec_auth_payload: "valid_utf8 sig \<Longrightarrow> dec_AuthRequest (auth_payload sig) = Some sig"
proof -
  assume u: "valid_utf8 sig"
  have "valid_utf8 ''signature''" by (rule valid_utf8_ascii) (simp add: byte_in_def)
  then show ?thesis
    using u by (simp add: dec_AuthRequest_def auth_payload_def json_members_print field_defs del: json_print.simps)
qed

definition sample_mqtt_req :: "string \<Rightarrow> nat mqtt_req" where
  "sample_mqtt_req sig = \<lparr>m_env = sample_env 7, m_conn = 5, m_ip = ''ip'', m_uuid = ''r1'', m_payload = auth_payload sig\<rparr>"

theorem mqtt_nonce_once_witness:
  "grants (mqtt_step sample_tcp) m_uuid ''r1''
     [Req (sample_mqtt_req []), Req (sample_mqtt_req sample_sig), Req (sample_mqtt_req sample_sig)] sample_world \<le> 1"
proof -
  let ?ts = "[Req (sample_mqtt_req []), Req (sample_mqtt_req sample_sig), Req (sample_mqtt_req sample_sig)]"
  have "list_all (no_nonces (\<lambda>w u. map_of (rst (st w)) (mqttNonceKey u) \<noteq> None)) ?ts"
    by simp
  from mqtt_nonce_once[OF sample_udp.redis_service_axioms this, of "''r1''" sample_world]
  show ?thesis
    using trim_samples(4) hex_utf8[of "replicate 64 (CHR 0x00)", folded sample_sig_def]
    by (simp add: sample_mqtt_req_def sample_world_def sample_store_def dec_auth_payload)
qed

text \<open>The private topics of a robot.  A client may subscribe to the authentication answers,
  the heartbeat answers and the handler's messages of a robot exactly if it connected under
  that robot's identifier.  The check compares whole filters, so a filter with a wildcard
  above those topics passes for every client, and writing is never restricted.\<close>

theorem acl_private_topics:
  "(OnACLCheck c (auth_topic u) False \<longleftrightarrow> u = c)
   \<and> (OnACLCheck c (heartbeat_topic u) False \<longleftrightarrow> u = c)
   \<and> (OnACLCheck c (''robomesh/to_robot/'' @ u) False \<longleftrightarrow> u = c)
   \<and> OnACLCheck c ''robomesh/#'' False \<and> OnACLCheck c ''robomesh/auth/+/#'' False \<and> OnACLCheck c tp True"
proof -
  have t: "TrimSuffix (TrimPrefix (p @ u @ q) p) q = u" "HasSuffix (p @ u @ q) q" for p q :: string
    using TrimSuffix_append HasSuffix_append[of "p @ u" q] by simp_all
  show ?thesis
    unfolding OnACLCheck_def auth_topic_def heartbeat_topic_def t HasPrefix_append TrimPrefix_append
    by (simp add: HasPrefix_def HasSuffix_def)
qed

lemma own_topics:
  "route_topic (auth_topic u) = RNone" "route_topic (heartbeat_topic u) = RNone"
  "route_topic (''robomesh/to_robot/'' @ u) = RNone"
  "bridge_OnPublished (auth_topic u) p = []" "bridge_OnPublished (heartbeat_topic u) p = []"
  "bridge_OnPublished (''robomesh/to_robot/'' @ u) p = []"
proof -
  have t: "TrimSuffix (u @ ''/response'') ''/request'' = u @ ''/response''"
    by (simp add: TrimSuffix_def TrimPrefix_def HasPrefix_def)
  have p: "TrimPrefix (''robomesh/auth/'' @ s) ''robomesh/auth/'' = s"
    "TrimPrefix (''robomesh/heartbeat/'' @ s) ''robomesh/heartbeat/'' = s"
    "HasPrefix (''robomesh/auth/'' @ s) ''robomesh/auth/''" for s
    by (rule TrimPrefix_append HasPrefix_append)+
  show "route_topic (auth_topic u) = RNone"
    unfolding route_topic_def auth_topic_def p t Let_def by (simp add: one_level_def HasPrefix_def)
  show "route_topic (heartbeat_topic u) = RNone"
    unfolding route_topic_def heartbeat_topic_def p Let_def by (simp add: one_level_def HasPrefix_def)
  show "route_topic (''robomesh/to_robot/'' @ u) = RNone"
    by (simp add: route_topic_def HasPrefix_def)
  show "bridge_OnPublished (auth_topic u) p = []" "bridge_OnPublished (heartbeat_topic u) p = []"
    "bridge_OnPublished (''robomesh/to_robot/'' @ u) p = []"
    by (simp_all add: bridge_OnPublished_def auth_topic_def heartbeat_topic_def)
qed

definition own_topic :: "mqtt_out \<Rightarrow> bool" where
  "own_topic x \<longleftrightarrow> (case x of
     MPub tp p \<Rightarrow> (\<exists>u. tp = auth_topic u \<or> tp = heartbeat_topic u \<or> tp = ''robomesh/to_robot/'' @ u)
   | _ \<Rightarrow> True)"

lemma own_topic_simps [simp]:
  "own_topic (MPub (auth_topic u) p)" "own_topic (MPub (heartbeat_topic u) p)"
  "own_topic (MPub (''robomesh/to_robot/'' @ u) p)" "own_topic (MEvStr e v)" "own_topic (MEvHb e r)"
  by (auto simp: own_topic_def)

lemma mqtt_attach_own: "mqtt_attach c res w = (os, t, w') \<Longrightarrow> x \<in> set os \<Longrightarrow> own_topic x"
  by (auto simp: mqtt_attach_def mqtt_ready_def split: option.splits prod.splits bool.splits)

lemma mqtt_handleAuth_own:
  assumes "mqtt_handleAuth T te c ip u payload w = (os, t, w')" and "x \<in> set os"
  shows "own_topic x"
  using assms mqtt_attach_own[of c _ _ os t w' x]
  by (auto simp: mqtt_handleAuth_def split: if_splits option.splits prod.splits sum.splits)

lemma mqtt_heartbeat_own:
  assumes "mqtt_handleHeartbeat T te ip u payload w = (os, w')" and "x \<in> set os"
  shows "own_topic x"
  using assms by (auto simp: mqtt_handleHeartbeat_def split: if_splits option.splits prod.splits sum.splits
      simp del: json_print.simps)

lemma mqtt_published_own:
  "mqtt_OnPublished T te c ip tp payload w = (os, t, w') \<Longrightarrow> x \<in> set os \<Longrightarrow> own_topic x"
  "mqtt_spawn T te c res w = (os, t, w') \<Longrightarrow> x \<in> set os \<Longrightarrow> own_topic x"
  "x \<in> set (outbound d) \<Longrightarrow> own_topic x"
proof -
  show "mqtt_OnPublished T te c ip tp payload w = (os, t, w') \<Longrightarrow> x \<in> set os \<Longrightarrow> own_topic x"
    by (auto simp: mqtt_OnPublished_def split: route.splits prod.splits
        dest: mqtt_handleAuth_own mqtt_heartbeat_own)
  show "mqtt_spawn T te c res w = (os, t, w') \<Longrightarrow> x \<in> set os \<Longrightarrow> own_topic x"
    by (auto simp: mqtt_spawn_def mqtt_ready_def split: option.splits prod.splits)
  show "x \<in> set (outbound d) \<Longrightarrow> own_topic x"
    by (auto simp: outbound_def Let_def split: json.splits if_splits
        simp del: append_Cons)
qed

text \<open>The server does not react to its own publications.  What it publishes for a robot, as
  an answer, after a spawn or from the event bus, lies on topics that its own hook and the
  bridge ignore, whatever identifier the publisher chose: handling a message never feeds
  back.\<close>

theorem mqtt_no_feedback:
  assumes "mqtt_OnPublished T te c ip tp payload w = (os, t, w') \<or> mqtt_spawn T te c res w = (os, t, w') \<or> os = outbound d"
    and "MPub tp' p' \<in> set os"
  shows "mqtt_OnPublished T te' c' ip' tp' p' w'' = ([], MDone, w'') \<and> bridge_OnPublished tp' p' = []"
proof -
  have "own_topic (MPub tp' p')"
    using assms mqtt_published_own by metis
  then show ?thesis
    using own_topics by (auto simp: own_topic_def mqtt_OnPublished_def)
qed

theorem mqtt_no_feedback_witness:
  "outbound (JObj [(''uuid'', JStr ''r1''), (''payload'', JNull)]) = [MPub ''robomesh/to_robot/r1'' ''null'']
   \<and> mqtt_OnPublished sample_tcp (sample_env 7) (5 :: nat) ''ip'' ''robomesh/to_robot/r1'' ''null'' sample_world
     = ([], MDone, sample_world)"
proof -
  have o: "outbound (JObj [(''uuid'', JStr ''r1''), (''payload'', JNull)]) = [MPub ''robomesh/to_robot/r1'' ''null'']"
    by (simp add: outbound_def)
  have "MPub ''robomesh/to_robot/r1'' ''null'' \<in> set (outbound (JObj [(''uuid'', JStr ''r1''), (''payload'', JNull)]))"
    unfolding o by simp
  from mqtt_no_feedback[where T = sample_tcp and w'' = sample_world and c' = 5, OF disjI2[OF disjI2[OF refl]] this]
  show ?thesis using o by simp
qed

end
