(* ===== verification/HTTP_Auth.thy ===== *)
theory HTTP_Auth
  imports TCP_Server
begin

text \<open>
  \<^verbatim>\<open>http_server/auth.go\<close>, \<^verbatim>\<open>util.go\<close> and the middleware of
  \<^verbatim>\<open>http_server.go\<close>: the login rate limiter, login and logout, sessions, tickets and
  password changes.  \<^verbatim>\<open>net/http\<close> and the router hand a request over as the record
  \<open>http_req\<close>: the header and cookie values a handler asks for, its URL parameter and query
  values, and the body.  bcrypt is third-party code and a parameter.
\<close>

section \<open>Requests and responses\<close>

record http_req =
  h_env :: tenv
  h_later :: int
  h_salt :: bytes
  h_method :: string
  h_origin :: string
  h_remote :: string
  h_auth :: string
  h_cookie :: "string option"
  h_ticket :: string
  h_param :: string
  h_body :: string

text \<open>
  \<open>h_later\<close> is the time when a failed login is recorded.  A body is text, a value that the
  JSON encoder writes, or the map of a new ephemeral session, whose lifetime the encoder
  prints in seconds.
\<close>

datatype http_body = NoBody | Text string | Json json | NewSession string string string int

text \<open>
  A handler that panics ends the connection without an answer.  Besides the answer a handler
  may publish an event.
\<close>

datatype response = HError nat string | HReply nat http_body | HPanic

fun status_of :: "response \<Rightarrow> nat" where
  "status_of (HError n msg) = n"
| "status_of (HReply n b) = n"
| "status_of HPanic = 0"

datatype http_ev = HEvHb string HeartbeatResult

type_synonym ('r, 'p, 'c) http_result = "http_ev list \<times> response \<times> ('r, 'p, 'c) world"

record bcrypt =
  CompareHashAndPassword :: "string \<Rightarrow> string \<Rightarrow> bool"
  GenerateFromPassword :: "bytes \<Rightarrow> string \<Rightarrow> string res"

definition sendResponseAsJSON :: "json \<Rightarrow> nat \<Rightarrow> response" where
  "sendResponseAsJSON data n = HReply n (Json data)"

definition sendJSONResponse :: "string \<Rightarrow> nat \<Rightarrow> response" where
  "sendJSONResponse data_json n =
     (if json_parse data_json = None then HError 500 ''Invalid JSON response data''
      else HReply n (Text data_json))"

definition maxRequestBodySize :: nat where "maxRequestBodySize = 2 ^ 20"

text \<open>
  A decoder reads the first value of the body and ignores what follows.  Of a body beyond
  the limit it sees the first bytes and then an error, which it notices only if the value is
  not complete by then: an object is complete at its closing brace, \<^verbatim>\<open>null\<close> only at the
  byte after it.
\<close>

definition first_value :: "string \<Rightarrow> (json \<times> string) option" where
  "first_value s = parse_val (2 * length s + 2) s"

definition parseJSONRequest :: "string \<Rightarrow> (string \<times> json) list option" where
  "parseJSONRequest b =
     (case first_value (take maxRequestBodySize b) of
        Some (JObj ms, _) \<Rightarrow> Some ms
      | Some (JNull, r) \<Rightarrow> if r = [] \<and> maxRequestBodySize < length b then None else Some []
      | _ \<Rightarrow> None)"

text \<open>\<^verbatim>\<open>net.SplitHostPort\<close>.\<close>

definition SplitHostPort :: "string \<Rightarrow> (string \<times> string) option" where
  "SplitHostPort hp =
     (if CHR '':'' \<notin> set hp then None
      else
        (let port = rev (takeWhile (\<lambda>c. c \<noteq> CHR '':'') (rev hp));
             before = take (length hp - length port - 1) hp
         in if HasPrefix hp ''['' then
              (let host = takeWhile (\<lambda>c. c \<noteq> CHR '']'') (tl hp)
               in if before = ''['' @ host @ '']'' \<and> CHR ''['' \<notin> set (tl hp) \<and> CHR '']'' \<notin> set port
                  then Some (host, port) else None)
            else if CHR '':'' \<in> set before \<or> CHR ''['' \<in> set hp \<or> CHR '']'' \<in> set hp then None
            else Some (before, port)))"

definition host_of :: "string \<Rightarrow> string" where
  "host_of addr = (case SplitHostPort addr of None \<Rightarrow> [] | Some (h, p) \<Rightarrow> h)"

section \<open>The login rate limiter\<close>

type_synonym limiter = "string \<rightharpoonup> int list"

definition loginMaxAttempts :: nat where "loginMaxAttempts = 5"

definition loginWindow :: int where "loginWindow = 5 * 60 * second"

definition recent :: "int \<Rightarrow> int list \<Rightarrow> int list" where
  "recent now ts = filter (\<lambda>t. now - loginWindow < t) ts"

definition cleanupRateLimiter :: "int \<Rightarrow> limiter \<Rightarrow> limiter" where
  "cleanupRateLimiter now L ip =
     (case L ip of
        None \<Rightarrow> None
      | Some ts \<Rightarrow> if recent now ts = [] then None else Some (recent now ts))"

definition attempts :: "limiter \<Rightarrow> string \<Rightarrow> int list" where
  "attempts L ip = (case L ip of None \<Rightarrow> [] | Some ts \<Rightarrow> ts)"

definition checkLoginRate :: "int \<Rightarrow> string \<Rightarrow> limiter \<Rightarrow> bool \<times> limiter" where
  "checkLoginRate now ip L =
     (let valid = recent now (attempts L ip)
      in (loginMaxAttempts \<le> length valid, L(ip \<mapsto> valid)))"

definition recordLoginAttempt :: "int \<Rightarrow> string \<Rightarrow> limiter \<Rightarrow> limiter" where
  "recordLoginAttempt now ip L = L(ip \<mapsto> attempts L ip @ [now])"

section \<open>Sessions\<close>

record Session =
  UserID :: string
  SessionID :: string

definition extractRawToken :: "http_req \<Rightarrow> string" where
  "extractRawToken rq =
     (if h_auth rq \<noteq> [] then
        (if 7 < length (h_auth rq) \<and> take 7 (h_auth rq) = ''Bearer '' then drop 7 (h_auth rq) else h_auth rq)
      else (case h_cookie rq of Some v \<Rightarrow> v | None \<Rightarrow> []))"

definition parseSessionFromToken :: "('r, 'p) tcp_server \<Rightarrow> int \<Rightarrow> string \<Rightarrow> Session option" where
  "parseSessionFromToken T now token =
     (case ValidateUserJWT (crypto (sv T)) (Config.Auth (cfg (sv T))) now token of
        Inl _ \<Rightarrow> None
      | Inr claims \<Rightarrow> Some \<lparr>UserID = u_Sub claims, SessionID = u_TokenID claims\<rparr>)"

definition unix :: "http_req \<Rightarrow> int" where
  "unix rq = nano (h_env rq) div second"

definition validateSessionFull :: "('r, 'p) tcp_server \<Rightarrow> http_req \<Rightarrow> 'r \<Rightarrow> Session option \<times> 'r" where
  "validateSessionFull T rq r =
     (let token = extractRawToken rq
      in if token = [] then (None, r)
         else
           (case parseSessionFromToken T (unix rq) token of
              None \<Rightarrow> (None, r)
            | Some session \<Rightarrow>
                if has_rds (db T) then
                  (case GetUserSession (rds (sv T)) token r of
                     (Inl _, r') \<Rightarrow> (None, r')
                   | (Inr username, r') \<Rightarrow> if username \<noteq> UserID session then (None, r') else (Some session, r'))
                else (Some session, r)))"

definition unauthorized :: response where
  "unauthorized = HError 401 ''Unauthorized''"

definition checkToken :: "('r, 'p) tcp_server \<Rightarrow> http_req \<Rightarrow> 'r \<Rightarrow> response \<times> 'r" where
  "checkToken T rq r =
     (case validateSessionFull T rq r of
        (None, r') \<Rightarrow> (unauthorized, r')
      | (Some _, r') \<Rightarrow> (HReply 200 NoBody, r'))"

text \<open>\<^verbatim>\<open>ValidateSession\<close> of a session that may be nil.\<close>

definition ValidateSession :: "Session option \<Rightarrow> unit res" where
  "ValidateSession session = (if session = None then Inl ''unauthorized access'' else Inr ())"

definition SessionValidationMiddleware ::
  "('r, 'p) tcp_server \<Rightarrow> http_req \<Rightarrow> (('r, 'p, 'c) world \<Rightarrow> ('r, 'p, 'c) http_result)
   \<Rightarrow> ('r, 'p, 'c) world \<Rightarrow> ('r, 'p, 'c) http_result" where
  "SessionValidationMiddleware T rq next w =
     (case validateSessionFull T rq (rst (st w)) of
        (None, r) \<Rightarrow> ([], unauthorized, set_rst r w)
      | (Some _, r) \<Rightarrow> next (set_rst r w))"

text \<open>The headers that the CORS middleware sets, and whether it answers the request itself.\<close>

definition CORSMiddleware :: "ServerConfig \<Rightarrow> http_req \<Rightarrow> (string \<times> string) list \<times> bool" where
  "CORSMiddleware server rq =
     (if h_origin rq \<noteq> [] \<and> h_origin rq \<in> set (AllowedOrigins server) then
        [(''Access-Control-Allow-Origin'', h_origin rq),
         (''Access-Control-Allow-Methods'', ''GET, POST, PUT, DELETE, OPTIONS''),
         (''Access-Control-Allow-Headers'', ''Content-Type, Authorization, X-Requested-With''),
         (''Access-Control-Allow-Credentials'', ''true''),
         (''Access-Control-Max-Age'', ''86400'')]
      else [], h_method rq = ''OPTIONS'')"

section \<open>Handlers\<close>

definition dec_login :: "string \<Rightarrow> (string \<times> string) option" where
  "dec_login b =
     (case parseJSONRequest b of
        None \<Rightarrow> None
      | Some ms \<Rightarrow>
          (case (str_field ''username'' ms, str_field ''password'' ms) of
             (Some u, Some p) \<Rightarrow> Some (u, p)
           | _ \<Rightarrow> None))"

definition login_ip :: "http_req \<Rightarrow> string" where
  "login_ip rq = (if host_of (h_remote rq) = [] then h_remote rq else host_of (h_remote rq))"

definition login_failed :: response where
  "login_failed = HError 401 ''Invalid username or password''"

definition login_ok :: "string \<Rightarrow> response" where
  "login_ok token = sendJSONResponse (json_print (JObj
     [(''message'', JStr ''Logged in successfully''), (''status'', JStr ''success''), (''token'', JStr token)])) 200"

definition loginHandler ::
  "('r, 'p) tcp_server \<Rightarrow> bcrypt \<Rightarrow> http_req \<Rightarrow> limiter \<times> 'r \<Rightarrow> response \<times> limiter \<times> 'r" where
  "loginHandler T B rq Lr =
     (case Lr of (L, r) \<Rightarrow>
        (let ip = login_ip rq
         in case checkLoginRate (nano (h_env rq)) ip L of
              (True, L') \<Rightarrow> (HError 429 ''Too many login attempts. Try again later.'', L', r)
            | (False, L') \<Rightarrow>
                (case dec_login (h_body rq) of
                   None \<Rightarrow> (HError 400 ''Invalid request format'', L', r)
                 | Some (username, password) \<Rightarrow>
                     if 72 < length password then (login_failed, recordLoginAttempt (h_later rq) ip L', r)
                     else if \<not> has_rds (db T) then (HError 503 ''Service unavailable'', L', r)
                     else
                       (case GetUser (rds (sv T)) username r of
                          (Inl _, r1) \<Rightarrow> (login_failed, recordLoginAttempt (h_later rq) ip L', r1)
                        | (Inr user, r1) \<Rightarrow>
                            if \<not> CompareHashAndPassword B (PasswordHash user) password
                            then (login_failed, recordLoginAttempt (h_later rq) ip L', r1)
                            else
                              (case IssueUserJWT (crypto (sv T)) (Config.Auth (cfg (sv T))) (unix rq)
                                      (rndSession (h_env rq)) username of
                                 Inl _ \<Rightarrow> (HError 500 ''Failed to create session'', L', r1)
                               | Inr token \<Rightarrow>
                                   (case SetUserSession (rds (sv T)) token username (UserTTL (Redis (cfg (sv T)))) r1 of
                                      (Inl _, r2) \<Rightarrow> (HError 500 ''Failed to create session'', L', r2)
                                    | (Inr _, r2) \<Rightarrow> (login_ok token, L', r2)))))))"

definition logged_out :: string where
  "logged_out = ''{'' @ print_str ''status'' @ '': '' @ print_str ''success'' @ '', '' @ print_str ''message''
     @ '': '' @ print_str ''Logged out successfully'' @ ''}''"

definition logoutHandler :: "('r, 'p) tcp_server \<Rightarrow> http_req \<Rightarrow> 'r \<Rightarrow> response \<times> 'r" where
  "logoutHandler T rq r =
     (let token = extractRawToken rq
      in if token = [] then (unauthorized, r)
         else (sendJSONResponse logged_out 200,
               if has_rds (db T) then snd (RemoveUserSession (rds (sv T)) token r) else r))"

definition ticketTTL :: int where "ticketTTL = 30 * second"

definition issueTicketHandler :: "('r, 'p) tcp_server \<Rightarrow> http_req \<Rightarrow> 'r \<Rightarrow> response \<times> 'r" where
  "issueTicketHandler T rq r =
     (case validateSessionFull T rq r of
        (None, r1) \<Rightarrow> (unauthorized, r1)
      | (Some session, r1) \<Rightarrow>
          if \<not> has_rds (db T) then (HError 503 ''Service unavailable'', r1)
          else
            (case GenerateNonce (rndNonce (h_env rq)) of
               Inl _ \<Rightarrow> (HError 500 ''Failed to generate ticket'', r1)
             | Inr ticket \<Rightarrow>
                 (case SetTicket (rds (sv T)) ticket (UserID session) ticketTTL r1 of
                    (Inl _, r2) \<Rightarrow> (HError 500 ''Failed to store ticket'', r2)
                  | (Inr _, r2) \<Rightarrow> (sendResponseAsJSON (JObj [(''ticket'', JStr ticket)]) 200, r2))))"

definition dec_password :: "string \<Rightarrow> (string \<times> string) option" where
  "dec_password b =
     (case parseJSONRequest b of
        None \<Rightarrow> None
      | Some ms \<Rightarrow>
          (case (str_field ''current_password'' ms, str_field ''new_password'' ms) of
             (Some c, Some n) \<Rightarrow> Some (c, n)
           | _ \<Rightarrow> None))"

definition password_changed :: string where
  "password_changed = json_print (JObj
     [(''status'', JStr ''success''), (''message'', JStr ''Password changed successfully'')])"

definition changePasswordHandler :: "('r, 'p) tcp_server \<Rightarrow> bcrypt \<Rightarrow> http_req \<Rightarrow> 'r \<Rightarrow> response \<times> 'r" where
  "changePasswordHandler T B rq r =
     (case validateSessionFull T rq r of
        (None, r1) \<Rightarrow> (unauthorized, r1)
      | (Some session, r1) \<Rightarrow>
          (case dec_password (h_body rq) of
             None \<Rightarrow> (HError 400 ''Invalid request format'', r1)
           | Some (current, new) \<Rightarrow>
               if length new < 8 then (HError 400 ''Password must be at least 8 characters'', r1)
               else if 72 < length new then (HError 400 ''Password must not exceed 72 characters'', r1)
               else if \<not> has_rds (db T) then (HError 503 ''Service unavailable'', r1)
               else
                 (case GetUser (rds (sv T)) (UserID session) r1 of
                    (Inl _, r2) \<Rightarrow> (HError 404 ''User not found'', r2)
                  | (Inr user, r2) \<Rightarrow>
                      if \<not> CompareHashAndPassword B (PasswordHash user) current
                      then (HError 401 ''Current password is incorrect'', r2)
                      else
                        (case GenerateFromPassword B (h_salt rq) new of
                           Inl _ \<Rightarrow> (HError 500 ''Failed to hash password'', r2)
                         | Inr newHash \<Rightarrow>
                             (case SetUser (rds (sv T)) (user\<lparr>PasswordHash := newHash\<rparr>) r2 of
                                (Inl _, r3) \<Rightarrow> (HError 500 ''Failed to update password'', r3)
                              | (Inr _, r3) \<Rightarrow> (sendJSONResponse password_changed 200, r3))))))"

definition validateTicket :: "('r, 'p) tcp_server \<Rightarrow> http_req \<Rightarrow> 'r \<Rightarrow> Session option \<times> 'r" where
  "validateTicket T rq r =
     (if h_ticket rq = [] then (None, r)
      else if \<not> has_rds (db T) then (None, r)
      else
        (case ConsumeTicket (rds (sv T)) (h_ticket rq) r of
           (Inl _, r') \<Rightarrow> (None, r')
         | (Inr username, r') \<Rightarrow>
             if username = [] then (None, r')
             else (Some \<lparr>UserID = username, SessionID = ''ticket''\<rparr>, r')))"

section \<open>The rate limiter against the log of failed logins\<close>

text \<open>
  The log keeps every recorded attempt.  The limiter forgets attempts, but none that a
  check at the present time or later would count.
\<close>

definition log_of :: "string \<Rightarrow> (string \<times> int) list \<Rightarrow> int list" where
  "log_of ip log = map snd (filter (\<lambda>(i, t). i = ip) log)"

definition represents :: "int \<Rightarrow> limiter \<Rightarrow> (string \<times> int) list \<Rightarrow> bool" where
  "represents now L log \<longleftrightarrow> (\<forall>ip t. now \<le> t \<longrightarrow> recent t (attempts L ip) = recent t (log_of ip log))"

lemma recent_recent: "now \<le> t \<Longrightarrow> recent t (recent now ts) = recent t ts"
  unfolding recent_def filter_filter by (rule filter_cong) auto

lemma recent_Nil [simp]: "recent t [] = []"
  by (simp add: recent_def)

lemma recent_append [simp]: "recent t (xs @ ys) = recent t xs @ recent t ys"
  by (simp add: recent_def)

lemma log_of_append [simp]: "log_of ip (xs @ ys) = log_of ip xs @ log_of ip ys"
  by (simp add: log_of_def)

lemma attempts_upd: "attempts (L(ip \<mapsto> ts)) i = (if i = ip then ts else attempts L i)"
  by (simp add: attempts_def)

lemma represents_empty: "represents now Map.empty []"
  by (simp add: represents_def attempts_def log_of_def)

lemma represents_later: "represents now L log \<Longrightarrow> now \<le> t \<Longrightarrow> represents t L log"
  by (simp add: represents_def)

lemma represents_check:
  assumes "represents now L log" and "checkLoginRate now ip L = (b, L')"
  shows "represents now L' log" and "b \<longleftrightarrow> loginMaxAttempts \<le> length (recent now (log_of ip log))"
  using assms by (auto simp: represents_def checkLoginRate_def Let_def attempts_upd recent_recent)

lemma represents_record:
  "represents now L log \<Longrightarrow> represents now (recordLoginAttempt now ip L) (log @ [(ip, now)])"
  by (simp add: represents_def recordLoginAttempt_def attempts_upd log_of_def)

lemma attempts_cleanup: "attempts (cleanupRateLimiter now L) ip = recent now (attempts L ip)"
  by (simp add: attempts_def cleanupRateLimiter_def recent_def split: option.splits)

lemma represents_cleanup: "represents now L log \<Longrightarrow> represents now (cleanupRateLimiter now L) log"
  by (simp add: represents_def attempts_cleanup recent_recent)

text \<open>The operations in the order in which they take the lock, with the time of each.\<close>

datatype rl_op = Check string | Record string | Cleanup

fun rl_run :: "(int \<times> rl_op) list \<Rightarrow> limiter \<Rightarrow> bool list" where
  "rl_run [] L = []"
| "rl_run ((now, Check ip) # ops) L =
     (case checkLoginRate now ip L of (b, L') \<Rightarrow> b # rl_run ops L')"
| "rl_run ((now, Record ip) # ops) L = rl_run ops (recordLoginAttempt now ip L)"
| "rl_run ((now, Cleanup) # ops) L = rl_run ops (cleanupRateLimiter now L)"

fun rl_spec :: "(int \<times> rl_op) list \<Rightarrow> (string \<times> int) list \<Rightarrow> bool list" where
  "rl_spec [] log = []"
| "rl_spec ((now, Check ip) # ops) log =
     (5 \<le> length (filter (\<lambda>(i, t). i = ip \<and> now - loginWindow < t) log)) # rl_spec ops log"
| "rl_spec ((now, Record ip) # ops) log = rl_spec ops (log @ [(ip, now)])"
| "rl_spec ((now, Cleanup) # ops) log = rl_spec ops log"

lemma recent_log: "length (recent now (log_of ip log)) = length (filter (\<lambda>(i, t). i = ip \<and> now - loginWindow < t) log)"
  by (induction log) (auto simp: recent_def log_of_def)

lemma rl_run_spec:
  assumes "represents now L log" and "sorted (now # map fst ops)"
  shows "rl_run ops L = rl_spec ops log"
  using assms
proof (induction ops arbitrary: now L log)
  case (Cons x ops)
  obtain t a where x: "x = (t, a)" by (cases x)
  have r: "represents t L log" and s: "sorted (t # map fst ops)"
    using Cons.prems represents_later x by auto
  show ?case
  proof (cases a)
    case (Check ip)
    obtain b L' where c: "checkLoginRate t ip L = (b, L')" by (cases "checkLoginRate t ip L")
    show ?thesis
      using represents_check[OF r c] Cons.IH[OF _ s] x Check c by (simp add: recent_log loginMaxAttempts_def)
  next
    case (Record ip)
    then show ?thesis using Cons.IH[OF represents_record[OF r] s] x by simp
  next
    case Cleanup
    then show ?thesis using Cons.IH[OF represents_cleanup[OF r] s] x by simp
  qed
qed simp

section \<open>Logins one after another\<close>

text \<open>The times at which a run of logins records a failure, with the address.\<close>

fun login_log :: "('r, 'p) tcp_server \<Rightarrow> bcrypt \<Rightarrow> http_req list \<Rightarrow> limiter \<times> 'r \<Rightarrow> (string \<times> int) list" where
  "login_log T B [] Lr = []"
| "login_log T B (rq # rqs) Lr =
     (case loginHandler T B rq Lr of (resp, Lr') \<Rightarrow>
        (if resp = login_failed then [(login_ip rq, h_later rq)] else []) @ login_log T B rqs Lr')"

fun in_order :: "int \<Rightarrow> http_req list \<Rightarrow> bool" where
  "in_order t [] \<longleftrightarrow> True"
| "in_order t (rq # rqs) \<longleftrightarrow> t \<le> nano (h_env rq) \<and> nano (h_env rq) \<le> h_later rq \<and> in_order (h_later rq) rqs"

definition spread :: "int list \<Rightarrow> bool" where
  "spread ts \<longleftrightarrow> (\<forall>a. length (filter (\<lambda>t. a < t \<and> t \<le> a + loginWindow) ts) \<le> 5)"

lemma spread_snoc:
  assumes "spread ts" and "length (recent c ts) < 5" and "c \<le> now"
  shows "spread (ts @ [now])"
  unfolding spread_def
proof
  fix a
  let ?n = "\<lambda>ts. length (filter (\<lambda>t. a < t \<and> t \<le> a + loginWindow) ts)"
  show "?n (ts @ [now]) \<le> 5"
  proof (cases "a < now \<and> now \<le> a + loginWindow")
    case True
    then have "?n ts \<le> length (recent c ts)"
      using assms(3) unfolding recent_def by (induction ts) auto
    then show ?thesis using True assms(2) by simp
  qed (use assms(1) in \<open>auto simp: spread_def\<close>)
qed

lemma login_responses: "login_ok token \<noteq> login_failed" "HError n m = login_failed \<longleftrightarrow> n = 401 \<and> m = ''Invalid username or password''"
  by (auto simp: login_ok_def login_failed_def sendJSONResponse_def)

lemma login_limiter:
  assumes "loginHandler T B rq (L, r) = (resp, L', r')"
  shows "\<exists>b L1. checkLoginRate (nano (h_env rq)) (login_ip rq) L = (b, L1)
    \<and> (if resp = login_failed then \<not> b \<and> L' = recordLoginAttempt (h_later rq) (login_ip rq) L1 else L' = L1)"
proof (cases "checkLoginRate (nano (h_env rq)) (login_ip rq) L")
  case (Pair b L1)
  show ?thesis
  proof (cases b)
    case True
    then show ?thesis
      using assms Pair by (auto simp: loginHandler_def login_failed_def)
  next
    case False
    have "if resp = login_failed then L' = recordLoginAttempt (h_later rq) (login_ip rq) L1 else L' = L1"
      using assms Pair False unfolding loginHandler_def
      by (simp add: Let_def split: option.split_asm if_split_asm prod.split_asm sum.split_asm)
         (auto simp: login_responses)
    then show ?thesis
      using Pair False by auto
  qed
qed

lemma login_log_spread:
  assumes "represents t L log" and "in_order t rqs" and "\<And>i. spread (log_of i log)"
  shows "spread (log_of ip (log @ login_log T B rqs (L, r)))"
  using assms
proof (induction rqs arbitrary: t L r log)
  case (Cons rq rqs)
  obtain resp L' r' where h: "loginHandler T B rq (L, r) = (resp, L', r')"
    by (cases "loginHandler T B rq (L, r)")
  obtain b L1 where c: "checkLoginRate (nano (h_env rq)) (login_ip rq) L = (b, L1)"
    and L': "if resp = login_failed then \<not> b \<and> L' = recordLoginAttempt (h_later rq) (login_ip rq) L1 else L' = L1"
    using login_limiter[OF h] by blast
  let ?log = "log @ (if resp = login_failed then [(login_ip rq, h_later rq)] else [])"
  have o: "t \<le> nano (h_env rq)" "nano (h_env rq) \<le> h_later rq" "in_order (h_later rq) rqs"
    using Cons.prems(2) by simp_all
  note r1 = represents_check[OF represents_later[OF Cons.prems(1) o(1)] c]
  have "represents (h_later rq) L' ?log"
    using L' represents_later[OF r1(1) o(2)] represents_record by (auto split: if_splits)
  moreover have "spread (log_of i ?log)" for i
    using Cons.prems(3)[of i] L' r1(2) spread_snoc[of "log_of i log" "nano (h_env rq)" "h_later rq"] o(2)
    by (auto simp: log_of_def loginMaxAttempts_def split: if_splits)
  ultimately show ?case
    using Cons.IH[of "h_later rq" L' ?log r'] o(3) h by simp
qed simp

section \<open>Sessions in Redis\<close>

lemma validate_Some:
  assumes "validateSessionFull T rq r = (Some s, r')" and "has_rds (db T)"
  shows "\<exists>claims. ValidateUserJWT (crypto (sv T)) (Config.Auth (cfg (sv T))) (unix rq) (extractRawToken rq) = Inr claims
    \<and> UserID s = u_Sub claims \<and> GetUserSession (rds (sv T)) (extractRawToken rq) r = (Inr (UserID s), r')"
  using assms
  by (auto simp: validateSessionFull_def parseSessionFromToken_def Let_def
      split: if_splits option.splits sum.splits prod.splits)

lemma validate_frame:
  assumes "redis_service (rds (sv T)) live" and "validateSessionFull T rq r = (x, r')"
  shows "live r' \<subseteq>\<^sub>m live r"
proof -
  have "r' = r \<or> (\<exists>y. GetUserSession (rds (sv T)) (extractRawToken rq) r = (y, r'))"
    using assms(2) by (auto simp: validateSessionFull_def Let_def split: if_splits option.splits sum.splits prod.splits)
  then show ?thesis
    using redis_service.get_frame[OF assms(1)] unfolding GetUserSession_def by auto
qed

text \<open>The session of a token is stored under its user.\<close>

definition session_stored :: "(string \<Rightarrow> (string \<times> int) option) \<Rightarrow> string \<Rightarrow> string \<Rightarrow> bool" where
  "session_stored live token user \<longleftrightarrow> (\<exists>ttl. live (userSessionKey token) = Some (user, ttl))"

lemma validate_sound:
  assumes "redis_service (rds (sv T)) live" and "has_rds (db T)" and "validateSessionFull T rq r = (Some s, r')"
  shows "session_stored (live r) (extractRawToken rq) (UserID s)"
  using validate_Some[OF assms(3,2)] redis_service.get_ok[OF assms(1)]
  unfolding GetUserSession_def session_stored_def by blast

lemma login_Some:
  assumes "loginHandler T B rq (L, r) = (resp, L', r')" and "status_of resp = 200"
  shows "\<exists>u p user r1 token. dec_login (h_body rq) = Some (u, p) \<and> length p \<le> 72
    \<and> GetUser (rds (sv T)) u r = (Inr user, r1) \<and> CompareHashAndPassword B (PasswordHash user) p
    \<and> IssueUserJWT (crypto (sv T)) (Config.Auth (cfg (sv T))) (unix rq) (rndSession (h_env rq)) u = Inr token
    \<and> SetUserSession (rds (sv T)) token u (UserTTL (Redis (cfg (sv T)))) r1 = (Inr (), r')
    \<and> resp = login_ok token"
proof (cases "checkLoginRate (nano (h_env rq)) (login_ip rq) L")
  case (Pair b L1)
  then have "\<not> b"
    using assms by (auto simp: loginHandler_def)
  then show ?thesis
    using assms Pair unfolding loginHandler_def
    by (simp add: login_failed_def Let_def split: option.split_asm if_split_asm prod.split_asm sum.split_asm) auto
qed

section \<open>Samples\<close>

lemma parseJSONRequest_print:
  assumes "wf_json (JObj ms)" and "length (json_print (JObj ms)) \<le> maxRequestBodySize"
  shows "parseJSONRequest (json_print (JObj ms)) = Some ms"
proof -
  have "parse_val (2 * length (json_print (JObj ms)) + 2) (json_print (JObj ms) @ []) = Some (JObj ms, [])"
    using jfuel_le_length(1)[OF assms(1)] by (intro parse_print(1)[OF assms(1)]) simp_all
  then show ?thesis
    using assms(2) by (simp add: parseJSONRequest_def first_value_def del: json_print.simps)
qed

definition sample_bcrypt :: bcrypt where
  "sample_bcrypt = \<lparr>CompareHashAndPassword = (\<lambda>h p. h = p), GenerateFromPassword = (\<lambda>salt p. Inr p)\<rparr>"

definition login_body :: "string \<Rightarrow> string" where
  "login_body p = json_print (JObj [(''username'', JStr ''a''), (''password'', JStr p)])"

definition sample_req :: "int \<Rightarrow> string \<Rightarrow> string \<Rightarrow> http_req" where
  "sample_req t auth b = \<lparr>h_env = (sample_env t)\<lparr>rndSession := Some ''x''\<rparr>, h_later = t, h_salt = [], h_method = ''POST'',
     h_origin = [], h_remote = ''10.0.0.1:99'', h_auth = auth, h_cookie = None, h_ticket = [], h_param = ''r1'', h_body = b\<rparr>"

definition sample_users :: mem where
  "sample_users = [(userKey ''a'', (enc_User \<lparr>Username = ''a'', PasswordHash = ''password''\<rparr>, 0))]"

lemma dec_login_sample: "dec_login (login_body ''password'') = Some (''a'', ''password'')" "dec_login (login_body ''no'') = Some (''a'', ''no'')"
proof -
  have "valid_utf8 ''a''" "valid_utf8 ''password''" "valid_utf8 ''no''"
    by (rule valid_utf8_ascii; simp add: byte_in_def)+
  then have w: "wf_json (JObj [(''username'', JStr ''a''), (''password'', JStr ''password'')])"
     "wf_json (JObj [(''username'', JStr ''a''), (''password'', JStr ''no'')])"
    by simp_all
  have "length (login_body ''password'') \<le> maxRequestBodySize" "length (login_body ''no'') \<le> maxRequestBodySize"
    by (simp_all add: login_body_def maxRequestBodySize_def print_str_def json_escape.simps byte_in_def rune2_def esc_ascii_def)
  then show "dec_login (login_body ''password'') = Some (''a'', ''password'')" "dec_login (login_body ''no'') = Some (''a'', ''no'')"
    using parseJSONRequest_print[OF w(1)] parseJSONRequest_print[OF w(2)]
    by (simp_all add: dec_login_def login_body_def field_defs del: json_print.simps)
qed

lemma token_utf8: "valid_utf8 (sign_token C secret x)"
proof (rule valid_utf8_ascii)
  have b: "list_all (byte_in 0 0x7F) (b64_EncodeToString bs)" for bs
    unfolding list_all_iff using b64_Encode_chars by (fastforce simp: byte_in_def)
  show "list_all (byte_in 0 0x7F) (sign_token C secret x)"
    using b by (simp add: sign_token_def Let_def signHS256_def byte_in_def)
qed

lemma issued_user_token:
  assumes "IssueUserJWT C ac now rnd u = Inr token"
    and "valid_utf8 u" and "in64 now" and "in64 (now + JWTExpiry ac)" and "now' \<le> now + JWTExpiry ac"
  shows "\<exists>claims. ValidateUserJWT C ac now' token = Inr claims \<and> u_Sub claims = u"
proof -
  obtain b where t: "token = sign_token C (JWTSecret ac) (enc_UserJWTClaims \<lparr>u_Sub = u, u_Iat = now,
      u_Exp = wrap64 (now + JWTExpiry ac), u_TokenID = hex_EncodeToString b\<rparr>)" and s: "JWTSecret ac \<noteq> []"
    using assms(1) by (auto simp: IssueUserJWT_def split: if_splits option.splits)
  let ?c = "\<lparr>u_Sub = u, u_Iat = now, u_Exp = now + JWTExpiry ac, u_TokenID = hex_EncodeToString b\<rparr>"
  have "dec_UserJWTClaims (enc_UserJWTClaims ?c) = Some ?c"
    using assms(2-4) hex_utf8 by (intro user_claims_codec.dec_enc) (simp add: ok_UserJWTClaims_def)
  then show ?thesis
    using s assms(4,5) unfolding t by (simp add: ValidateUserJWT_def check_token_sign)
qed

lemma login_ok_status: "valid_utf8 token \<Longrightarrow> status_of (login_ok token) = 200"
proof -
  assume u: "valid_utf8 token"
  have "valid_utf8 ''message''" "valid_utf8 ''status''" "valid_utf8 ''token''" "valid_utf8 ''Logged in successfully''"
    "valid_utf8 ''success''"
    by (rule valid_utf8_ascii; simp add: byte_in_def)+
  then show ?thesis
    using u json_parse_print[of "JObj [(''message'', JStr ''Logged in successfully''), (''status'', JStr ''success''), (''token'', JStr token)]"]
    by (simp add: login_ok_def sendJSONResponse_def del: json_print.simps)
qed

lemma sample_limit: "checkLoginRate t ip Map.empty = (False, [ip \<mapsto> []])"
  by (simp add: checkLoginRate_def attempts_def recent_def loginMaxAttempts_def)

lemma sample_user:
  "map_of s (userKey ''a'') = map_of sample_users (userKey ''a'') \<Longrightarrow>
   GetUser mem_redis ''a'' s = (Inr \<lparr>Username = ''a'', PasswordHash = ''password''\<rparr>, s)"
proof -
  assume s: "map_of s (userKey ''a'') = map_of sample_users (userKey ''a'')"
  have "valid_utf8 ''a''" "valid_utf8 ''password''"
    by (rule valid_utf8_ascii; simp add: byte_in_def)+
  then have "dec_User (enc_User \<lparr>Username = ''a'', PasswordHash = ''password''\<rparr>) = Some \<lparr>Username = ''a'', PasswordHash = ''password''\<rparr>"
    by (intro user_codec.dec_enc) (simp add: ok_User_def)
  then show ?thesis
    using s by (simp add: GetUser_def get_json_def mem_redis_def sample_users_def)
qed

definition sample_token :: string where
  "sample_token = sign_token sample_crypto ''secret'' (enc_UserJWTClaims
     \<lparr>u_Sub = ''a'', u_Iat = 0, u_Exp = 3600, u_TokenID = hex_EncodeToString ''x''\<rparr>)"

lemma sample_login:
  "loginHandler sample_tcp sample_bcrypt (sample_req 7 [] (login_body ''password'')) (Map.empty, sample_users)
   = (login_ok sample_token, [login_ip (sample_req 7 [] (login_body ''password'')) \<mapsto> []],
      AList.update (userSessionKey sample_token) (''a'', UserTTL (Redis defaultConfig)) sample_users)"
proof -
  have c: "cfg sample_server = defaultConfig\<lparr>Config.Auth := sample_auth\<rparr>" "rds sample_server = mem_redis"
    "crypto sample_server = sample_crypto"
    by (simp_all add: sample_server_def)
  have "IssueUserJWT sample_crypto sample_auth 0 (Some ''x'') ''a'' = Inr sample_token"
    by (simp add: IssueUserJWT_def sample_auth_def sample_token_def wrap64_def)
  moreover have "SetUserSession mem_redis sample_token ''a'' t s = (Inr (), AList.update (userSessionKey sample_token) (''a'', t) s)" for t s
    by (simp add: SetUserSession_def mem_redis_def)
  ultimately show ?thesis
    by (simp add: loginHandler_def sample_limit sample_req_def dec_login_sample sample_tcp_def c sample_user
        sample_bcrypt_def sample_env_def unix_def second_def Let_def)
qed

section \<open>Properties\<close>

text \<open>C20: The rate limiter is exact.  Whatever order checks, recorded failures and clean-ups take
  the lock in, while the clock does not go back, a check blocks an address exactly if at
  least five failures were recorded for it in the five minutes before; forgetting old
  attempts never changes an answer.\<close>

theorem rate_limiter_exact:
  assumes "sorted (map fst ops)"
  shows "rl_run ops Map.empty = rl_spec ops []"
proof (cases ops)
  case (Cons x xs)
  then show ?thesis
    using assms by (intro rl_run_spec[OF represents_empty[of "fst x"]]) auto
qed simp

theorem rate_limiter_exact_witness:
  "rl_run [(1, Record ''i''), (2, Record ''i''), (3, Record ''i''), (4, Record ''i''), (5, Record ''i''),
     (6, Check ''i''), (7, Check ''j''), (loginWindow, Cleanup), (loginWindow + 1, Check ''i'')] Map.empty
   = [True, False, False]"
proof -
  have "0 < loginWindow" "loginWindow = 300000000000"
    by (simp_all add: loginWindow_def second_def)
  then show ?thesis
    using rate_limiter_exact[of "[(1, Record ''i''), (2, Record ''i''), (3, Record ''i''), (4, Record ''i''), (5, Record ''i''),
     (6, Check ''i''), (7, Check ''j''), (loginWindow, Cleanup), (loginWindow + 1, Check ''i'')]"] by simp
qed

text \<open>C21: At most five failed logins in any five minutes.  When the login requests of a server are
  handled one after another, every window of five minutes holds at most five failures from
  one address, whatever the users, passwords and database answers; the requests beyond are
  answered without looking at the password.  (The check and the record are separate critical
  sections, so requests handled at the same time can exceed the bound.)\<close>

theorem login_rate_bound:
  assumes "in_order t rqs"
  shows "length (filter (\<lambda>(i, t). i = ip \<and> a < t \<and> t \<le> a + loginWindow) (login_log T B rqs (Map.empty, r))) \<le> 5"
proof -
  have "spread (log_of ip ([] @ login_log T B rqs (Map.empty, r)))"
    by (rule login_log_spread[OF represents_empty assms]) (simp add: log_of_def spread_def)
  then have "length (filter (\<lambda>t. a < t \<and> t \<le> a + loginWindow) (log_of ip (login_log T B rqs (Map.empty, r)))) \<le> 5"
    by (simp add: spread_def)
  moreover have "length (filter (\<lambda>t. a < t \<and> t \<le> a + loginWindow) (log_of ip log))
      = length (filter (\<lambda>(i, t). i = ip \<and> a < t \<and> t \<le> a + loginWindow) log)" for log
    by (induction log) (auto simp: log_of_def)
  ultimately show ?thesis by simp
qed

theorem login_rate_bound_witness:
  "let rqs = [sample_req 7 [] (login_body ''no''), sample_req 8 [] (login_body ''password'')];
       ip = login_ip (sample_req 7 [] [])
   in length (filter (\<lambda>(i, t). i = ip \<and> 0 < t \<and> t \<le> 0 + loginWindow) (login_log sample_tcp sample_bcrypt rqs (Map.empty, sample_users))) \<le> 5"
proof -
  have "in_order 0 [sample_req 7 [] (login_body ''no''), sample_req 8 [] (login_body ''password'')]"
    by (simp add: sample_req_def sample_env_def)
  from login_rate_bound[OF this] show ?thesis
    unfolding Let_def .
qed

text \<open>C22: Login needs the password.  A login succeeds only if the user exists in Redis and bcrypt
  accepts the password, of at most 72 bytes, for the stored hash; what Redis then holds
  more than before is one session, stored under the token for that user, and the token
  validates for that user until it expires.\<close>

theorem login_sound:
  assumes "redis_service (rds (sv T)) live" and "loginHandler T B rq (L, r) = (resp, L', r')" and "status_of resp = 200"
  shows "\<exists>u p hash user t token. dec_login (h_body rq) = Some (u, p) \<and> length p \<le> 72
    \<and> live r (userKey u) = Some (hash, t) \<and> dec_User hash = Some user \<and> CompareHashAndPassword B (PasswordHash user) p
    \<and> resp = login_ok token
    \<and> live r' \<subseteq>\<^sub>m (live r)(userSessionKey token \<mapsto> (u, UserTTL (Redis (cfg (sv T)))))
    \<and> (valid_utf8 u \<and> in64 (unix rq) \<and> in64 (unix rq + JWTExpiry (Config.Auth (cfg (sv T))))
       \<longrightarrow> (\<forall>now. now \<le> unix rq + JWTExpiry (Config.Auth (cfg (sv T))) \<longrightarrow>
             (\<exists>s. parseSessionFromToken T now token = Some s \<and> UserID s = u)))"
proof -
  obtain u p user r1 token where l: "dec_login (h_body rq) = Some (u, p)" "length p \<le> 72"
    "GetUser (rds (sv T)) u r = (Inr user, r1)" "CompareHashAndPassword B (PasswordHash user) p"
    "IssueUserJWT (crypto (sv T)) (Config.Auth (cfg (sv T))) (unix rq) (rndSession (h_env rq)) u = Inr token"
    "SetUserSession (rds (sv T)) token u (UserTTL (Redis (cfg (sv T)))) r1 = (Inr (), r')" "resp = login_ok token"
    using login_Some[OF assms(2,3)] by blast
  obtain hash t where g: "live r (userKey u) = Some (hash, t)" "dec_User hash = Some user" and f: "live r1 \<subseteq>\<^sub>m live r"
    using redis_service.get_json_ok[OF assms(1) l(3)[unfolded GetUser_def]] by blast
  have "live r' \<subseteq>\<^sub>m (live r1)(userSessionKey token \<mapsto> (u, UserTTL (Redis (cfg (sv T)))))"
    using redis_service.set_ok[OF assms(1)] l(6) unfolding SetUserSession_def by blast
  then have m: "live r' \<subseteq>\<^sub>m (live r)(userSessionKey token \<mapsto> (u, UserTTL (Redis (cfg (sv T)))))"
    using map_le_trans map_le_upd[OF f] by blast
  have v: "\<exists>s. parseSessionFromToken T now token = Some s \<and> UserID s = u"
    if ok: "valid_utf8 u" "in64 (unix rq)" "in64 (unix rq + JWTExpiry (Config.Auth (cfg (sv T))))"
      and now: "now \<le> unix rq + JWTExpiry (Config.Auth (cfg (sv T)))" for now
    using issued_user_token[OF l(5) ok now] by (auto simp: parseSessionFromToken_def)
  show ?thesis
    using l(1,2,4,7) g m v by blast
qed

theorem login_sound_witness:
  "\<exists>resp L' r' u p. loginHandler sample_tcp sample_bcrypt (sample_req 7 [] (login_body ''password'')) (Map.empty, sample_users)
     = (resp, L', r') \<and> dec_login (login_body ''password'') = Some (u, p)
     \<and> map_of sample_users (userKey u) \<noteq> None"
proof -
  have r: "redis_service (rds (sv sample_tcp)) map_of"
    using mem_redis.redis_service_axioms by (simp add: sample_tcp_def sample_server_def)
  have s: "status_of (login_ok sample_token) = 200"
    by (rule login_ok_status) (simp add: sample_token_def token_utf8)
  show ?thesis
    using login_sound[OF r sample_login s] sample_login by (auto simp: sample_req_def)
qed


definition bearer :: "string \<Rightarrow> string" where
  "bearer token = ''Bearer '' @ token"

lemma bearer_token: "token \<noteq> [] \<Longrightarrow> extractRawToken (sample_req t (bearer token) b) = token"
  by (cases token) (simp_all add: extractRawToken_def sample_req_def bearer_def)

lemma sample_token_ne: "sample_token \<noteq> []"
  by (simp add: sample_token_def sign_token_def Let_def)


lemma validateTicket_Some:
  assumes "redis_steady (rds (sv T)) live" and "has_rds (db T)" and "h_ticket rq \<noteq> []"
    and "live r (ticketKey (h_ticket rq)) = Some (user, t)" and "user \<noteq> []"
  shows "\<exists>r'. validateTicket T rq r = (Some \<lparr>UserID = user, SessionID = ''ticket''\<rparr>, r')
    \<and> live r' = (live r)(ticketKey (h_ticket rq) := None)"
  using redis_steady.getdel_total[OF assms(1,4)] assms(2,3,5) by (auto simp: validateTicket_def ConsumeTicket_def)

lemma validateTicket_None:
  assumes "redis_service (rds (sv T)) live" and "live r (ticketKey (h_ticket rq)) = None"
  shows "fst (validateTicket T rq r) = None"
proof -
  obtain x r' where "ConsumeTicket (rds (sv T)) (h_ticket rq) r = (x, r')"
    by (cases "ConsumeTicket (rds (sv T)) (h_ticket rq) r")
  then show ?thesis
    using redis_service.getdel_ok[OF assms(1), of "ticketKey (h_ticket rq)" r] assms(2)
    by (cases x) (auto simp: validateTicket_def ConsumeTicket_def)
qed


definition sample_logged_in :: mem where
  "sample_logged_in = AList.update (userSessionKey sample_token) (''a'', 5) sample_users"

lemma sample_session:
  "validateSessionFull sample_tcp (sample_req 9 (bearer sample_token) b) sample_logged_in
   = (Some \<lparr>UserID = ''a'', SessionID = hex_EncodeToString ''x''\<rparr>, sample_logged_in)"
proof -
  let ?c = "\<lparr>u_Sub = ''a'', u_Iat = 0, u_Exp = 3600, u_TokenID = hex_EncodeToString ''x''\<rparr>"
  have "valid_utf8 ''a''"
    by (rule valid_utf8_ascii) (simp add: byte_in_def)
  then have "dec_UserJWTClaims (enc_UserJWTClaims ?c) = Some ?c"
    by (intro user_claims_codec.dec_enc) (simp add: ok_UserJWTClaims_def in64_def hex_utf8 del: hex_EncodeToString.simps)
  then have v: "ValidateUserJWT sample_crypto sample_auth 0 sample_token = Inr ?c"
    by (simp add: ValidateUserJWT_def sample_token_def sample_auth_def check_token_sign)
  have s: "unix (sample_req 9 (bearer sample_token) b) = 0"
    by (simp add: unix_def sample_req_def sample_env_def second_def)
  have g: "GetUserSession mem_redis sample_token sample_logged_in = (Inr ''a'', sample_logged_in)"
    by (simp add: GetUserSession_def mem_redis_def sample_logged_in_def)
  show ?thesis
    using bearer_token[OF sample_token_ne, of 9 b] v s g sample_token_ne
    by (simp add: validateSessionFull_def parseSessionFromToken_def sample_tcp_def sample_server_def)
qed


lemma changePassword_Some:
  assumes "changePasswordHandler T B rq r = (resp, r')" and "status_of resp = 200"
  shows "\<exists>s r1 c n user r2 h. validateSessionFull T rq r = (Some s, r1) \<and> has_rds (db T)
    \<and> dec_password (h_body rq) = Some (c, n) \<and> 8 \<le> length n \<and> length n \<le> 72
    \<and> GetUser (rds (sv T)) (UserID s) r1 = (Inr user, r2) \<and> CompareHashAndPassword B (PasswordHash user) c
    \<and> GenerateFromPassword B (h_salt rq) n = Inr h
    \<and> SetUser (rds (sv T)) (user\<lparr>PasswordHash := h\<rparr>) r2 = (Inr (), r')"
  using assms unfolding changePasswordHandler_def
  by (simp add: unauthorized_def split: option.split_asm if_split_asm prod.split_asm sum.split_asm) auto

text \<open>A password is changed only by its owner.  The change succeeds only for a request with a
  token that validates and whose session Redis holds, whose current password bcrypt accepts
  for the stored hash and whose new password has 8 to 72 bytes; the only entry written is
  that user's record, with the new hash and without expiry.\<close>

theorem changePassword_sound:
  assumes "redis_service (rds (sv T)) live" and "changePasswordHandler T B rq r = (resp, r')" and "status_of resp = 200"
  shows "\<exists>u c n j t user h. session_stored (live r) (extractRawToken rq) u
    \<and> (\<exists>s. parseSessionFromToken T (unix rq) (extractRawToken rq) = Some s \<and> UserID s = u)
    \<and> dec_password (h_body rq) = Some (c, n) \<and> 8 \<le> length n \<and> length n \<le> 72
    \<and> live r (userKey u) = Some (j, t) \<and> dec_User j = Some user \<and> CompareHashAndPassword B (PasswordHash user) c
    \<and> GenerateFromPassword B (h_salt rq) n = Inr h
    \<and> live r' \<subseteq>\<^sub>m (live r)(userKey (Username user) \<mapsto> (enc_User (user\<lparr>PasswordHash := h\<rparr>), 0))"
proof -
  obtain s r1 c n user r2 h where k: "validateSessionFull T rq r = (Some s, r1)" "has_rds (db T)"
    "dec_password (h_body rq) = Some (c, n)" "8 \<le> length n" "length n \<le> 72"
    "GetUser (rds (sv T)) (UserID s) r1 = (Inr user, r2)" "CompareHashAndPassword B (PasswordHash user) c"
    "GenerateFromPassword B (h_salt rq) n = Inr h" "SetUser (rds (sv T)) (user\<lparr>PasswordHash := h\<rparr>) r2 = (Inr (), r')"
    using changePassword_Some[OF assms(2,3)] by blast
  have p: "\<exists>s'. parseSessionFromToken T (unix rq) (extractRawToken rq) = Some s' \<and> UserID s' = UserID s"
    using validate_Some[OF k(1,2)] by (auto simp: parseSessionFromToken_def)
  have f1: "live r1 \<subseteq>\<^sub>m live r"
    by (rule validate_frame[OF assms(1) k(1)])
  obtain j t where g: "live r1 (userKey (UserID s)) = Some (j, t)" "dec_User j = Some user" and f2: "live r2 \<subseteq>\<^sub>m live r1"
    using redis_service.get_json_ok[OF assms(1) k(6)[unfolded GetUser_def]] by blast
  have "live r' \<subseteq>\<^sub>m (live r2)(userKey (Username user) \<mapsto> (enc_User (user\<lparr>PasswordHash := h\<rparr>), 0))"
    using redis_service.set_ok[OF assms(1)] k(9) unfolding SetUser_def by fastforce
  then have m: "live r' \<subseteq>\<^sub>m (live r)(userKey (Username user) \<mapsto> (enc_User (user\<lparr>PasswordHash := h\<rparr>), 0))"
    using map_le_trans[OF _ map_le_upd[OF map_le_trans[OF f2 f1]]] by blast
  show ?thesis
    using validate_sound[OF assms(1) k(2,1)] p k(3-5,7,8) map_le_Some[OF f1 g(1)] g(2) m by blast
qed

definition password_body :: string where
  "password_body = json_print (JObj [(''current_password'', JStr ''password''), (''new_password'', JStr ''12345678'')])"

lemma dec_password_sample: "dec_password password_body = Some (''password'', ''12345678'')"
proof -
  have "valid_utf8 ''current_password''" "valid_utf8 ''new_password''" "valid_utf8 ''password''" "valid_utf8 ''12345678''"
    by (rule valid_utf8_ascii; simp add: byte_in_def)+
  then have w: "wf_json (JObj [(''current_password'', JStr ''password''), (''new_password'', JStr ''12345678'')])"
    by simp
  have "length password_body \<le> maxRequestBodySize"
    by (simp add: password_body_def maxRequestBodySize_def print_str_def json_escape.simps byte_in_def rune2_def esc_ascii_def)
  then show ?thesis
    using parseJSONRequest_print[OF w] by (simp add: dec_password_def password_body_def field_defs del: json_print.simps)
qed

lemma password_changed_status: "sendJSONResponse password_changed 200 = HReply 200 (Text password_changed)"
proof -
  have "valid_utf8 ''status''" "valid_utf8 ''success''" "valid_utf8 ''message''" "valid_utf8 ''Password changed successfully''"
    by (rule valid_utf8_ascii; simp add: byte_in_def)+
  then show ?thesis
    using json_parse_print[of "JObj [(''status'', JStr ''success''), (''message'', JStr ''Password changed successfully'')]"]
    by (simp add: sendJSONResponse_def password_changed_def del: json_print.simps)
qed

theorem changePassword_sound_witness:
  "\<exists>r' u. changePasswordHandler sample_tcp sample_bcrypt (sample_req 9 (bearer sample_token) password_body) sample_logged_in
     = (HReply 200 (Text password_changed), r') \<and> session_stored (map_of sample_logged_in) sample_token u"
proof -
  let ?rq = "sample_req 9 (bearer sample_token) password_body"
  have u: "GetUser mem_redis ''a'' sample_logged_in = (Inr \<lparr>Username = ''a'', PasswordHash = ''password''\<rparr>, sample_logged_in)"
    by (rule sample_user) (simp add: sample_logged_in_def)
  have f: "h_body ?rq = password_body" "h_salt ?rq = []" "has_rds (db sample_tcp)" "rds (sv sample_tcp) = mem_redis"
    by (simp_all add: sample_req_def sample_tcp_def sample_server_def)
  have "\<exists>r'. changePasswordHandler sample_tcp sample_bcrypt ?rq sample_logged_in = (HReply 200 (Text password_changed), r')"
    by (simp add: changePasswordHandler_def sample_session f dec_password_sample u password_changed_status SetUser_def
        del: hex_EncodeToString.simps) (simp add: sample_bcrypt_def f SetUser_def mem_redis_def password_changed_status)
  then obtain r' where c: "changePasswordHandler sample_tcp sample_bcrypt ?rq sample_logged_in = (HReply 200 (Text password_changed), r')"
    by blast
  have r: "redis_service (rds (sv sample_tcp)) map_of"
    using mem_redis.redis_service_axioms by (simp add: sample_tcp_def sample_server_def)
  have s: "status_of (HReply 200 (Text password_changed)) = 200"
    by simp
  obtain u where "session_stored (map_of sample_logged_in) (extractRawToken ?rq) u"
    using changePassword_sound[OF r c s] by blast
  then show ?thesis
    using c bearer_token[OF sample_token_ne] by auto
qed

text \<open>A user's token is also a robot's token.  The two kinds of claims are signed with the same
  secret under the same header and neither names its kind, so a token issued at a login
  validates as a session token of a robot whose identifier is the user's name.\<close>

theorem user_token_passes_as_robot:
  assumes "IssueUserJWT C ac now rnd u = Inr token"
    and "valid_utf8 u" and "in64 now" and "in64 (now + JWTExpiry ac)" and "now' \<le> now + JWTExpiry ac"
  shows "\<exists>claims. ValidateSessionJWT C ac now' token = Inr claims \<and> c_Sub claims = u \<and> c_Type claims = []"
proof -
  obtain b where t: "token = sign_token C (JWTSecret ac) (enc_UserJWTClaims \<lparr>u_Sub = u, u_Iat = now,
      u_Exp = wrap64 (now + JWTExpiry ac), u_TokenID = hex_EncodeToString b\<rparr>)" and s: "JWTSecret ac \<noteq> []"
    using assms(1) by (auto simp: IssueUserJWT_def split: if_splits option.splits)
  let ?c = "\<lparr>c_Sub = u, c_Type = [], c_IP = [], c_Iat = now, c_Exp = now + JWTExpiry ac, c_SessionID = []\<rparr>"
  have "dec_JWTClaims (enc_UserJWTClaims \<lparr>u_Sub = u, u_Iat = now, u_Exp = now + JWTExpiry ac,
      u_TokenID = hex_EncodeToString b\<rparr>) = Some ?c"
    using assms(2-4) hex_utf8
    by (auto simp: enc_UserJWTClaims_def dec_JWTClaims_def fields_JWTClaims_def json_members_print field_defs
        simp del: json_print.simps)
  then show ?thesis
    using s assms(4,5) unfolding t by (simp add: ValidateSessionJWT_def check_token_sign)
qed

theorem user_token_passes_as_robot_witness:
  "\<exists>claims. ValidateSessionJWT sample_crypto sample_auth 10 sample_token = Inr claims \<and> c_Sub claims = ''a''"
proof -
  have i: "IssueUserJWT sample_crypto sample_auth 0 (Some ''x'') ''a'' = Inr sample_token"
    by (simp add: IssueUserJWT_def sample_auth_def sample_token_def wrap64_def)
  have "valid_utf8 ''a''"
    by (rule valid_utf8_ascii) (simp add: byte_in_def)
  then show ?thesis
    using user_token_passes_as_robot[OF i, of 10] by (auto simp: in64_def sample_auth_def)
qed

end
