(* ===== verification/HTTP_API.thy ===== *)
theory HTTP_API
  imports HTTP_Auth
begin

text \<open>
  The REST endpoints of \<^verbatim>\<open>http_server/\<close> (\<^verbatim>\<open>ephemeral.go\<close>, \<^verbatim>\<open>register.go\<close>,
  \<^verbatim>\<open>provision.go\<close>, \<^verbatim>\<open>robot.go\<close>, \<^verbatim>\<open>heartbeat.go\<close>, \<^verbatim>\<open>handler.go\<close>,
  \<^verbatim>\<open>plugins.go\<close>) and the route table of \<^verbatim>\<open>http_server.go\<close>.  \<open>h_param\<close> is the
  URL parameter \<^verbatim>\<open>uuid\<close>.  Maps are encoded with sorted keys, nil slices as \<^verbatim>\<open>null\<close>.
\<close>

definition obj :: "(string \<times> json) list \<Rightarrow> http_body" where
  "obj ms = Json (JObj (sort_key fst ms))"

definition list_json :: "('a \<Rightarrow> json) \<Rightarrow> 'a list \<Rightarrow> json" where
  "list_json f xs = (if xs = [] then JNull else JArr (map f xs))"

definition no_cache :: response where "no_cache = HError 503 ''Cache not available''"

definition no_database :: response where "no_database = HError 503 ''Database not available''"

section \<open>Ephemeral sessions\<close>

definition dec_EphemeralRequest :: "string \<Rightarrow> (string \<times> string \<times> string) option" where
  "dec_EphemeralRequest b =
     (case parseJSONRequest b of
        None \<Rightarrow> None
      | Some ms \<Rightarrow>
          (case (str_field ''uuid'' ms, str_field ''device_type'' ms, str_field ''ip'' ms) of
             (Some u, Some d, Some i) \<Rightarrow> Some (u, d, i)
           | _ \<Rightarrow> None))"

text \<open>Both checks look at the value only: an error of a database counts as nothing found.\<close>

definition registered :: "('r, 'p) tcp_server \<Rightarrow> string \<Rightarrow> ('r, 'p, 'c) world \<Rightarrow> bool \<times> ('r, 'p, 'c) world" where
  "registered T uuid w =
     (if has_pg (db T) then
        (case GetRobotByUUID (pg (sv T)) uuid (pst (st w)) of
           (Inl _, p) \<Rightarrow> (False, set_pst p w)
         | (Inr _, p) \<Rightarrow> (True, set_pst p w))
      else (False, w))"

definition createEphemeralSession ::
  "('r, 'p) tcp_server \<Rightarrow> http_req \<Rightarrow> ('r, 'p, 'c) world \<Rightarrow> ('r, 'p, 'c) http_result" where
  "createEphemeralSession T rq w =
     (case dec_EphemeralRequest (h_body rq) of
        None \<Rightarrow> ([], HError 400 ''Invalid request body'', w)
      | Some (uuid, deviceType, ip0) \<Rightarrow>
          if uuid = [] \<or> deviceType = [] then ([], HError 400 ''uuid and device_type are required'', w)
          else if \<not> has_rds (db T) then ([], no_cache, w)
          else
            (let ip = (if ip0 = [] then h_remote rq else ip0)
             in case GetActiveRobot (rds (sv T)) uuid (rst (st w)) of
                  (Inr _, r1) \<Rightarrow> ([], HError 409 ''UUID already has an active session'', set_rst r1 w)
                | (Inl _, r1) \<Rightarrow>
                    (case registered T uuid (set_rst r1 w) of
                       (True, w2) \<Rightarrow> ([], HError 409 ''UUID belongs to a registered robot'', w2)
                     | (False, w2) \<Rightarrow>
                         (case GenerateSessionID (rndSession (h_env rq)) (nano (h_env rq)) of
                            None \<Rightarrow> ([], HPanic, w2)
                          | Some sessionID \<Rightarrow>
                              (case IssueSessionJWT (crypto (sv T)) (Config.Auth (cfg (sv T))) (unix rq)
                                      uuid deviceType ip sessionID of
                                 Inl _ \<Rightarrow> ([], HError 500 ''Failed to create session'', w2)
                               | Inr jwt \<Rightarrow>
                                   (case SetActiveRobot (rds (sv T))
                                           \<lparr>ar_UUID = uuid, ar_IP = ip, ar_DeviceType = deviceType, ar_SessionJWT = jwt,
                                            ar_PID = 0, ar_ConnectedAt = unix rq\<rparr>
                                           (TTL (Redis (cfg (sv T)))) (rst (st w2)) of
                                      (Inl _, r3) \<Rightarrow> ([], HError 500 ''Failed to store session'', set_rst r3 w2)
                                    | (Inr _, r3) \<Rightarrow>
                                        ([], HReply 201 (NewSession uuid sessionID jwt (TTL (Redis (cfg (sv T))))),
                                         set_rst r3 w2)))))))"

definition deleteEphemeralSession ::
  "('r, 'p) tcp_server \<Rightarrow> http_req \<Rightarrow> ('r, 'p, 'c) world \<Rightarrow> ('r, 'p, 'c) http_result" where
  "deleteEphemeralSession T rq w =
     (if \<not> has_rds (db T) then ([], no_cache, w)
      else
        (case RemoveActiveRobot (rds (sv T)) (h_param rq) (rst (st w)) of
           (Inl _, r) \<Rightarrow> ([], HError 500 ''Failed to remove session'', set_rst r w)
         | (Inr _, r) \<Rightarrow>
             ([], HReply 200 (obj [(''status'', JStr ''removed''), (''uuid'', JStr (h_param rq))]), set_rst r w)))"

section \<open>Registrations\<close>

definition dec_RegistrationResponse :: "string \<Rightarrow> (string \<times> bool) option" where
  "dec_RegistrationResponse b =
     (case parseJSONRequest b of
        None \<Rightarrow> None
      | Some ms \<Rightarrow>
          (case (str_field ''uuid'' ms, bool_field ''accept'' ms) of
             (Some u, Some a) \<Rightarrow> Some (u, a)
           | _ \<Rightarrow> None))"

definition respondToRegistration ::
  "('r, 'p) tcp_server \<Rightarrow> http_req \<Rightarrow> ('r, 'p, 'c) world \<Rightarrow> ('r, 'p, 'c) http_result" where
  "respondToRegistration T rq w =
     (case dec_RegistrationResponse (h_body rq) of
        None \<Rightarrow> ([], HError 400 ''Invalid request body'', w)
      | Some (uuid, accept) \<Rightarrow>
          if uuid = [] then ([], HError 400 ''uuid is required'', w)
          else if \<not> has_rds (db T) then ([], no_cache, w)
          else
            (case GetPendingRobot (rds (sv T)) uuid (rst (st w)) of
               (Inl _, r1) \<Rightarrow> ([], HError 404 ''No pending registration found for this UUID'', set_rst r1 w)
             | (Inr _, r1) \<Rightarrow>
                 (case PublishRegistrationResponse (rds (sv T)) uuid accept r1 of
                    (Inl _, r2) \<Rightarrow> ([], HError 500 ''Failed to send response'', set_rst r2 w)
                  | (Inr _, r2) \<Rightarrow>
                      ([], HReply 200 (obj [(''uuid'', JStr uuid),
                         (''status'', JStr (if accept then ''accepted'' else ''rejected''))]), set_rst r2 w))))"

definition getPendingRegistrations ::
  "('r, 'p) tcp_server \<Rightarrow> ('r, 'p, 'c) world \<Rightarrow> ('r, 'p, 'c) http_result" where
  "getPendingRegistrations T w =
     (if \<not> has_rds (db T) then ([], no_cache, w)
      else
        (case GetAllPendingRobots (rds (sv T)) (rst (st w)) of
           (Inl _, r) \<Rightarrow> ([], HError 500 ''Failed to get pending registrations'', set_rst r w)
         | (Inr pending, r) \<Rightarrow> ([], HReply 200 (Json (list_json PendingRobot_json pending)), set_rst r w)))"

section \<open>Provisioning\<close>

definition dec_ProvisionRequest :: "string \<Rightarrow> (string \<times> string \<times> string) option" where
  "dec_ProvisionRequest b =
     (case parseJSONRequest b of
        None \<Rightarrow> None
      | Some ms \<Rightarrow>
          (case (str_field ''uuid'' ms, str_field ''public_key'' ms, str_field ''device_type'' ms) of
             (Some u, Some k, Some d) \<Rightarrow> Some (u, k, d)
           | _ \<Rightarrow> None))"

definition provisionRobot ::
  "('r, 'p) tcp_server \<Rightarrow> http_req \<Rightarrow> ('r, 'p, 'c) world \<Rightarrow> ('r, 'p, 'c) http_result" where
  "provisionRobot T rq w =
     (case dec_ProvisionRequest (h_body rq) of
        None \<Rightarrow> ([], HError 400 ''Invalid request body'', w)
      | Some (uuid, publicKey, deviceType) \<Rightarrow>
          if uuid = [] \<or> publicKey = [] \<or> deviceType = []
          then ([], HError 400 ''uuid, public_key, and device_type are required'', w)
          else if \<not> IsValidPublicKey (crypto (sv T)) publicKey then ([], HError 400 ''Invalid public key format'', w)
          else if \<not> has_pg (db T) then ([], no_database, w)
          else
            (case RegisterRobot (pg (sv T)) uuid publicKey deviceType (pst (st w)) of
               (Inl _, p) \<Rightarrow> ([], HError 500 ''Failed to provision robot'', set_pst p w)
             | (Inr _, p) \<Rightarrow>
                 ([], HReply 201 (obj [(''status'', JStr ''provisioned''), (''uuid'', JStr uuid)]), set_pst p w)))"

definition getRobotRecord ::
  "codec \<Rightarrow> ('r, 'p) tcp_server \<Rightarrow> http_req \<Rightarrow> ('r, 'p, 'c) world \<Rightarrow> ('r, 'p, 'c) http_result" where
  "getRobotRecord C T rq w =
     (if \<not> has_pg (db T) then ([], no_database, w)
      else
        (case GetRobotByUUID (pg (sv T)) (h_param rq) (pst (st w)) of
           (Inl _, p) \<Rightarrow> ([], HError 404 ''Robot not found'', set_pst p w)
         | (Inr robot, p) \<Rightarrow> ([], HReply 200 (Json (RobotRecord_json C robot)), set_pst p w)))"

definition dec_blacklisted :: "string \<Rightarrow> bool option" where
  "dec_blacklisted b =
     (case parseJSONRequest b of None \<Rightarrow> None | Some ms \<Rightarrow> bool_field ''blacklisted'' ms)"

definition blacklistRobot ::
  "('r, 'p) tcp_server \<Rightarrow> http_req \<Rightarrow> ('r, 'p, 'c) world \<Rightarrow> ('r, 'p, 'c) http_result" where
  "blacklistRobot T rq w =
     (case dec_blacklisted (h_body rq) of
        None \<Rightarrow> ([], HError 400 ''Invalid request body'', w)
      | Some b \<Rightarrow>
          if \<not> has_pg (db T) then ([], no_database, w)
          else
            (case BlacklistRobot (pg (sv T)) (h_param rq) b (pst (st w)) of
               (Inl _, p) \<Rightarrow> ([], HError 500 ''Failed to update blacklist'', set_pst p w)
             | (Inr _, p) \<Rightarrow>
                 ([], HReply 200 (obj [(''uuid'', JStr (h_param rq)), (''blacklisted'', JBool b)]), set_pst p w)))"

definition getAllRegisteredRobots ::
  "codec \<Rightarrow> ('r, 'p) tcp_server \<Rightarrow> ('r, 'p, 'c) world \<Rightarrow> ('r, 'p, 'c) http_result" where
  "getAllRegisteredRobots C T w =
     (if \<not> has_pg (db T) then ([], no_database, w)
      else
        (case GetAllRobots (pg (sv T)) (pst (st w)) of
           (Inl _, p) \<Rightarrow> ([], HError 500 ''Failed to get robots'', set_pst p w)
         | (Inr robots, p) \<Rightarrow> ([], HReply 200 (Json (RobotRecords_json C robots)), set_pst p w)))"

definition getRobotStatus ::
  "('r, 'p) tcp_server \<Rightarrow> http_req \<Rightarrow> ('r, 'p, 'c) world \<Rightarrow> ('r, 'p, 'c) http_result" where
  "getRobotStatus T rq w =
     (if \<not> has_rds (db T) then ([], no_cache, w)
      else
        (case GetActiveRobot (rds (sv T)) (h_param rq) (rst (st w)) of
           (Inl _, r) \<Rightarrow>
             ([], HReply 200 (obj [(''uuid'', JStr (h_param rq)), (''online'', JBool False)]), set_rst r w)
         | (Inr active, r) \<Rightarrow>
             ([], HReply 200 (obj [(''uuid'', JStr (h_param rq)), (''online'', JBool True), (''ip'', JStr (ar_IP active)),
                (''device_type'', JStr (ar_DeviceType active)),
                (''connected_at'', JNum (show_int (ar_ConnectedAt active)))]), set_rst r w)))"

section \<open>Robots\<close>

definition getActiveRobots :: "('r, 'p) tcp_server \<Rightarrow> ('r, 'p, 'c) world \<Rightarrow> ('r, 'p, 'c) http_result" where
  "getActiveRobots T w =
     (if \<not> has_rds (db T) then ([], no_cache, w)
      else
        (case GetAllActiveRobots (rds (sv T)) (rst (st w)) of
           (Inl _, r) \<Rightarrow> ([], HError 500 ''Failed to get active robots'', set_rst r w)
         | (Inr robots, r) \<Rightarrow> ([], HReply 200 (Json (list_json ActiveRobot_json robots)), set_rst r w)))"

definition detail_active :: "ActiveRobot res \<Rightarrow> (string \<times> json) list" where
  "detail_active a =
     (case a of
        Inl _ \<Rightarrow> [(''online'', JBool False)]
      | Inr active \<Rightarrow>
          [(''online'', JBool True), (''ip'', JStr (ar_IP active)), (''device_type'', JStr (ar_DeviceType active)),
           (''connected_at'', JNum (show_int (ar_ConnectedAt active))), (''pid'', JNum (show_int (ar_PID active)))])"

definition detail_heartbeat :: "HeartbeatState res \<Rightarrow> (string \<times> json) list" where
  "detail_heartbeat h =
     (case h of
        Inl _ \<Rightarrow> []
      | Inr hb \<Rightarrow>
          [(''heartbeat'', JObj [(''ip'', JStr (hb_IP hb)), (''last_seen'', JNum (show_int (hb_LastSeen hb))),
             (''last_seq'', JNum (show_int (hb_LastSeq hb)))])])"

definition handler_proc :: "string \<Rightarrow> 'c engine \<Rightarrow> 'c HandlerProcess option" where
  "handler_proc uuid e = (case Get uuid e of None \<Rightarrow> None | Some a \<Rightarrow> map_of (procs e) a)"

definition detail_handler :: "'c HandlerProcess option \<Rightarrow> (string \<times> json) list" where
  "detail_handler p =
     [(''handler'', case p of
         None \<Rightarrow> JObj [(''active'', JBool False)]
       | Some hp \<Rightarrow> JObj [(''active'', JBool True), (''device_type'', JStr (hp_DeviceType hp)),
           (''pid'', JNum (show_int (hp_PID hp)))])]"

definition detail_registration :: "codec \<Rightarrow> RobotRecord res \<Rightarrow> (string \<times> json) list" where
  "detail_registration C q =
     (case q of
        Inl _ \<Rightarrow> []
      | Inr robot \<Rightarrow>
          [(''registered'', JBool True),
           (''registration'', JObj [(''created_at'', JStr (fmtTime C (rr_CreatedAt robot))),
              (''device_type'', JStr (rr_DeviceType robot)), (''is_blacklisted'', JBool (rr_IsBlacklisted robot))])])"

definition getRobotDetail ::
  "codec \<Rightarrow> ('r, 'p) tcp_server \<Rightarrow> http_req \<Rightarrow> ('r, 'p, 'c) world \<Rightarrow> ('r, 'p, 'c) http_result" where
  "getRobotDetail C T rq w =
     (if \<not> has_rds (db T) then ([], no_cache, w)
      else
        (case GetActiveRobot (rds (sv T)) (h_param rq) (rst (st w)) of (a, r1) \<Rightarrow>
        (case GetHeartbeat (rds (sv T)) (h_param rq) r1 of (h, r2) \<Rightarrow>
        (case (if has_pg (db T) then GetRobotByUUID (pg (sv T)) (h_param rq) (pst (st w)) else (Inl [], pst (st w))) of
           (q, p) \<Rightarrow>
             ([], HReply 200 (obj ([(''uuid'', JStr (h_param rq))] @ detail_active a @ detail_heartbeat h
                @ detail_handler (handler_proc (h_param rq) (en w)) @ detail_registration C q)),
              set_pst p (set_rst r2 w))))))"

definition dec_message :: "string \<Rightarrow> string option" where
  "dec_message b =
     (case parseJSONRequest b of None \<Rightarrow> None | Some ms \<Rightarrow> str_field ''message'' ms)"

definition sendRobotMessage :: "http_req \<Rightarrow> ('r, 'p, 'c) world \<Rightarrow> ('r, 'p, 'c) http_result" where
  "sendRobotMessage rq w =
     (case dec_message (h_body rq) of
        None \<Rightarrow> ([], HError 400 ''Invalid request body'', w)
      | Some msg \<Rightarrow>
          (case Get (h_param rq) (en w) of
             None \<Rightarrow> ([], HError 404 ''No handler running for this robot'', w)
           | Some a \<Rightarrow>
               (case on_proc a (SendIncoming msg) (en w) of
                  None \<Rightarrow> ([], HPanic, w)
                | Some e \<Rightarrow>
                    ([], HReply 200 (obj [(''status'', JStr ''sent''), (''uuid'', JStr (h_param rq))]), w\<lparr>en := e\<rparr>))))"

section \<open>Heartbeats\<close>

definition dec_heartbeat :: "string \<Rightarrow> (string \<times> string \<times> string) option" where
  "dec_heartbeat b =
     (case parseJSONRequest b of
        None \<Rightarrow> None
      | Some ms \<Rightarrow>
          (case (str_field ''uuid'' ms, str_field ''payload'' ms, str_field ''signature'' ms) of
             (Some u, Some p, Some g) \<Rightarrow> Some (u, p, g)
           | _ \<Rightarrow> None))"

definition http_handleHeartbeat ::
  "('r, 'p) tcp_server \<Rightarrow> http_req \<Rightarrow> ('r, 'p, 'c) world \<Rightarrow> ('r, 'p, 'c) http_result" where
  "http_handleHeartbeat T rq w =
     (if \<not> has_pg (db T) \<or> \<not> has_rds (db T) then ([], HError 503 ''Service unavailable'', w)
      else
        (case dec_heartbeat (h_body rq) of
           None \<Rightarrow> ([], HError 400 ''Invalid request'', w)
         | Some (uuid, payload, sig) \<Rightarrow>
             (case ProcessHeartbeat (sv T) (unix rq) uuid payload sig (host_of (h_remote rq)) (st w) of
                (Inl _, s) \<Rightarrow> ([], HError 401 ''Heartbeat rejected'', set_store s w)
              | (Inr result, s) \<Rightarrow>
                  ([HEvHb (''robot.'' @ hr_UUID result @ ''.heartbeat'') result],
                   HReply 200 (obj [(''status'', JStr ''ok'')]), set_store s w))))"

section \<open>Handlers\<close>

definition listHandlerTypes ::
  "('r, 'p) tcp_server \<Rightarrow> ('r, 'p, 'c) world \<Rightarrow> ('r, 'p, 'c) http_result" where
  "listHandlerTypes T w =
     ([], HReply 200 (Json (JArr (map JStr (ListHandlerTypes (fs T) (BasePath (cfg (sv T))))))), w)"

definition listHandlers :: "('r, 'p, 'c) world \<Rightarrow> ('r, 'p, 'c) http_result" where
  "listHandlers w = ([], HReply 200 (obj (map (\<lambda>(u, p). (u, JNum (show_int p))) (ListAll (en w)))), w)"

definition getHandlerStatus :: "http_req \<Rightarrow> ('r, 'p, 'c) world \<Rightarrow> ('r, 'p, 'c) http_result" where
  "getHandlerStatus rq w =
     ([], HReply 200 (obj ([(''uuid'', JStr (h_param rq)), (''active'', JBool (Get (h_param rq) (en w) \<noteq> None))]
        @ (case handler_proc (h_param rq) (en w) of
             None \<Rightarrow> []
           | Some hp \<Rightarrow> [(''pid'', JNum (show_int (hp_PID hp))), (''device_type'', JStr (hp_DeviceType hp))]))), w)"

text \<open>Device type and address of the robot, from its session or from the registry.\<close>

definition handler_target ::
  "('r, 'p) tcp_server \<Rightarrow> string \<Rightarrow> ('r, 'p) store \<Rightarrow> (string \<times> string) option \<times> ('r, 'p) store" where
  "handler_target T uuid s =
     (case GetActiveRobot (rds (sv T)) uuid (rst s) of
        (Inr active, r1) \<Rightarrow> (Some (ar_DeviceType active, ar_IP active), s\<lparr>rst := r1\<rparr>)
      | (Inl _, r1) \<Rightarrow>
          (case GetRobotByUUID (pg (sv T)) uuid (pst s) of
             (Inl _, p) \<Rightarrow> (None, s\<lparr>rst := r1, pst := p\<rparr>)
           | (Inr robot, p) \<Rightarrow>
               (case GetHeartbeat (rds (sv T)) uuid r1 of
                  (Inl _, r2) \<Rightarrow> (Some (rr_DeviceType robot, []), s\<lparr>rst := r2, pst := p\<rparr>)
                | (Inr hb, r2) \<Rightarrow> (Some (rr_DeviceType robot, hb_IP hb), s\<lparr>rst := r2, pst := p\<rparr>))))"

text \<open>The body of \<^verbatim>\<open>startHandler\<close> between the mark and its deferred release.\<close>

definition start_marked ::
  "('r, 'p) tcp_server \<Rightarrow> http_req \<Rightarrow> ('r, 'p, 'c) world \<Rightarrow> response \<times> ('r, 'p, 'c) world" where
  "start_marked T rq w =
     (if \<not> has_pg (db T) \<or> \<not> has_rds (db T) then (HError 503 ''Service unavailable'', w)
      else
        (case handler_target T (h_param rq) (st w) of
           (None, s) \<Rightarrow> (HError 404 ''Robot not found'', set_store s w)
         | (Some (deviceType, ip), s) \<Rightarrow>
             (case GenerateSessionID (rndSession (h_env rq)) (nano (h_env rq)) of
                None \<Rightarrow> (HPanic, set_store s w)
              | Some sid \<Rightarrow>
                  (case SpawnHandlerProcess (sv T) (fs T) (osPid (h_env rq)) (fst (ids (h_env rq))) (snd (ids (h_env rq)))
                          (h_param rq) deviceType ip (''manual-'' @ sid) None (rst s, en w) of
                     None \<Rightarrow> (HPanic, set_store s w)
                   | Some (Inl _, r, e) \<Rightarrow>
                       (HError 500 ''Failed to start handler'', set_rst r (set_store s (w\<lparr>en := e\<rparr>)))
                   | Some (Inr a, r, e) \<Rightarrow>
                       (HReply 200 (obj [(''status'', JStr ''started''), (''uuid'', JStr (h_param rq)),
                          (''pid'', JNum (show_int (case map_of (procs e) a of None \<Rightarrow> 0 | Some hp \<Rightarrow> hp_PID hp)))]),
                        set_rst r (set_store s (w\<lparr>en := e\<rparr>)))))))"

definition startHandler ::
  "('r, 'p) tcp_server \<Rightarrow> http_req \<Rightarrow> ('r, 'p, 'c) world \<Rightarrow> ('r, 'p, 'c) http_result" where
  "startHandler T rq w =
     (case TryStartSpawning (h_param rq) (en w) of
        (False, e) \<Rightarrow> ([], HError 409 ''Handler already running or being started'', w\<lparr>en := e\<rparr>)
      | (True, e) \<Rightarrow>
          (case start_marked T rq (w\<lparr>en := e\<rparr>) of
             (resp, w') \<Rightarrow> ([], resp, w'\<lparr>en := FinishSpawning (h_param rq) (en w')\<rparr>)))"

definition killHandler :: "http_req \<Rightarrow> ('r, 'p, 'c) world \<Rightarrow> ('r, 'p, 'c) http_result" where
  "killHandler rq w =
     (case Kill (h_param rq) (en w) of
        None \<Rightarrow> ([], HPanic, w)
      | Some (Inl err, e) \<Rightarrow> ([], HError 404 err, w\<lparr>en := e\<rparr>)
      | Some (Inr _, e) \<Rightarrow>
          ([], HReply 200 (obj [(''status'', JStr ''killed''), (''uuid'', JStr (h_param rq))]), w\<lparr>en := e\<rparr>))"

section \<open>Plugin files\<close>

definition plugin_types :: "fsys \<Rightarrow> string \<Rightarrow> response" where
  "plugin_types F absBase =
     (case readDir F absBase of
        None \<Rightarrow> HError 500 ''Failed to list plugins''
      | Some entries \<Rightarrow>
          sendResponseAsJSON (JArr (map (JStr \<circ> fst) (filter (\<lambda>(name, isDir). isDir \<and> name \<noteq> ''_template''
            \<and> isr_val (stat F (Join [absBase, name, ''dist''])) \<noteq> None) entries))) 200)"

text \<open>
  \<^verbatim>\<open>filepath.Rel\<close>, on the elements of the cleaned paths: the common elements are
  dropped, each remaining one of the base becomes \<^verbatim>\<open>..\<close>.
\<close>

fun drop_common :: "string list \<Rightarrow> string list \<Rightarrow> string list \<times> string list" where
  "drop_common (b # bs) (t # ts) = (if b = t then drop_common bs ts else (b # bs, t # ts))"
| "drop_common bs ts = (bs, ts)"

definition targ_comps :: "string \<Rightarrow> string list" where
  "targ_comps p = (if \<not> IsAbs p \<and> path_comps p = [] then [''.''] else path_comps p)"

definition Rel :: "string \<Rightarrow> string \<Rightarrow> string option" where
  "Rel basepath targpath =
     (if Clean targpath = Clean basepath then Some ''.''
      else if IsAbs basepath \<noteq> IsAbs targpath then None
      else
        (case drop_common (path_comps basepath) (targ_comps targpath) of
           (bs, ts) \<Rightarrow>
             if bs \<noteq> [] \<and> hd bs = ''..'' then None
             else Some (join_slash (replicate (length bs) ''..'' @ ts))))"

text \<open>\<open>ev\<close> is \<^verbatim>\<open>filepath.EvalSymlinks\<close> on the present file system.\<close>

definition isSubpath :: "(string \<Rightarrow> string option) \<Rightarrow> string \<Rightarrow> string \<Rightarrow> bool" where
  "isSubpath ev parent child =
     (case ev parent of
        None \<Rightarrow> False
      | Some realParent \<Rightarrow>
          (case ev child of
             None \<Rightarrow> False
           | Some realChild \<Rightarrow>
               (case Rel realParent realChild of
                  None \<Rightarrow> False
                | Some rel \<Rightarrow> rel \<noteq> [] \<and> hd rel \<noteq> CHR ''.'')))"

text \<open>The file handed to \<^verbatim>\<open>http.ServeFile\<close>, or the refusal.\<close>

definition plugin_file ::
  "(string \<Rightarrow> string option) \<Rightarrow> string \<Rightarrow> string \<Rightarrow> string \<Rightarrow> response + string" where
  "plugin_file ev absBase robotType filePath0 =
     (let filePath = (if filePath0 = [] then ''index.js'' else filePath0);
          fullPath = Clean (Join [absBase, robotType, ''dist'', filePath])
      in if \<not> isSubpath ev absBase fullPath then Inl (HError 403 ''Forbidden'') else Inr fullPath)"

section \<open>Routes\<close>

text \<open>The endpoints that answer and end, as the router distinguishes them by method and path.\<close>

datatype endpoint =
    CheckToken | Logout | Ticket | Password
  | Heartbeat_Post
  | Robot_List | Robot_Detail | Robot_Message
  | Provision_List | Provision_Post | Provision_Get | Provision_Blacklist | Provision_Status
  | Ephemeral_Post | Ephemeral_Delete
  | Register_Post | Register_Pending
  | Handler_List | Handler_Types | Handler_Status | Handler_Start | Handler_Kill

definition protected :: "endpoint \<Rightarrow> bool" where
  "protected ep \<longleftrightarrow> ep \<notin> {CheckToken, Logout, Ticket, Heartbeat_Post}"

definition on_rst :: "('r \<Rightarrow> response \<times> 'r) \<Rightarrow> ('r, 'p, 'c) world \<Rightarrow> ('r, 'p, 'c) http_result" where
  "on_rst f w = (case f (rst (st w)) of (resp, r) \<Rightarrow> ([], resp, set_rst r w))"

fun handle ::
  "codec \<Rightarrow> bcrypt \<Rightarrow> ('r, 'p) tcp_server \<Rightarrow> http_req \<Rightarrow> endpoint \<Rightarrow> ('r, 'p, 'c) world \<Rightarrow> ('r, 'p, 'c) http_result" where
  "handle C B T rq CheckToken w = on_rst (checkToken T rq) w"
| "handle C B T rq Logout w = on_rst (logoutHandler T rq) w"
| "handle C B T rq Ticket w = on_rst (issueTicketHandler T rq) w"
| "handle C B T rq Password w = on_rst (changePasswordHandler T B rq) w"
| "handle C B T rq Heartbeat_Post w = http_handleHeartbeat T rq w"
| "handle C B T rq Robot_List w = getActiveRobots T w"
| "handle C B T rq Robot_Detail w = getRobotDetail C T rq w"
| "handle C B T rq Robot_Message w = sendRobotMessage rq w"
| "handle C B T rq Provision_List w = getAllRegisteredRobots C T w"
| "handle C B T rq Provision_Post w = provisionRobot T rq w"
| "handle C B T rq Provision_Get w = getRobotRecord C T rq w"
| "handle C B T rq Provision_Blacklist w = blacklistRobot T rq w"
| "handle C B T rq Provision_Status w = getRobotStatus T rq w"
| "handle C B T rq Ephemeral_Post w = createEphemeralSession T rq w"
| "handle C B T rq Ephemeral_Delete w = deleteEphemeralSession T rq w"
| "handle C B T rq Register_Post w = respondToRegistration T rq w"
| "handle C B T rq Register_Pending w = getPendingRegistrations T w"
| "handle C B T rq Handler_List w = listHandlers w"
| "handle C B T rq Handler_Types w = listHandlerTypes T w"
| "handle C B T rq Handler_Status w = getHandlerStatus rq w"
| "handle C B T rq Handler_Start w = startHandler T rq w"
| "handle C B T rq Handler_Kill w = killHandler rq w"

datatype http_route = Login | Rest endpoint

definition serve ::
  "codec \<Rightarrow> bcrypt \<Rightarrow> ('r, 'p) tcp_server \<Rightarrow> http_req \<Rightarrow> http_route \<Rightarrow> limiter \<times> ('r, 'p, 'c) world
   \<Rightarrow> http_ev list \<times> response \<times> limiter \<times> ('r, 'p, 'c) world" where
  "serve C B T rq rt Lw =
     (case Lw of (L, w) \<Rightarrow>
        (if snd (CORSMiddleware (Server (cfg (sv T))) rq) then ([], HReply 200 NoBody, L, w)
         else
           (case rt of
              Login \<Rightarrow>
                (case loginHandler T B rq (L, rst (st w)) of (resp, L', r) \<Rightarrow> ([], resp, L', set_rst r w))
            | Rest ep \<Rightarrow>
                (case (if protected ep then SessionValidationMiddleware T rq (handle C B T rq ep) w
                       else handle C B T rq ep w) of
                   (evs, resp, w') \<Rightarrow> (evs, resp, L, w')))))"

section \<open>What the endpoints do to the registry\<close>

lemma set_simps [simp]:
  "rst (st (set_rst r w)) = r" "pst (st (set_rst r w)) = pst (st w)" "en (set_rst r w) = en w"
  "pst (st (set_pst p w)) = p" "rst (st (set_pst p w)) = rst (st w)" "en (set_pst p w) = en w"
  "st (set_store s w) = s" "en (set_store s w) = en w"
  by (simp_all add: set_rst_def set_pst_def set_store_def)

lemma query_frame:
  assumes "postgres_service (pg S) robots"
  shows "GetRobotByUUID (pg S) u p = (x, p') \<Longrightarrow> robots p' = robots p"
    and "GetAllRobots (pg S) p = (y, p') \<Longrightarrow> robots p' = robots p"
  using postgres_service.select_frame[OF assms] postgres_service.select_all_frame[OF assms]
  by (auto simp: GetRobotByUUID_def GetAllRobots_def query_rows_def split: prod.splits sum.splits)

lemma heartbeat_pst: "pst (snd (ProcessHeartbeat S now u p g ip s)) = snd (GetRobotByUUID (pg S) u (pst s))"
  by (simp add: ProcessHeartbeat_def Let_def split: prod.split sum.split option.split)

lemma target_pst:
  "pst (snd (handler_target T u s)) = pst s \<or> pst (snd (handler_target T u s)) = snd (GetRobotByUUID (pg (sv T)) u (pst s))"
  by (simp add: handler_target_def split: prod.split sum.split)

text \<open>All endpoints but two leave the registry alone.\<close>

lemma on_rst_pst: "on_rst f w = (evs, resp, w') \<Longrightarrow> pst (st w') = pst (st w)"
  by (auto simp: on_rst_def split: prod.splits)

lemma registered_registry:
  assumes "postgres_service (pg (sv T)) robots"
  shows "robots (pst (st (snd (registered T u w)))) = robots (pst (st w))"
  using query_frame(1)[OF assms] by (auto simp: registered_def split: prod.splits sum.splits)

lemma ephemeral_registry:
  assumes "postgres_service (pg (sv T)) robots"
  shows "robots (pst (st (snd (snd (createEphemeralSession T rq w))))) = robots (pst (st w))"
proof -
  have r: "robots (pst (st w2)) = robots (pst (st w))" if "registered T u (set_rst r1 w) = (b, w2)" for u r1 b w2
    using registered_registry[OF assms, of u "set_rst r1 w"] that by simp
  show ?thesis
    by (simp add: createEphemeralSession_def Let_def r split: option.split prod.split sum.split bool.split)
qed

lemma start_registry:
  assumes "postgres_service (pg (sv T)) robots"
  shows "robots (pst (st (snd (snd (startHandler T rq w))))) = robots (pst (st w))"
proof -
  have t: "robots (pst s') = robots (pst s)" if "handler_target T u s = (x, s')" for u s x s'
    using target_pst[of T u s] query_frame(1)[OF assms] that by (metis prod.collapse snd_conv)
  show ?thesis
    by (simp add: startHandler_def start_marked_def split: option.split prod.split sum.split bool.split) (auto dest: t)
qed

lemma handle_registry:
  assumes "postgres_service (pg (sv T)) robots" and "ep \<notin> {Provision_Post, Provision_Blacklist}"
  shows "robots (pst (st (snd (snd (handle C B T rq ep w))))) = robots (pst (st w))"
proof -
  note q = query_frame[OF assms(1)]
  have hb: "robots (pst s') = robots (pst s)" if "ProcessHeartbeat (sv T) now u p g ip s = (x, s')" for now u p g ip s x s'
    using heartbeat_pst[of "sv T" now u p g ip s] that q(1) by (metis prod.collapse snd_conv)
  show ?thesis
    using assms(2) ephemeral_registry[OF assms(1)] start_registry[OF assms(1)]
    by (cases ep) (auto simp: on_rst_def getActiveRobots_def getRobotDetail_def sendRobotMessage_def getRobotRecord_def
        getAllRegisteredRobots_def getRobotStatus_def deleteEphemeralSession_def respondToRegistration_def
        getPendingRegistrations_def listHandlers_def listHandlerTypes_def getHandlerStatus_def killHandler_def
        http_handleHeartbeat_def split: prod.split sum.split option.split dest: q hb)
qed

lemma provision_registry:
  assumes "postgres_service (pg (sv T)) robots" and "robots (pst (st w)) u = Some r"
  shows "robots (pst (st (snd (snd (provisionRobot T rq w))))) u = Some r"
  using assms(2) postgres_service.insert_keeps[OF assms(1) _ assms(2)]
  by (auto simp: provisionRobot_def RegisterRobot_def split: option.split prod.split sum.split)

lemma blacklist_registry:
  assumes "postgres_service (pg (sv T)) robots" and "robots (pst (st w)) u = Some r"
  shows "\<exists>r'. robots (pst (st (snd (snd (blacklistRobot T rq w))))) u = Some r'
    \<and> rr_PublicKey r' = rr_PublicKey r \<and> rr_DeviceType r' = rr_DeviceType r \<and> (u \<noteq> h_param rq \<longrightarrow> r' = r)"
proof -
  have k: "\<exists>r'. robots p u = Some r' \<and> rr_PublicKey r' = rr_PublicKey r \<and> rr_DeviceType r' = rr_DeviceType r
      \<and> (u \<noteq> v \<longrightarrow> r' = r)" if "pgUpdateBlacklisted (pg (sv T)) b v (pst (st w)) = (x, p)" for b v x p
    using that assms(2) postgres_service.update_ok[OF assms(1)] postgres_service.update_err[OF assms(1)]
    by (cases x) fastforce+
  show ?thesis
    using assms(2) k[of _ "h_param rq"]
    by (auto simp: blacklistRobot_def BlacklistRobot_def split: option.split prod.split sum.split)
qed

lemma handle_keeps:
  assumes "postgres_service (pg (sv T)) robots" and "robots (pst (st w)) u = Some r"
  shows "\<exists>r'. robots (pst (st (snd (snd (handle C B T rq ep w))))) u = Some r' \<and> rr_PublicKey r' = rr_PublicKey r
      \<and> rr_DeviceType r' = rr_DeviceType r \<and> (r' \<noteq> r \<longrightarrow> ep = Provision_Blacklist \<and> h_param rq = u)"
proof -
  consider "ep = Provision_Post" | "ep = Provision_Blacklist" | "ep \<notin> {Provision_Post, Provision_Blacklist}"
    by blast
  then show ?thesis
  proof cases
    case 1
    then show ?thesis using provision_registry[OF assms] by simp
  next
    case 2
    then show ?thesis using blacklist_registry[OF assms, of rq] by auto
  next
    case 3
    then show ?thesis using handle_registry[OF assms(1) 3, of C B rq w] assms(2) by simp
  qed
qed

text \<open>What the middleware lets through.\<close>

lemma serve_cases:
  assumes "serve C B T rq rt (L, w) = (evs, resp, L', w')"
  shows "pst (st w') = pst (st w) \<or> (\<exists>ep v. rt = Rest ep
    \<and> (protected ep \<longrightarrow> fst (validateSessionFull T rq (rst (st w))) \<noteq> None)
    \<and> pst (st v) = pst (st w) \<and> w' = snd (snd (handle C B T rq ep v)))"
proof (cases rt)
  case Login
  then show ?thesis
    using assms by (auto simp: serve_def split: prod.splits if_splits)
next
  case (Rest ep)
  obtain x r where v: "validateSessionFull T rq (rst (st w)) = (x, r)"
    by (cases "validateSessionFull T rq (rst (st w))")
  consider "pst (st w') = pst (st w)" | "protected ep" "x \<noteq> None" "w' = snd (snd (handle C B T rq ep (set_rst r w)))"
    | "\<not> protected ep" "w' = snd (snd (handle C B T rq ep w))"
    using assms v Rest
    by (cases x) (auto simp: serve_def SessionValidationMiddleware_def split: prod.splits if_splits)
  then show ?thesis
  proof cases
    case 2
    have "pst (st (set_rst r w)) = pst (st w)" by simp
    then show ?thesis using Rest 2 v by (metis fst_conv)
  next
    case 3
    then show ?thesis using Rest by blast
  qed blast
qed

section \<open>Properties\<close>

text \<open>C15: Protected endpoints need a session.  A request to any endpoint behind the session check
  either carries a token that validates at that time and whose session Redis holds for the
  same user, or it is answered 401 and changes nothing: no handler, no robot record, no
  event, and of Redis at most what expired meanwhile.\<close>

theorem protected_needs_session:
  assumes "redis_service (rds (sv T)) live" and "has_rds (db T)" and "protected ep" and "h_method rq \<noteq> ''OPTIONS''"
    and "serve C B T rq (Rest ep) (L, w) = (evs, resp, L', w')"
  shows "(\<exists>s. parseSessionFromToken T (unix rq) (extractRawToken rq) = Some s
        \<and> session_stored (live (rst (st w))) (extractRawToken rq) (UserID s))
    \<or> evs = [] \<and> resp = unauthorized \<and> L' = L \<and> en w' = en w \<and> pst (st w') = pst (st w)
      \<and> live (rst (st w')) \<subseteq>\<^sub>m live (rst (st w))"
proof (cases "validateSessionFull T rq (rst (st w))")
  case (Pair x r)
  show ?thesis
  proof (cases x)
    case None
    then show ?thesis
      using assms(3-5) Pair validate_frame[OF assms(1) Pair]
      by (auto simp: serve_def CORSMiddleware_def SessionValidationMiddleware_def)
  next
    case (Some s)
    note v = Pair[unfolded Some]
    obtain claims where "ValidateUserJWT (crypto (sv T)) (Config.Auth (cfg (sv T))) (unix rq) (extractRawToken rq) = Inr claims"
      "UserID s = u_Sub claims"
      using validate_Some[OF v assms(2)] by blast
    then have "\<exists>s'. parseSessionFromToken T (unix rq) (extractRawToken rq) = Some s' \<and> UserID s' = UserID s"
      by (simp add: parseSessionFromToken_def)
    then show ?thesis
      using validate_sound[OF assms(1,2) v] by auto
  qed
qed

definition sample_codec :: codec where
  "sample_codec = \<lparr>numAny = Some, fmtTime = show_int\<rparr>"

theorem protected_needs_session_witness:
  "\<exists>resp L' w'. serve sample_codec sample_bcrypt sample_tcp (sample_req 9 [] []) (Rest Handler_Kill) (Map.empty, sample_world)
     = ([], resp, L', w') \<and> resp = unauthorized \<and> en w' = en sample_world"
proof -
  let ?rq = "sample_req 9 [] []"
  have r: "redis_service (rds (sv sample_tcp)) map_of" and d: "has_rds (db sample_tcp)"
    using mem_redis.redis_service_axioms by (simp_all add: sample_tcp_def sample_server_def)
  have m: "h_method ?rq \<noteq> ''OPTIONS''" and n: "parseSessionFromToken sample_tcp (unix ?rq) (extractRawToken ?rq) = None"
    by (simp_all add: sample_req_def extractRawToken_def parseSessionFromToken_def ValidateUserJWT_def sample_tcp_def
        sample_server_def sample_auth_def check_token_def numeral_3_eq_3)
  obtain evs resp L' w' where s: "serve sample_codec sample_bcrypt sample_tcp ?rq (Rest Handler_Kill) (Map.empty, sample_world)
     = (evs, resp, L', w')" by (metis prod_cases4)
  show ?thesis
    using protected_needs_session[OF r d _ m s] n s by (auto simp: protected_def)
qed

text \<open>The keys of registered robots do not change.  No request to any endpoint, whoever sends
  it, removes a robot from the registry or changes its public key or device type; and its
  blacklist flag changes only through a blacklist request that names it and carries a
  session.\<close>

theorem registry_keys_immutable:
  assumes "postgres_service (pg (sv T)) robots" and "serve C B T rq rt (L, w) = (evs, resp, L', w')"
    and "robots (pst (st w)) u = Some r"
  shows "\<exists>r'. robots (pst (st w')) u = Some r' \<and> rr_PublicKey r' = rr_PublicKey r \<and> rr_DeviceType r' = rr_DeviceType r
    \<and> (r' \<noteq> r \<longrightarrow> rt = Rest Provision_Blacklist \<and> h_param rq = u
        \<and> fst (validateSessionFull T rq (rst (st w))) \<noteq> None)"
proof -
  consider "pst (st w') = pst (st w)"
    | ep v where "rt = Rest ep" "protected ep \<longrightarrow> fst (validateSessionFull T rq (rst (st w))) \<noteq> None"
        "pst (st v) = pst (st w)" "w' = snd (snd (handle C B T rq ep v))"
    using serve_cases[OF assms(2)] by blast
  then show ?thesis
  proof cases
    case (2 ep v)
    have "robots (pst (st v)) u = Some r" using assms(3) 2(3) by simp
    from handle_keeps[OF assms(1) this, of C B rq ep] show ?thesis
      using 2 by (auto simp: protected_def)
  qed (use assms(3) in simp)
qed

theorem registry_keys_immutable_witness:
  "\<exists>evs resp L' w' r'. serve sample_codec sample_bcrypt sample_tcp (sample_req 9 [] []) (Rest Provision_Blacklist) (Map.empty, sample_world)
     = (evs, resp, L', w') \<and> mem_robots (pst (st w')) ''r1'' = Some r' \<and> rr_PublicKey r' = sample_key"
proof -
  have p: "postgres_service (pg (sv sample_tcp)) mem_robots"
    using mem_postgres.postgres_service_axioms by (simp add: sample_tcp_def sample_server_def)
  have u: "mem_robots (pst (st sample_world)) ''r1'' = Some sample_record"
    by (simp add: mem_robots_def sample_world_def sample_store_def sample_record_def)
  obtain evs resp L' w' where s: "serve sample_codec sample_bcrypt sample_tcp (sample_req 9 [] []) (Rest Provision_Blacklist)
     (Map.empty, sample_world) = (evs, resp, L', w')" by (metis prod_cases4)
  show ?thesis
    using registry_keys_immutable[OF p s u] s by (auto simp: sample_record_def)
qed

subsection \<open>Plugin files\<close>

lemma drop_common_split:
  "drop_common bs ts = (bs', ts') \<Longrightarrow> \<exists>c. bs = c @ bs' \<and> ts = c @ ts'"
proof (induction bs ts rule: drop_common.induct)
  case (1 b bs t ts)
  show ?case
  proof (cases "b = t")
    case True
    then obtain c where "bs = c @ bs'" "ts = c @ ts'"
      using 1 by auto
    then show ?thesis using True by (intro exI[of _ "b # c"]) simp
  qed (use 1(2) in auto)
qed auto

lemma drop_common_prefix: "drop_common c (c @ ts) = ([], ts)"
proof (induction c)
  case Nil
  then show ?case by (cases ts) simp_all
qed simp

lemma comps_nonempty: "c \<in> set (path_comps p) \<Longrightarrow> c \<noteq> []"
  using clean_ok_no_slash[OF path_comps_ok[of p]] by (auto simp: list_all_iff)

lemma hd_join: "cs \<noteq> [] \<Longrightarrow> hd cs \<noteq> [] \<Longrightarrow> join_slash cs \<noteq> [] \<and> hd (join_slash cs) = hd (hd cs)"
  by (cases cs rule: join_slash.cases) auto

text \<open>Plugin files lie below the handler directory.  The check passes exactly if, symbolic links
  resolved on both sides, the elements of the file's path are those of the directory followed
  by at least one more, the first of which does not begin with a dot.\<close>

theorem isSubpath_iff:
  "isSubpath ev parent child \<longleftrightarrow>
   (\<exists>rp rc rest. ev parent = Some rp \<and> ev child = Some rc \<and> IsAbs rc = IsAbs rp
      \<and> path_comps rc = path_comps rp @ rest \<and> rest \<noteq> [] \<and> hd (hd rest) \<noteq> CHR ''.'')"
proof
  assume "isSubpath ev parent child"
  then obtain rp rc rel where e: "ev parent = Some rp" "ev child = Some rc" "Rel rp rc = Some rel" "rel \<noteq> []" "hd rel \<noteq> CHR ''.''"
    by (auto simp: isSubpath_def split: option.splits)
  then have a: "IsAbs rc = IsAbs rp"
    by (auto simp: Rel_def split: if_splits)
  obtain bs ts where d: "drop_common (path_comps rp) (targ_comps rc) = (bs, ts)"
    by (cases "drop_common (path_comps rp) (targ_comps rc)")
  have r: "rel = join_slash (replicate (length bs) ''..'' @ ts)"
    using e(3,5) d by (auto simp: Rel_def split: if_splits)
  have b: "bs = []"
  proof (cases bs)
    case (Cons x xs)
    then show ?thesis
      using e(5) r hd_join[of "replicate (length bs) ''..'' @ ts"] by auto
  qed
  have t: "targ_comps rc = path_comps rp @ ts"
    using drop_common_split[OF d] b by auto
  have ts: "ts \<noteq> []" using e(4) r b by auto
  have n: "targ_comps rc = path_comps rc"
  proof (rule ccontr)
    assume "targ_comps rc \<noteq> path_comps rc"
    then have "ts = [''.'']"
      using t ts by (cases "path_comps rp") (auto simp: targ_comps_def split: if_splits)
    then show False using e(5) r b by simp
  qed
  have "hd ts \<noteq> []"
    using comps_nonempty[of "hd ts" rc] t n ts by (metis hd_in_set Un_iff set_append)
  then have "hd (hd ts) \<noteq> CHR ''.''"
    using hd_join[OF ts] e(5) r b by simp
  then show "\<exists>rp rc rest. ev parent = Some rp \<and> ev child = Some rc \<and> IsAbs rc = IsAbs rp
      \<and> path_comps rc = path_comps rp @ rest \<and> rest \<noteq> [] \<and> hd (hd rest) \<noteq> CHR ''.''"
    using e(1,2) a t n ts by auto
next
  assume "\<exists>rp rc rest. ev parent = Some rp \<and> ev child = Some rc \<and> IsAbs rc = IsAbs rp
      \<and> path_comps rc = path_comps rp @ rest \<and> rest \<noteq> [] \<and> hd (hd rest) \<noteq> CHR ''.''"
  then obtain rp rc rest where e: "ev parent = Some rp" "ev child = Some rc" "IsAbs rc = IsAbs rp"
    "path_comps rc = path_comps rp @ rest" "rest \<noteq> []" "hd (hd rest) \<noteq> CHR ''.''" by blast
  have c: "Clean rc \<noteq> Clean rp"
    using path_comps_Clean(1)[of rc] path_comps_Clean(1)[of rp] e(4,5) by auto
  have "hd rest \<noteq> []"
    using comps_nonempty[of "hd rest" rc] e(4,5) by simp
  moreover have "Rel rp rc = Some (join_slash rest)"
    using c e(3-5) drop_common_prefix[of "path_comps rp" rest] by (simp add: Rel_def targ_comps_def)
  ultimately show "isSubpath ev parent child"
    using e(1,2,5,6) hd_join[of rest] by (simp add: isSubpath_def)
qed

subsection \<open>Ephemeral sessions\<close>

lemma ephemeral_Some:
  assumes "createEphemeralSession T rq w = (evs, HReply n b, w')"
  shows "\<exists>u d i e0 r1 w2 sid jwt.
    GetActiveRobot (rds (sv T)) u (rst (st w)) = (Inl e0, r1) \<and> registered T u (set_rst r1 w) = (False, w2)
    \<and> IssueSessionJWT (crypto (sv T)) (Config.Auth (cfg (sv T))) (unix rq) u d i sid = Inr jwt
    \<and> b = NewSession u sid jwt (TTL (Redis (cfg (sv T)))) \<and> en w' = en w
    \<and> SetActiveRobot (rds (sv T)) \<lparr>ar_UUID = u, ar_IP = i, ar_DeviceType = d,
        ar_SessionJWT = jwt, ar_PID = 0, ar_ConnectedAt = unix rq\<rparr> (TTL (Redis (cfg (sv T)))) (rst (st w2)) = (Inr (), rst (st w'))"
proof -
  have e: "en w2 = en w" if "registered T u (set_rst r1 w) = (b, w2)" for u r1 b w2
    using that by (auto simp: registered_def split: if_splits prod.splits sum.splits)
  show ?thesis
    using assms unfolding createEphemeralSession_def Let_def
    by (simp add: no_cache_def del: if_split
        split: option.split_asm prod.split_asm if_split_asm sum.split_asm bool.split_asm)
       (use e in \<open>fastforce simp del: if_split\<close>)+
qed

text \<open>An ephemeral session takes nobody's place.  While Redis answers, a session is created only
  for an identifier that has no readable active session in Redis and that the registry did
  not return; the only entry written is that identifier's session, with a token issued for
  it, and no handler is touched.  (Errors of the lookups count as nothing found.)\<close>

theorem ephemeral_session_safe:
  assumes "redis_steady (rds (sv T)) live" and "createEphemeralSession T rq w = (evs, HReply n b, w')"
  shows "\<exists>u d i sid jwt.
    (\<forall>v t. live (rst (st w)) (robotKey u) = Some (v, t) \<longrightarrow> dec_ActiveRobot v = None)
    \<and> (has_pg (db T) \<longrightarrow> (\<exists>e p. GetRobotByUUID (pg (sv T)) u (pst (st w)) = (Inl e, p)))
    \<and> IssueSessionJWT (crypto (sv T)) (Config.Auth (cfg (sv T))) (unix rq) u d i sid = Inr jwt
    \<and> b = NewSession u sid jwt (TTL (Redis (cfg (sv T)))) \<and> en w' = en w
    \<and> live (rst (st w')) = (live (rst (st w)))(robotKey u \<mapsto> (enc_ActiveRobot \<lparr>ar_UUID = u, ar_IP = i, ar_DeviceType = d,
        ar_SessionJWT = jwt, ar_PID = 0, ar_ConnectedAt = unix rq\<rparr>, TTL (Redis (cfg (sv T)))))"
proof -
  obtain u d i e0 r1 w2 sid jwt where k: "GetActiveRobot (rds (sv T)) u (rst (st w)) = (Inl e0, r1)"
    "registered T u (set_rst r1 w) = (False, w2)"
    "IssueSessionJWT (crypto (sv T)) (Config.Auth (cfg (sv T))) (unix rq) u d i sid = Inr jwt"
    "b = NewSession u sid jwt (TTL (Redis (cfg (sv T))))" "en w' = en w"
    "SetActiveRobot (rds (sv T)) \<lparr>ar_UUID = u, ar_IP = i, ar_DeviceType = d,
        ar_SessionJWT = jwt, ar_PID = 0, ar_ConnectedAt = unix rq\<rparr> (TTL (Redis (cfg (sv T)))) (rst (st w2)) = (Inr (), rst (st w'))"
    using ephemeral_Some[OF assms(2)] by blast
  let ?ar = "\<lparr>ar_UUID = u, ar_IP = i, ar_DeviceType = d,
        ar_SessionJWT = jwt, ar_PID = 0, ar_ConnectedAt = unix rq\<rparr>"
  have r1: "r1 = rst (st w)"
    using redis_steady.get_json_state[OF assms(1), of dec_ActiveRobot "robotKey u" "rst (st w)"] k(1)
    by (simp add: GetActiveRobot_def)
  have a: "dec_ActiveRobot v = None" if "live (rst (st w)) (robotKey u) = Some (v, t)" for v t
    using redis_steady.get_json_total[OF assms(1) that, of dec_ActiveRobot] k(1)
    by (cases "dec_ActiveRobot v") (auto simp: GetActiveRobot_def)
  have g: "has_pg (db T) \<longrightarrow> (\<exists>e p. GetRobotByUUID (pg (sv T)) u (pst (st w)) = (Inl e, p))"
    and w2: "rst (st w2) = rst (st w)"
    using k(2) r1 by (auto simp: registered_def split: if_splits prod.splits sum.splits)
  have "live (rst (st w')) = (live (rst (st w2)))(robotKey u \<mapsto> (enc_ActiveRobot ?ar, TTL (Redis (cfg (sv T)))))"
    using redis_steady.set_total[OF assms(1), of "robotKey u" "enc_ActiveRobot ?ar" "TTL (Redis (cfg (sv T)))" "rst (st w2)"] k(6)
    by (auto simp: SetActiveRobot_def)
  then show ?thesis
    using a g w2 k(3-5)
    by (intro exI[of _ u] exI[of _ d] exI[of _ i] exI[of _ sid] exI[of _ jwt]) simp
qed

definition ephemeral_body :: string where
  "ephemeral_body = json_print (JObj [(''uuid'', JStr ''e1''), (''device_type'', JStr ''arm'')])"

lemma dec_ephemeral_sample: "dec_EphemeralRequest ephemeral_body = Some (''e1'', ''arm'', [])"
proof -
  have "valid_utf8 ''e1''" "valid_utf8 ''arm''"
    by (rule valid_utf8_ascii; simp add: byte_in_def)+
  then have w: "wf_json (JObj [(''uuid'', JStr ''e1''), (''device_type'', JStr ''arm'')])"
    by simp
  have "length ephemeral_body \<le> maxRequestBodySize"
    by (simp add: ephemeral_body_def maxRequestBodySize_def print_str_def json_escape.simps byte_in_def rune2_def esc_ascii_def)
  then show ?thesis
    using parseJSONRequest_print[OF w] by (simp add: dec_EphemeralRequest_def ephemeral_body_def field_defs del: json_print.simps)
qed

theorem ephemeral_session_safe_witness:
  "\<exists>b w' u. createEphemeralSession sample_tcp ((sample_req 9 [] ephemeral_body)\<lparr>h_env := sample_env 9\<rparr>) sample_world = ([], HReply 201 b, w')
     \<and> map_of (rst (st w')) (robotKey u) \<noteq> None"
proof -
  let ?rq = "(sample_req 9 [] ephemeral_body)\<lparr>h_env := sample_env 9\<rparr>"
  have f: "h_body ?rq = ephemeral_body" "rndSession (sample_env 9) = None" "h_remote ?rq = ''10.0.0.1:99''"
    by (simp_all add: sample_req_def sample_env_def)
  have g: "GetActiveRobot mem_redis ''e1'' [] = (Inl ''redis: nil'', [])"
    by (simp add: GetActiveRobot_def get_json_def mem_redis_def)
  have p: "GetRobotByUUID mem_postgres ''e1'' [(''r1'', sample_record)] = (Inl ''sql: no rows in result set'', [(''r1'', sample_record)])"
    by (simp add: GetRobotByUUID_def mem_postgres_def)
  have "\<exists>b w'. createEphemeralSession sample_tcp ?rq sample_world = ([], HReply 201 b, w')"
    by (simp add: createEphemeralSession_def dec_ephemeral_sample f registered_def GenerateSessionID_def GenerateNonce_def
        sample_tcp_def sample_server_def sample_world_def sample_store_def g p IssueSessionJWT_def sample_auth_def Let_def
        SetActiveRobot_def del: hex_EncodeToString.simps) (simp add: mem_redis_def)
  then obtain b w' where c: "createEphemeralSession sample_tcp ?rq sample_world = ([], HReply 201 b, w')" by blast
  have r: "redis_steady (rds (sv sample_tcp)) map_of"
    using mem_redis.redis_steady_axioms by (simp add: sample_tcp_def sample_server_def)
  show ?thesis
    using ephemeral_session_safe[OF r c] c by auto
qed

subsection \<open>Starting handlers\<close>

lemma on_proc_tables: "on_proc a f e = Some e' \<Longrightarrow> handlers e' = handlers e \<and> spawning e' = spawning e"
  by (auto simp: on_proc_def split: option.splits)

lemma register_tables:
  assumes "register_process id1 id2 hp e = Some (a, e')"
  shows "handlers e' = AList.update (hp_UUID hp) a (handlers e) \<and> spawning e' = spawning e"
  using assms
  by (auto simp: register_process_def add_process_def setupBusSubscriptions_def subscribe_proc_def Register_def Let_def
      split: option.splits prod.splits dest!: on_proc_tables)

lemma spawn_tables:
  assumes "SpawnHandlerProcess S F pidr id1 id2 u dt ip sid c (r, e) = Some (x, r', e')"
  shows "handlers e' = (case x of Inl _ \<Rightarrow> handlers e | Inr a \<Rightarrow> AList.update u a (handlers e)) \<and> spawning e' = spawning e"
proof (cases x)
  case (Inl m)
  then show ?thesis
    using assms by (auto simp: SpawnHandlerProcess_def Let_def split: sum.splits option.splits)
next
  case (Inr a)
  then obtain pid where "register_process id1 id2 (new_process u dt ip sid pid c) e = Some (a, e')"
    using assms by (auto simp: SpawnHandlerProcess_def Let_def split: sum.splits option.splits)
  from register_tables[OF this] show ?thesis
    using Inr by (simp add: new_process_def)
qed

lemma start_marked_cases:
  assumes "start_marked T rq w = (resp, w')"
  shows "en w' = en w \<and> status_of resp \<noteq> 200
    \<or> (\<exists>dt ip sid r x r'. SpawnHandlerProcess (sv T) (fs T) (osPid (h_env rq)) (fst (ids (h_env rq))) (snd (ids (h_env rq)))
         (h_param rq) dt ip sid None (r, en w) = Some (x, r', en w') \<and> (isl x \<longrightarrow> status_of resp \<noteq> 200))"
proof (cases "handler_target T (h_param rq) (st w)")
  case (Pair q s)
  show ?thesis
  proof (cases "GenerateSessionID (rndSession (h_env rq)) (nano (h_env rq))")
    case None
    then show ?thesis
      using assms Pair by (auto simp: start_marked_def split: if_splits option.splits)
  next
    case (Some sid)
    then show ?thesis
      using assms Pair unfolding start_marked_def
      by (simp split: if_split_asm option.split_asm prod.split_asm sum.split_asm) (force simp: isl_def)+
  qed
qed

lemma start_marked_tables:
  assumes "start_marked T rq w = (resp, w')"
  shows "handlers (en w') = handlers (en w) \<and> status_of resp \<noteq> 200
    \<or> (\<exists>a. handlers (en w') = AList.update (h_param rq) a (handlers (en w)))"
  using start_marked_cases[OF assms]
proof (elim disjE exE conjE)
  fix dt ip sid r x r'
  assume "SpawnHandlerProcess (sv T) (fs T) (osPid (h_env rq)) (fst (ids (h_env rq))) (snd (ids (h_env rq)))
         (h_param rq) dt ip sid None (r, en w) = Some (x, r', en w')" and i: "isl x \<longrightarrow> status_of resp \<noteq> 200"
  from spawn_tables[OF this(1)] i show ?thesis
    by (cases x) auto
qed simp

text \<open>C25: Starting a handler is exclusive.  For a robot whose handler runs or is being spawned the
  request is refused and nothing changes.  Otherwise the spawn mark is gone again when the
  request ends, however it ends, no other robot's handler is replaced or removed, and if the
  answer is 200 the robot has a handler.\<close>

theorem startHandler_exclusive:
  assumes "startHandler T rq w = (evs, resp, w')"
  shows "if Get (h_param rq) (en w) \<noteq> None \<or> map_of (spawning (en w)) (h_param rq) = Some True
    then status_of resp = 409 \<and> w' = w
    else map_of (spawning (en w')) (h_param rq) = None
      \<and> (\<forall>u. u \<noteq> h_param rq \<longrightarrow> Get u (en w') = Get u (en w))
      \<and> (status_of resp = 200 \<longrightarrow> Get (h_param rq) (en w') \<noteq> None)"
proof (cases "Get (h_param rq) (en w) \<noteq> None \<or> map_of (spawning (en w)) (h_param rq) = Some True")
  case True
  then show ?thesis
    using assms by (auto simp: startHandler_def TryStartSpawning_def Get_def split: if_splits)
next
  case False
  let ?e = "(en w)\<lparr>spawning := AList.update (h_param rq) True (spawning (en w))\<rparr>"
  obtain w1 where m: "start_marked T rq (w\<lparr>en := ?e\<rparr>) = (resp, w1)"
    and w': "w' = w1\<lparr>en := FinishSpawning (h_param rq) (en w1)\<rparr>"
    using assms False by (auto simp: startHandler_def TryStartSpawning_def Get_def split: prod.splits)
  show ?thesis
    using start_marked_tables[OF m] False
    by (auto simp: w' FinishSpawning_def Get_def delete_conv update_conv)
qed

theorem startHandler_exclusive_witness:
  "\<exists>evs resp. startHandler sample_tcp (sample_req 9 [] []) sample_world = (evs, resp, sample_world) \<and> status_of resp = 409"
proof -
  obtain evs resp w' where s: "startHandler sample_tcp (sample_req 9 [] []) sample_world = (evs, resp, w')"
    by (metis prod_cases3)
  have "Get (h_param (sample_req 9 [] [])) (en sample_world) \<noteq> None"
    by (simp add: Get_def sample_req_def sample_world_def)
  then show ?thesis
    using startHandler_exclusive[OF s] s by simp
qed

end
