(* ===== verification/Subscription_Tables.thy ===== *)
theory Subscription_Tables
  imports Handler_Process
begin

text \<open>
  The table of cancel functions by event type that the event streams, the web sockets and
  the terminal keep (\<^verbatim>\<open>SubscribeToEvent\<close>, \<^verbatim>\<open>subscribe\<close>,
  \<^verbatim>\<open>subscribeCommand\<close> and their counterparts share it word for word).  The locale
  \<open>sub_table\<close> is the contract; what follows for any use of a table, that clearing it
  restores the bus, is proved once.
\<close>

type_synonym 'h sub_state = "(string, string \<times> Subscriber) gomap \<times> 'h LocalBus"

text \<open>The new subscription is made before the old one of the same type is cancelled.\<close>

definition table_put :: "string \<Rightarrow> Subscriber \<Rightarrow> string \<Rightarrow> 'h \<Rightarrow> 'h sub_state \<Rightarrow> 'h sub_state option" where
  "table_put newID sub eventType h s =
     (case SubscribeEvent newID sub eventType h (snd s) of
        (cancel, b1) \<Rightarrow>
          (case map_of (fst s) eventType of
             None \<Rightarrow> Some (AList.update eventType cancel (fst s), b1)
           | Some existing \<Rightarrow>
               (case cancelEvent existing b1 of
                  None \<Rightarrow> None
                | Some b2 \<Rightarrow> Some (AList.update eventType cancel (fst s), b2))))"

definition table_drop :: "string \<Rightarrow> 'h sub_state \<Rightarrow> 'h sub_state option" where
  "table_drop eventType s =
     (case map_of (fst s) eventType of
        None \<Rightarrow> Some s
      | Some cancel \<Rightarrow>
          (case cancelEvent cancel (snd s) of
             None \<Rightarrow> None
           | Some b \<Rightarrow> Some (AList.delete eventType (fst s), b)))"

definition table_clear :: "'h sub_state \<Rightarrow> 'h sub_state option" where
  "table_clear s = (case cancel_all (map snd (fst s)) (snd s) of None \<Rightarrow> None | Some b \<Rightarrow> Some ([], b))"

section \<open>The contract\<close>

datatype 'h sub_op = SPut string Subscriber string 'h | SDrop string

text \<open>A run of operations, each new subscriber being one the bus does not know.\<close>

fun sub_run ::
  "(string \<Rightarrow> Subscriber \<Rightarrow> string \<Rightarrow> 'h \<Rightarrow> 's \<Rightarrow> 's option) \<Rightarrow> (string \<Rightarrow> 's \<Rightarrow> 's option)
   \<Rightarrow> 'h sub_op list \<Rightarrow> 's \<Rightarrow> 's option" where
  "sub_run put drp [] s = Some s"
| "sub_run put drp (SPut i sub ev h # os) s =
     (case put i sub ev h s of None \<Rightarrow> None | Some s' \<Rightarrow> sub_run put drp os s')"
| "sub_run put drp (SDrop ev # os) s = (case drp ev s of None \<Rightarrow> None | Some s' \<Rightarrow> sub_run put drp os s')"

fun sub_fresh ::
  "(string \<Rightarrow> Subscriber \<Rightarrow> string \<Rightarrow> 'h \<Rightarrow> 's \<Rightarrow> 's option) \<Rightarrow> (string \<Rightarrow> 's \<Rightarrow> 's option)
   \<Rightarrow> ('s \<Rightarrow> string \<times> Subscriber \<Rightarrow> 'h option) \<Rightarrow> 'h sub_op list \<Rightarrow> 's \<Rightarrow> bool" where
  "sub_fresh put drp view [] s = True"
| "sub_fresh put drp view (SPut i sub ev h # os) s \<longleftrightarrow> ev \<noteq> [] \<and> view s (ev, sub) = None
     \<and> (case put i sub ev h s of None \<Rightarrow> True | Some s' \<Rightarrow> sub_fresh put drp view os s')"
| "sub_fresh put drp view (SDrop ev # os) s \<longleftrightarrow>
     (case drp ev s of None \<Rightarrow> True | Some s' \<Rightarrow> sub_fresh put drp view os s')"

locale sub_table =
  fixes put :: "string \<Rightarrow> Subscriber \<Rightarrow> string \<Rightarrow> 'h \<Rightarrow> 's \<Rightarrow> 's option"
    and drp :: "string \<Rightarrow> 's \<Rightarrow> 's option"
    and clear :: "'s \<Rightarrow> 's option"
    and mine :: "'s \<Rightarrow> string \<Rightarrow> Subscriber option"
    and view :: "'s \<Rightarrow> string \<times> Subscriber \<Rightarrow> 'h option"
    and ok :: "'s \<Rightarrow> bool"
  assumes put_ok: "ok s \<Longrightarrow> ev \<noteq> [] \<Longrightarrow> view s (ev, sub) = None \<Longrightarrow>
      \<exists>s'. put i sub ev h s = Some s' \<and> ok s' \<and> mine s' = (mine s)(ev \<mapsto> sub)
        \<and> view s' = (case mine s ev of None \<Rightarrow> (view s)((ev, sub) \<mapsto> h)
            | Some old \<Rightarrow> (view s)((ev, old) := None, (ev, sub) \<mapsto> h))"
    and drop_ok: "ok s \<Longrightarrow>
      \<exists>s'. drp ev s = Some s' \<and> ok s' \<and> mine s' = (mine s)(ev := None)
        \<and> view s' = (case mine s ev of None \<Rightarrow> view s | Some old \<Rightarrow> (view s)((ev, old) := None))"
    and clear_ok: "ok s \<Longrightarrow>
      \<exists>s'. clear s = Some s' \<and> ok s' \<and> mine s' = Map.empty
        \<and> view s' = (\<lambda>(ev, x). if mine s ev = Some x then None else view s (ev, x))"
    and mine_view: "ok s \<Longrightarrow> mine s ev = Some x \<Longrightarrow> view s (ev, x) \<noteq> None"
begin

text \<open>What the bus holds besides the entries of the table.\<close>

definition others :: "'s \<Rightarrow> string \<times> Subscriber \<Rightarrow> 'h option" where
  "others s = (\<lambda>(ev, x). if mine s ev = Some x then None else view s (ev, x))"

lemma others_put:
  assumes "ok s" "ev \<noteq> []" "view s (ev, sub) = None" "put i sub ev h s = Some s'"
  shows "ok s' \<and> others s' = others s"
  using put_ok[OF assms(1-3), of i h] assms(3,4) mine_view[OF assms(1), of ev]
  by (auto simp: others_def fun_eq_iff split: option.splits)

lemma others_drop:
  assumes "ok s" "drp ev s = Some s'"
  shows "ok s' \<and> others s' = others s"
  using drop_ok[OF assms(1), of ev] assms(2) by (auto simp: others_def fun_eq_iff split: option.splits)

lemma run_others:
  "ok s \<Longrightarrow> sub_fresh put drp view os s \<Longrightarrow> \<exists>s'. sub_run put drp os s = Some s' \<and> ok s' \<and> others s' = others s"
proof (induction os arbitrary: s)
  case (Cons op os)
  show ?case
  proof (cases op)
    case (SPut i sub ev h)
    then obtain s1 where s1: "put i sub ev h s = Some s1"
      using put_ok[of s ev sub i h] Cons.prems by auto
    then have "ok s1 \<and> others s1 = others s" "sub_fresh put drp view os s1"
      using others_put[of s ev sub i h s1] Cons.prems SPut by auto
    then show ?thesis using Cons.IH[of s1] SPut s1 by auto
  next
    case (SDrop ev)
    then obtain s1 where s1: "drp ev s = Some s1"
      using Cons.prems drop_ok by blast
    then have "ok s1 \<and> others s1 = others s" "sub_fresh put drp view os s1"
      using others_drop[of s ev s1] Cons.prems SDrop by auto
    then show ?thesis using Cons.IH[of s1] SDrop s1 by auto
  qed
qed simp

lemma clear_restores:
  assumes "ok s" "sub_fresh put drp view os s" "mine s = Map.empty" "sub_run put drp os s = Some s'"
  shows "\<exists>s''. clear s' = Some s'' \<and> ok s'' \<and> mine s'' = Map.empty \<and> view s'' = view s"
proof -
  have "ok s'" "others s' = others s"
    using run_others[OF assms(1,2)] assms(4) by auto
  moreover have "others s = view s"
    using assms(3) by (simp add: others_def)
  ultimately show ?thesis
    using clear_ok[of s'] by (auto simp: others_def)
qed

end

section \<open>The tables keep the contract\<close>

definition tbl_mine :: "'h sub_state \<Rightarrow> string \<Rightarrow> Subscriber option" where
  "tbl_mine s ev = map_option snd (map_of (fst s) ev)"

definition tbl_view :: "'h sub_state \<Rightarrow> string \<times> Subscriber \<Rightarrow> 'h option" where
  "tbl_view s = eb_abs (eb (snd s))"

definition tbl_ok :: "'h sub_state \<Rightarrow> bool" where
  "tbl_ok s \<longleftrightarrow> eb_inv (eb (snd s)) \<and> wf_map (fst s)
     \<and> (\<forall>ev c. map_of (fst s) ev = Some c \<longrightarrow> fst c = ev \<and> ev \<noteq> [] \<and> eb_abs (eb (snd s)) c \<noteq> None)"

lemma cancelEvent_ok:
  assumes "eb_inv (eb b)" and "fst c \<noteq> []"
  shows "\<exists>b'. cancelEvent c b = Some b' \<and> eb_inv (eb b') \<and> eb_abs (eb b') = (eb_abs (eb b))(c := None)"
  using bus.unsubscribe_ok[OF assms, of "snd c"] by (auto simp: cancelEvent_def)

lemma cancel_all_ok:
  assumes "eb_inv (eb b)" and "\<forall>c\<in>set cs. fst c \<noteq> []"
  shows "\<exists>b'. cancel_all cs b = Some b' \<and> eb_inv (eb b')
    \<and> eb_abs (eb b') = (\<lambda>c. if c \<in> set cs then None else eb_abs (eb b) c)"
  using assms
proof (induction cs arbitrary: b)
  case (Cons c cs)
  obtain b1 where b1: "cancelEvent c b = Some b1" "eb_inv (eb b1)" "eb_abs (eb b1) = (eb_abs (eb b))(c := None)"
    using cancelEvent_ok[of b c] Cons.prems by auto
  obtain b' where "cancel_all cs b1 = Some b'" "eb_inv (eb b')"
    "eb_abs (eb b') = (\<lambda>c. if c \<in> set cs then None else eb_abs (eb b1) c)"
    using Cons.IH[OF b1(2)] Cons.prems by auto
  then show ?case using b1 by (auto simp: fun_eq_iff)
qed simp

lemma tbl_okD:
  assumes "tbl_ok s"
  shows "eb_inv (eb (snd s))" "wf_map (fst s)"
    "map_of (fst s) ev = Some c \<Longrightarrow> c = (ev, snd c) \<and> ev \<noteq> [] \<and> tbl_mine s ev = Some (snd c) \<and> eb_abs (eb (snd s)) c \<noteq> None"
proof -
  show "eb_inv (eb (snd s))" "wf_map (fst s)"
    using assms by (simp_all add: tbl_ok_def)
  assume m: "map_of (fst s) ev = Some c"
  then have "fst c = ev \<and> ev \<noteq> [] \<and> eb_abs (eb (snd s)) c \<noteq> None"
    using assms unfolding tbl_ok_def by blast
  then show "c = (ev, snd c) \<and> ev \<noteq> [] \<and> tbl_mine s ev = Some (snd c) \<and> eb_abs (eb (snd s)) c \<noteq> None"
    using m by (auto simp: tbl_mine_def)
qed

lemma table_put_ok:
  assumes "tbl_ok s" and "ev \<noteq> []" and "tbl_view s (ev, sub) = None"
  shows "\<exists>s'. table_put i sub ev h s = Some s' \<and> tbl_ok s' \<and> tbl_mine s' = (tbl_mine s)(ev \<mapsto> sub)
    \<and> tbl_view s' = (case tbl_mine s ev of None \<Rightarrow> (tbl_view s)((ev, sub) \<mapsto> h)
        | Some old \<Rightarrow> (tbl_view s)((ev, old) := None, (ev, sub) \<mapsto> h))"
proof -
  note D = tbl_okD[OF assms(1)]
  obtain c b1 where S: "SubscribeEvent i sub ev h (snd s) = (c, b1)"
    by (cases "SubscribeEvent i sub ev h (snd s)")
  note S' = SubscribeEvent_ok[OF D(1) assms(2) S]
  show ?thesis
  proof (cases "map_of (fst s) ev")
    case None
    then show ?thesis
      using S S' D(1,2) D(3) assms by (auto simp: table_put_def tbl_ok_def tbl_mine_def tbl_view_def update_conv fun_eq_iff)
  next
    case (Some old)
    note o = D(3)[OF Some]
    then have ne: "snd old \<noteq> sub" "fst old \<noteq> []"
      using assms(2,3) by (metis tbl_view_def, metis fst_conv)
    obtain b2 where b2: "cancelEvent old b1 = Some b2" "eb_inv (eb b2)" "eb_abs (eb b2) = (eb_abs (eb b1))(old := None)"
      using cancelEvent_ok[OF S'(2) ne(2)] by blast
    have v: "eb_abs (eb b2) = (tbl_view s)((ev, snd old) := None, (ev, sub) \<mapsto> h)"
      using b2(3) S'(3) o ne(1) by (metis fun_upd_twist prod.inject tbl_view_def)
    have "tbl_ok (AList.update ev c (fst s), b2)"
      unfolding tbl_ok_def using b2(2) D(2) D(3) S'(1) assms(2) v
      by (auto simp: update_conv tbl_view_def split: if_splits)
    then show ?thesis
      using S Some b2(1) S'(1) o v by (auto simp: table_put_def tbl_mine_def tbl_view_def update_conv fun_eq_iff)
  qed
qed

lemma table_drop_ok:
  assumes "tbl_ok s"
  shows "\<exists>s'. table_drop ev s = Some s' \<and> tbl_ok s' \<and> tbl_mine s' = (tbl_mine s)(ev := None)
    \<and> tbl_view s' = (case tbl_mine s ev of None \<Rightarrow> tbl_view s | Some old \<Rightarrow> (tbl_view s)((ev, old) := None))"
proof (cases "map_of (fst s) ev")
  case None
  then show ?thesis using assms by (auto simp: table_drop_def tbl_mine_def fun_eq_iff)
next
  case (Some old)
  note D = tbl_okD[OF assms] and o = tbl_okD(3)[OF assms Some]
  obtain b2 where b2: "cancelEvent old (snd s) = Some b2" "eb_inv (eb b2)" "eb_abs (eb b2) = (eb_abs (eb (snd s)))(old := None)"
    using cancelEvent_ok[OF D(1), of old] o by (metis fst_conv)
  have "tbl_ok (AList.delete ev (fst s), b2)"
    unfolding tbl_ok_def using b2(2,3) D(2) D(3) o by (auto simp: delete_conv split: if_splits)
  then show ?thesis
    using Some b2 o by (auto simp: table_drop_def tbl_mine_def tbl_view_def delete_conv fun_eq_iff)
qed

lemma table_clear_ok:
  assumes "tbl_ok s"
  shows "\<exists>s'. table_clear s = Some s' \<and> tbl_ok s' \<and> tbl_mine s' = Map.empty
    \<and> tbl_view s' = (\<lambda>(ev, x). if tbl_mine s ev = Some x then None else tbl_view s (ev, x))"
proof -
  note D = tbl_okD[OF assms]
  have m: "c \<in> snd ` set (fst s) \<longleftrightarrow> tbl_mine s (fst c) = Some (snd c)" for c
  proof
    assume "c \<in> snd ` set (fst s)"
    then obtain ev where "map_of (fst s) ev = Some c"
      using D(2) by (auto simp: wf_map_def)
    from D(3)[OF this] show "tbl_mine s (fst c) = Some (snd c)" by (metis fst_conv)
  next
    assume "tbl_mine s (fst c) = Some (snd c)"
    then obtain c' where c': "map_of (fst s) (fst c) = Some c'" "snd c' = snd c"
      by (auto simp: tbl_mine_def)
    then have "c' = c" using D(3)[OF c'(1)] by (metis prod.collapse)
    then show "c \<in> snd ` set (fst s)"
      using map_of_SomeD[OF c'(1)] by force
  qed
  have "\<forall>c\<in>set (map snd (fst s)). fst c \<noteq> []"
  proof
    fix c assume "c \<in> set (map snd (fst s))"
    then obtain ev where "map_of (fst s) ev = Some c"
      using D(2) by (auto simp: wf_map_def)
    from D(3)[OF this] show "fst c \<noteq> []" by (metis fst_conv)
  qed
  from cancel_all_ok[OF D(1) this] obtain b' where "cancel_all (map snd (fst s)) (snd s) = Some b'" "eb_inv (eb b')"
    "eb_abs (eb b') = (\<lambda>c. if c \<in> snd ` set (fst s) then None else eb_abs (eb (snd s)) c)"
    by auto
  then show ?thesis
    using m by (auto simp: table_clear_def tbl_ok_def tbl_mine_def[of "([], b')"] tbl_view_def fun_eq_iff)
qed

interpretation table: sub_table table_put table_drop table_clear tbl_mine tbl_view tbl_ok
proof unfold_locales
  fix s :: "'h sub_state" and ev x
  show "tbl_view s (ev, x) \<noteq> None" if k: "tbl_ok s" and m: "tbl_mine s ev = Some x"
  proof -
    obtain c where c: "map_of (fst s) ev = Some c" "snd c = x"
      using m by (auto simp: tbl_mine_def)
    then have "c = (ev, x)" using tbl_okD(3)[OF k c(1)] by simp
    then show ?thesis using tbl_okD(3)[OF k c(1)] by (simp add: tbl_view_def)
  qed
qed (fact table_put_ok table_drop_ok table_clear_ok)+

end
