(* ===== verification/HTTP_Events.thy ===== *)
theory HTTP_Events
  imports HTTP_API Subscription_Tables
begin

text \<open>
  Server-sent events: \<^verbatim>\<open>http_server/http_events/\<close> and the handlers of
  \<^verbatim>\<open>http_server/events.go\<close>.  Clients live at addresses; a client's subscription on the bus
  is the closure \<open>Foreign a\<close>.  The operations interleave with the clean-up that the session
  check and the end of the request start, so \<^verbatim>\<open>SubscribeToEvent\<close> is also given as its two
  atomic parts.
\<close>

section \<open>Sessions and clients\<close>

record EventSession =
  es_Session :: Session
  es_Timestamp :: int
  es_RandomID :: string

text \<open>\<open>c_cancels\<close> is \<open>None\<close> once the map has been set to nil; \<open>c_queue\<close> is what the
  message queue holds.\<close>

record EventsClient =
  c_session :: EventSession
  c_ended :: bool
  c_cancels :: "(string, string \<times> Subscriber) gomap option"
  c_queue :: "(string \<times> json) list"

record EventsManager =
  heap :: "(nat, EventsClient) gomap"
  fresh_client :: nat
  clients :: "(EventSession, nat) gomap"
  sbus :: "closure LocalBus"

definition NewEventSession :: "Session \<Rightarrow> int \<Rightarrow> string \<Rightarrow> EventSession" where
  "NewEventSession session now rnd =
     \<lparr>es_Session = session, es_Timestamp = now div 1000000, es_RandomID = rnd\<rparr>"

definition NewEventsClient :: "EventSession \<Rightarrow> EventsClient" where
  "NewEventsClient sess = \<lparr>c_session = sess, c_ended = False, c_cancels = Some [], c_queue = []\<rparr>"

definition NewEventsManager :: "closure LocalBus \<Rightarrow> EventsManager" where
  "NewEventsManager b = \<lparr>heap = [], fresh_client = 0, clients = [], sbus = b\<rparr>"

definition put_client :: "nat \<Rightarrow> EventsClient \<Rightarrow> EventsManager \<Rightarrow> EventsManager" where
  "put_client a c m = m\<lparr>heap := AList.update a c (heap m)\<rparr>"

text \<open>The first call wins; \<open>None\<close> is a cancel function that does not return.\<close>

definition sse_cleanup :: "nat \<Rightarrow> EventsManager \<Rightarrow> EventsManager option" where
  "sse_cleanup a m =
     (case map_of (heap m) a of
        None \<Rightarrow> None
      | Some c \<Rightarrow>
          if c_ended c then Some m
          else
            (case cancel_all (map snd (case c_cancels c of None \<Rightarrow> [] | Some t \<Rightarrow> t)) (sbus m) of
               None \<Rightarrow> None
             | Some b \<Rightarrow>
                 Some (put_client a (c\<lparr>c_ended := True, c_cancels := None\<rparr>)
                   (m\<lparr>clients := AList.delete (c_session c) (clients m), sbus := b\<rparr>))))"

definition RegisterClient :: "EventSession \<Rightarrow> EventsManager \<Rightarrow> (nat \<times> EventsManager) option" where
  "RegisterClient sess m =
     (let a = fresh_client m;
          m1 = put_client a (NewEventsClient sess) (m\<lparr>fresh_client := Suc a\<rparr>)
      in case (case map_of (clients m1) sess of
                 None \<Rightarrow> Some m1
               | Some old \<Rightarrow> sse_cleanup old (m1\<lparr>clients := AList.delete sess (clients m1)\<rparr>)) of
           None \<Rightarrow> None
         | Some m2 \<Rightarrow> Some (a, m2\<lparr>clients := AList.update sess a (clients m2)\<rparr>))"

definition UnregisterClient :: "EventSession \<Rightarrow> EventsManager \<Rightarrow> EventsManager option" where
  "UnregisterClient sess m =
     (case map_of (clients m) sess of
        None \<Rightarrow> Some m
      | Some a \<Rightarrow> sse_cleanup a (m\<lparr>clients := AList.delete sess (clients m)\<rparr>))"

definition GetClient :: "EventSession \<Rightarrow> EventsManager \<Rightarrow> nat option" where
  "GetClient sess m =
     (case map_of (clients m) sess of
        None \<Rightarrow> None
      | Some a \<Rightarrow> (case map_of (heap m) a of Some c \<Rightarrow> if c_ended c then None else Some a | None \<Rightarrow> None))"

section \<open>Subscriptions\<close>

text \<open>Up to the lock: the check and the subscription on the bus.\<close>

definition subscribe_begin ::
  "string \<Rightarrow> Subscriber \<Rightarrow> string \<Rightarrow> nat \<Rightarrow> EventsManager \<Rightarrow> (string \<times> Subscriber) option \<times> EventsManager" where
  "subscribe_begin newID sub eventType a m =
     (case map_of (heap m) a of
        None \<Rightarrow> (None, m)
      | Some c \<Rightarrow>
          if c_ended c then (None, m)
          else (case SubscribeEvent newID sub eventType (Foreign a) (sbus m) of
                  (cancel, b) \<Rightarrow> (Some cancel, m\<lparr>sbus := b\<rparr>)))"

text \<open>Under the lock.  A write to the nil map panics; the answer tells whether it did.\<close>

definition subscribe_end ::
  "string \<Rightarrow> string \<times> Subscriber \<Rightarrow> nat \<Rightarrow> EventsManager \<Rightarrow> (bool \<times> EventsManager) option" where
  "subscribe_end eventType cancel a m =
     (case map_of (heap m) a of
        None \<Rightarrow> Some (True, m)
      | Some c \<Rightarrow>
          (case c_cancels c of
             None \<Rightarrow> Some (True, m)
           | Some t \<Rightarrow>
               (case (case map_of t eventType of None \<Rightarrow> Some (sbus m) | Some existing \<Rightarrow> cancelEvent existing (sbus m)) of
                  None \<Rightarrow> None
                | Some b \<Rightarrow>
                    Some (False, put_client a (c\<lparr>c_cancels := Some (AList.update eventType cancel t)\<rparr>) (m\<lparr>sbus := b\<rparr>)))))"

definition SubscribeToEvent ::
  "string \<Rightarrow> Subscriber \<Rightarrow> string \<Rightarrow> nat \<Rightarrow> EventsManager \<Rightarrow> (bool \<times> EventsManager) option" where
  "SubscribeToEvent newID sub eventType a m =
     (case subscribe_begin newID sub eventType a m of
        (None, m1) \<Rightarrow> Some (False, m1)
      | (Some cancel, m1) \<Rightarrow> subscribe_end eventType cancel a m1)"

definition UnsubscribeFromEvent :: "string \<Rightarrow> nat \<Rightarrow> EventsManager \<Rightarrow> EventsManager option" where
  "UnsubscribeFromEvent eventType a m =
     (case map_of (heap m) a of
        None \<Rightarrow> None
      | Some c \<Rightarrow>
          if c_ended c then Some m
          else
            (case c_cancels c of
               None \<Rightarrow> Some m
             | Some t \<Rightarrow>
                 (case table_drop eventType (t, sbus m) of
                    None \<Rightarrow> None
                  | Some (t', b) \<Rightarrow> Some (put_client a (c\<lparr>c_cancels := Some t'\<rparr>) (m\<lparr>sbus := b\<rparr>)))))"

section \<open>Delivery\<close>

definition sse_handler :: "nat \<Rightarrow> string \<Rightarrow> json \<Rightarrow> EventsManager \<Rightarrow> EventsManager" where
  "sse_handler a et data m =
     (case map_of (heap m) a of
        None \<Rightarrow> m
      | Some c \<Rightarrow> if c_ended c then m else put_client a (c\<lparr>c_queue := c_queue c @ [(et, data)]\<rparr>) m)"

definition EventSession_json :: "EventSession \<Rightarrow> json" where
  "EventSession_json s = JObj
     [(''session'', JObj [(''user_id'', JStr (UserID (es_Session s))), (''session_id'', JStr (SessionID (es_Session s)))]),
      (''timestamp'', JNum (show_int (es_Timestamp s))), (''random_id'', JStr (es_RandomID s))]"

definition SentEvent_json :: "string \<Rightarrow> string \<Rightarrow> json \<Rightarrow> string" where
  "SentEvent_json i ty data = json_print (JObj [(''id'', JStr i), (''type'', JStr ty), (''data'', JStr (json_print data))])"

definition sendSSEEvent :: "string \<Rightarrow> json \<Rightarrow> nat \<Rightarrow> EventsClient \<Rightarrow> string option" where
  "sendSSEEvent eventType data n c =
     (if c_ended c then None
      else Some (''data: '' @ SentEvent_json (show_nat n) eventType data @ [CHR 0x0A, CHR 0x0A]))"

text \<open>One turn of \<^verbatim>\<open>ReadMsgQueue\<close>: number 0 is the session, later ones are from the queue.\<close>

definition ReadMsgQueue_step :: "nat \<Rightarrow> nat \<Rightarrow> EventsManager \<Rightarrow> string option \<times> nat \<times> EventsManager" where
  "ReadMsgQueue_step a eventID m =
     (case map_of (heap m) a of
        None \<Rightarrow> (None, eventID, m)
      | Some c \<Rightarrow>
          if c_ended c then (None, eventID, m)
          else
            (case c_queue c of
               [] \<Rightarrow> (None, eventID, m)
             | (ty, data) # q \<Rightarrow>
                 (sendSSEEvent ty data (Suc eventID) c, Suc eventID, put_client a (c\<lparr>c_queue := q\<rparr>) m)))"

definition first_event :: "EventsClient \<Rightarrow> string option" where
  "first_event c = sendSSEEvent ''sessID'' (EventSession_json (c_session c)) 0 c"

section \<open>The periodic check\<close>

text \<open>The validator that \<^verbatim>\<open>eventsHandler\<close> gives its client.\<close>

definition sse_validator :: "('r, 'p) tcp_server \<Rightarrow> string \<Rightarrow> string \<Rightarrow> 'r \<Rightarrow> bool \<times> 'r" where
  "sse_validator T token user r =
     (if token = [] then (False, r)
      else if \<not> has_rds (db T) then (False, r)
      else
        (case GetUserSession (rds (sv T)) token r of
           (Inl _, r') \<Rightarrow> (False, r')
         | (Inr username, r') \<Rightarrow> (username = user, r')))"

definition validateSession_tick :: "bool \<Rightarrow> nat \<Rightarrow> EventsManager \<Rightarrow> EventsManager option" where
  "validateSession_tick valid a m =
     (case map_of (heap m) a of
        None \<Rightarrow> None
      | Some c \<Rightarrow> if c_ended c then Some m else if \<not> valid then sse_cleanup a m else Some m)"

section \<open>Endpoints\<close>

text \<open>The start of a stream: whose it is, or none.\<close>

definition stream_session :: "('r, 'p) tcp_server \<Rightarrow> http_req \<Rightarrow> 'r \<Rightarrow> Session option \<times> 'r" where
  "stream_session T rq r =
     (case validateTicket T rq r of
        (Some s, r1) \<Rightarrow> (Some s, r1)
      | (None, r1) \<Rightarrow> validateSessionFull T rq r1)"

definition event_names :: "string \<Rightarrow> string list" where
  "event_names eventsParam = (if eventsParam = [] then [] else map TrimSpace (Split eventsParam (CHR '','')))"

fun subscribe_each ::
  "(string \<times> Subscriber \<times> string) list \<Rightarrow> nat \<Rightarrow> EventsManager \<Rightarrow> (bool \<times> EventsManager) option" where
  "subscribe_each [] a m = Some (False, m)"
| "subscribe_each ((i, sub, ev) # es) a m =
     (case SubscribeToEvent i sub ev a m of
        None \<Rightarrow> None
      | Some (True, m1) \<Rightarrow> Some (True, m1)
      | Some (False, m1) \<Rightarrow> subscribe_each es a m1)"

fun unsubscribe_each :: "string list \<Rightarrow> nat \<Rightarrow> EventsManager \<Rightarrow> EventsManager option" where
  "unsubscribe_each [] a m = Some m"
| "unsubscribe_each (ev # es) a m =
     (case UnsubscribeFromEvent ev a m of None \<Rightarrow> None | Some m1 \<Rightarrow> unsubscribe_each es a m1)"

text \<open>Identifiers for the subscribers are drawn from \<open>gen\<close>, one pair per event.\<close>

definition with_ids :: "(nat \<Rightarrow> string \<times> Subscriber) \<Rightarrow> string list \<Rightarrow> (string \<times> Subscriber \<times> string) list" where
  "with_ids gen evs = map (\<lambda>(n, ev). (fst (gen n), snd (gen n), ev)) (enumerate 0 evs)"

definition eventsHandler ::
  "('r, 'p) tcp_server \<Rightarrow> http_req \<Rightarrow> string \<Rightarrow> string \<Rightarrow> (nat \<Rightarrow> string \<times> Subscriber) \<Rightarrow> 'r \<times> EventsManager
   \<Rightarrow> (response option \<times> bool \<times> 'r \<times> EventsManager) option" where
  "eventsHandler T rq eventsParam rnd gen s =
     (case stream_session T rq (fst s) of
        (None, r) \<Rightarrow> Some (Some unauthorized, False, r, snd s)
      | (Some session, r) \<Rightarrow>
          (case RegisterClient (NewEventSession session (nano (h_env rq)) rnd) (snd s) of
             None \<Rightarrow> None
           | Some (a, m1) \<Rightarrow>
               (case subscribe_each (with_ids gen (event_names eventsParam)) a m1 of
                  None \<Rightarrow> None
                | Some (panic, m2) \<Rightarrow> Some (None, panic, r, m2))))"

text \<open>
  The body of a later subscription.  A struct field takes the members of every object given
  for it in turn; of several lists the last is taken.
\<close>

fun obj_of_json :: "json \<Rightarrow> (string \<times> json) list option" where
  "obj_of_json (JObj ms) = Some ms"
| "obj_of_json JNull = Some []"
| "obj_of_json _ = None"

definition obj_field :: "string \<Rightarrow> (string \<times> json) list \<Rightarrow> (string \<times> json) list option" where
  "obj_field f ms = map_option concat (those (map obj_of_json (members_of f ms)))"

fun elem_of_json :: "json \<Rightarrow> string option" where
  "elem_of_json (JStr s) = Some s"
| "elem_of_json JNull = Some []"
| "elem_of_json _ = None"

fun strs_of_json :: "json \<Rightarrow> string list option option" where
  "strs_of_json (JArr vs) = map_option Some (those (map elem_of_json vs))"
| "strs_of_json JNull = Some None"
| "strs_of_json _ = None"

text \<open>The inner \<open>None\<close> is the nil slice.\<close>

definition strs_field :: "string \<Rightarrow> (string \<times> json) list \<Rightarrow> string list option option" where
  "strs_field f ms =
     map_option (\<lambda>xs. if xs = [] then None else last xs) (those (map strs_of_json (members_of f ms)))"

definition event_types :: "string list option \<Rightarrow> string list" where
  "event_types ts = filter (\<lambda>t. t \<noteq> []) (case ts of None \<Rightarrow> [] | Some xs \<Rightarrow> xs)"

definition types_reply :: "string list option \<Rightarrow> string \<Rightarrow> response" where
  "types_reply ts status = sendResponseAsJSON (JObj
     [(''events'', case ts of None \<Rightarrow> JNull | Some xs \<Rightarrow> JArr (map JStr xs)), (''status'', JStr status)]) 200"

definition fields_EventSession :: "(string \<times> json) list \<Rightarrow> EventSession option" where
  "fields_EventSession ms =
     (case obj_field ''session'' ms of
        None \<Rightarrow> None
      | Some ss \<Rightarrow>
          (case (str_field ''user_id'' ss, str_field ''session_id'' ss, int_field ''timestamp'' ms, str_field ''random_id'' ms) of
             (Some u, Some i, Some t, Some r) \<Rightarrow>
               Some \<lparr>es_Session = \<lparr>UserID = u, SessionID = i\<rparr>, es_Timestamp = t, es_RandomID = r\<rparr>
           | _ \<Rightarrow> None))"

definition dec_EventStruct :: "string \<Rightarrow> (EventSession \<times> string list option) option" where
  "dec_EventStruct b =
     (case parseJSONRequest b of
        None \<Rightarrow> None
      | Some ms \<Rightarrow>
          (case (Option.bind (obj_field ''event_session'' ms) fields_EventSession, strs_field ''event_types'' ms) of
             (Some e, Some ts) \<Rightarrow> Some (e, ts)
           | _ \<Rightarrow> None))"

text \<open>Both handlers run behind the session check and repeat it; \<open>True\<close> marks a panic.\<close>

definition eventsSubscribeHandler ::
  "('r, 'p) tcp_server \<Rightarrow> http_req \<Rightarrow> (nat \<Rightarrow> string \<times> Subscriber) \<Rightarrow> 'r \<times> EventsManager
   \<Rightarrow> (response \<times> 'r \<times> EventsManager) option" where
  "eventsSubscribeHandler T rq gen s =
     (case validateSessionFull T rq (fst s) of
        (None, r) \<Rightarrow> Some (unauthorized, r, snd s)
      | (Some _, r) \<Rightarrow>
          (case dec_EventStruct (h_body rq) of
             None \<Rightarrow> Some (HError 400 ''Invalid request body'', r, snd s)
           | Some (esess, types) \<Rightarrow>
               (case GetClient esess (snd s) of
                  None \<Rightarrow> Some (HError 404 ''Client not found'', r, snd s)
                | Some a \<Rightarrow>
                    (case subscribe_each (with_ids gen (event_types types)) a (snd s) of
                       None \<Rightarrow> None
                     | Some (True, m) \<Rightarrow> Some (HPanic, r, m)
                     | Some (False, m) \<Rightarrow>
                         Some (types_reply types ''subscribed'', r, m)))))"

definition eventsUnsubscribeHandler ::
  "('r, 'p) tcp_server \<Rightarrow> http_req \<Rightarrow> 'r \<times> EventsManager \<Rightarrow> (response \<times> 'r \<times> EventsManager) option" where
  "eventsUnsubscribeHandler T rq s =
     (case validateSessionFull T rq (fst s) of
        (None, r) \<Rightarrow> Some (unauthorized, r, snd s)
      | (Some _, r) \<Rightarrow>
          (case dec_EventStruct (h_body rq) of
             None \<Rightarrow> Some (HError 400 ''Invalid request body'', r, snd s)
           | Some (esess, types) \<Rightarrow>
               (case GetClient esess (snd s) of
                  None \<Rightarrow> Some (HError 404 ''Client not found'', r, snd s)
                | Some a \<Rightarrow>
                    (case unsubscribe_each (event_types types) a (snd s) of
                       None \<Rightarrow> None
                     | Some m \<Rightarrow>
                         Some (types_reply types ''unsubscribed'', r, m)))))"

section \<open>A client and its table\<close>

definition alive :: "nat \<Rightarrow> EventsClient \<Rightarrow> (string, string \<times> Subscriber) gomap \<Rightarrow> EventsManager \<Rightarrow> bool" where
  "alive a c t m \<longleftrightarrow> map_of (heap m) a = Some c \<and> \<not> c_ended c \<and> c_cancels c = Some t"

lemma put_client_simps [simp]:
  "map_of (heap (put_client a c m)) x = (if x = a then Some c else map_of (heap m) x)"
  "sbus (put_client a c m) = sbus m" "clients (put_client a c m) = clients m"
  by (simp_all add: put_client_def update_conv)

lemma SubscribeToEvent_put:
  assumes "alive a c t m"
  shows "SubscribeToEvent i sub ev a m =
    (case table_put i sub ev (Foreign a) (t, sbus m) of
       None \<Rightarrow> None
     | Some (t', b) \<Rightarrow> Some (False, put_client a (c\<lparr>c_cancels := Some t'\<rparr>) (m\<lparr>sbus := b\<rparr>)))"
  using assms
  by (simp add: alive_def SubscribeToEvent_def subscribe_begin_def subscribe_end_def table_put_def
      split: prod.split option.split)

lemma UnsubscribeFromEvent_drop:
  assumes "alive a c t m"
  shows "UnsubscribeFromEvent ev a m =
    (case table_drop ev (t, sbus m) of
       None \<Rightarrow> None
     | Some (t', b) \<Rightarrow> Some (put_client a (c\<lparr>c_cancels := Some t'\<rparr>) (m\<lparr>sbus := b\<rparr>)))"
  using assms by (simp add: alive_def UnsubscribeFromEvent_def)

lemma cleanup_clear:
  assumes "alive a c t m"
  shows "sse_cleanup a m =
    (case table_clear (t, sbus m) of
       None \<Rightarrow> None
     | Some (t', b) \<Rightarrow> Some (put_client a (c\<lparr>c_ended := True, c_cancels := None\<rparr>)
         (m\<lparr>clients := AList.delete (c_session c) (clients m), sbus := b\<rparr>)))"
  using assms by (simp add: alive_def sse_cleanup_def table_clear_def split: option.split)

text \<open>What happens to a client between its registration and its clean-up.\<close>

datatype sse_op = ESub string Subscriber string | EUnsub string | EEvent string json | ERead nat

fun sse_run :: "nat \<Rightarrow> sse_op list \<Rightarrow> EventsManager \<Rightarrow> EventsManager option" where
  "sse_run a [] m = Some m"
| "sse_run a (ESub i sub ev # os) m =
     (case SubscribeToEvent i sub ev a m of Some (False, m') \<Rightarrow> sse_run a os m' | _ \<Rightarrow> None)"
| "sse_run a (EUnsub ev # os) m = (case UnsubscribeFromEvent ev a m of Some m' \<Rightarrow> sse_run a os m' | None \<Rightarrow> None)"
| "sse_run a (EEvent et data # os) m = sse_run a os (sse_handler a et data m)"
| "sse_run a (ERead n # os) m = (case ReadMsgQueue_step a n m of (_, _, m') \<Rightarrow> sse_run a os m')"

fun sse_sub_ops :: "nat \<Rightarrow> sse_op list \<Rightarrow> closure sub_op list" where
  "sse_sub_ops a [] = []"
| "sse_sub_ops a (ESub i sub ev # os) = SPut i sub ev (Foreign a) # sse_sub_ops a os"
| "sse_sub_ops a (EUnsub ev # os) = SDrop ev # sse_sub_ops a os"
| "sse_sub_ops a (EEvent et data # os) = sse_sub_ops a os"
| "sse_sub_ops a (ERead n # os) = sse_sub_ops a os"

lemma handler_alive:
  assumes "alive a c t m"
  shows "\<exists>q. sse_handler a et d m = put_client a (c\<lparr>c_queue := q\<rparr>) m"
    and "\<exists>q x y. ReadMsgQueue_step a n m = (x, y, put_client a (c\<lparr>c_queue := q\<rparr>) m) \<or> ReadMsgQueue_step a n m = (x, y, m)"
  using assms by (auto simp: alive_def sse_handler_def ReadMsgQueue_step_def split: list.split)

lemma sse_run_table:
  assumes "alive a c t m" and "sub_run table_put table_drop (sse_sub_ops a ops) (t, sbus m) = Some s"
  shows "\<exists>m' c'. sse_run a ops m = Some m' \<and> alive a c' (fst s) m' \<and> sbus m' = snd s
    \<and> c_session c' = c_session c \<and> clients m' = clients m"
  using assms
proof (induction ops arbitrary: c t m)
  case (Cons x ops)
  show ?case
  proof (cases x)
    case (ESub i sub ev)
    then obtain t' b where p: "table_put i sub ev (Foreign a) (t, sbus m) = Some (t', b)"
      and r: "sub_run table_put table_drop (sse_sub_ops a ops) (t', b) = Some s"
      using Cons.prems(2) by (auto split: option.splits)
    let ?c = "c\<lparr>c_cancels := Some t'\<rparr>"
    have "alive a ?c t' (put_client a ?c (m\<lparr>sbus := b\<rparr>))"
      using Cons.prems(1) by (simp add: alive_def)
    from Cons.IH[OF this] show ?thesis
      using r ESub SubscribeToEvent_put[OF Cons.prems(1)] p by auto
  next
    case (EUnsub ev)
    then obtain t' b where p: "table_drop ev (t, sbus m) = Some (t', b)"
      and r: "sub_run table_put table_drop (sse_sub_ops a ops) (t', b) = Some s"
      using Cons.prems(2) by (auto split: option.splits)
    let ?c = "c\<lparr>c_cancels := Some t'\<rparr>"
    have "alive a ?c t' (put_client a ?c (m\<lparr>sbus := b\<rparr>))"
      using Cons.prems(1) by (simp add: alive_def)
    from Cons.IH[OF this] show ?thesis
      using r EUnsub UnsubscribeFromEvent_drop[OF Cons.prems(1)] p by auto
  next
    case (EEvent et d)
    obtain q where q: "sse_handler a et d m = put_client a (c\<lparr>c_queue := q\<rparr>) m"
      using handler_alive(1)[OF Cons.prems(1)] by blast
    have "alive a (c\<lparr>c_queue := q\<rparr>) t (put_client a (c\<lparr>c_queue := q\<rparr>) m)"
      using Cons.prems(1) by (simp add: alive_def)
    from Cons.IH[OF this] show ?thesis
      using Cons.prems(2) EEvent q by auto
  next
    case (ERead n)
    obtain q x y where q: "ReadMsgQueue_step a n m = (x, y, put_client a (c\<lparr>c_queue := q\<rparr>) m) \<or> ReadMsgQueue_step a n m = (x, y, m)"
      using handler_alive(2)[OF Cons.prems(1)] by blast
    have "alive a (c\<lparr>c_queue := q\<rparr>) t (put_client a (c\<lparr>c_queue := q\<rparr>) m)"
      using Cons.prems(1) by (simp add: alive_def)
    from Cons.IH[OF this] Cons.IH[OF Cons.prems(1)] show ?thesis
      using Cons.prems(2) ERead q by auto
  qed
qed auto

lemma Register_alive:
  assumes "map_of (clients m) sess = None" and "RegisterClient sess m = Some (a, m1)"
  shows "alive a (NewEventsClient sess) [] m1" "sbus m1 = sbus m" "clients m1 = AList.update sess a (clients m)"
  using assms by (auto simp: RegisterClient_def Let_def alive_def NewEventsClient_def)

lemma tbl_ok_empty: "tbl_ok ([], b) \<longleftrightarrow> eb_inv (eb b)"
  by (simp add: tbl_ok_def wf_map_def)

lemma tbl_mine_empty [simp]: "tbl_mine ([], b) = Map.empty"
  by (simp add: tbl_mine_def fun_eq_iff)

text \<open>An event without a name is registered under a subscriber of its own, so the cancel
  function does not reach it.\<close>

lemma Unsubscribe_unknown:
  "map_of (EventBus_t.handlers (eb b)) sub = None \<Longrightarrow> cancelEvent ([], sub) b = Some b"
  by (simp add: cancelEvent_def numeral_2_eq_2 sm_defs)

lemma Subscribe_empty_handlers:
  assumes "SubscribeEvent i sub [] h b = (c, b')" and "sub \<noteq> i"
  shows "c = ([], sub)" "map_of (EventBus_t.handlers (eb b')) sub = map_of (EventBus_t.handlers (eb b)) sub"
    "eb_abs (eb b') = (eb_abs (eb b))(([], i) \<mapsto> h)"
proof -
  obtain s e where S: "Subscribe i [] (Some sub) h (eb b) = (s, e)"
    by (cases "Subscribe i [] (Some sub) h (eb b)")
  then have "s = i" and b': "b' = b\<lparr>eb := e\<rparr>" and c: "c = ([], sub)"
    using Subscribe_abs(1)[OF S] assms(1) by (auto simp: sub_id_def SubscribeEvent_def)
  then show "c = ([], sub)" "map_of (EventBus_t.handlers (eb b')) sub = map_of (EventBus_t.handlers (eb b)) sub"
    "eb_abs (eb b') = (eb_abs (eb b))(([], i) \<mapsto> h)"
    using Subscribe_handlers[OF S] Subscribe_abs(2)[OF S] assms(2) by simp_all
qed

lemma Split_trailing: "\<exists>x xs. Split (p @ [c]) c = x # xs @ [[]]"
proof (induction p)
  case (Cons y p)
  then obtain x xs where "Split (p @ [c]) c = x # xs @ [[]]" by blast
  then show ?case by (cases "y = c") (auto intro: exI[of _ "x # xs"])
qed simp

section \<open>All clients of a manager\<close>

text \<open>
  A client that has ended feeds nothing; of one that has not, the bus holds exactly the
  subscriptions of its table.
\<close>

definition client_ok :: "closure LocalBus \<Rightarrow> nat \<Rightarrow> EventsClient \<Rightarrow> bool" where
  "client_ok b a c \<longleftrightarrow>
     (case c_cancels c of
        None \<Rightarrow> c_ended c \<and> (\<forall>ev x. eb_abs (eb b) (ev, x) \<noteq> Some (Foreign a))
      | Some t \<Rightarrow> \<not> c_ended c \<and> tbl_ok (t, b)
          \<and> (\<forall>ev x. eb_abs (eb b) (ev, x) = Some (Foreign a) \<longleftrightarrow> tbl_mine (t, b) ev = Some x))"

definition sm_inv :: "EventsManager \<Rightarrow> bool" where
  "sm_inv m \<longleftrightarrow> eb_inv (eb (sbus m))
     \<and> (\<forall>a c. map_of (heap m) a = Some c \<longrightarrow> a < fresh_client m \<and> client_ok (sbus m) a c)
     \<and> (\<forall>a k. eb_abs (eb (sbus m)) k = Some (Foreign a) \<longrightarrow> map_of (heap m) a \<noteq> None)
     \<and> (\<forall>sess a. map_of (clients m) sess = Some a \<longrightarrow>
          (\<exists>c. map_of (heap m) a = Some c \<and> \<not> c_ended c \<and> c_session c = sess))"

lemma sm_invD:
  assumes "sm_inv m"
  shows "eb_inv (eb (sbus m))"
    and "map_of (heap m) a = Some c \<Longrightarrow> a < fresh_client m"
    and "map_of (heap m) a = Some c \<Longrightarrow> client_ok (sbus m) a c"
    and "eb_abs (eb (sbus m)) k = Some (Foreign a) \<Longrightarrow> map_of (heap m) a \<noteq> None"
    and "map_of (clients m) sess = Some a \<Longrightarrow> \<exists>c. map_of (heap m) a = Some c \<and> \<not> c_ended c \<and> c_session c = sess"
  using assms unfolding sm_inv_def by blast+

lemma fresh_put [simp]: "fresh_client (put_client a c m) = fresh_client m"
  by (simp add: put_client_def)

text \<open>What one client does to the bus does not concern the others.\<close>

definition touches :: "nat \<Rightarrow> closure LocalBus \<Rightarrow> closure LocalBus \<Rightarrow> bool" where
  "touches a b b' \<longleftrightarrow> (\<forall>k. eb_abs (eb b') k = eb_abs (eb b) k
     \<or> eb_abs (eb b) k \<in> {None, Some (Foreign a)} \<and> eb_abs (eb b') k \<in> {None, Some (Foreign a)})"

lemma touches_other:
  assumes "touches a b b'" and "a' \<noteq> a"
  shows "eb_abs (eb b') k = Some (Foreign a') \<longleftrightarrow> eb_abs (eb b) k = Some (Foreign a')"
  using assms unfolding touches_def by (metis closure.inject(2) insertE option.distinct(1) option.inject singletonD)

lemma client_ok_other:
  assumes "touches a b b'" and "a' \<noteq> a" and "eb_inv (eb b')" and "client_ok b a' c"
  shows "client_ok b' a' c"
proof (cases "c_cancels c")
  case None
  then show ?thesis using assms(4) touches_other[OF assms(1,2)] by (simp add: client_ok_def)
next
  case (Some t)
  have k: "tbl_ok (t, b)" and own: "\<And>ev x. eb_abs (eb b) (ev, x) = Some (Foreign a') \<longleftrightarrow> tbl_mine (t, b) ev = Some x"
    using assms(4) Some by (simp_all add: client_ok_def)
  have "eb_abs (eb b') k' \<noteq> None" if m: "map_of t ev = Some k'" for ev k'
  proof -
    have "eb_abs (eb b) k' = Some (Foreign a')"
      using tbl_okD(3)[OF k, of ev k'] m own by (metis fst_conv)
    then have "eb_abs (eb b') k' = Some (Foreign a')" using touches_other[OF assms(1,2)] by blast
    then show ?thesis by simp
  qed
  then have "tbl_ok (t, b')"
    using k assms(3) by (simp add: tbl_ok_def)
  then show ?thesis
    using assms(4) Some touches_other[OF assms(1,2)] by (simp add: client_ok_def tbl_mine_def)
qed

lemma sm_inv_put:
  assumes "sm_inv m" and "map_of (heap m) a = Some c" and "touches a (sbus m) b" and "eb_inv (eb b)"
    and "client_ok b a c'" and "c_session c' = c_session c"
    and "\<And>sess x. map_of cl sess = Some x \<Longrightarrow> map_of (clients m) sess = Some x \<and> (x = a \<longrightarrow> c_ended c' = c_ended c)"
  shows "sm_inv (put_client a c' (m\<lparr>clients := cl, sbus := b\<rparr>))"
proof -
  note D = sm_invD[OF assms(1)]
  let ?m = "put_client a c' (m\<lparr>clients := cl, sbus := b\<rparr>)"
  have "x < fresh_client ?m \<and> client_ok (sbus ?m) x y" if "map_of (heap ?m) x = Some y" for x y
    using that D(2)[of a c] D(2,3)[of x y] client_ok_other[OF assms(3) _ assms(4), of x y] assms(2,5)
    by (cases "x = a") simp_all
  moreover have "map_of (heap ?m) x \<noteq> None" if "eb_abs (eb (sbus ?m)) k = Some (Foreign x)" for x k
    using that touches_other[OF assms(3), of x k] D(4)[of k x] by (cases "x = a") simp_all
  moreover have "\<exists>y. map_of (heap ?m) x = Some y \<and> \<not> c_ended y \<and> c_session y = sess"
    if "map_of (clients ?m) sess = Some x" for sess x
    using assms(7)[of sess x] that D(5)[of sess x] assms(2,6) by (cases "x = a") auto
  ultimately show ?thesis
    unfolding sm_inv_def using assms(4) by simp
qed

lemma alive_iff:
  assumes "sm_inv m" and "map_of (heap m) a = Some c" and "\<not> c_ended c"
  obtains t where "alive a c t m" and "tbl_ok (t, sbus m)"
    and "\<And>ev x. eb_abs (eb (sbus m)) (ev, x) = Some (Foreign a) \<longleftrightarrow> tbl_mine (t, sbus m) ev = Some x"
  using sm_invD(3)[OF assms(1,2)] assms(2,3) by (auto simp: client_ok_def alive_def split: option.splits)

lemma same_clients [simp]: "m\<lparr>clients := clients m, sbus := b\<rparr> = m\<lparr>sbus := b\<rparr>"
  by simp

lemma sm_inv_table:
  assumes "sm_inv m" and "alive a c t m" and "tbl_ok (t', b)" and "touches a (sbus m) b"
    and "\<And>ev x. eb_abs (eb b) (ev, x) = Some (Foreign a) \<longleftrightarrow> tbl_mine (t', b) ev = Some x"
  shows "sm_inv (put_client a (c\<lparr>c_cancels := Some t'\<rparr>) (m\<lparr>sbus := b\<rparr>))"
proof -
  have "eb_inv (eb b)" using assms(3) by (simp add: tbl_ok_def)
  moreover have "client_ok b a (c\<lparr>c_cancels := Some t'\<rparr>)"
    using assms(2,3,5) by (simp add: client_ok_def alive_def)
  ultimately show ?thesis
    using sm_inv_put[OF assms(1) _ assms(4), of c "c\<lparr>c_cancels := Some t'\<rparr>" "clients m"] assms(2) by (simp add: alive_def)
qed

lemma subscribe_inv:
  assumes "sm_inv m" and "ev \<noteq> []" and "eb_abs (eb (sbus m)) (ev, sub) = None"
  shows "\<exists>m'. SubscribeToEvent i sub ev a m = Some (False, m') \<and> sm_inv m'"
proof (cases "\<exists>c. map_of (heap m) a = Some c \<and> \<not> c_ended c")
  case False
  then show ?thesis
    using assms(1) by (auto simp: SubscribeToEvent_def subscribe_begin_def split: option.split)
next
  case True
  then obtain c where c: "map_of (heap m) a = Some c" "\<not> c_ended c" by blast
  obtain t where al: "alive a c t m" and ok: "tbl_ok (t, sbus m)"
    and own: "\<And>ev x. eb_abs (eb (sbus m)) (ev, x) = Some (Foreign a) \<longleftrightarrow> tbl_mine (t, sbus m) ev = Some x"
    using alive_iff[OF assms(1) c] by blast
  obtain t' b where p: "table_put i sub ev (Foreign a) (t, sbus m) = Some (t', b)" "tbl_ok (t', b)"
    "tbl_mine (t', b) = (tbl_mine (t, sbus m))(ev \<mapsto> sub)"
    "tbl_view (t', b) = (case tbl_mine (t, sbus m) ev of None \<Rightarrow> (tbl_view (t, sbus m))((ev, sub) \<mapsto> Foreign a)
        | Some old \<Rightarrow> (tbl_view (t, sbus m))((ev, old) := None, (ev, sub) \<mapsto> Foreign a))"
    using table_put_ok[OF ok assms(2), of sub i "Foreign a"] assms(3) by (auto simp: tbl_view_def)
  have v: "eb_abs (eb b) (e, x) = (if (e, x) = (ev, sub) then Some (Foreign a)
      else if tbl_mine (t, sbus m) ev = Some x \<and> e = ev then None else eb_abs (eb (sbus m)) (e, x))" for e x
    using fun_cong[OF p(4), of "(e, x)"] by (auto simp: tbl_view_def split: option.splits if_splits)
  have "touches a (sbus m) b"
    unfolding touches_def using v assms(3) own by auto
  moreover have "eb_abs (eb b) (e, x) = Some (Foreign a) \<longleftrightarrow> tbl_mine (t', b) e = Some x" for e x
    unfolding v p(3) using own by auto
  ultimately have "sm_inv (put_client a (c\<lparr>c_cancels := Some t'\<rparr>) (m\<lparr>sbus := b\<rparr>))"
    using sm_inv_table[OF assms(1) al p(2)] by blast
  then show ?thesis using SubscribeToEvent_put[OF al, of i sub ev] p(1) by simp
qed

lemma unsubscribe_inv:
  assumes "sm_inv m" and "map_of (heap m) a = Some c"
  shows "\<exists>m'. UnsubscribeFromEvent ev a m = Some m' \<and> sm_inv m'"
proof (cases "c_ended c")
  case True
  then show ?thesis using assms by (auto simp: UnsubscribeFromEvent_def)
next
  case False
  obtain t where al: "alive a c t m" and ok: "tbl_ok (t, sbus m)"
    and own: "\<And>ev x. eb_abs (eb (sbus m)) (ev, x) = Some (Foreign a) \<longleftrightarrow> tbl_mine (t, sbus m) ev = Some x"
    using alive_iff[OF assms False] by blast
  obtain t' b where p: "table_drop ev (t, sbus m) = Some (t', b)" "tbl_ok (t', b)"
    "tbl_mine (t', b) = (tbl_mine (t, sbus m))(ev := None)"
    "tbl_view (t', b) = (case tbl_mine (t, sbus m) ev of None \<Rightarrow> tbl_view (t, sbus m)
        | Some old \<Rightarrow> (tbl_view (t, sbus m))((ev, old) := None))"
    using table_drop_ok[OF ok, of ev] by auto
  have v: "eb_abs (eb b) (e, x) = (if tbl_mine (t, sbus m) ev = Some x \<and> e = ev then None else eb_abs (eb (sbus m)) (e, x))" for e x
    using fun_cong[OF p(4), of "(e, x)"] by (auto simp: tbl_view_def split: option.splits if_splits)
  have "touches a (sbus m) b"
    unfolding touches_def using v own by auto
  moreover have "eb_abs (eb b) (e, x) = Some (Foreign a) \<longleftrightarrow> tbl_mine (t', b) e = Some x" for e x
    unfolding v p(3) using own by auto
  ultimately have "sm_inv (put_client a (c\<lparr>c_cancels := Some t'\<rparr>) (m\<lparr>sbus := b\<rparr>))"
    using sm_inv_table[OF assms(1) al p(2)] by blast
  then show ?thesis using UnsubscribeFromEvent_drop[OF al, of ev] p(1) by simp
qed

lemma cleanup_inv:
  assumes "sm_inv m" and "map_of (heap m) a = Some c"
  shows "\<exists>m'. sse_cleanup a m = Some m' \<and> sm_inv m' \<and> fresh_client m' = fresh_client m
    \<and> (\<forall>x. x \<noteq> a \<longrightarrow> map_of (heap m') x = map_of (heap m) x)
    \<and> (\<forall>s x. map_of (clients m') s = Some x \<longrightarrow> map_of (clients m) s = Some x)"
proof (cases "c_ended c")
  case True
  then show ?thesis using assms by (auto simp: sse_cleanup_def)
next
  case False
  obtain t where al: "alive a c t m" and ok: "tbl_ok (t, sbus m)"
    and own: "\<And>ev x. eb_abs (eb (sbus m)) (ev, x) = Some (Foreign a) \<longleftrightarrow> tbl_mine (t, sbus m) ev = Some x"
    using alive_iff[OF assms False] by blast
  obtain t' b where p: "table_clear (t, sbus m) = Some (t', b)" "tbl_ok (t', b)"
    "tbl_view (t', b) = (\<lambda>(e, x). if tbl_mine (t, sbus m) e = Some x then None else tbl_view (t, sbus m) (e, x))"
    using table_clear_ok[OF ok] by auto
  have v: "eb_abs (eb b) (e, x) = (if tbl_mine (t, sbus m) e = Some x then None else eb_abs (eb (sbus m)) (e, x))" for e x
    using fun_cong[OF p(3), of "(e, x)"] by (simp add: tbl_view_def)
  let ?c = "c\<lparr>c_ended := True, c_cancels := None\<rparr>" and ?cl = "AList.delete (c_session c) (clients m)"
  have "touches a (sbus m) b" "client_ok b a ?c" "eb_inv (eb b)"
    using v own p(2) by (auto simp: touches_def client_ok_def tbl_ok_def)
  moreover have "map_of (clients m) s = Some x \<and> (x = a \<longrightarrow> c_ended ?c = c_ended c)" if q: "map_of ?cl s = Some x" for s x
    using q sm_invD(5)[OF assms(1), of s x] assms(2) by (auto split: if_splits)
  ultimately have "sm_inv (put_client a ?c (m\<lparr>clients := ?cl, sbus := b\<rparr>))"
    using sm_inv_put[OF assms(1,2), of b ?c ?cl] by simp
  then show ?thesis using cleanup_clear[OF al] p(1) by (auto split: if_splits)
qed

lemma sm_inv_clients:
  assumes "sm_inv m" and "\<And>sess x. map_of cl sess = Some x \<Longrightarrow> \<exists>c. map_of (heap m) x = Some c \<and> \<not> c_ended c \<and> c_session c = sess"
  shows "sm_inv (m\<lparr>clients := cl\<rparr>)"
  using assms unfolding sm_inv_def by simp

lemma sm_inv_delete: "sm_inv m \<Longrightarrow> sm_inv (m\<lparr>clients := AList.delete sess (clients m)\<rparr>)"
  by (rule sm_inv_clients) (auto dest: sm_invD(5) split: if_splits)

lemma sm_inv_new:
  assumes "sm_inv m"
  shows "sm_inv (put_client (fresh_client m) (NewEventsClient sess) (m\<lparr>fresh_client := Suc (fresh_client m)\<rparr>))"
proof -
  note D = sm_invD[OF assms]
  let ?a = "fresh_client m"
  have n: "map_of (heap m) ?a = None" using D(2) by (metis less_irrefl not_None_eq)
  then have "eb_abs (eb (sbus m)) k \<noteq> Some (Foreign ?a)" for k using D(4) by blast
  then have "client_ok (sbus m) ?a (NewEventsClient sess)"
    using D(1) by (simp add: client_ok_def NewEventsClient_def tbl_ok_empty)
  moreover have "x \<noteq> ?a" if "map_of (clients m) s = Some x" for s x
    using D(5)[OF that] n by auto
  ultimately show ?thesis
    using assms D(2) n unfolding sm_inv_def by (auto simp: less_Suc_eq split: if_splits)
qed

lemma register_inv:
  assumes "sm_inv m" shows "\<exists>a m'. RegisterClient sess m = Some (a, m') \<and> sm_inv m'"
proof -
  let ?a = "fresh_client m"
  define m1 where "m1 = put_client ?a (NewEventsClient sess) (m\<lparr>fresh_client := Suc ?a\<rparr>)"
  have i1: "sm_inv m1" unfolding m1_def by (rule sm_inv_new[OF assms])
  have a1: "map_of (heap m1) ?a = Some (NewEventsClient sess)" "clients m1 = clients m" by (simp_all add: m1_def)
  have "\<exists>m2. (case map_of (clients m1) sess of None \<Rightarrow> Some m1
      | Some old \<Rightarrow> sse_cleanup old (m1\<lparr>clients := AList.delete sess (clients m1)\<rparr>)) = Some m2
    \<and> sm_inv m2 \<and> map_of (heap m2) ?a = Some (NewEventsClient sess)"
  proof (cases "map_of (clients m1) sess")
    case None
    then show ?thesis using i1 a1 by simp
  next
    case (Some old)
    obtain c where c: "map_of (heap m) old = Some c" using sm_invD(5)[OF assms] Some a1(2) by metis
    then have ne: "old \<noteq> ?a" using sm_invD(2)[OF assms] by blast
    let ?d = "m1\<lparr>clients := AList.delete sess (clients m1)\<rparr>"
    have "map_of (heap ?d) old = Some c" using c ne by (simp add: m1_def)
    then obtain m2 where "sse_cleanup old ?d = Some m2" "sm_inv m2" "\<forall>x. x \<noteq> old \<longrightarrow> map_of (heap m2) x = map_of (heap ?d) x"
      using cleanup_inv[OF sm_inv_delete[OF i1], where a = old and c = c] by blast
    then show ?thesis using Some ne a1(1) by simp
  qed
  then obtain m2 where m2: "(case map_of (clients m1) sess of None \<Rightarrow> Some m1
      | Some old \<Rightarrow> sse_cleanup old (m1\<lparr>clients := AList.delete sess (clients m1)\<rparr>)) = Some m2"
    "sm_inv m2" "map_of (heap m2) ?a = Some (NewEventsClient sess)" by blast
  have "sm_inv (m2\<lparr>clients := AList.update sess ?a (clients m2)\<rparr>)"
    by (rule sm_inv_clients[OF m2(2)]) (use m2(3) sm_invD(5)[OF m2(2)] in \<open>auto simp: NewEventsClient_def split: if_splits\<close>)
  moreover have "RegisterClient sess m = Some (?a, m2\<lparr>clients := AList.update sess ?a (clients m2)\<rparr>)"
    using m2(1) unfolding RegisterClient_def Let_def m1_def[symmetric] by (simp only: option.case)
  ultimately show ?thesis by blast
qed

lemma unregister_inv:
  assumes "sm_inv m" shows "\<exists>m'. UnregisterClient sess m = Some m' \<and> sm_inv m'"
proof (cases "map_of (clients m) sess")
  case None
  then show ?thesis using assms by (simp add: UnregisterClient_def)
next
  case (Some a)
  then obtain c where "map_of (heap (m\<lparr>clients := AList.delete sess (clients m)\<rparr>)) a = Some c"
    using sm_invD(5)[OF assms Some] by auto
  from cleanup_inv[OF sm_inv_delete[OF assms] this] show ?thesis
    using Some by (auto simp: UnregisterClient_def)
qed

lemma tick_inv:
  "sm_inv m \<Longrightarrow> map_of (heap m) a = Some c \<Longrightarrow> \<exists>m'. validateSession_tick v a m = Some m' \<and> sm_inv m'"
  using cleanup_inv[of m a c] by (auto simp: validateSession_tick_def)

lemma queue_inv:
  assumes "sm_inv m" shows "sm_inv (sse_handler a et d m)" "sm_inv (snd (snd (ReadMsgQueue_step a n m)))"
proof -
  have q: "sm_inv (put_client a (c\<lparr>c_queue := q\<rparr>) m)" if "map_of (heap m) a = Some c" for c q
  proof -
    have "touches a (sbus m) (sbus m)" by (simp add: touches_def)
    moreover have "client_ok (sbus m) a (c\<lparr>c_queue := q\<rparr>)"
      using sm_invD(3)[OF assms that] by (simp add: client_ok_def split: option.splits)
    ultimately show ?thesis
      using sm_inv_put[OF assms that, of "sbus m" "c\<lparr>c_queue := q\<rparr>" "clients m"] sm_invD(1)[OF assms] by simp
  qed
  then show "sm_inv (sse_handler a et d m)" "sm_inv (snd (snd (ReadMsgQueue_step a n m)))"
    using assms by (auto simp: sse_handler_def ReadMsgQueue_step_def split: option.split list.split)
qed

text \<open>What the goroutines of the streams do, one operation at a time.\<close>

inductive sse_step :: "EventsManager \<Rightarrow> EventsManager \<Rightarrow> bool" where
  register: "RegisterClient sess m = Some (a, m') \<Longrightarrow> sse_step m m'"
| unregister: "UnregisterClient sess m = Some m' \<Longrightarrow> sse_step m m'"
| subscribe: "ev \<noteq> [] \<Longrightarrow> eb_abs (eb (sbus m)) (ev, sub) = None \<Longrightarrow> SubscribeToEvent i sub ev a m = Some (p, m') \<Longrightarrow> sse_step m m'"
| unsubscribe: "map_of (heap m) a \<noteq> None \<Longrightarrow> UnsubscribeFromEvent ev a m = Some m' \<Longrightarrow> sse_step m m'"
| cleanup: "map_of (heap m) a \<noteq> None \<Longrightarrow> sse_cleanup a m = Some m' \<Longrightarrow> sse_step m m'"
| tick: "map_of (heap m) a \<noteq> None \<Longrightarrow> validateSession_tick v a m = Some m' \<Longrightarrow> sse_step m m'"
| event: "sse_step m (sse_handler a et d m)"
| read: "sse_step m (snd (snd (ReadMsgQueue_step a n m)))"

lemma sse_step_inv: "sse_step m m' \<Longrightarrow> sm_inv m \<Longrightarrow> sm_inv m'"
proof (induction rule: sse_step.induct)
  case (register sess m a m')
  then show ?case using register_inv[of m sess] by auto
next
  case (unregister sess m m')
  then show ?case using unregister_inv[of m sess] by auto
next
  case (subscribe ev m sub i a p m')
  then show ?case using subscribe_inv[of m ev sub i a] by auto
next
  case (unsubscribe m a ev m')
  then show ?case using unsubscribe_inv[of m a _ ev] by auto
next
  case (cleanup m a m')
  then show ?case using cleanup_inv[of m a] by auto
next
  case (tick m a v m')
  then show ?case using tick_inv[of m a _ v] by auto
qed (auto intro: queue_inv)

lemma sm_inv_reach:
  assumes "sse_step\<^sup>*\<^sup>* (NewEventsManager b) m" and "eb_inv (eb b)" and "\<And>k a. eb_abs (eb b) k \<noteq> Some (Foreign a)"
  shows "sm_inv m"
  using assms(1)
proof (induction rule: rtranclp_induct)
  case base
  show ?case using assms(2,3) by (simp add: sm_inv_def NewEventsManager_def)
qed (rule sse_step_inv)

section \<open>Properties\<close>

text \<open>A stream leaves no trace.  Whatever subscriptions, unsubscriptions, deliveries and
  reads a client goes through after it was registered under a new session, clean-up returns,
  the bus holds exactly the handlers it held before, the session is no longer known, a second
  clean-up changes nothing and a subscription on the ended client is not made.\<close>

theorem sse_restores:
  assumes "RegisterClient sess m = Some (a, m1)" and "map_of (clients m) sess = None"
    and "eb_inv (eb (sbus m))"
    and "sub_fresh table_put table_drop tbl_view (sse_sub_ops a ops) ([], sbus m)"
  shows "\<exists>m2 m3. sse_run a ops m1 = Some m2 \<and> sse_cleanup a m2 = Some m3
    \<and> eb_inv (eb (sbus m3)) \<and> eb_abs (eb (sbus m3)) = eb_abs (eb (sbus m))
    \<and> GetClient sess m3 = None \<and> sse_cleanup a m3 = Some m3
    \<and> SubscribeToEvent i sub ev a m3 = Some (False, m3)"
proof -
  note R = Register_alive[OF assms(2,1)]
  have ok: "tbl_ok ([], sbus m)" using assms(3) by (simp add: tbl_ok_empty)
  obtain s where s: "sub_run table_put table_drop (sse_sub_ops a ops) ([], sbus m) = Some s"
    using table.run_others[OF ok assms(4)] by blast
  obtain t' b where c: "table_clear s = Some (t', b)" "tbl_ok (t', b)" "tbl_view (t', b) = tbl_view ([], sbus m)"
    using table.clear_restores[OF ok assms(4) _ s] by auto
  obtain m2 c2 where m2: "sse_run a ops m1 = Some m2" "alive a c2 (fst s) m2" "sbus m2 = snd s"
    "c_session c2 = sess" "clients m2 = AList.update sess a (clients m)"
    using sse_run_table[OF R(1), of ops s] s R(2,3) by (auto simp: NewEventsClient_def)
  define m3 where "m3 = put_client a (c2\<lparr>c_ended := True, c_cancels := None\<rparr>)
         (m2\<lparr>clients := AList.delete (c_session c2) (clients m2), sbus := b\<rparr>)"
  have "sse_cleanup a m2 = Some m3"
    using cleanup_clear[OF m2(2)] c(1) m2(3) by (simp add: m3_def)
  moreover have "eb_inv (eb (sbus m3))" "eb_abs (eb (sbus m3)) = eb_abs (eb (sbus m))"
    using c(2,3) by (simp_all add: m3_def tbl_ok_def tbl_view_def)
  moreover have "GetClient sess m3 = None" "sse_cleanup a m3 = Some m3" "SubscribeToEvent i sub ev a m3 = Some (False, m3)"
    using m2(4) by (simp_all add: m3_def GetClient_def sse_cleanup_def SubscribeToEvent_def subscribe_begin_def delete_conv)
  ultimately show ?thesis using m2(1) by blast
qed

definition sample_manager :: EventsManager where
  "sample_manager = NewEventsManager (NewLocalBus NewEventBus)"

definition sample_es :: EventSession where
  "sample_es = NewEventSession \<lparr>UserID = ''ada'', SessionID = ''s''\<rparr> 0 ''r''"

definition sample_stream :: EventsManager where
  "sample_stream = put_client 0 (NewEventsClient sample_es)
     (sample_manager\<lparr>fresh_client := 1, clients := [(sample_es, 0)]\<rparr>)"

lemma sample_Register: "RegisterClient sample_es sample_manager = Some (0, sample_stream)"
  by (simp add: RegisterClient_def sample_manager_def NewEventsManager_def put_client_def sample_stream_def)

lemma sample_manager_simps [simp]:
  "map_of (clients sample_manager) s = None" "sbus sample_manager = NewLocalBus NewEventBus"
  "alive 0 (NewEventsClient sample_es) [] sample_stream" "sbus sample_stream = NewLocalBus NewEventBus"
  "eb_inv (eb (NewLocalBus NewEventBus))" "eb_abs (eb (NewLocalBus NewEventBus)) = Map.empty"
  by (simp_all add: sample_manager_def NewEventsManager_def NewLocalBus_def eb_inv_New eb_abs_New
      sample_stream_def alive_def NewEventsClient_def)

theorem sse_restores_witness:
  "\<exists>m2 m3. sse_run 0 [ESub ''i'' ''s'' ''robot.online'', EEvent ''robot.online'' JNull, ERead 0, EUnsub ''other''] sample_stream = Some m2
    \<and> sse_cleanup 0 m2 = Some m3 \<and> eb_abs (eb (sbus m3)) = Map.empty"
proof -
  have "sub_fresh table_put table_drop tbl_view
    (sse_sub_ops 0 [ESub ''i'' ''s'' ''robot.online'', EEvent ''robot.online'' JNull, ERead 0, EUnsub ''other'']) ([], sbus sample_manager)"
    by (simp add: tbl_view_def split: option.split)
  from sse_restores[OF sample_Register sample_manager_simps(1) _ this] show ?thesis
    using sample_manager_simps(5) unfolding sample_manager_simps(2,6) by blast
qed

text \<open>An event without a name escapes the clean-up.  A stream opened with a trailing comma
  in its list of events asks for one; the bus files it under the identifier it draws itself,
  while the cancel function names another, so that after the clean-up the bus still holds the
  client's handler.\<close>

theorem sse_empty_event_leaks:
  assumes "alive a c [] m" and "sub \<noteq> i" and "map_of (EventBus_t.handlers (eb (sbus m))) sub = None"
  shows "[] \<in> set (event_names (p @ '',''))
    \<and> (\<exists>m1 m2. SubscribeToEvent i sub [] a m = Some (False, m1) \<and> sse_cleanup a m1 = Some m2
         \<and> eb_abs (eb (sbus m2)) = (eb_abs (eb (sbus m)))(([], i) \<mapsto> Foreign a))"
proof -
  have "[] \<in> set (Split (p @ '','') (CHR '',''))"
    using Split_trailing[of p "CHR '',''"] by auto
  then have "TrimSpace [] \<in> set (event_names (p @ '',''))"
    unfolding event_names_def by simp
  then have names: "[] \<in> set (event_names (p @ '',''))"
    by (simp add: TrimSpace_def)
  obtain k b where S: "SubscribeEvent i sub [] (Foreign a) (sbus m) = (k, b)"
    by (cases "SubscribeEvent i sub [] (Foreign a) (sbus m)")
  note E = Subscribe_empty_handlers[OF S assms(2)]
  let ?c = "c\<lparr>c_cancels := Some [([], [], sub)]\<rparr>"
  let ?m1 = "put_client a ?c (m\<lparr>sbus := b\<rparr>)"
  have sub: "SubscribeToEvent i sub [] a m = Some (False, ?m1)"
    using SubscribeToEvent_put[OF assms(1), of i sub "[]"] S E(1) by (simp add: table_put_def)
  have al: "alive a ?c [([], [], sub)] ?m1"
    using assms(1) by (simp add: alive_def)
  have "cancelEvent ([], sub) b = Some b"
    using Unsubscribe_unknown E(2) assms(3) by metis
  then have "\<exists>m2. sse_cleanup a ?m1 = Some m2 \<and> sbus m2 = b"
    using cleanup_clear[OF al] by (simp add: table_clear_def)
  then show ?thesis using names sub E(3) by blast
qed

theorem sse_empty_event_leaks_witness:
  "\<exists>m1 m2. SubscribeToEvent ''i'' ''s'' [] 0 sample_stream = Some (False, m1) \<and> sse_cleanup 0 m1 = Some m2
     \<and> eb_abs (eb (sbus m2)) = [([], ''i'') \<mapsto> Foreign 0]"
  using sse_empty_event_leaks[of 0 "NewEventsClient sample_es" sample_stream "''s''" "''i''" "[]"]
  unfolding sample_manager_simps
  by (fastforce simp: NewLocalBus_def NewEventBus_def sm_defs eb_abs_New[unfolded NewEventBus_def sm_defs])

text \<open>C39: Subscribing races with clean-up.  \<^verbatim>\<open>SubscribeToEvent\<close> looks at the ended flag and
  subscribes on the bus before it takes the lock; when the clean-up runs in between, the
  write to the table panics and the subscription, which no one can cancel any more, stays on
  the bus.\<close>

theorem sse_subscribe_race:
  assumes "alive a c t m" and "tbl_ok (t, sbus m)" and "ev \<noteq> []" and "eb_abs (eb (sbus m)) (ev, sub) = None"
  shows "\<exists>cancel m1 m2. subscribe_begin i sub ev a m = (Some cancel, m1) \<and> sse_cleanup a m1 = Some m2
    \<and> subscribe_end ev cancel a m2 = Some (True, m2)
    \<and> eb_abs (eb (sbus m2)) (ev, sub) = Some (Foreign a) \<and> sse_cleanup a m2 = Some m2"
proof -
  obtain k b where S: "SubscribeEvent i sub ev (Foreign a) (sbus m) = (k, b)"
    by (cases "SubscribeEvent i sub ev (Foreign a) (sbus m)")
  note D = tbl_okD[OF assms(2)]
  note E = SubscribeEvent_ok[OF D(1)[simplified] assms(3) S]
  have ok: "tbl_ok (t, b)"
    using assms(2) E(2,3) by (auto simp: tbl_ok_def)
  have no: "tbl_mine (t, b) ev \<noteq> Some sub"
  proof
    assume "tbl_mine (t, b) ev = Some sub"
    then have "tbl_mine (t, sbus m) ev = Some sub" by (simp add: tbl_mine_def)
    from table.mine_view[OF assms(2) this] show False
      using assms(4) by (simp add: tbl_view_def)
  qed
  obtain t' b' where c: "table_clear (t, b) = Some (t', b')"
    "tbl_view (t', b') = (\<lambda>(e, x). if tbl_mine (t, b) e = Some x then None else tbl_view (t, b) (e, x))"
    using table_clear_ok[OF ok] by auto
  have bg: "subscribe_begin i sub ev a m = (Some k, m\<lparr>sbus := b\<rparr>)"
    using assms(1) S by (simp add: subscribe_begin_def alive_def)
  have al: "alive a c t (m\<lparr>sbus := b\<rparr>)" using assms(1) by (simp add: alive_def)
  define m2 where "m2 = put_client a (c\<lparr>c_ended := True, c_cancels := None\<rparr>)
       (m\<lparr>sbus := b, clients := AList.delete (c_session c) (clients (m\<lparr>sbus := b\<rparr>)), sbus := b'\<rparr>)"
  have "sse_cleanup a (m\<lparr>sbus := b\<rparr>) = Some m2"
    using cleanup_clear[OF al] c(1) by (simp add: m2_def)
  moreover have "subscribe_end ev k a m2 = Some (True, m2)" "sse_cleanup a m2 = Some m2"
    by (simp_all add: subscribe_end_def sse_cleanup_def m2_def)
  moreover have "eb_abs (eb (sbus m2)) (ev, sub) = Some (Foreign a)"
    using fun_cong[OF c(2), of "(ev, sub)"] no E(3) by (simp add: tbl_view_def m2_def)
  ultimately show ?thesis using bg by blast
qed

theorem sse_subscribe_race_witness:
  "\<exists>cancel m1 m2. subscribe_begin ''i'' ''s'' ''e'' 0 sample_stream = (Some cancel, m1) \<and> sse_cleanup 0 m1 = Some m2
    \<and> subscribe_end ''e'' cancel 0 m2 = Some (True, m2) \<and> eb_abs (eb (sbus m2)) (''e'', ''s'') = Some (Foreign 0)"
  using sse_subscribe_race[of 0 "NewEventsClient sample_es" "[]" sample_stream "''e''" "''s''" "''i''"]
  by (fastforce simp: tbl_ok_empty)

text \<open>A stream opened with a ticket ends at the first periodic check: its request carries
  no token, so that the validator answers no, whatever Redis holds.\<close>

theorem ticket_stream_ends:
  assumes "alive a c t m" and "tbl_ok (t, sbus m)"
  shows "\<exists>m'. validateSession_tick (fst (sse_validator T [] user r)) a m = Some m'
    \<and> GetClient (c_session c) m' = None
    \<and> (\<forall>e x. tbl_mine (t, sbus m) e = Some x \<longrightarrow> eb_abs (eb (sbus m')) (e, x) = None)"
proof -
  obtain t' b' where c: "table_clear (t, sbus m) = Some (t', b')"
    "tbl_view (t', b') = (\<lambda>(e, x). if tbl_mine (t, sbus m) e = Some x then None else tbl_view (t, sbus m) (e, x))"
    using table_clear_ok[OF assms(2)] by auto
  define m' where "m' = put_client a (c\<lparr>c_ended := True, c_cancels := None\<rparr>)
       (m\<lparr>clients := AList.delete (c_session c) (clients m), sbus := b'\<rparr>)"
  have "validateSession_tick (fst (sse_validator T [] user r)) a m = sse_cleanup a m"
    using assms(1) by (simp add: validateSession_tick_def sse_validator_def alive_def)
  also have "\<dots> = Some m'"
    using cleanup_clear[OF assms(1)] c(1) by (simp add: m'_def)
  finally have "validateSession_tick (fst (sse_validator T [] user r)) a m = Some m'" .
  moreover have "GetClient (c_session c) m' = None"
    by (simp add: m'_def GetClient_def delete_conv)
  moreover have "\<forall>e x. tbl_mine (t, sbus m) e = Some x \<longrightarrow> eb_abs (eb (sbus m')) (e, x) = None"
    using c(2) by (simp add: tbl_view_def m'_def fun_eq_iff)
  ultimately show ?thesis by blast
qed

theorem ticket_stream_ends_witness:
  "\<forall>T r. \<exists>m'. validateSession_tick (fst (sse_validator T [] ''ada'' r)) 0 sample_stream = Some m' \<and> GetClient sample_es m' = None"
  using ticket_stream_ends[of 0 "NewEventsClient sample_es" "[]" sample_stream _ "''ada''"]
  by (auto simp: tbl_ok_empty) (simp add: NewEventsClient_def)



end
