(* ===== verification/WebSocket.thy ===== *)
theory WebSocket
  imports HTTP_API Subscription_Tables "HOL-Library.Sublist"
begin

text \<open>
  Web sockets: \<^verbatim>\<open>http_server/http_websocket/websocket.go\<close>.  Clients live at
  addresses of the manager; a client's subscription on the bus is the closure
  \<open>Foreign a\<close>.  What \<^verbatim>\<open>ReadMessage\<close> and \<^verbatim>\<open>WriteMessage\<close> of the socket
  library answer is the input of the two pumps.  \<open>None\<close> is a panic or a call that does
  not return.
\<close>

section \<open>Messages\<close>

record ws_in =
  Action :: string
  in_UUID :: string
  in_Event :: string
  in_Data :: string

record OutgoingMessage =
  out_Type :: string
  out_Event :: string
  out_Data :: "json option"
  out_Error :: string

text \<open>An absent message \<^verbatim>\<open>data\<close> is the empty raw message.\<close>

definition dec_ws :: "string \<Rightarrow> ws_in option" where
  "dec_ws message =
     (case json_members message of
        None \<Rightarrow> None
      | Some ms \<Rightarrow>
          (case (str_field ''action'' ms, str_field ''uuid'' ms, str_field ''event'' ms) of
             (Some a, Some u, Some e) \<Rightarrow>
               Some \<lparr>Action = a, in_UUID = u, in_Event = e, in_Data = raw_field ''data'' message\<rparr>
           | _ \<Rightarrow> None))"

text \<open>\<^verbatim>\<open>omitempty\<close> leaves out empty strings and the nil interface.\<close>

definition OutgoingMessage_json :: "OutgoingMessage \<Rightarrow> json" where
  "OutgoingMessage_json m = JObj
     ([(''type'', JStr (out_Type m))]
      @ (if out_Event m = [] then [] else [(''event'', JStr (out_Event m))])
      @ (case out_Data m of None \<Rightarrow> [] | Some d \<Rightarrow> [(''data'', d)])
      @ (if out_Error m = [] then [] else [(''error'', JStr (out_Error m))]))"

section \<open>Clients\<close>

definition send_cap :: nat where "send_cap = 256"

text \<open>\<open>ws_writer\<close> tells whether \<^verbatim>\<open>writePump\<close> still runs.\<close>

record WSClient =
  ws_send :: "string list"
  ws_done :: bool
  ws_writer :: bool
  cancelFuncs :: "(string, string \<times> Subscriber) gomap option"

definition new_client :: WSClient where
  "new_client = \<lparr>ws_send = [], ws_done = False, ws_writer = True, cancelFuncs = Some []\<rparr>"

definition sendMsg :: "OutgoingMessage \<Rightarrow> WSClient \<Rightarrow> WSClient" where
  "sendMsg msg c =
     (if length (ws_send c) < send_cap
      then c\<lparr>ws_send := ws_send c @ [json_print (OutgoingMessage_json msg)]\<rparr> else c)"

definition event_msg :: "string \<Rightarrow> json option \<Rightarrow> OutgoingMessage" where
  "event_msg eventType data = \<lparr>out_Type = ''event'', out_Event = eventType, out_Data = data, out_Error = []\<rparr>"

definition error_msg :: "string \<Rightarrow> OutgoingMessage" where
  "error_msg msg = \<lparr>out_Type = ''error'', out_Event = [], out_Data = None, out_Error = msg\<rparr>"

definition ack_msg :: "string \<Rightarrow> OutgoingMessage" where
  "ack_msg msg = \<lparr>out_Type = ''ack'', out_Event = [], out_Data = Some (JStr msg), out_Error = []\<rparr>"

definition sendEvent :: "string \<Rightarrow> json option \<Rightarrow> WSClient \<Rightarrow> WSClient" where
  "sendEvent eventType data c = sendMsg (event_msg eventType data) c"

definition sendError :: "string \<Rightarrow> WSClient \<Rightarrow> WSClient" where
  "sendError msg c = sendMsg (error_msg msg) c"

definition sendAck :: "string \<Rightarrow> WSClient \<Rightarrow> WSClient" where
  "sendAck msg c = sendMsg (ack_msg msg) c"

section \<open>Actions\<close>

type_synonym ('r, 'p, 'c) ws_state = "WSClient \<times> ('r, 'p, 'c) world"

definition set_bus :: "closure LocalBus \<Rightarrow> ('r, 'p, 'c) world \<Rightarrow> ('r, 'p, 'c) world" where
  "set_bus b w = w\<lparr>en := (en w)\<lparr>bus := b\<rparr>\<rparr>"

definition ws_subscribe ::
  "string \<Rightarrow> Subscriber \<Rightarrow> nat \<Rightarrow> string \<Rightarrow> ('r, 'p, 'c) ws_state \<Rightarrow> ('r, 'p, 'c) ws_state option" where
  "ws_subscribe newID sub a eventType s =
     (if eventType = [] then Some (sendError ''event type required'' (fst s), snd s)
      else
        (case cancelFuncs (fst s) of
           None \<Rightarrow> None
         | Some t \<Rightarrow>
             (case table_put newID sub eventType (Foreign a) (t, bus (en (snd s))) of
                None \<Rightarrow> None
              | Some (t', b) \<Rightarrow>
                  Some (sendAck (''subscribed to '' @ eventType) ((fst s)\<lparr>cancelFuncs := Some t'\<rparr>), set_bus b (snd s)))))"

definition ws_unsubscribe :: "string \<Rightarrow> ('r, 'p, 'c) ws_state \<Rightarrow> ('r, 'p, 'c) ws_state option" where
  "ws_unsubscribe eventType s =
     (case cancelFuncs (fst s) of
        None \<Rightarrow> Some (sendAck (''unsubscribed from '' @ eventType) (fst s), snd s)
      | Some t \<Rightarrow>
          (case table_drop eventType (t, bus (en (snd s))) of
             None \<Rightarrow> None
           | Some (t', b) \<Rightarrow>
               Some (sendAck (''unsubscribed from '' @ eventType) ((fst s)\<lparr>cancelFuncs := Some t'\<rparr>), set_bus b (snd s))))"

definition sendToRobot ::
  "('c \<Rightarrow> string \<Rightarrow> string option) \<Rightarrow> string \<Rightarrow> string \<Rightarrow> ('r, 'p, 'c) ws_state
   \<Rightarrow> ('c out list \<times> ('r, 'p, 'c) ws_state) option" where
  "sendToRobot net uuid data s =
     (if uuid = [] then Some ([], sendError ''uuid required'' (fst s), snd s)
      else
        (case Get uuid (en (snd s)) of
           None \<Rightarrow> Some ([], sendError (''no handler running for robot: '' @ uuid) (fst s), snd s)
         | Some p \<Rightarrow>
             (case map_of (procs (en (snd s))) p of
                None \<Rightarrow> None
              | Some hp \<Rightarrow>
                  (case SendToRobot net hp data of
                     (os, Inl e) \<Rightarrow> Some (os, sendError (''failed to send to robot: '' @ e) (fst s), snd s)
                   | (os, Inr _) \<Rightarrow> Some (os, sendAck (''sent to robot '' @ uuid) (fst s), snd s)))))"

definition sendToHandler ::
  "string \<Rightarrow> string \<Rightarrow> ('r, 'p, 'c) ws_state \<Rightarrow> ('r, 'p, 'c) ws_state option" where
  "sendToHandler uuid data s =
     (if uuid = [] then Some (sendError ''uuid required'' (fst s), snd s)
      else
        (case Get uuid (en (snd s)) of
           None \<Rightarrow> Some (sendError (''no handler running for robot: '' @ uuid) (fst s), snd s)
         | Some p \<Rightarrow>
             (case on_proc p (SendIncoming data) (en (snd s)) of
                None \<Rightarrow> None
              | Some e \<Rightarrow> Some (sendAck (''sent to handler '' @ uuid) (fst s), (snd s)\<lparr>en := e\<rparr>))))"

text \<open>\<open>idp\<close> are the identifiers a subscription would draw.\<close>

definition ws_handleMessage ::
  "('c \<Rightarrow> string \<Rightarrow> string option) \<Rightarrow> string \<times> Subscriber \<Rightarrow> nat \<Rightarrow> ws_in \<Rightarrow> ('r, 'p, 'c) ws_state
   \<Rightarrow> ('c out list \<times> ('r, 'p, 'c) ws_state) option" where
  "ws_handleMessage net idp a msg s =
     (if Action msg = ''subscribe'' then map_option (Pair []) (ws_subscribe (fst idp) (snd idp) a (in_Event msg) s)
      else if Action msg = ''unsubscribe'' then map_option (Pair []) (ws_unsubscribe (in_Event msg) s)
      else if Action msg = ''send_to_robot'' then sendToRobot net (in_UUID msg) (in_Data msg) s
      else if Action msg = ''send_to_handler'' then map_option (Pair []) (sendToHandler (in_UUID msg) (in_Data msg) s)
      else Some ([], sendError (''unknown action: '' @ Action msg) (fst s), snd s))"

section \<open>The manager and the pumps\<close>

record ws_manager =
  ws_heap :: "(nat, WSClient) gomap"
  ws_fresh :: nat
  ws_clients :: "nat list"

definition CheckOrigin :: "ServerConfig \<Rightarrow> string \<Rightarrow> bool" where
  "CheckOrigin server origin \<longleftrightarrow> origin \<in> set (AllowedOrigins server)"

text \<open>\<open>upgraded\<close> is the answer of \<^verbatim>\<open>Upgrade\<close> where the origin is accepted.\<close>

definition HandleConnection :: "ServerConfig \<Rightarrow> string \<Rightarrow> bool \<Rightarrow> ws_manager \<Rightarrow> nat option \<times> ws_manager" where
  "HandleConnection server origin upgraded m =
     (if \<not> CheckOrigin server origin \<or> \<not> upgraded then (None, m)
      else
        (let a = ws_fresh m
         in (Some a, \<lparr>ws_heap = AList.update a new_client (ws_heap m), ws_fresh = Suc a,
                      ws_clients = List.insert a (ws_clients m)\<rparr>)))"

definition ws_close :: "nat \<Rightarrow> ws_manager \<times> ('r, 'p, 'c) world \<Rightarrow> (ws_manager \<times> ('r, 'p, 'c) world) option" where
  "ws_close a s =
     (case map_of (ws_heap (fst s)) a of
        None \<Rightarrow> None
      | Some c \<Rightarrow>
          if ws_done c then Some s
          else
            (case cancel_all (map snd (case cancelFuncs c of None \<Rightarrow> [] | Some t \<Rightarrow> t)) (bus (en (snd s))) of
               None \<Rightarrow> None
             | Some b \<Rightarrow>
                 Some ((fst s)\<lparr>ws_heap := AList.update a (c\<lparr>ws_done := True, cancelFuncs := None\<rparr>) (ws_heap (fst s)),
                         ws_clients := remove1 a (ws_clients (fst s))\<rparr>, set_bus b (snd s))))"

text \<open>What wakes the writer: a message in the channel, the ticker, the end of the client.  The
  flags say whether the write to the socket succeeds.\<close>

datatype pump_in = Outgoing bool | Tick bool | Done

definition readPump_step ::
  "('c \<Rightarrow> string \<Rightarrow> string option) \<Rightarrow> string \<times> Subscriber \<Rightarrow> nat \<Rightarrow> string \<Rightarrow> ('r, 'p, 'c) ws_state
   \<Rightarrow> ('c out list \<times> ('r, 'p, 'c) ws_state) option" where
  "readPump_step net idp a message s =
     (case dec_ws message of
        None \<Rightarrow> Some ([], sendError ''invalid JSON'' (fst s), snd s)
      | Some msg \<Rightarrow> ws_handleMessage net idp a msg s)"

fun writePump_step :: "pump_in \<Rightarrow> WSClient \<Rightarrow> string list \<times> WSClient" where
  "writePump_step (Outgoing ok) c =
     (if \<not> ws_writer c then ([], c)
      else
        (case ws_send c of
           [] \<Rightarrow> ([], c)
         | m # ms \<Rightarrow>
             if ok then ([m], c\<lparr>ws_send := ms\<rparr>) else ([], c\<lparr>ws_send := ms, ws_writer := False\<rparr>)))"
| "writePump_step (Tick ok) c = ([], if ok then c else c\<lparr>ws_writer := False\<rparr>)"
| "writePump_step Done c = ([], if ws_done c then c\<lparr>ws_writer := False\<rparr> else c)"

text \<open>
  What the goroutines of one client do: the reader gets a message, an event of the bus
  arrives, or the writer wakes; the output is what is written to the socket.
\<close>

datatype ws_op = WFrame string Subscriber string | WEvent string "json option" | WWrite pump_in

fun ws_step ::
  "('c \<Rightarrow> string \<Rightarrow> string option) \<Rightarrow> nat \<Rightarrow> ws_op \<Rightarrow> ('r, 'p, 'c) ws_state
   \<Rightarrow> (string list \<times> ('r, 'p, 'c) ws_state) option" where
  "ws_step net a (WFrame i sub message) s = map_option (\<lambda>(os, s'). ([], s')) (readPump_step net (i, sub) a message s)"
| "ws_step net a (WEvent et d) s = Some ([], sendEvent et d (fst s), snd s)"
| "ws_step net a (WWrite i) s = (case writePump_step i (fst s) of (ms, c) \<Rightarrow> Some (ms, c, snd s))"

fun ws_run ::
  "('c \<Rightarrow> string \<Rightarrow> string option) \<Rightarrow> nat \<Rightarrow> ws_op list \<Rightarrow> ('r, 'p, 'c) ws_state
   \<Rightarrow> (string list \<times> ('r, 'p, 'c) ws_state) option" where
  "ws_run net a [] s = Some ([], s)"
| "ws_run net a (x # xs) s =
     (case ws_step net a x s of
        None \<Rightarrow> None
      | Some (ms, s1) \<Rightarrow> (case ws_run net a xs s1 of None \<Rightarrow> None | Some (ms', s') \<Rightarrow> Some (ms @ ms', s')))"

text \<open>The operations of the client at an address of the manager.\<close>

definition ws_at ::
  "('c \<Rightarrow> string \<Rightarrow> string option) \<Rightarrow> nat \<Rightarrow> ws_op list \<Rightarrow> ws_manager \<times> ('r, 'p, 'c) world
   \<Rightarrow> (string list \<times> ws_manager \<times> ('r, 'p, 'c) world) option" where
  "ws_at net a ops s =
     (case map_of (ws_heap (fst s)) a of
        None \<Rightarrow> None
      | Some c \<Rightarrow>
          (case ws_run net a ops (c, snd s) of
             None \<Rightarrow> None
           | Some (ms, c', w) \<Rightarrow> Some (ms, (fst s)\<lparr>ws_heap := AList.update a c' (ws_heap (fst s))\<rparr>, w)))"

section \<open>The send channel\<close>

text \<open>What an operation posts, whatever the channel holds.\<close>

fun ws_post :: "('c \<Rightarrow> string \<Rightarrow> string option) \<Rightarrow> nat \<Rightarrow> ws_op \<Rightarrow> ('r, 'p, 'c) ws_state \<Rightarrow> string list" where
  "ws_post net a (WWrite i) s = []"
| "ws_post net a x s =
     (case ws_step net a x ((fst s)\<lparr>ws_send := []\<rparr>, snd s) of None \<Rightarrow> [] | Some (_, c, _) \<Rightarrow> ws_send c)"

fun ws_posted ::
  "('c \<Rightarrow> string \<Rightarrow> string option) \<Rightarrow> nat \<Rightarrow> ws_op list \<Rightarrow> ('r, 'p, 'c) ws_state \<Rightarrow> string list" where
  "ws_posted net a [] s = []"
| "ws_posted net a (x # xs) s =
     ws_post net a x s @ (case ws_step net a x s of None \<Rightarrow> [] | Some (_, s1) \<Rightarrow> ws_posted net a xs s1)"

lemma sendMsg_simps [simp]:
  "ws_done (sendMsg m c) = ws_done c" "ws_writer (sendMsg m c) = ws_writer c" "cancelFuncs (sendMsg m c) = cancelFuncs c"
  by (simp_all add: sendMsg_def)

lemma ws_send_sendMsg:
  "ws_send (sendMsg m c) =
     (if length (ws_send c) < send_cap then ws_send c @ [json_print (OutgoingMessage_json m)] else ws_send c)"
  by (simp add: sendMsg_def)

lemmas ws_sends = sendError_def sendAck_def sendEvent_def
lemmas ws_actions = ws_subscribe_def ws_unsubscribe_def sendToRobot_def sendToHandler_def

text \<open>Every message is answered once, and the answer does not depend on the channel.\<close>

definition posts_one ::
  "(('r, 'p, 'c) ws_state \<Rightarrow> ('c out list \<times> ('r, 'p, 'c) ws_state) option) \<Rightarrow> ('r, 'p, 'c) ws_state \<Rightarrow> bool" where
  "posts_one f s \<longleftrightarrow> (\<forall>os s'. f s = Some (os, s') \<longrightarrow>
     (\<exists>m t. \<forall>q. f ((fst s)\<lparr>ws_send := q\<rparr>, snd s) = Some (os, sendMsg m ((fst s)\<lparr>ws_send := q, cancelFuncs := t\<rparr>), snd s')))"

lemma same_cancels [simp]: "c\<lparr>ws_send := q, cancelFuncs := cancelFuncs c\<rparr> = c\<lparr>ws_send := q\<rparr>"
  by simp

lemma posts_oneI:
  assumes "\<And>q. f ((fst s)\<lparr>ws_send := q\<rparr>, snd s) = Some (os, sendMsg m ((fst s)\<lparr>ws_send := q, cancelFuncs := t\<rparr>), w')"
  shows "posts_one f s"
proof -
  have "f s = Some (os, sendMsg m ((fst s)\<lparr>cancelFuncs := t\<rparr>), w')"
    using assms[of "ws_send (fst s)"] by simp
  then show ?thesis using assms unfolding posts_one_def by fastforce
qed

lemma posts_same:
  assumes "\<And>q. f ((fst s)\<lparr>ws_send := q\<rparr>, snd s) = Some (os, sendMsg m ((fst s)\<lparr>ws_send := q\<rparr>), w')"
  shows "posts_one f s"
  by (rule posts_oneI[of _ _ os m "cancelFuncs (fst s)" w']) (simp add: assms)

lemma posts_if:
  "posts_one f s \<Longrightarrow> posts_one g s \<Longrightarrow> posts_one (\<lambda>s. if b then f s else g s) s"
  by (cases b) simp_all

lemma posts_none: "f s = None \<Longrightarrow> posts_one f s"
  by (simp add: posts_one_def)

lemma posts_subscribe: "posts_one (\<lambda>s. map_option (Pair []) (ws_subscribe i sub a ev s)) s"
proof (cases "ev = []")
  case True
  then show ?thesis by (intro posts_same) (simp add: ws_subscribe_def sendError_def)
next
  case False
  show ?thesis
  proof (cases "ws_subscribe i sub a ev s")
    case (Some s')
    then obtain t t' b where "cancelFuncs (fst s) = Some t"
      "table_put i sub ev (Foreign a) (t, bus (en (snd s))) = Some (t', b)"
      using False by (auto simp: ws_subscribe_def split: option.splits)
    then show ?thesis
      using False by (intro posts_oneI[where t = "Some t'"]) (simp add: ws_subscribe_def sendAck_def)
  qed (simp add: posts_none)
qed

lemma posts_unsubscribe: "posts_one (\<lambda>s. map_option (Pair []) (ws_unsubscribe ev s)) s"
proof (cases "cancelFuncs (fst s)")
  case None
  then show ?thesis by (intro posts_same) (simp add: ws_unsubscribe_def sendAck_def)
next
  case (Some t)
  show ?thesis
  proof (cases "table_drop ev (t, bus (en (snd s)))")
    case None
    then show ?thesis using Some by (intro posts_none) (simp add: ws_unsubscribe_def)
  next
    case (Some r)
    then obtain t' b where "table_drop ev (t, bus (en (snd s))) = Some (t', b)" by (cases r) simp
    then show ?thesis
      using \<open>cancelFuncs (fst s) = Some t\<close>
      by (intro posts_oneI[where t = "Some t'"]) (simp add: ws_unsubscribe_def sendAck_def)
  qed
qed

lemma posts_robot: "posts_one (sendToRobot net u d) s"
proof (cases "u = []")
  case True
  then show ?thesis by (intro posts_same) (simp add: sendToRobot_def sendError_def)
next
  case False
  show ?thesis
  proof (cases "Get u (en (snd s))")
    case None
    then show ?thesis using False by (intro posts_same) (simp add: sendToRobot_def sendError_def)
  next
    case (Some p)
    show ?thesis
    proof (cases "map_of (procs (en (snd s))) p")
      case None
      then show ?thesis using False Some by (intro posts_none) (simp add: sendToRobot_def)
    next
      case (Some hp)
      obtain os r where r: "SendToRobot net hp d = (os, r)" by (cases "SendToRobot net hp d")
      show ?thesis
        using False \<open>Get u (en (snd s)) = Some p\<close> Some r
        by (cases r; intro posts_same) (simp_all add: sendToRobot_def sendError_def sendAck_def)
    qed
  qed
qed

lemma posts_handler: "posts_one (\<lambda>s. map_option (Pair []) (sendToHandler u d s)) s"
proof (cases "u = []")
  case True
  then show ?thesis by (intro posts_same) (simp add: sendToHandler_def sendError_def)
next
  case False
  show ?thesis
  proof (cases "Get u (en (snd s))")
    case None
    then show ?thesis using False by (intro posts_same) (simp add: sendToHandler_def sendError_def)
  next
    case (Some p)
    then show ?thesis
    proof (cases "on_proc p (SendIncoming d) (en (snd s))")
      case None
      then show ?thesis using False Some by (intro posts_none) (simp add: sendToHandler_def)
    next
      case (Some e)
      then show ?thesis
        using False \<open>Get u (en (snd s)) = Some p\<close> by (intro posts_same) (simp add: sendToHandler_def sendAck_def)
    qed
  qed
qed

lemma readPump_posts: "posts_one (readPump_step net idp a message) s"
proof (cases "dec_ws message")
  case None
  then show ?thesis by (intro posts_same) (simp add: readPump_step_def sendError_def)
next
  case (Some msg)
  have other: "posts_one (\<lambda>s. Some ([], sendError e (fst s), snd s)) s" for e
    by (rule posts_same[where os = "[]" and m = "error_msg e" and w' = "snd s"]) (simp add: sendError_def)
  have "posts_one (ws_handleMessage net idp a msg) s"
    unfolding ws_handleMessage_def
    by (intro posts_if posts_subscribe posts_unsubscribe posts_robot posts_handler other)
  then show ?thesis using Some by (simp add: readPump_step_def posts_one_def)
qed

text \<open>A step takes what it wrote from the front and adds at most what it posts at the end.\<close>

definition ok_write :: "ws_op \<Rightarrow> bool" where
  "ok_write x \<longleftrightarrow> x \<noteq> WWrite (Outgoing False)"

lemma ws_step_queue:
  assumes "ws_step net a x s = Some (ms, s')" and "length (ws_send (fst s)) \<le> send_cap"
  shows "length (ws_send (fst s')) \<le> send_cap"
    and "subseq (ms @ ws_send (fst s')) (ws_send (fst s) @ ws_post net a x s)"
    and "ok_write x \<Longrightarrow> length (ws_send (fst s)) + length (ws_post net a x s) \<le> send_cap
           \<Longrightarrow> ms @ ws_send (fst s') = ws_send (fst s) @ ws_post net a x s"
proof -
  have "length (ws_send (fst s')) \<le> send_cap \<and> subseq (ms @ ws_send (fst s')) (ws_send (fst s) @ ws_post net a x s)
    \<and> (ok_write x \<longrightarrow> length (ws_send (fst s)) + length (ws_post net a x s) \<le> send_cap
           \<longrightarrow> ms @ ws_send (fst s') = ws_send (fst s) @ ws_post net a x s)"
  proof (cases x)
    case (WFrame i sub message)
    then obtain os where r: "readPump_step net (i, sub) a message s = Some (os, s')" and ms: "ms = []"
      using assms(1) by auto
    then obtain m t where q: "\<And>q. readPump_step net (i, sub) a message ((fst s)\<lparr>ws_send := q\<rparr>, snd s)
        = Some (os, sendMsg m ((fst s)\<lparr>ws_send := q, cancelFuncs := t\<rparr>), snd s')"
      using readPump_posts[of net "(i, sub)" a message s] unfolding posts_one_def by blast
    have "s' = (sendMsg m ((fst s)\<lparr>cancelFuncs := t\<rparr>), snd s')"
      using q[of "ws_send (fst s)"] r by simp
    then have "ws_send (fst s') = ws_send (sendMsg m (fst s))"
      by (metis (no_types, lifting) WSClient.select_convs(1) WSClient.surjective WSClient.update_convs(4) fst_conv ws_send_sendMsg)
    moreover have "ws_post net a x s = [json_print (OutgoingMessage_json m)]"
      using WFrame q[of "[]"] by (simp add: ws_send_sendMsg send_cap_def)
    ultimately show ?thesis
      using assms(2) ms by (auto simp: ws_send_sendMsg)
  next
    case (WEvent et d)
    then show ?thesis
      using assms by (auto simp: sendEvent_def ws_send_sendMsg send_cap_def)
  next
    case (WWrite i)
    then show ?thesis
      using assms by (cases i) (auto simp: ok_write_def split: list.splits if_splits)
  qed
  then show "length (ws_send (fst s')) \<le> send_cap"
    and "subseq (ms @ ws_send (fst s')) (ws_send (fst s) @ ws_post net a x s)"
    and "ok_write x \<Longrightarrow> length (ws_send (fst s)) + length (ws_post net a x s) \<le> send_cap
           \<Longrightarrow> ms @ ws_send (fst s') = ws_send (fst s) @ ws_post net a x s"
    by auto
qed

lemma ws_run_queue:
  assumes "ws_run net a xs s = Some (ms, s')" and "length (ws_send (fst s)) \<le> send_cap"
  shows "length (ws_send (fst s')) \<le> send_cap
    \<and> subseq (ms @ ws_send (fst s')) (ws_send (fst s) @ ws_posted net a xs s)
    \<and> (list_all ok_write xs \<longrightarrow> length (ws_send (fst s)) + length (ws_posted net a xs s) \<le> send_cap
         \<longrightarrow> ms @ ws_send (fst s') = ws_send (fst s) @ ws_posted net a xs s)"
  using assms
proof (induction xs arbitrary: s ms)
  case (Cons x xs)
  then obtain m1 s1 m2 where s1: "ws_step net a x s = Some (m1, s1)" "ws_run net a xs s1 = Some (m2, s')" "ms = m1 @ m2"
    by (auto split: option.splits)
  note Q = ws_step_queue[OF s1(1) Cons.prems(2)]
  note IH = Cons.IH[OF s1(2) Q(1)]
  have "subseq (m1 @ (m2 @ ws_send (fst s'))) (m1 @ (ws_send (fst s1) @ ws_posted net a xs s1))"
    using IH by (auto intro: list_emb_append_mono)
  also have "subseq \<dots> (ws_send (fst s) @ ws_posted net a (x # xs) s)"
    using list_emb_append_mono[OF Q(2) subseq_order.refl, of "ws_posted net a xs s1"] s1(1) by simp
  finally have sub: "subseq (ms @ ws_send (fst s')) (ws_send (fst s) @ ws_posted net a (x # xs) s)"
    using s1(3) by simp
  have "ms @ ws_send (fst s') = ws_send (fst s) @ ws_posted net a (x # xs) s"
    if "list_all ok_write (x # xs)" "length (ws_send (fst s)) + length (ws_posted net a (x # xs) s) \<le> send_cap"
  proof -
    have 1: "m1 @ ws_send (fst s1) = ws_send (fst s) @ ws_post net a x s"
      using Q(3) that s1(1) by simp
    then have "length m1 + length (ws_send (fst s1)) = length (ws_send (fst s)) + length (ws_post net a x s)"
      by (metis length_append)
    then have "m2 @ ws_send (fst s') = ws_send (fst s1) @ ws_posted net a xs s1"
      using IH that s1(1) by simp
    then show ?thesis using 1 s1 by (metis append.assoc option.case(2) prod.case ws_posted.simps(2))
  qed
  then show ?case using IH sub by blast
qed simp

section \<open>The subscriptions\<close>

definition frame_ops :: "nat \<Rightarrow> string \<Rightarrow> Subscriber \<Rightarrow> string \<Rightarrow> closure sub_op list" where
  "frame_ops a i sub message =
     (case dec_ws message of
        None \<Rightarrow> []
      | Some msg \<Rightarrow>
          if Action msg = ''subscribe'' \<and> in_Event msg \<noteq> [] then [SPut i sub (in_Event msg) (Foreign a)]
          else if Action msg = ''unsubscribe'' then [SDrop (in_Event msg)] else [])"

fun ws_sub_ops :: "nat \<Rightarrow> ws_op list \<Rightarrow> closure sub_op list" where
  "ws_sub_ops a [] = []"
| "ws_sub_ops a (WFrame i sub message # xs) = frame_ops a i sub message @ ws_sub_ops a xs"
| "ws_sub_ops a (WEvent et d # xs) = ws_sub_ops a xs"
| "ws_sub_ops a (WWrite i # xs) = ws_sub_ops a xs"

text \<open>A client that holds the table \<open>t\<close>, on a bus and an engine in order.\<close>

definition ws_open :: "(string, string \<times> Subscriber) gomap \<times> closure LocalBus \<Rightarrow> ('r, 'p, 'c) ws_state \<Rightarrow> bool" where
  "ws_open s x \<longleftrightarrow> cancelFuncs (fst x) = Some (fst s) \<and> bus (en (snd x)) = snd s \<and> \<not> ws_done (fst x) \<and> procs_ok (en (snd x))"

lemma set_bus_simps [simp]:
  "bus (en (set_bus b w)) = b" "procs_ok (en (set_bus b w)) = procs_ok (en w)"
  by (simp_all add: set_bus_def procs_ok_def)

lemma ws_open_send [simp]:
  "ws_open s (sendMsg m c, w) = ws_open s (c, w)"
  "ws_open s (sendError e c, w) = ws_open s (c, w)"
  "ws_open s (sendAck e c, w) = ws_open s (c, w)"
  "ws_open s (sendEvent et d c, w) = ws_open s (c, w)"
  by (simp_all add: ws_open_def ws_sends)

lemma writePump_frame:
  "cancelFuncs (snd (writePump_step i c)) = cancelFuncs c" "ws_done (snd (writePump_step i c)) = ws_done c"
  by (cases i; simp split: list.split)+

lemma ws_open_write: "ws_open s (c, w) \<Longrightarrow> ws_open s (snd (writePump_step i c), w)"
  by (simp add: ws_open_def writePump_frame)

lemma sendToRobot_open:
  assumes "ws_open s x" shows "\<exists>os x'. sendToRobot net u d x = Some (os, x') \<and> ws_open s x'"
proof -
  have "map_of (procs (en (snd x))) p \<noteq> None" if "Get u (en (snd x)) = Some p" for p
    using assms that by (auto simp: ws_open_def procs_ok_def Get_def)
  then show ?thesis
    using assms by (cases x) (fastforce simp: sendToRobot_def split: option.split prod.split sum.split)
qed

lemma sendToHandler_open:
  assumes "ws_open s x" shows "\<exists>x'. sendToHandler u d x = Some x' \<and> ws_open s x'"
proof (cases "u = [] \<or> Get u (en (snd x)) = None")
  case True
  then show ?thesis using assms by (cases x) (auto simp: sendToHandler_def)
next
  case False
  then obtain p e where p: "Get u (en (snd x)) = Some p" "on_proc p (SendIncoming d) (en (snd x)) = Some e"
    "procs_ok e" "bus e = bus (en (snd x))"
    using SendIncoming_ok[of "en (snd x)" u _ d] assms unfolding ws_open_def by blast
  then show ?thesis
    using assms False by (simp add: sendToHandler_def) (simp add: ws_open_def)
qed

lemma ws_subscribe_open:
  assumes "ws_open s x" and "ev \<noteq> []" and "table_put i sub ev (Foreign a) s = Some s'"
  shows "\<exists>x'. ws_subscribe i sub a ev x = Some x' \<and> ws_open s' x'"
  using assms by (cases s; cases s') (auto simp: ws_subscribe_def ws_open_def ws_sends)

lemma ws_unsubscribe_open:
  assumes "ws_open s x" and "table_drop ev s = Some s'"
  shows "\<exists>x'. ws_unsubscribe ev x = Some x' \<and> ws_open s' x'"
  using assms by (cases s; cases s') (auto simp: ws_unsubscribe_def ws_open_def ws_sends)

lemma readPump_open:
  assumes "ws_open s x" and "sub_run table_put table_drop (frame_ops a i sub message) s = Some s'"
  shows "\<exists>os x'. readPump_step net (i, sub) a message x = Some (os, x') \<and> ws_open s' x'"
proof (cases "dec_ws message")
  case None
  then show ?thesis using assms by (cases x) (auto simp: readPump_step_def frame_ops_def)
next
  case (Some msg)
  consider (sub) "Action msg = ''subscribe''" "in_Event msg \<noteq> []" | (sub0) "Action msg = ''subscribe''" "in_Event msg = []"
    | (unsub) "Action msg = ''unsubscribe''" | (other) "Action msg \<noteq> ''subscribe''" "Action msg \<noteq> ''unsubscribe''"
    by blast
  then show ?thesis
  proof cases
    case sub
    then have "table_put i sub (in_Event msg) (Foreign a) s = Some s'"
      using assms(2) Some by (auto simp: frame_ops_def split: option.splits)
    from ws_subscribe_open[OF assms(1) sub(2) this] show ?thesis
      using Some sub by (auto simp: readPump_step_def ws_handleMessage_def)
  next
    case sub0
    then show ?thesis using assms Some
      by (cases x) (auto simp: readPump_step_def ws_handleMessage_def frame_ops_def ws_subscribe_def)
  next
    case unsub
    then have "table_drop (in_Event msg) s = Some s'"
      using assms(2) Some by (auto simp: frame_ops_def split: option.splits)
    from ws_unsubscribe_open[OF assms(1) this] show ?thesis
      using Some unsub by (auto simp: readPump_step_def ws_handleMessage_def)
  next
    case other
    then have "s' = s" using assms(2) Some by (simp add: frame_ops_def)
    then show ?thesis
      using sendToRobot_open[OF assms(1), of net "in_UUID msg" "in_Data msg"]
        sendToHandler_open[OF assms(1), of "in_UUID msg" "in_Data msg"] assms(1) Some other
      by (cases x) (auto simp: readPump_step_def ws_handleMessage_def)
  qed
qed

lemma sub_run_append:
  "sub_run put drp (xs @ ys) s = (case sub_run put drp xs s of None \<Rightarrow> None | Some s' \<Rightarrow> sub_run put drp ys s')"
  by (induction put drp xs s rule: sub_run.induct) (auto split: option.split)

lemma ws_run_open:
  assumes "ws_open s x" and "sub_run table_put table_drop (ws_sub_ops a ops) s = Some s'"
  shows "\<exists>ms x'. ws_run net a ops x = Some (ms, x') \<and> ws_open s' x'"
  using assms
proof (induction ops arbitrary: s x)
  case (Cons op ops)
  have "\<exists>ms x1 s1. ws_step net a op x = Some (ms, x1) \<and> ws_open s1 x1 \<and> sub_run table_put table_drop (ws_sub_ops a ops) s1 = Some s'"
  proof (cases op)
    case (WFrame i sub message)
    then obtain s1 where s1: "sub_run table_put table_drop (frame_ops a i sub message) s = Some s1"
      "sub_run table_put table_drop (ws_sub_ops a ops) s1 = Some s'"
      using Cons.prems(2) by (auto simp: sub_run_append split: option.splits)
    then show ?thesis
      using readPump_open[OF Cons.prems(1) s1(1), of net] WFrame s1(2) by (auto intro: exI[of _ s1] simp del: split_paired_Ex)
  next
    case (WEvent et d)
    then show ?thesis using Cons.prems by (cases x) (auto intro: exI[of _ s] simp del: split_paired_Ex)
  next
    case (WWrite i)
    then show ?thesis
      using Cons.prems ws_open_write[of s "fst x" "snd x" i]
      by (cases x) (auto intro: exI[of _ s] split: prod.split simp del: split_paired_Ex)
  qed
  then show ?case using Cons.IH by fastforce
qed auto

section \<open>Properties\<close>

text \<open>C27: A web socket leaves no trace on the bus.  Whatever messages its client sends, whatever
  events arrive and however the writer fares, no operation panics, and closing the socket
  cancels exactly the subscriptions the client made: the bus holds what it held before, the
  manager forgets the client, and a second close changes nothing.\<close>

theorem ws_close_restores:
  assumes "HandleConnection server origin True m = (Some a, m1)" and "a \<notin> set (ws_clients m)"
    and "eb_inv (eb (bus (en w)))" and "procs_ok (en w)"
    and "sub_fresh table_put table_drop tbl_view (ws_sub_ops a ops) ([], bus (en w))"
  shows "\<exists>ms m2 w2 m3 w3. ws_at net a ops (m1, w) = Some (ms, m2, w2) \<and> ws_close a (m2, w2) = Some (m3, w3)
    \<and> eb_inv (eb (bus (en w3))) \<and> eb_abs (eb (bus (en w3))) = eb_abs (eb (bus (en w)))
    \<and> ws_clients m3 = ws_clients m \<and> ws_close a (m3, w3) = Some (m3, w3)"
proof -
  have m1: "map_of (ws_heap m1) a = Some new_client" "ws_clients m1 = a # ws_clients m"
    using assms(1,2) by (auto simp: HandleConnection_def Let_def split: if_splits)
  have ok: "tbl_ok ([], bus (en w))" and mine: "tbl_mine ([], bus (en w)) = Map.empty"
    using assms(3) by (simp_all add: tbl_ok_def wf_map_def tbl_mine_def fun_eq_iff)
  obtain s where s: "sub_run table_put table_drop (ws_sub_ops a ops) ([], bus (en w)) = Some s"
    using table.run_others[OF ok assms(5)] by blast
  obtain t' b where c: "table_clear s = Some (t', b)" "tbl_ok (t', b)" "tbl_view (t', b) = tbl_view ([], bus (en w))"
    using table.clear_restores[OF ok assms(5) mine s] by auto
  have "ws_open ([], bus (en w)) (new_client, w)"
    using assms(4) by (simp add: ws_open_def new_client_def)
  from ws_run_open[OF this s, of net] obtain ms c2 w2 where r: "ws_run net a ops (new_client, w) = Some (ms, c2, w2)" "ws_open s (c2, w2)"
    by auto
  define m2 where "m2 = m1\<lparr>ws_heap := AList.update a c2 (ws_heap m1)\<rparr>"
  define m3 where "m3 = m2\<lparr>ws_heap := AList.update a (c2\<lparr>ws_done := True, cancelFuncs := None\<rparr>) (ws_heap m2),
      ws_clients := remove1 a (ws_clients m2)\<rparr>"
  have "ws_at net a ops (m1, w) = Some (ms, m2, w2)"
    using m1(1) r(1) by (simp add: ws_at_def m2_def)
  moreover have "ws_close a (m2, w2) = Some (m3, set_bus b w2)"
    using r(2) c(1) by (cases s) (auto simp: ws_close_def m2_def m3_def ws_open_def table_clear_def update_conv split: option.splits)
  moreover have "ws_close a (m3, set_bus b w2) = Some (m3, set_bus b w2)" "ws_clients m3 = ws_clients m"
    using m1(2) by (simp_all add: ws_close_def m3_def m2_def update_conv)
  moreover have "eb_inv (eb (bus (en (set_bus b w2))))" "eb_abs (eb (bus (en (set_bus b w2)))) = eb_abs (eb (bus (en w)))"
    using c(2,3) by (simp_all add: tbl_ok_def tbl_view_def)
  ultimately show ?thesis by blast
qed

definition sample_frame :: "string \<Rightarrow> string \<Rightarrow> string" where
  "sample_frame act ev = json_print (JObj [(''action'', JStr act), (''event'', JStr ev)])"

definition sample_ws_engine :: "nat engine" where
  "sample_ws_engine = \<lparr>procs = [], fresh_proc = 0, handlers = [], spawning = [], bus = NewLocalBus NewEventBus\<rparr>"

definition sample_ws_world :: "(unit, unit, nat) world" where
  "sample_ws_world = \<lparr>st = \<lparr>rst = (), pst = ()\<rparr>, en = sample_ws_engine\<rparr>"

definition sample_ws_manager :: ws_manager where
  "sample_ws_manager = \<lparr>ws_heap = [], ws_fresh = 0, ws_clients = []\<rparr>"

lemma sample_ws_simps [simp]:
  "bus (en sample_ws_world) = NewLocalBus NewEventBus" "procs_ok (en sample_ws_world)"
  "eb_inv (eb (NewLocalBus NewEventBus))" "eb_abs (eb (NewLocalBus NewEventBus)) = Map.empty"
  by (simp_all add: sample_ws_world_def sample_ws_engine_def procs_ok_def NewLocalBus_def eb_inv_New eb_abs_New)

lemma sample_dec:
  "dec_ws (sample_frame ''subscribe'' ''robot.online'')
     = Some \<lparr>Action = ''subscribe'', in_UUID = [], in_Event = ''robot.online'', in_Data = raw_field ''data'' (sample_frame ''subscribe'' ''robot.online'')\<rparr>"
proof -
  have "json_members (sample_frame ''subscribe'' ''robot.online'') = Some [(''action'', JStr ''subscribe''), (''event'', JStr ''robot.online'')]"
    unfolding sample_frame_def by (rule json_members_print) (simp add: valid_utf8_ascii byte_in_def)
  then show ?thesis by (simp add: dec_ws_def field_defs)
qed

theorem ws_close_restores_witness:
  "\<exists>ms m2 w2 m3 w3. ws_at (\<lambda>c d. None) 0
      [WFrame ''i'' ''s'' (sample_frame ''subscribe'' ''robot.online''), WEvent ''robot.online'' None, WWrite (Outgoing True)]
      (snd (HandleConnection (Server defaultConfig) ''http://localhost:5173'' True sample_ws_manager), sample_ws_world) = Some (ms, m2, w2)
    \<and> ws_close 0 (m2, w2) = Some (m3, w3) \<and> eb_abs (eb (bus (en w3))) = Map.empty"
proof -
  have h: "HandleConnection (Server defaultConfig) ''http://localhost:5173'' True sample_ws_manager
      = (Some 0, snd (HandleConnection (Server defaultConfig) ''http://localhost:5173'' True sample_ws_manager))"
    by (simp add: HandleConnection_def CheckOrigin_def defaultConfig_def sample_ws_manager_def)
  have f: "sub_fresh table_put table_drop tbl_view
      (ws_sub_ops 0 [WFrame ''i'' ''s'' (sample_frame ''subscribe'' ''robot.online''), WEvent ''robot.online'' None, WWrite (Outgoing True)])
      ([], bus (en sample_ws_world))"
    by (simp add: frame_ops_def sample_dec tbl_view_def split: option.split)
  have n: "0 \<notin> set (ws_clients sample_ws_manager)" by (simp add: sample_ws_manager_def)
  from ws_close_restores[OF h n _ _ f, of "\<lambda>c d. None"] show ?thesis
    using sample_ws_simps(2,3) unfolding sample_ws_simps(1,4) by blast
qed

text \<open>C28: The send channel keeps order and bound.  It never holds more than 256 messages; what
  has been written to the socket followed by what waits is a subsequence of what was posted,
  in order; and as long as no more than 256 messages were posted and every write succeeded,
  nothing is missing.\<close>

theorem ws_send_order:
  assumes "ws_run net a ops (new_client, w) = Some (ms, c, w')"
  shows "length (ws_send c) \<le> 256 \<and> subseq (ms @ ws_send c) (ws_posted net a ops (new_client, w))
    \<and> (list_all ok_write ops \<longrightarrow> length (ws_posted net a ops (new_client, w)) \<le> 256
         \<longrightarrow> ms @ ws_send c = ws_posted net a ops (new_client, w))"
  using ws_run_queue[OF assms] by (simp add: new_client_def send_cap_def)

theorem ws_send_order_witness:
  "\<exists>ms c w'. ws_run (\<lambda>c d. None) 0 [WEvent ''a'' None, WEvent ''b'' None, WWrite (Outgoing True)] (new_client, sample_ws_world) = Some (ms, c, w')
    \<and> ms @ ws_send c = map (\<lambda>e. json_print (OutgoingMessage_json (event_msg e None))) [''a'', ''b'']"
proof -
  let ?ops = "[WEvent ''a'' None, WEvent ''b'' None, WWrite (Outgoing True)]"
  obtain ms c w' where r: "ws_run (\<lambda>c d. None) 0 ?ops (new_client, sample_ws_world) = Some (ms, c, w')"
    by (simp add: sendEvent_def sendMsg_def new_client_def send_cap_def)
  have p: "ws_posted (\<lambda>c d. None) 0 ?ops (new_client, sample_ws_world)
      = map (\<lambda>e. json_print (OutgoingMessage_json (event_msg e None))) [''a'', ''b'']"
    by (simp add: sendEvent_def ws_send_sendMsg new_client_def send_cap_def split: prod.split)
  have "list_all ok_write ?ops" by (simp add: ok_write_def)
  then have "ms @ ws_send c = map (\<lambda>e. json_print (OutgoingMessage_json (event_msg e None))) [''a'', ''b'']"
    using ws_send_order[OF r] unfolding p by simp
  then show ?thesis using r by blast
qed

end
