(* ===== verification/HTTP_Server.thy ===== *)
theory HTTP_Server
  imports HTTP_Events WebSocket
begin

text \<open>
  The web server as a whole: the log stream of a handler
  (\<^verbatim>\<open>http_server/handler.go\<close>), the table of routes that
  \<^verbatim>\<open>http_server/http_server.go\<close> and the \<^verbatim>\<open>...Routes\<close> functions build, and the
  dispatch of a request through the middleware to its handler.  Matching a path against a
  pattern is the router library's.
\<close>

section \<open>Log streams\<close>

record log_stream =
  ls_cancel :: "string \<times> Subscriber"
  ls_ch :: "string list"

definition logCh_cap :: nat where "logCh_cap = 256"

definition log_topic :: "string \<Rightarrow> string" where
  "log_topic uuid = ''handler.'' @ uuid @ ''.log''"

text \<open>The request up to the loop: an answer, or the stream.\<close>

definition streamHandlerLogs ::
  "('r, 'p) tcp_server \<Rightarrow> http_req \<Rightarrow> bool \<Rightarrow> string \<times> Subscriber \<Rightarrow> nat \<Rightarrow> ('r, 'p, 'c) world
   \<Rightarrow> (response + log_stream) \<times> ('r, 'p, 'c) world" where
  "streamHandlerLogs T rq flushable idp n w =
     (case stream_session T rq (rst (st w)) of
        (None, r) \<Rightarrow> (Inl unauthorized, set_rst r w)
      | (Some _, r) \<Rightarrow>
          (let w1 = set_rst r w; uuid = h_param rq
           in if \<not> Has uuid (en w1) then (Inl (HError 404 ''No handler running for this robot''), w1)
              else if \<not> flushable then (Inl (HError 500 ''Streaming not supported''), w1)
              else
                (case SubscribeEvent (fst idp) (snd idp) (log_topic uuid) (Foreign n) (bus (en w1)) of
                   (cancel, b) \<Rightarrow> (Inr \<lparr>ls_cancel = cancel, ls_ch = []\<rparr>, set_bus b w1))))"

definition log_event_in :: "json \<Rightarrow> log_stream \<Rightarrow> log_stream" where
  "log_event_in data ls =
     (if length (ls_ch ls) < logCh_cap then ls\<lparr>ls_ch := ls_ch ls @ [json_print data]\<rparr> else ls)"

definition log_write :: "log_stream \<Rightarrow> string list \<times> log_stream" where
  "log_write ls =
     (case ls_ch ls of [] \<Rightarrow> ([], ls) | d # ds \<Rightarrow> ([''data: '' @ d @ [NL, NL]], ls\<lparr>ls_ch := ds\<rparr>))"

definition log_end :: "log_stream \<Rightarrow> ('r, 'p, 'c) world \<Rightarrow> ('r, 'p, 'c) world option" where
  "log_end ls w = map_option (\<lambda>b. set_bus b w) (cancelEvent (ls_cancel ls) (bus (en w)))"

section \<open>The route table\<close>

datatype target =
    API http_route
  | EventStream | LogStream | EventsSub | EventsUnsub | Socket
  | PluginList | PluginFile

record route =
  r_method :: string
  r_pattern :: string
  r_guarded :: bool
  r_target :: target

definition rt :: "string \<Rightarrow> string \<Rightarrow> target \<Rightarrow> route" where
  "rt m p t = \<lparr>r_method = m, r_pattern = p, r_guarded = False, r_target = t\<rparr>"

text \<open>\<^verbatim>\<open>Route\<close> puts a sub-router under a prefix; \<^verbatim>\<open>Use\<close> guards what is registered in its
  group.\<close>

definition under :: "string \<Rightarrow> route list \<Rightarrow> route list" where
  "under p rs = map (\<lambda>r. r\<lparr>r_pattern := p @ r_pattern r\<rparr>) rs"

definition guard :: "route list \<Rightarrow> route list" where
  "guard rs = map (\<lambda>r. r\<lparr>r_guarded := True\<rparr>) rs"

definition AuthRoutes :: "route list" where
  "AuthRoutes =
     [rt ''GET'' ''/'' (API (Rest CheckToken)), rt ''POST'' ''/login'' (API Login),
      rt ''POST'' ''/logout'' (API (Rest Logout)), rt ''POST'' ''/ticket'' (API (Rest Ticket))]
     @ guard [rt ''POST'' ''/password'' (API (Rest Password))]"

definition HeartbeatRoutes :: "route list" where
  "HeartbeatRoutes = [rt ''POST'' ''/'' (API (Rest Heartbeat_Post))]"

definition PluginRoutes :: "route list" where
  "PluginRoutes = [rt ''GET'' ''/'' PluginList, rt ''GET'' ''/{type}/*'' PluginFile]"

definition RobotRoutes :: "route list" where
  "RobotRoutes =
     [rt ''GET'' ''/'' (API (Rest Robot_List)), rt ''GET'' ''/{uuid}'' (API (Rest Robot_Detail)),
      rt ''POST'' ''/{uuid}/message'' (API (Rest Robot_Message))]"

definition ProvisionRoutes :: "route list" where
  "ProvisionRoutes =
     [rt ''GET'' ''/'' (API (Rest Provision_List)), rt ''POST'' ''/'' (API (Rest Provision_Post)),
      rt ''GET'' ''/{uuid}'' (API (Rest Provision_Get)), rt ''POST'' ''/{uuid}/blacklist'' (API (Rest Provision_Blacklist)),
      rt ''GET'' ''/{uuid}/status'' (API (Rest Provision_Status))]"

definition EphemeralRoutes :: "route list" where
  "EphemeralRoutes =
     [rt ''POST'' ''/'' (API (Rest Ephemeral_Post)), rt ''DELETE'' ''/{uuid}'' (API (Rest Ephemeral_Delete))]"

definition RegisterRoutes :: "route list" where
  "RegisterRoutes =
     [rt ''POST'' ''/'' (API (Rest Register_Post)), rt ''GET'' ''/pending'' (API (Rest Register_Pending))]"

definition HandlerRoutes :: "route list" where
  "HandlerRoutes =
     [rt ''GET'' ''/'' (API (Rest Handler_List)), rt ''GET'' ''/types'' (API (Rest Handler_Types)),
      rt ''GET'' ''/{uuid}'' (API (Rest Handler_Status)), rt ''POST'' ''/{uuid}/start'' (API (Rest Handler_Start)),
      rt ''POST'' ''/{uuid}/kill'' (API (Rest Handler_Kill))]"

definition routes :: "route list" where
  "routes =
     under ''/auth'' AuthRoutes @ under ''/heartbeat'' HeartbeatRoutes @ under ''/plugins'' PluginRoutes
     @ [rt ''GET'' ''/events'' EventStream, rt ''GET'' ''/handler/{uuid}/logs'' LogStream]
     @ guard (under ''/robot'' RobotRoutes
         @ [rt ''POST'' ''/events/subscribe'' EventsSub, rt ''POST'' ''/events/unsubscribe'' EventsUnsub]
         @ under ''/provision'' ProvisionRoutes @ under ''/ephemeral'' EphemeralRoutes
         @ under ''/register'' RegisterRoutes @ under ''/handler'' HandlerRoutes
         @ [rt ''GET'' ''/ws'' Socket])"

section \<open>Dispatch\<close>

record ('r, 'p, 'c) http_state =
  hw :: "('r, 'p, 'c) world"
  hlim :: limiter
  hsse :: EventsManager
  hws :: ws_manager

text \<open>What a request brings besides \<open>http_req\<close>: its query and path, and what the stream,
  socket and file handlers draw from their surroundings.\<close>

record http_args =
  ha_events :: string
  ha_random :: string
  ha_ids :: "nat \<Rightarrow> string \<times> Subscriber"
  ha_closure :: nat
  ha_flushable :: bool
  ha_upgraded :: bool
  ha_type :: string
  ha_file :: string

datatype answer = Reply response | Streaming | Logs log_stream | Upgraded "nat option" | File string | Crash

text \<open>The event manager works on the server's bus.\<close>

definition on_sse ::
  "('r \<times> EventsManager \<Rightarrow> (answer \<times> 'r \<times> EventsManager) option) \<Rightarrow> ('r, 'p, 'c) http_state
   \<Rightarrow> (http_ev list \<times> answer \<times> ('r, 'p, 'c) http_state) option" where
  "on_sse f s =
     (case f (rst (st (hw s)), (hsse s)\<lparr>sbus := bus (en (hw s))\<rparr>) of
        None \<Rightarrow> None
      | Some (a, r, m) \<Rightarrow> Some ([], a, s\<lparr>hw := set_bus (sbus m) (set_rst r (hw s)), hsse := m\<rparr>))"

text \<open>\<open>F\<close> is the file system, \<open>ev\<close> resolves symbolic links, \<open>absBase\<close> is the absolute path of
  the handlers.\<close>

definition run_target ::
  "codec \<Rightarrow> bcrypt \<Rightarrow> ('r, 'p) tcp_server \<Rightarrow> fsys \<Rightarrow> (string \<Rightarrow> string option) \<Rightarrow> string \<Rightarrow> http_args \<Rightarrow> http_req \<Rightarrow> target
   \<Rightarrow> ('r, 'p, 'c) http_state \<Rightarrow> (http_ev list \<times> answer \<times> ('r, 'p, 'c) http_state) option" where
  "run_target C B T F ev absBase A rq tg s =
     (case tg of
        API Login \<Rightarrow>
          (case loginHandler T B rq (hlim s, rst (st (hw s))) of
             (resp, L, r) \<Rightarrow> Some ([], Reply resp, s\<lparr>hw := set_rst r (hw s), hlim := L\<rparr>))
      | API (Rest ep) \<Rightarrow>
          (case handle C B T rq ep (hw s) of (evs, resp, w) \<Rightarrow> Some (evs, Reply resp, s\<lparr>hw := w\<rparr>))
      | EventStream \<Rightarrow>
          on_sse (\<lambda>x. case eventsHandler T rq (ha_events A) (ha_random A) (ha_ids A) x of
                        None \<Rightarrow> None
                      | Some (Some resp, _, r, m) \<Rightarrow> Some (Reply resp, r, m)
                      | Some (None, panic, r, m) \<Rightarrow> Some (if panic then Crash else Streaming, r, m)) s
      | LogStream \<Rightarrow>
          (case streamHandlerLogs T rq (ha_flushable A) (ha_ids A 0) (ha_closure A) (hw s) of
             (Inl resp, w) \<Rightarrow> Some ([], Reply resp, s\<lparr>hw := w\<rparr>)
           | (Inr ls, w) \<Rightarrow> Some ([], Logs ls, s\<lparr>hw := w\<rparr>))
      | EventsSub \<Rightarrow>
          on_sse (\<lambda>x. map_option (\<lambda>(resp, r, m). (Reply resp, r, m)) (eventsSubscribeHandler T rq (ha_ids A) x)) s
      | EventsUnsub \<Rightarrow>
          on_sse (\<lambda>x. map_option (\<lambda>(resp, r, m). (Reply resp, r, m)) (eventsUnsubscribeHandler T rq x)) s
      | Socket \<Rightarrow>
          (case HandleConnection (Server (cfg (sv T))) (h_origin rq) (ha_upgraded A) (hws s) of
             (c, m) \<Rightarrow> Some ([], Upgraded c, s\<lparr>hws := m\<rparr>))
      | PluginList \<Rightarrow> Some ([], Reply (plugin_types F absBase), s)
      | PluginFile \<Rightarrow>
          (case plugin_file ev absBase (ha_type A) (ha_file A) of
             Inl resp \<Rightarrow> Some ([], Reply resp, s)
           | Inr path \<Rightarrow> Some ([], File path, s)))"

definition serve_route ::
  "codec \<Rightarrow> bcrypt \<Rightarrow> ('r, 'p) tcp_server \<Rightarrow> fsys \<Rightarrow> (string \<Rightarrow> string option) \<Rightarrow> string \<Rightarrow> http_args \<Rightarrow> http_req \<Rightarrow> route
   \<Rightarrow> ('r, 'p, 'c) http_state \<Rightarrow> (http_ev list \<times> answer \<times> ('r, 'p, 'c) http_state) option" where
  "serve_route C B T F ev absBase A rq r s =
     (if snd (CORSMiddleware (Server (cfg (sv T))) rq) then Some ([], Reply (HReply 200 NoBody), s)
      else if r_guarded r then
        (case validateSessionFull T rq (rst (st (hw s))) of
           (None, r') \<Rightarrow> Some ([], Reply unauthorized, s\<lparr>hw := set_rst r' (hw s)\<rparr>)
         | (Some _, r') \<Rightarrow> run_target C B T F ev absBase A rq (r_target r) (s\<lparr>hw := set_rst r' (hw s)\<rparr>))
      else run_target C B T F ev absBase A rq (r_target r) s)"

section \<open>Properties\<close>

definition public :: "target \<Rightarrow> bool" where
  "public t \<longleftrightarrow> t \<in> {API Login, API (Rest CheckToken), API (Rest Logout), API (Rest Ticket), API (Rest Heartbeat_Post), PluginList, PluginFile}"

lemmas route_defs = routes_def under_def guard_def rt_def AuthRoutes_def HeartbeatRoutes_def PluginRoutes_def RobotRoutes_def
  ProvisionRoutes_def EphemeralRoutes_def RegisterRoutes_def HandlerRoutes_def

lemma routes_cover:
  "list_all (\<lambda>r. public (r_target r) \<or> r_guarded r \<or> r_target r \<in> {EventStream, LogStream}) routes"
  by (simp add: route_defs public_def)

lemma routes_flags:
  "list_all (\<lambda>r. case r_target r of API (Rest ep) \<Rightarrow> r_guarded r = protected ep | API Login \<Rightarrow> \<not> r_guarded r | _ \<Rightarrow> True) routes"
  by (simp add: route_defs protected_def)

text \<open>What a request without valid credentials gets: the guarded routes look at its token, the
  two streams at its ticket first.\<close>

definition denied :: "('r, 'p) tcp_server \<Rightarrow> http_req \<Rightarrow> route \<Rightarrow> 'r \<Rightarrow> 'r \<Rightarrow> bool" where
  "denied T rq r x x' \<longleftrightarrow>
     (if r_guarded r then validateSessionFull T rq x = (None, x') else stream_session T rq x = (None, x'))"

text \<open>C8: Every route but the public ones is closed to strangers.  For each entry of the route
  table except log-in, log-out, the token check, the ticket request (which checks for itself),
  heartbeats and plug-in files, a request whose credentials do not hold is answered 401, and
  nothing changes but what reading from Redis changes: no handler, no subscription, no record,
  no stream and no socket.\<close>

theorem routes_secured:
  assumes "r \<in> set routes" and "\<not> public (r_target r)" and "h_method rq \<noteq> ''OPTIONS''"
    and "denied T rq r (rst (st (hw s))) x'"
  shows "\<exists>s'. serve_route C B T F ev absBase A rq r s = Some ([], Reply unauthorized, s')
    \<and> en (hw s') = en (hw s) \<and> st (hw s') = (st (hw s))\<lparr>rst := x'\<rparr> \<and> hlim s' = hlim s
    \<and> clients (hsse s') = clients (hsse s) \<and> heap (hsse s') = heap (hsse s) \<and> hws s' = hws s"
proof -
  have c: "\<not> snd (CORSMiddleware (Server (cfg (sv T))) rq)"
    using assms(3) by (simp add: CORSMiddleware_def)
  consider "r_guarded r" | "\<not> r_guarded r" "r_target r = EventStream" | "\<not> r_guarded r" "r_target r = LogStream"
    using routes_cover assms(1,2) unfolding list_all_iff by blast
  then show ?thesis
  proof cases
    case 1
    then show ?thesis using c assms(4) by (simp add: serve_route_def denied_def set_rst_def)
  next
    case 2
    then show ?thesis
      using c assms(4) by (simp add: serve_route_def denied_def run_target_def on_sse_def eventsHandler_def set_rst_def set_bus_def)
  next
    case 3
    then show ?thesis
      using c assms(4) by (simp add: serve_route_def denied_def run_target_def streamHandlerLogs_def set_rst_def)
  qed
qed

definition sample_http :: "(mem, (string, RobotRecord) gomap, nat) http_state" where
  "sample_http = \<lparr>hw = sample_world, hlim = Map.empty, hsse = sample_manager, hws = sample_ws_manager\<rparr>"

definition sample_args :: http_args where
  "sample_args = \<lparr>ha_events = [], ha_random = ''r'', ha_ids = (\<lambda>_. (''i'', ''s'')), ha_closure = 7,
     ha_flushable = True, ha_upgraded = True, ha_type = [], ha_file = []\<rparr>"

theorem routes_secured_witness:
  "\<exists>s'. serve_route sample_codec sample_bcrypt sample_tcp sample_fs Some ''/'' sample_args (sample_req 9 [] [])
      (rt ''GET'' ''/handler/{uuid}/logs'' LogStream) sample_http = Some ([], Reply unauthorized, s') \<and> en (hw s') = en sample_world"
proof -
  let ?r = "rt ''GET'' ''/handler/{uuid}/logs'' LogStream"
  have r: "?r \<in> set routes" by (simp add: routes_def)
  have p: "\<not> public (r_target ?r)" by (simp add: rt_def public_def)
  have m: "h_method (sample_req 9 [] []) \<noteq> ''OPTIONS''" by (simp add: sample_req_def)
  have d: "denied sample_tcp (sample_req 9 [] []) ?r (rst (st (hw sample_http))) (rst (st (hw sample_http)))"
    by (simp add: denied_def rt_def stream_session_def validateTicket_def validateSessionFull_def sample_req_def extractRawToken_def)
  show ?thesis
    using routes_secured[OF r p m d, of sample_codec sample_bcrypt sample_fs Some "''/''" sample_args]
    by (auto simp: sample_http_def)
qed

text \<open>The route table agrees with the endpoint model.  For every route of the table that leads
  to an endpoint, dispatching through the table (its guard flag included) is the function
  \<open>serve\<close>, so that what is shown of \<open>serve\<close> holds of the routed server.\<close>

theorem serve_route_serve:
  assumes "r \<in> set routes" and "r_target r = API t" and "serve C B T rq t (hlim s, hw s) = (evs, resp, L, w)"
  shows "serve_route C B T F ev absBase A rq r s = Some (evs, Reply resp, s\<lparr>hw := w, hlim := L\<rparr>)"
proof (cases t)
  case Login
  then have "\<not> r_guarded r" using routes_flags assms(1,2) by (auto simp: list_all_iff)
  then show ?thesis
    using Login assms(2,3)
    by (auto simp: serve_route_def run_target_def serve_def split: if_splits prod.splits)
next
  case (Rest ep)
  then have "r_guarded r = protected ep" using routes_flags assms(1,2) by (auto simp: list_all_iff)
  then show ?thesis
    using Rest assms(2,3)
    by (auto simp: serve_route_def run_target_def serve_def SessionValidationMiddleware_def split: if_splits prod.splits option.splits)
qed

theorem serve_route_serve_witness:
  "\<exists>evs resp L w. serve sample_codec sample_bcrypt sample_tcp (sample_req 9 [] []) (Rest Handler_Kill) (Map.empty, sample_world) = (evs, resp, L, w)
    \<and> serve_route sample_codec sample_bcrypt sample_tcp sample_fs Some ''/'' sample_args (sample_req 9 [] [])
        \<lparr>r_method = ''POST'', r_pattern = ''/handler/{uuid}/kill'', r_guarded = True, r_target = API (Rest Handler_Kill)\<rparr> sample_http
      = Some (evs, Reply resp, sample_http\<lparr>hw := w, hlim := L\<rparr>)"
proof -
  let ?r = "\<lparr>r_method = ''POST'', r_pattern = ''/handler/{uuid}/kill'', r_guarded = True, r_target = API (Rest Handler_Kill)\<rparr>"
  obtain evs resp L w where s: "serve sample_codec sample_bcrypt sample_tcp (sample_req 9 [] []) (Rest Handler_Kill)
     (hlim sample_http, hw sample_http) = (evs, resp, L, w)" by (metis prod_cases4)
  have "?r \<in> set routes" by (simp add: route_defs)
  from serve_route_serve[OF this _ s, of sample_fs Some "''/''" sample_args] show ?thesis
    using s by (simp add: sample_http_def)
qed

text \<open>A log stream leaves no trace: it is opened only for a robot with a running handler, and
  when the request ends, the subscription it made is cancelled and the bus holds what it held
  before.\<close>

theorem log_stream_restores:
  assumes "streamHandlerLogs T rq flushable (i, sub) n w = (Inr ls, w1)" and "eb_inv (eb (bus (en w)))"
    and "eb_abs (eb (bus (en w))) (log_topic (h_param rq), sub) = None"
  shows "Has (h_param rq) (en w) \<and> eb_abs (eb (bus (en w1))) = (eb_abs (eb (bus (en w))))((log_topic (h_param rq), sub) \<mapsto> Foreign n)
    \<and> (\<exists>w2. log_end ls w1 = Some w2 \<and> eb_inv (eb (bus (en w2))) \<and> eb_abs (eb (bus (en w2))) = eb_abs (eb (bus (en w)))
         \<and> handlers (en w2) = handlers (en w) \<and> procs (en w2) = procs (en w))"
proof -
  obtain r k b where h: "Has (h_param rq) (en w)" and S: "SubscribeEvent i sub (log_topic (h_param rq)) (Foreign n) (bus (en w)) = (k, b)"
    and ls: "ls = \<lparr>ls_cancel = k, ls_ch = []\<rparr>" and w1: "w1 = set_bus b (set_rst r w)"
    using assms(1) by (auto simp: streamHandlerLogs_def Let_def set_rst_def split: prod.splits option.splits if_splits)
  have t: "log_topic (h_param rq) \<noteq> []" by (simp add: log_topic_def)
  note E = SubscribeEvent_ok[OF assms(2) t S]
  have k: "fst k \<noteq> []" using E(1) t by simp
  obtain b2 where b2: "cancelEvent k b = Some b2" "eb_inv (eb b2)" "eb_abs (eb b2) = (eb_abs (eb b))(k := None)"
    using cancelEvent_ok[OF E(2) k] by blast
  have "(eb_abs (eb b))(k := None) = eb_abs (eb (bus (en w)))"
    using E(1,3) assms(3) by (auto simp: fun_eq_iff)
  then show ?thesis
    using h E(3) b2 ls w1 by (simp add: log_end_def set_bus_def set_rst_def)
qed

theorem log_stream_restores_witness:
  "\<exists>ls w1 w2. streamHandlerLogs sample_tcp (sample_req 9 (bearer sample_token) []) True (''i'', ''s'') 7 (set_rst sample_logged_in sample_world)
      = (Inr ls, w1) \<and> log_end ls w1 = Some w2 \<and> eb_abs (eb (bus (en w2))) = Map.empty"
proof -
  let ?rq = "sample_req 9 (bearer sample_token) []" and ?w = "set_rst sample_logged_in sample_world"
  have w: "bus (en ?w) = NewLocalBus NewEventBus" "rst (st ?w) = sample_logged_in" "h_param ?rq = ''r1''" "h_ticket ?rq = []" "Has ''r1'' (en ?w)"
    by (simp_all add: set_rst_def sample_world_def sample_req_def Has_def)
  have s: "\<exists>x. stream_session sample_tcp ?rq sample_logged_in = (Some x, sample_logged_in)"
    by (simp add: stream_session_def validateTicket_def w sample_session del: hex_EncodeToString.simps)
  have "Has ''r1'' (en (set_rst sample_logged_in ?w))"
    by (simp add: set_rst_def sample_world_def Has_def)
  then obtain ls w1 where L: "streamHandlerLogs sample_tcp ?rq True (''i'', ''s'') 7 ?w = (Inr ls, w1)"
    using s by (cases "SubscribeEvent ''i'' ''s'' (log_topic ''r1'') (Foreign 7) (bus (en sample_world))")
      (auto simp: streamHandlerLogs_def w Let_def)
  show ?thesis
    using log_stream_restores[OF L] L unfolding w(1) by (auto simp: sample_ws_simps)
qed

end
