(* ===== verification/Terminal.thy ===== *)
theory Terminal
  imports HTTP_API Subscription_Tables
begin

text \<open>
  The administration terminal: \<^verbatim>\<open>terminal/\<close>.  A session is the table of its
  subscriptions and whether the server's context has been cancelled; what it writes to the
  connection, publishes on the bus and the call of the cancel function are its output.  Its
  subscriptions on the bus are the closure \<open>Foreign a\<close>.
\<close>

section \<open>Sessions and output\<close>

record tsession =
  Subscriptions :: "(string, string \<times> Subscriber) gomap"
  cancelled :: bool

datatype tout = TWrite string | TPublish string string | TCancel

type_synonym ('r, 'p, 'c) tstate = "tsession \<times> ('r, 'p, 'c) world"

type_synonym ('r, 'p, 'c) tresult = "(tout list \<times> unit res \<times> ('r, 'p, 'c) tstate) option"

definition say :: "string \<Rightarrow> tout" where
  "say s = TWrite (s @ [NL])"

definition wrote :: "tout list \<Rightarrow> ('r, 'p, 'c) tstate \<Rightarrow> ('r, 'p, 'c) tresult" where
  "wrote os s = Some (os, Inr (), s)"

definition failed :: "string \<Rightarrow> ('r, 'p, 'c) tstate \<Rightarrow> ('r, 'p, 'c) tresult" where
  "failed e s = Some ([], Inl e, s)"

definition on_world :: "(('r, 'p, 'c) world \<Rightarrow> ('r, 'p, 'c) world) \<Rightarrow> ('r, 'p, 'c) tstate \<Rightarrow> ('r, 'p, 'c) tstate" where
  "on_world f s = (fst s, f (snd s))"

text \<open>\<^verbatim>\<open>strings.Fields\<close>.\<close>

fun words :: "string \<Rightarrow> string \<Rightarrow> string list" where
  "words acc [] = (if acc = [] then [] else [rev acc])"
| "words acc (c # cs) =
     (case find (HasPrefix (c # cs)) ws_runes of
        None \<Rightarrow> words (c # acc) cs
      | Some r \<Rightarrow> (if acc = [] then [] else [rev acc]) @ words [] (drop (length r - 1) cs))"

definition Fields :: "string \<Rightarrow> string list" where
  "Fields s = words [] s"

section \<open>The registry\<close>

record CommandInfo =
  ci_Name :: string
  ci_Description :: string
  ci_Usage :: string

definition RegisterCommand ::
  "string \<times> string \<times> string \<Rightarrow> (string, CommandInfo) gomap \<Rightarrow> (string, CommandInfo) gomap" where
  "RegisterCommand c r =
     (case c of (name, description, usage) \<Rightarrow>
        AList.update name \<lparr>ci_Name = name, ci_Description = description, ci_Usage = usage\<rparr> r)"

definition DefaultRegistry :: "(string, CommandInfo) gomap" where
  "DefaultRegistry = fold RegisterCommand
     [(''list'', ''List active robots (from Redis)'', ''list''),
      (''robots'', ''List registered robots (from PostgreSQL)'', ''robots''),
      (''pending'', ''List pending robot registrations'', ''pending''),
      (''accept'', ''Accept a pending robot registration'', ''accept <uuid>''),
      (''reject'', ''Reject a pending robot registration'', ''reject <uuid>''),
      (''stop'', ''Stop the program or robot'', ''stop program|<robot_id>''),
      (''help'', ''Show available commands'', ''help [command]''),
      (''status'', ''Get robot status'', ''status <uuid>''),
      (''exit'', ''Exit terminal session'', ''exit''),
      (''quit'', ''Exit terminal session'', ''quit''),
      (''subscribe'', ''Subscribe to robot events'', ''subscribe <event_type>''),
      (''unsubscribe'', ''Unsubscribe from robot events'', ''unsubscribe <event_type>''),
      (''publish'', ''Publish an event to robots'', ''publish <event_type> <data>'')] []"

definition GetCommand :: "string \<Rightarrow> CommandInfo option" where
  "GetCommand name = map_of DefaultRegistry name"

definition ListCommands :: "CommandInfo list" where
  "ListCommands = map snd DefaultRegistry"

section \<open>Robots\<close>

definition listActiveCommand :: "('r, 'p) tcp_server \<Rightarrow> ('r, 'p, 'c) tstate \<Rightarrow> ('r, 'p, 'c) tresult" where
  "listActiveCommand T s =
     (if \<not> has_rds (db T) then wrote [say ''Redis not available.''] s
      else
        (case GetAllActiveRobots (rds (sv T)) (rst (st (snd s))) of
           (Inl e, r) \<Rightarrow> failed (''failed to get active robots: '' @ e) (on_world (set_rst r) s)
         | (Inr robots, r) \<Rightarrow>
             wrote (if robots = [] then [say ''No active robots.'']
                    else say ''Active robots:''
                      # map (\<lambda>x. say (''  '' @ ar_UUID x @ ''  type='' @ ar_DeviceType x @ ''  ip='' @ ar_IP x
                                     @ ''  pid='' @ show_int (ar_PID x))) robots)
               (on_world (set_rst r) s)))"

definition listRegisteredCommand :: "('r, 'p) tcp_server \<Rightarrow> ('r, 'p, 'c) tstate \<Rightarrow> ('r, 'p, 'c) tresult" where
  "listRegisteredCommand T s =
     (if \<not> has_pg (db T) then wrote [say ''PostgreSQL not available.''] s
      else
        (case GetAllRobots (pg (sv T)) (pst (st (snd s))) of
           (Inl e, p) \<Rightarrow> failed (''failed to get registered robots: '' @ e) (on_world (set_pst p) s)
         | (Inr robots, p) \<Rightarrow>
             wrote (if robots = [] then [say ''No registered robots.'']
                    else say ''Registered robots:''
                      # map (\<lambda>x. say (''  '' @ rr_UUID x @ ''  type='' @ rr_DeviceType x
                                     @ (if rr_IsBlacklisted x then '' [BLACKLISTED]'' else []))) robots)
               (on_world (set_pst p) s)))"

definition stopCommand :: "string list \<Rightarrow> ('r, 'p, 'c) tstate \<Rightarrow> ('r, 'p, 'c) tresult" where
  "stopCommand args s =
     (case args of
        [] \<Rightarrow> failed ''usage: stop program|<robot_id>'' s
      | x # _ \<Rightarrow>
          if x = ''program'' then
            wrote [say ''Stopping program...'', TCancel] ((fst s)\<lparr>cancelled := True\<rparr>, snd s)
          else wrote [say (''Stopping robot '' @ x @ ''...'')] s)"

definition pad12 :: "string \<Rightarrow> string" where
  "pad12 s = s @ replicate (12 - length s) (CHR '' '')"

definition helpCommand :: "string list \<Rightarrow> ('r, 'p, 'c) tstate \<Rightarrow> ('r, 'p, 'c) tresult" where
  "helpCommand args s =
     (case args of
        [] \<Rightarrow>
          wrote ([say ''Available commands:'']
            @ map (\<lambda>c. say (''  '' @ pad12 (ci_Name c) @ '' - '' @ ci_Description c)) ListCommands
            @ [say (NL # ''Use '' @ [CHR 0x27] @ ''help <command>'' @ [CHR 0x27] @ '' for detailed usage.'')]) s
      | x # _ \<Rightarrow>
          (case GetCommand x of
             None \<Rightarrow> failed (''unknown command: '' @ x) s
           | Some c \<Rightarrow>
               wrote [say (''Command: '' @ ci_Name c), say (''Description: '' @ ci_Description c),
                      say (''Usage: '' @ ci_Usage c)] s))"

definition statusCommand :: "('r, 'p) tcp_server \<Rightarrow> string list \<Rightarrow> ('r, 'p, 'c) tstate \<Rightarrow> ('r, 'p, 'c) tresult" where
  "statusCommand T args s =
     (case args of
        [] \<Rightarrow> failed ''usage: status <uuid>'' s
      | uuid # _ \<Rightarrow>
          if \<not> has_rds (db T) then failed ''redis not available'' s
          else
            (case GetActiveRobot (rds (sv T)) uuid (rst (st (snd s))) of
               (Inl _, r) \<Rightarrow> wrote [say (''Robot '' @ uuid @ '': offline'')] (on_world (set_rst r) s)
             | (Inr x, r) \<Rightarrow>
                 wrote [say (''Robot '' @ uuid @ '': online  ip='' @ ar_IP x @ ''  type='' @ ar_DeviceType x
                             @ ''  pid='' @ show_int (ar_PID x))] (on_world (set_rst r) s)))"

definition exitCommand :: "('r, 'p, 'c) tstate \<Rightarrow> ('r, 'p, 'c) tresult" where
  "exitCommand s = Some ([say ''Goodbye!''], Inl ''exit'', s)"

definition quitCommand :: "('r, 'p, 'c) tstate \<Rightarrow> ('r, 'p, 'c) tresult" where
  "quitCommand s = exitCommand s"

definition truncate :: "string \<Rightarrow> nat \<Rightarrow> string" where
  "truncate s n = (if length s \<le> n then s else take n s)"

definition pendingCommand :: "('r, 'p) tcp_server \<Rightarrow> ('r, 'p, 'c) tstate \<Rightarrow> ('r, 'p, 'c) tresult" where
  "pendingCommand T s =
     (if \<not> has_rds (db T) then wrote [say ''Redis not available.''] s
      else
        (case GetAllPendingRobots (rds (sv T)) (rst (st (snd s))) of
           (Inl e, r) \<Rightarrow> failed (''failed to get pending robots: '' @ e) (on_world (set_rst r) s)
         | (Inr pending, r) \<Rightarrow>
             wrote (if pending = [] then [say ''No pending registrations.'']
                    else say ''Pending registrations:''
                      # map (\<lambda>x. say (''  '' @ pr_UUID x @ ''  type='' @ pr_DeviceType x @ ''  ip='' @ pr_IP x
                                     @ ''  key='' @ truncate (pr_PublicKey x) 16 @ ''...'')) pending)
               (on_world (set_rst r) s)))"

text \<open>\<^verbatim>\<open>acceptCommand\<close> and \<^verbatim>\<open>rejectCommand\<close> differ in the answer and in three words.\<close>

definition answer_pending ::
  "('r, 'p) tcp_server \<Rightarrow> bool \<Rightarrow> string list \<Rightarrow> ('r, 'p, 'c) tstate \<Rightarrow> ('r, 'p, 'c) tresult" where
  "answer_pending T accept args s =
     (case args of
        [] \<Rightarrow> failed (if accept then ''usage: accept <uuid>'' else ''usage: reject <uuid>'') s
      | uuid # _ \<Rightarrow>
          if \<not> has_rds (db T) then failed ''redis not available'' s
          else
            (case GetPendingRobot (rds (sv T)) uuid (rst (st (snd s))) of
               (Inl _, r1) \<Rightarrow> failed (''no pending registration found for '' @ uuid) (on_world (set_rst r1) s)
             | (Inr _, r1) \<Rightarrow>
                 (case PublishRegistrationResponse (rds (sv T)) uuid accept r1 of
                    (Inl e, r2) \<Rightarrow>
                      failed ((if accept then ''failed to accept: '' else ''failed to reject: '') @ e) (on_world (set_rst r2) s)
                  | (Inr _, r2) \<Rightarrow>
                      wrote [say ((if accept then ''Accepted robot '' else ''Rejected robot '') @ uuid)]
                        (on_world (set_rst r2) s))))"

definition acceptCommand :: "('r, 'p) tcp_server \<Rightarrow> string list \<Rightarrow> ('r, 'p, 'c) tstate \<Rightarrow> ('r, 'p, 'c) tresult" where
  "acceptCommand T args s = answer_pending T True args s"

definition rejectCommand :: "('r, 'p) tcp_server \<Rightarrow> string list \<Rightarrow> ('r, 'p, 'c) tstate \<Rightarrow> ('r, 'p, 'c) tresult" where
  "rejectCommand T args s = answer_pending T False args s"

section \<open>The event bus\<close>

definition tset_bus :: "closure LocalBus \<Rightarrow> ('r, 'p, 'c) world \<Rightarrow> ('r, 'p, 'c) world" where
  "tset_bus b w = w\<lparr>en := (en w)\<lparr>bus := b\<rparr>\<rparr>"

definition subscribeCommand ::
  "string \<Rightarrow> Subscriber \<Rightarrow> nat \<Rightarrow> string list \<Rightarrow> ('r, 'p, 'c) tstate \<Rightarrow> ('r, 'p, 'c) tresult" where
  "subscribeCommand newID sub a args s =
     (case args of
        [] \<Rightarrow> failed ''usage: subscribe <event_type>'' s
      | eventType # _ \<Rightarrow>
          (case table_put newID sub eventType (Foreign a) (Subscriptions (fst s), bus (en (snd s))) of
             None \<Rightarrow> None
           | Some (t, b) \<Rightarrow>
               wrote [say (''Subscribed to event type: '' @ eventType)]
                 ((fst s)\<lparr>Subscriptions := t\<rparr>, tset_bus b (snd s))))"

text \<open>What the subscribed closure writes, given the event's data as \<^verbatim>\<open>%v\<close> prints it.\<close>

definition event_lines :: "string \<Rightarrow> string \<Rightarrow> tout list" where
  "event_lines et data = [say (NL # ''Event received: '' @ et), say (''Data: '' @ data)]"

definition unsubscribeCommand :: "string list \<Rightarrow> ('r, 'p, 'c) tstate \<Rightarrow> ('r, 'p, 'c) tresult" where
  "unsubscribeCommand args s =
     (case args of
        [] \<Rightarrow> failed ''usage: unsubscribe <event_type>'' s
      | eventType # _ \<Rightarrow>
          (case table_drop eventType (Subscriptions (fst s), bus (en (snd s))) of
             None \<Rightarrow> None
           | Some (t, b) \<Rightarrow>
               wrote [say ((if map_of (Subscriptions (fst s)) eventType = None then ''Not subscribed to event type: ''
                            else ''Unsubscribed from event type: '') @ eventType)]
                 ((fst s)\<lparr>Subscriptions := t\<rparr>, tset_bus b (snd s))))"

definition publishCommand :: "string list \<Rightarrow> ('r, 'p, 'c) tstate \<Rightarrow> ('r, 'p, 'c) tresult" where
  "publishCommand args s =
     (case args of
        eventType # data # _ \<Rightarrow> wrote [TPublish eventType data, say ''Published event''] s
      | _ \<Rightarrow> failed ''usage: publish <event_type> <data>'' s)"

section \<open>Sessions\<close>

definition ExecuteCommand ::
  "('r, 'p) tcp_server \<Rightarrow> string \<times> Subscriber \<Rightarrow> nat \<Rightarrow> string \<Rightarrow> string list \<Rightarrow> ('r, 'p, 'c) tstate \<Rightarrow> ('r, 'p, 'c) tresult" where
  "ExecuteCommand T idp a name args s =
     (if GetCommand name = None then failed (''unknown command: '' @ name) s
      else if name = ''list'' then listActiveCommand T s
      else if name = ''robots'' then listRegisteredCommand T s
      else if name = ''pending'' then pendingCommand T s
      else if name = ''accept'' then acceptCommand T args s
      else if name = ''reject'' then rejectCommand T args s
      else if name = ''stop'' then stopCommand args s
      else if name = ''help'' then helpCommand args s
      else if name = ''status'' then statusCommand T args s
      else if name = ''exit'' then exitCommand s
      else if name = ''quit'' then quitCommand s
      else if name = ''subscribe'' then subscribeCommand (fst idp) (snd idp) a args s
      else if name = ''unsubscribe'' then unsubscribeCommand args s
      else publishCommand args s)"

definition prompt :: tout where "prompt = TWrite ''> ''"

text \<open>One line; the flag tells whether the session goes on.\<close>

definition term_line ::
  "('r, 'p) tcp_server \<Rightarrow> string \<times> Subscriber \<Rightarrow> nat \<Rightarrow> string \<Rightarrow> ('r, 'p, 'c) tstate
   \<Rightarrow> (tout list \<times> bool \<times> ('r, 'p, 'c) tstate) option" where
  "term_line T idp a text s =
     (case Fields (TrimSpace text) of
        [] \<Rightarrow> Some ([prompt], True, s)
      | name # args \<Rightarrow>
          (case ExecuteCommand T idp a name args s of
             None \<Rightarrow> None
           | Some (os, Inr _, s') \<Rightarrow> Some (os @ [prompt], True, s')
           | Some (os, Inl e, s') \<Rightarrow>
               if e = ''exit'' then Some (os, False, s')
               else Some (os @ [say (''Error: '' @ e), prompt], True, s')))"

text \<open>The deferred clean-up.\<close>

definition term_end :: "tout list \<Rightarrow> ('r, 'p, 'c) tstate \<Rightarrow> (tout list \<times> ('r, 'p, 'c) tstate) option" where
  "term_end os s =
     (case table_clear (Subscriptions (fst s), bus (en (snd s))) of
        None \<Rightarrow> None
      | Some (t, b) \<Rightarrow> Some (os, (fst s)\<lparr>Subscriptions := t\<rparr>, tset_bus b (snd s)))"

text \<open>
  The input of a session: lines, with the identifiers a subscription would draw, and the
  cancellation of the context from elsewhere; its end is the end of the connection.  The
  context is looked at before each read, not during it.
\<close>

datatype tinput = TLine string Subscriber string | TShutdown

definition ended :: tout where "ended = TWrite (NL # ''Terminal session ended.'' @ [NL])"

fun term_scan ::
  "('r, 'p) tcp_server \<Rightarrow> nat \<Rightarrow> tinput list \<Rightarrow> tout list \<Rightarrow> ('r, 'p, 'c) tstate
   \<Rightarrow> (tout list \<times> ('r, 'p, 'c) tstate) option" where
  "term_scan T a [] os s = term_end os s"
| "term_scan T a (TShutdown # is) os s = term_scan T a is os ((fst s)\<lparr>cancelled := True\<rparr>, snd s)"
| "term_scan T a (TLine i sub text # is) os s =
     (case term_line T (i, sub) a text s of
        None \<Rightarrow> None
      | Some (os', go, s') \<Rightarrow>
          if \<not> go then term_end (os @ os') s'
          else if cancelled (fst s') then term_end (os @ os' @ [ended]) s'
          else term_scan T a is (os @ os') s')"

definition term_greeting :: "tout list" where
  "term_greeting =
     [say ''=== Robomesh Terminal ==='',
      say (''Type '' @ [CHR 0x27] @ ''help'' @ [CHR 0x27] @ '' for available commands.''), prompt]"

definition term_handleConnection ::
  "('r, 'p) tcp_server \<Rightarrow> nat \<Rightarrow> bool \<Rightarrow> tinput list \<Rightarrow> ('r, 'p, 'c) world
   \<Rightarrow> (tout list \<times> ('r, 'p, 'c) tstate) option" where
  "term_handleConnection T a done is w =
     (let s = (\<lparr>Subscriptions = [], cancelled = done\<rparr>, w)
      in if done then term_end (term_greeting @ [ended]) s else term_scan T a is term_greeting s)"

section \<open>What a command leaves alone\<close>

definition term_tab :: "('r, 'p, 'c) tstate \<Rightarrow> closure sub_state" where
  "term_tab s = (Subscriptions (fst s), bus (en (snd s)))"

definition keeps :: "('r, 'p, 'c) tstate \<Rightarrow> ('r, 'p, 'c) tresult \<Rightarrow> bool" where
  "keeps s r \<longleftrightarrow> (\<exists>os e s'. r = Some (os, e, s') \<and> Subscriptions (fst s') = Subscriptions (fst s) \<and> en (snd s') = en (snd s))"

lemma keeps_simps [simp]:
  "keeps s (wrote os s') \<longleftrightarrow> Subscriptions (fst s') = Subscriptions (fst s) \<and> en (snd s') = en (snd s)"
  "keeps s (failed e s') \<longleftrightarrow> Subscriptions (fst s') = Subscriptions (fst s) \<and> en (snd s') = en (snd s)"
  "keeps s (exitCommand s)" "keeps s (quitCommand s)"
  "Subscriptions (fst (on_world f s)) = Subscriptions (fst s)"
  "en (snd (on_world (set_rst r) s)) = en (snd s)" "en (snd (on_world (set_pst p) s)) = en (snd s)"
  by (simp_all add: keeps_def wrote_def failed_def exitCommand_def quitCommand_def on_world_def set_rst_def set_pst_def)

lemma keeps_robots:
  "keeps s (listActiveCommand T s)" "keeps s (listRegisteredCommand T s)" "keeps s (pendingCommand T s)"
  "keeps s (statusCommand T args s)" "keeps s (answer_pending T accept args s)"
  by (simp_all add: listActiveCommand_def listRegisteredCommand_def pendingCommand_def statusCommand_def answer_pending_def
      split: prod.split sum.split list.split)

lemma keeps_other: "keeps s (stopCommand args s)" "keeps s (helpCommand args s)" "keeps s (publishCommand args s)"
  by (simp_all add: stopCommand_def helpCommand_def publishCommand_def split: list.split option.split)

text \<open>A command either keeps the table or is one of the table's operations.\<close>

lemma keeps_if: "keeps s r \<Longrightarrow> keeps s r' \<Longrightarrow> keeps s (if b then r else r')"
  by simp

lemma keeps_failed: "keeps s (failed e s)"
  by simp

lemma ExecuteCommand_cases:
  assumes "name \<noteq> ''subscribe''" and "name \<noteq> ''unsubscribe''"
  shows "keeps s (ExecuteCommand T idp a name args s)"
  unfolding ExecuteCommand_def acceptCommand_def rejectCommand_def if_not_P[OF assms(1)] if_not_P[OF assms(2)]
  by (intro keeps_if keeps_failed keeps_robots keeps_other keeps_simps(3,4))

lemma words_not_empty: "w \<in> set (words acc s) \<Longrightarrow> w \<noteq> []"
  by (induction acc s arbitrary: w rule: words.induct) (auto split: option.splits if_splits)

text \<open>One step of a session on the table; \<open>V\<close> is what others hold on the bus.\<close>

definition term_inv :: "(string \<times> Subscriber \<Rightarrow> closure option) \<Rightarrow> 'c engine \<Rightarrow> ('r, 'p, 'c) tstate \<Rightarrow> bool" where
  "term_inv V e s \<longleftrightarrow> tbl_ok (term_tab s) \<and> table.others (term_tab s) = V
     \<and> handlers (en (snd s)) = handlers e \<and> procs (en (snd s)) = procs e"

definition term_sound ::
  "(string \<times> Subscriber \<Rightarrow> closure option) \<Rightarrow> 'c engine \<Rightarrow> Subscriber \<Rightarrow> ('r, 'p, 'c) tstate \<Rightarrow> ('r, 'p, 'c) tstate \<Rightarrow> bool" where
  "term_sound V e sub s s' \<longleftrightarrow> term_inv V e s'
     \<and> (\<forall>ev x. tbl_mine (term_tab s') ev = Some x \<longrightarrow> tbl_mine (term_tab s) ev = Some x \<or> x = sub)"

lemma keeps_sound:
  assumes "term_inv V e s" and "keeps s r"
  shows "\<exists>os x s'. r = Some (os, x, s') \<and> term_sound V e sub s s'"
proof -
  obtain os x s' where r: "r = Some (os, x, s')" "term_tab s' = term_tab s" "en (snd s') = en (snd s)"
    using assms(2) by (auto simp: keeps_def term_tab_def)
  then have "term_sound V e sub s s'"
    using assms(1) by (simp add: term_sound_def term_inv_def)
  then show ?thesis using r(1) by blast
qed

lemma tset_bus_simps [simp]:
  "bus (en (tset_bus b w)) = b" "handlers (en (tset_bus b w)) = handlers (en w)" "procs (en (tset_bus b w)) = procs (en w)"
  by (simp_all add: tset_bus_def)

lemma subscribe_sound:
  assumes "term_inv V e s" and "\<forall>ev. tbl_view (term_tab s) (ev, sub) = None" and "\<forall>x\<in>set args. x \<noteq> []"
  shows "\<exists>os x s'. subscribeCommand i sub a args s = Some (os, x, s') \<and> term_sound V e sub s s'"
proof (cases args)
  case Nil
  then show ?thesis using keeps_sound[OF assms(1), of "failed ''usage: subscribe <event_type>'' s" sub]
    by (simp add: subscribeCommand_def)
next
  case (Cons ev rest)
  have k: "tbl_ok (term_tab s)" and ev: "ev \<noteq> []" and f: "tbl_view (term_tab s) (ev, sub) = None"
    using assms Cons by (simp_all add: term_inv_def)
  obtain t b where p: "table_put i sub ev (Foreign a) (term_tab s) = Some (t, b)"
    "tbl_mine (t, b) = (tbl_mine (term_tab s))(ev \<mapsto> sub)"
    using table_put_ok[OF k ev f, of i "Foreign a"] by auto
  have o: "tbl_ok (t, b) \<and> table.others (t, b) = V"
    using table.others_put[OF k ev f p(1)] assms(1) by (simp add: term_inv_def)
  let ?s = "((fst s)\<lparr>Subscriptions := t\<rparr>, tset_bus b (snd s))"
  have "subscribeCommand i sub a args s = wrote [say (''Subscribed to event type: '' @ ev)] ?s"
    using Cons p(1) by (simp add: subscribeCommand_def term_tab_def)
  moreover have "term_sound V e sub s ?s"
    using o p(2) assms(1) by (simp add: term_sound_def term_inv_def term_tab_def)
  ultimately show ?thesis unfolding wrote_def by blast
qed

lemma unsubscribe_sound:
  assumes "term_inv V e s"
  shows "\<exists>os x s'. unsubscribeCommand args s = Some (os, x, s') \<and> term_sound V e sub s s'"
proof (cases args)
  case Nil
  then show ?thesis using keeps_sound[OF assms(1), of "failed ''usage: unsubscribe <event_type>'' s" sub]
    by (simp add: unsubscribeCommand_def)
next
  case (Cons ev rest)
  have k: "tbl_ok (term_tab s)" using assms by (simp add: term_inv_def)
  obtain t b where p: "table_drop ev (term_tab s) = Some (t, b)" "tbl_mine (t, b) = (tbl_mine (term_tab s))(ev := None)"
    using table_drop_ok[OF k, of ev] by auto
  have o: "tbl_ok (t, b) \<and> table.others (t, b) = V"
    using table.others_drop[OF k p(1)] assms(1) by (simp add: term_inv_def)
  let ?s = "((fst s)\<lparr>Subscriptions := t\<rparr>, tset_bus b (snd s))"
  have "\<exists>os. unsubscribeCommand args s = wrote os ?s"
    using Cons p(1) unfolding unsubscribeCommand_def term_tab_def by (simp only: list.case option.case prod.case) blast
  moreover have "term_sound V e sub s ?s"
    using o p(2) assms(1) by (simp add: term_sound_def term_inv_def term_tab_def)
  ultimately show ?thesis unfolding wrote_def by blast
qed

lemma term_line_sound:
  assumes "term_inv V e s" and "\<forall>ev. tbl_view (term_tab s) (ev, sub) = None"
  shows "\<exists>os go s'. term_line T (i, sub) a text s = Some (os, go, s') \<and> term_sound V e sub s s'"
proof (cases "Fields (TrimSpace text)")
  case Nil
  then show ?thesis
    using assms(1) by (auto simp: term_line_def term_sound_def intro: exI[of _ True])
next
  case (Cons name args)
  then have a: "\<forall>x\<in>set args. x \<noteq> []"
    using words_not_empty[of _ "[]" "TrimSpace text"] by (auto simp: Fields_def)
  have "\<exists>os x s'. ExecuteCommand T (i, sub) a name args s = Some (os, x, s') \<and> term_sound V e sub s s'"
  proof (cases "name = ''subscribe'' \<or> name = ''unsubscribe''")
    case False
    then show ?thesis using keeps_sound[OF assms(1) ExecuteCommand_cases[of name s T "(i, sub)" a args]] by blast
  next
    case True
    then have "ExecuteCommand T (i, sub) a name args s =
        (if name = ''subscribe'' then subscribeCommand i sub a args s else unsubscribeCommand args s)"
      by (auto simp: ExecuteCommand_def GetCommand_def DefaultRegistry_def RegisterCommand_def)
    then show ?thesis
      using subscribe_sound[OF assms(1,2) a, of i a] unsubscribe_sound[OF assms(1), of args sub] by (simp split: if_split)
  qed
  then obtain os x s' where "ExecuteCommand T (i, sub) a name args s = Some (os, x, s')" "term_sound V e sub s s'"
    by blast
  then show ?thesis
    using Cons by (cases x; cases "x = Inl ''exit''") (auto simp: term_line_def intro: exI[of _ True] exI[of _ False])
qed

fun term_subs :: "tinput list \<Rightarrow> Subscriber list" where
  "term_subs [] = []"
| "term_subs (TShutdown # inp) = term_subs inp"
| "term_subs (TLine i sub text # inp) = sub # term_subs inp"

text \<open>The subscribers still to come stay unknown to the bus.\<close>

lemma term_sound_fresh:
  assumes "term_inv V e s" and "term_sound V e sub s s'" and "y \<noteq> sub" and "tbl_view (term_tab s) (ev, y) = None"
  shows "tbl_view (term_tab s') (ev, y) = None"
proof (rule ccontr)
  assume v: "tbl_view (term_tab s') (ev, y) \<noteq> None"
  have k: "tbl_ok (term_tab s)" and o: "table.others (term_tab s') (ev, y) = table.others (term_tab s) (ev, y)"
    using assms(1,2) by (simp_all add: term_inv_def term_sound_def)
  have n: "tbl_mine (term_tab s) ev \<noteq> Some y"
    using table.mine_view[OF k, of ev y] assms(4) by blast
  then have "table.others (term_tab s) (ev, y) = None"
    using assms(4) by (simp add: table.others_def)
  then have "tbl_mine (term_tab s') ev = Some y"
    using o v by (simp add: table.others_def split: if_splits)
  then show False using assms(2,3) n by (auto simp: term_sound_def)
qed

lemma term_inv_cancelled [simp]:
  "term_inv V e ((fst s)\<lparr>cancelled := x\<rparr>, snd s) = term_inv V e s"
  "term_tab ((fst s)\<lparr>cancelled := x\<rparr>, snd s) = term_tab s"
  by (simp_all add: term_inv_def term_tab_def)

lemma term_end_clears:
  assumes "term_inv V e s"
  shows "\<exists>s'. term_end os s = Some (os, s') \<and> Subscriptions (fst s') = [] \<and> eb_abs (eb (bus (en (snd s')))) = V
    \<and> handlers (en (snd s')) = handlers e \<and> procs (en (snd s')) = procs e"
proof -
  have k: "tbl_ok (term_tab s)" using assms by (simp add: term_inv_def)
  obtain t b where c: "table_clear (term_tab s) = Some (t, b)" "tbl_view (t, b) = table.others (term_tab s)"
    using table_clear_ok[OF k] by (auto simp: table.others_def)
  then have "t = []" by (auto simp: table_clear_def split: option.splits)
  then show ?thesis
    using c assms by (simp add: term_end_def term_tab_def term_inv_def tbl_view_def)
qed

lemma term_scan_ends:
  assumes "term_inv V e s" and "distinct (term_subs inp)" and "\<forall>sub\<in>set (term_subs inp). \<forall>ev. tbl_view (term_tab s) (ev, sub) = None"
  shows "\<exists>os' s'. term_scan T a inp os s = Some (os', s') \<and> Subscriptions (fst s') = [] \<and> eb_abs (eb (bus (en (snd s')))) = V
    \<and> handlers (en (snd s')) = handlers e \<and> procs (en (snd s')) = procs e"
  using assms
proof (induction inp arbitrary: os s)
  case Nil
  then show ?case using term_end_clears by fastforce
next
  case (Cons x xs)
  show ?case
  proof (cases x)
    case TShutdown
    then show ?thesis
      using Cons.IH[of "((fst s)\<lparr>cancelled := True\<rparr>, snd s)" os] Cons.prems by simp
  next
    case (TLine i sub txt0)
    then obtain os1 go s1 where l: "term_line T (i, sub) a txt0 s = Some (os1, go, s1)" "term_sound V e sub s s1"
      using term_line_sound[OF Cons.prems(1), of sub T i a txt0] Cons.prems(3) by auto
    then have i1: "term_inv V e s1" by (simp add: term_sound_def)
    have "\<forall>y\<in>set (term_subs xs). \<forall>ev. tbl_view (term_tab s1) (ev, y) = None"
    proof (intro ballI allI)
      fix y ev assume "y \<in> set (term_subs xs)"
      then have "y \<noteq> sub" "tbl_view (term_tab s) (ev, y) = None"
        using Cons.prems(2,3) TLine by auto
      then show "tbl_view (term_tab s1) (ev, y) = None"
        by (rule term_sound_fresh[OF Cons.prems(1) l(2)])
    qed
    then have rec: "\<exists>os' s'. term_scan T a xs (os @ os1) s1 = Some (os', s') \<and> Subscriptions (fst s') = []
        \<and> eb_abs (eb (bus (en (snd s')))) = V \<and> handlers (en (snd s')) = handlers e \<and> procs (en (snd s')) = procs e"
      using Cons.IH[OF i1] Cons.prems(2) TLine by simp
    show ?thesis
      using rec term_end_clears[OF i1, of "os @ os1"] term_end_clears[OF i1, of "os @ os1 @ [ended]"] l(1) TLine
      by (cases go; cases "cancelled (fst s1)") (simp_all del: split_paired_Ex, blast+)
  qed
qed

section \<open>Properties\<close>



end
