(* ===== verification/System.thy ===== *)
theory System
  imports MQTT_Server HTTP_Server Terminal
begin

text \<open>
  The server as one system: TCP connections, UDP and MQTT goroutines, web requests, handler
  scripts, reverse connections and the terminal act in any order on one world (the two
  databases and the handler engine).  A step is one step of the component's own model; the
  identity of who acts is kept in the event.  Shown is what holds of the whole: no component
  can replace the key of a registered robot.
\<close>

section \<open>State and steps\<close>

datatype 'c sys_event =
    Accept nat 'c string
  | Tcp nat tenv tcp_event
  | Udp tenv 'c string string
  | UdpTask nat tenv
  | Mqtt tenv 'c string string string
  | MqttTask nat tenv
  | Http http_req http_route
  | Script nat "string \<times> string" string
  | RevTCP nat string 'c rev_io "string list"
  | RevUDP nat string 'c "string option" "string option" "string list"
  | Term "string \<times> Subscriber" nat string
  | StopProc string nat
  | Writer nat

record ('r, 'p, 'c) sys =
  wd :: "('r, 'p, 'c) world"
  lim :: limiter
  conns :: "nat \<Rightarrow> ('c \<times> string \<times> conn) option"
  sent :: "nat \<Rightarrow> tcp_out list"
  utasks :: "('c \<times> task) list"
  mtasks :: "('c \<times> mqtt_task) list"

definition sys_init :: "('r, 'p, 'c) world \<Rightarrow> ('r, 'p, 'c) sys" where
  "sys_init w = \<lparr>wd = w, lim = Map.empty, conns = Map.empty, sent = (\<lambda>_. []), utasks = [], mtasks = []\<rparr>"

text \<open>A component that panics, or a terminal session in any state, is covered by the rules'
  premises: a rule applies only where the component's step has a result.\<close>

inductive sys_step ::
  "codec \<Rightarrow> bcrypt \<Rightarrow> ('c \<Rightarrow> string \<Rightarrow> string option) \<Rightarrow> ('r, 'p) tcp_server \<Rightarrow> 'c sys_event
   \<Rightarrow> ('r, 'p, 'c) sys \<Rightarrow> ('r, 'p, 'c) sys \<Rightarrow> bool"
  for C :: codec and B :: bcrypt and net :: "'c \<Rightarrow> string \<Rightarrow> string option" and T :: "('r, 'p) tcp_server" where
  accept: "conns s i = None \<Longrightarrow>
    sys_step C B net T (Accept i c ip) s (s\<lparr>conns := (conns s)(i \<mapsto> (c, ip, \<lparr>cst = Idle, deadline = None\<rparr>))\<rparr>)"
| tcp: "conns s i = Some (c, ip, k) \<Longrightarrow> tcp_step T te c ip ev k (wd s) = (os, k', w') \<Longrightarrow>
    sys_step C B net T (Tcp i te ev) s (s\<lparr>wd := w', conns := (conns s)(i \<mapsto> (c, ip, k')),
      sent := (sent s)(i := sent s i @ os)\<rparr>)"
| udp: "handlePacket T te c ip data (wd s) = (uos, t, w') \<Longrightarrow>
    sys_step C B net T (Udp te c ip data) s (s\<lparr>wd := w', utasks := utasks s @ [(c, t)]\<rparr>)"
| udp_task: "j < length (utasks s) \<Longrightarrow> utasks s ! j = (c, t) \<Longrightarrow> udp_resume T te c t (wd s) = (uos, t', w') \<Longrightarrow>
    sys_step C B net T (UdpTask j te) s (s\<lparr>wd := w', utasks := (utasks s)[j := (c, t')]\<rparr>)"
| mqtt: "mqtt_OnPublished T te c ip topic payload (wd s) = (mos, mt, w') \<Longrightarrow>
    sys_step C B net T (Mqtt te c ip topic payload) s (s\<lparr>wd := w', mtasks := mtasks s @ [(c, mt)]\<rparr>)"
| mqtt_task: "j < length (mtasks s) \<Longrightarrow> mtasks s ! j = (c, MSpawn res) \<Longrightarrow> mqtt_spawn T te c res (wd s) = (mos, mt, w') \<Longrightarrow>
    sys_step C B net T (MqttTask j te) s (s\<lparr>wd := w', mtasks := (mtasks s)[j := (c, mt)]\<rparr>)"
| http: "serve C B T rq hrt (lim s, wd s) = (hevs, answer, L', w') \<Longrightarrow>
    sys_step C B net T (Http rq hrt) s (s\<lparr>wd := w', lim := L'\<rparr>)"
| script: "listenStdout_line C (sv T) net idp a line (wd s) = Some (outs, w') \<Longrightarrow>
    sys_step C B net T (Script a idp line) s (s\<lparr>wd := w'\<rparr>)"
| rev_tcp: "reverseConnectTCP (sv T) a n c io ls (wd s) = Some w' \<Longrightarrow>
    sys_step C B net T (RevTCP a n c io ls) s (s\<lparr>wd := w'\<rparr>)"
| rev_udp: "reverseConnectUDP a n c re de ls (wd s) = Some w' \<Longrightarrow>
    sys_step C B net T (RevUDP a n c re de ls) s (s\<lparr>wd := w'\<rparr>)"
| terminal: "term_line T sid a line (ts, wd s) = Some (touts, go, (ts', w')) \<Longrightarrow>
    sys_step C B net T (Term sid a line) s (s\<lparr>wd := w'\<rparr>)"
| stop: "Stop reason a (en (wd s)) = Some e' \<Longrightarrow>
    sys_step C B net T (StopProc reason a) s (s\<lparr>wd := (wd s)\<lparr>en := e'\<rparr>\<rparr>)"
| writer: "on_proc a (\<lambda>hp. Some (snd (stdinWriter_step hp))) (en (wd s)) = Some e' \<Longrightarrow>
    sys_step C B net T (Writer a) s (s\<lparr>wd := (wd s)\<lparr>en := e'\<rparr>\<rparr>)"

inductive_cases sys_stepE: "sys_step C B net T ev s s'"

inductive sys_run ::
  "codec \<Rightarrow> bcrypt \<Rightarrow> ('c \<Rightarrow> string \<Rightarrow> string option) \<Rightarrow> ('r, 'p) tcp_server \<Rightarrow> 'c sys_event list
   \<Rightarrow> ('r, 'p, 'c) sys \<Rightarrow> ('r, 'p, 'c) sys \<Rightarrow> bool"
  for C :: codec and B :: bcrypt and net :: "'c \<Rightarrow> string \<Rightarrow> string option" and T :: "('r, 'p) tcp_server" where
  nil: "sys_run C B net T [] s s"
| snoc: "sys_run C B net T evs s s1 \<Longrightarrow> sys_step C B net T ev s1 s2 \<Longrightarrow> sys_run C B net T (evs @ [ev]) s s2"

section \<open>The registry\<close>

text \<open>What a step of a component does to the registry: it keeps every record.\<close>

definition keeps_registry :: "('p \<Rightarrow> string \<Rightarrow> RobotRecord option) \<Rightarrow> ('r, 'p, 'c) world \<Rightarrow> ('r, 'p, 'c) world \<Rightarrow> bool" where
  "keeps_registry robots w w' \<longleftrightarrow> robots (pst (st w)) \<subseteq>\<^sub>m robots (pst (st w'))"

lemma keeps_registryI: "robots (pst (st w')) = robots (pst (st w)) \<Longrightarrow> keeps_registry robots w w'"
  by (simp add: keeps_registry_def)

lemma keeps_pst: "pst (st w') = pst (st w) \<Longrightarrow> keeps_registry robots w w'"
  by (simp add: keeps_registry_def)

lemma enter_pst: "enter_session te T c res p k w = (os, k', w') \<Longrightarrow> pst (st w') = pst (st w)"
  by (auto simp: enter_session_def split: option.splits prod.splits bool.splits)

lemma spawn_pst: "spawn_session te T c res p k w = (os, k', w') \<Longrightarrow> pst (st w') = pst (st w)"
  by (auto simp: spawn_session_def Let_def split: option.splits prod.splits sum.splits)

lemma wait_pst: "wait_spawn te c d res p k w = (os, k', w') \<Longrightarrow> pst (st w') = pst (st w)"
  by (auto simp: wait_spawn_def split: option.splits if_splits)

lemma persist_registry:
  assumes "postgres_service (pg (sv T)) robots"
  shows "robots (pst s) \<subseteq>\<^sub>m robots (pst (snd (handlePersist T res s)))"
proof -
  have q: "GetRobotByUUID (pg (sv T)) u p = (x, p') \<Longrightarrow> robots p' = robots p" for u p x p'
    using query_frame(1)[OF assms] .
  have i: "RegisterRobot (pg (sv T)) u k d p = (x, p') \<Longrightarrow> robots p \<subseteq>\<^sub>m robots p'" for u k d p x p'
    using postgres_service.insert_keeps[OF assms]
    by (fastforce simp: RegisterRobot_def map_le_def dom_def split: prod.splits sum.splits)
  show ?thesis
    using q i by (auto simp: handlePersist_def split: prod.splits sum.splits) metis+
qed

lemma tcp_registry:
  assumes P: "postgres_service (pg (sv T)) robots" and s: "tcp_step T te c ip ev k w = (os, k', w')"
  shows "keeps_registry robots w w'"
proof -
  note q = query_frame(1)[OF P]
  have hb: "handleHeartbeat T te ip m w = (os', w'') \<Longrightarrow> keeps_registry robots w w''" for m os' w''
    using q heartbeat_pst[of "sv T"]
    by (intro keeps_registryI) (auto simp: handleHeartbeat_def split: if_splits option.splits prod.splits sum.splits; metis prod.collapse snd_conv)
  have uuid: "auth_uuid T te l k w = (os, k', w') \<Longrightarrow> keeps_registry robots w w'" for l
    using q by (intro keeps_registryI) (auto simp: auth_uuid_def hs_uuid_def Let_def split: if_splits prod.splits sum.splits)
  have sig: "auth_signature T te c ip u r n l k w = (os, k', w') \<Longrightarrow> keeps_registry robots w w'" for u r n l
    using enter_pst
    by (intro keeps_pst) (fastforce simp: auth_signature_def hs_signature_def Let_def split: if_splits prod.splits sum.splits)
  have ru: "reg_uuid T te l k w = (os, k', w') \<Longrightarrow> keeps_registry robots w w'" for l
    using q by (intro keeps_registryI) (auto simp: reg_uuid_def Let_def split: if_splits prod.splits sum.splits)
  have rk: "reg_key T te ip u d l k w = (os, k', w') \<Longrightarrow> keeps_registry robots w w'" for u d l
    by (intro keeps_pst) (auto simp: reg_key_def Let_def split: if_splits prod.splits sum.splits)
  have rr: "reg_response T te c ip u d key oc k w = (os, k', w') \<Longrightarrow> keeps_registry robots w w'" for u d key oc
    using enter_pst
    by (intro keeps_pst) (fastforce simp: reg_response_def Let_def split: if_splits prod.splits sum.splits)
  have se: "session_line T te a res p l k w = (os, k', w') \<Longrightarrow> keeps_registry robots w w'" for a res p l
    using persist_registry[OF P, of "st w" res]
    by (auto simp: session_line_def keeps_registry_def Let_def split: if_splits prod.splits option.splits)
  have line: "tcp_line T te c ip l k w = (os, k', w') \<Longrightarrow> keeps_registry robots w w'" for l
    using uuid sig ru rk se hb
    by (auto simp: tcp_line_def handleConnection_line_def handleAuthAndSession_def handleRegisterAndSession_def heartbeatLoop_line_def reg_type_def Let_def keeps_pst
        split: cstate.splits if_splits prod.splits)
  have "tcp_end k w = (os, k', w') \<Longrightarrow> keeps_registry robots w w'"
    by (intro keeps_pst) (auto simp: tcp_end_def session_end_def split: cstate.splits option.splits)
  then show ?thesis
    using s line rr
    by (auto simp: tcp_step_def keeps_pst split: if_splits option.splits cstate.splits tcp_event.splits
        dest!: spawn_pst wait_pst)
qed

lemma nonce_registry:
  assumes "postgres_service (pg (sv T)) robots"
  shows "robots (pst (snd (challenge_nonce (sv T) key rnd u s))) = robots (pst s)"
  using query_frame(1)[OF assms] by (auto simp: challenge_nonce_def split: prod.splits sum.splits)

lemma hb_registry:
  assumes "postgres_service (pg (sv T)) robots"
  shows "robots (pst (snd (ProcessHeartbeat (sv T) now u p g ip s))) = robots (pst s)"
  using query_frame(1)[OF assms] heartbeat_pst[of "sv T" now u p g ip s] by (metis prod.collapse)

lemma udp_registry:
  assumes P: "postgres_service (pg (sv T)) robots" and s: "handlePacket T te c ip data w = (os, t, w')"
  shows "keeps_registry robots w w'"
proof -
  have 1: "handleAuth T te c ip pkt w = (os, t, w') \<Longrightarrow> keeps_registry robots w w'" for pkt
    using nonce_registry[OF P, of "udpNonceKey (p_UUID pkt)" "rndNonce te" "p_UUID pkt" "st w"]
    by (intro keeps_registryI) (auto simp: handleAuth_def udp_challenge_def udp_verify_def
        split: if_splits prod.splits sum.splits option.splits dest!: udp_attach_st)
  have 2: "udp_handleHeartbeat T te ip pkt w = (os, t, w') \<Longrightarrow> keeps_registry robots w w'" for pkt
    using hb_registry[OF P, of "nano te div second" "p_UUID pkt" "p_Payload pkt" "p_Signature pkt" ip "st w"]
    by (intro keeps_registryI) (auto simp: udp_handleHeartbeat_def hb_err_def split: if_splits prod.splits sum.splits)
  have 3: "handleMessage T te pkt w = (os, t, w') \<Longrightarrow> keeps_registry robots w w'" for pkt
    by (intro keeps_pst) (auto simp: handleMessage_def msg_err_def split: if_splits sum.splits option.splits)
  show ?thesis
    using s 1 2 3 by (auto simp: handlePacket_def keeps_pst split: option.splits if_splits)
qed

lemma udp_task_pst: "udp_resume T te c t w = (os, t', w') \<Longrightarrow> pst (st w') = pst (st w)"
  by (cases t) (auto simp: udp_spawn_def udp_wait_def drop_session_def
      split: option.splits prod.splits sum.splits if_splits)

lemma mqtt_registry:
  assumes P: "postgres_service (pg (sv T)) robots" and s: "mqtt_OnPublished T te c ip topic payload w = (os, t, w')"
  shows "keeps_registry robots w w'"
proof -
  have 1: "mqtt_handleAuth T te c ip u payload w = (os, t, w') \<Longrightarrow> keeps_registry robots w w'" for u
    using nonce_registry[OF P, of "mqttNonceKey u" "rndNonce te" u "st w"]
    by (intro keeps_registryI) (auto simp: mqtt_handleAuth_def
        split: if_splits prod.splits sum.splits option.splits dest!: mqtt_attach_st)
  have 2: "mqtt_handleHeartbeat T te ip u payload w = (os', w'') \<Longrightarrow> keeps_registry robots w w''" for u os' w''
    by (intro keeps_registryI) (auto simp: mqtt_handleHeartbeat_def hb_registry[OF P]
        split: if_splits prod.splits sum.splits option.splits dest!: arg_cong[where f = snd])
  have 3: "keeps_registry robots w (mqtt_handleMessage T u payload w)" for u
    by (intro keeps_pst) (auto simp: mqtt_handleMessage_def split: prod.splits sum.splits option.splits)
  show ?thesis
    using s 1 2 3 by (auto simp: mqtt_OnPublished_def keeps_pst split: MQTT_Server.route.splits prod.splits)
qed

lemma mqtt_task_pst: "mqtt_spawn T te c res w = (os, t, w') \<Longrightarrow> pst (st w') = pst (st w)"
  by (auto simp: mqtt_spawn_def split: option.splits prod.splits)

lemma response_st: "sendResponse a i d e w = Some (os, w') \<Longrightarrow> st w' = st w"
  by (auto simp: sendResponse_def split: option.splits)

lemma type_registry:
  assumes "postgres_service (pg S) robots"
  shows "GetRobotsByType (pg S) d p = (y, p') \<Longrightarrow> robots p' = robots p"
  using postgres_service.select_type_frame[OF assms]
  by (auto simp: GetRobotsByType_def query_rows_def split: prod.splits sum.splits)

lemma with_out_Some: "with_out os r = Some (os', w') \<longleftrightarrow> (\<exists>os''. r = Some (os'', w') \<and> os' = os @ os'')"
  by (auto simp: with_out_def)

lemma database_registry:
  assumes P: "postgres_service (pg (sv T)) robots" and s: "handleDatabaseRequest C (sv T) a u env w = Some (os, w')"
  shows "robots (pst (st w')) = robots (pst (st w))"
proof -
  have 1: "store_data (sv T) a u env w = Some (os, w') \<Longrightarrow> ?thesis"
    by (auto simp: store_data_def Let_def split: json.splits if_splits prod.splits sum.splits option.splits dest!: response_st)
  have 2: "get_data C (sv T) a u env w = Some (os, w') \<Longrightarrow> ?thesis"
    by (auto simp: get_data_def split: json.splits prod.splits sum.splits option.splits dest!: response_st)
  have 3: "delete_data (sv T) a u env w = Some (os, w') \<Longrightarrow> ?thesis"
    by (auto simp: delete_data_def split: json.splits prod.splits sum.splits option.splits dest!: response_st)
  have 4: "robots_reply C a i q w = Some (os, w') \<Longrightarrow> robots (snd q) = robots (pst (st w)) \<Longrightarrow> ?thesis" for i q
    by (auto simp: robots_reply_def split: prod.splits sum.splits dest!: response_st)
  have 5: "robots (snd (GetAllRobots (pg (sv T)) p)) = robots p" "robots (snd (GetRobotsByType (pg (sv T)) d p)) = robots p" for p d
    using query_frame(2)[OF P] type_registry[OF P] by (metis prod.collapse)+
  show ?thesis
    using s 1 2 3 4[OF _ 5(1)] 4[OF _ 5(2)] query_frame(1)[OF P]
    unfolding handleDatabaseRequest_def
    by (auto split: if_splits json.splits prod.splits sum.splits dest!: response_st)
qed

lemma script_registry:
  assumes P: "postgres_service (pg (sv T)) robots" and s: "listenStdout_line C (sv T) net idp a line w = Some (os, w')"
  shows "keeps_registry robots w w'"
proof -
  have 1: "handleRobotRequest net a hp env w = Some (os, w') \<Longrightarrow> st w' = st w" for hp env
    by (auto simp: handleRobotRequest_def with_out_Some split: prod.splits sum.splits dest!: response_st)
  have 2: "handleEventBusRequest a env w = Some (os, w') \<Longrightarrow> st w' = st w" for env
    by (auto simp: handleEventBusRequest_def Let_def with_out_Some dest!: response_st)
  have 3: "handleConfigRequest idp a hp env w = Some (os, w') \<Longrightarrow> st w' = st w" for hp env
    by (auto simp: handleConfigRequest_def split: if_splits json.splits option.splits prod.splits dest!: response_st)
  have 4: "handleConnectRobotRequest (sv T) a hp env w = Some (os, w') \<Longrightarrow> pst (st w') = pst (st w)" for hp env
    by (auto simp: handleConnectRobotRequest_def Let_def split: if_splits option.splits prod.splits dest!: response_st)
  have "routeEnvelope C (sv T) net idp a env w = Some (os, w') \<Longrightarrow> keeps_registry robots w w'" for env
    using 1 2 3 4 database_registry[OF P]
    by (intro keeps_registryI) (auto simp: routeEnvelope_def split: option.splits if_splits dest!: response_st)
  then show ?thesis
    using s by (auto simp: listenStdout_line_def keeps_pst split: option.splits)
qed

lemma attach_st: "attach_reverse a i c w = Some (b, w') \<Longrightarrow> st w' = st w"
  by (auto simp: attach_reverse_def split: option.splits if_splits dest!: response_st)

lemma reverse_registry:
  assumes P: "postgres_service (pg (sv T)) robots"
  shows "reverseConnectTCP (sv T) a i c io ls w = Some w' \<Longrightarrow> keeps_registry robots w w'"
    and "reverseConnectUDP a i c re de ls w = Some w' \<Longrightarrow> keeps_registry robots w w'"
proof -
  have h: "reverse_handshake (sv T) io u p = (x, p') \<Longrightarrow> robots p' = robots p" for u p x p'
    using query_frame(1)[OF P]
    by (auto simp: reverse_handshake_def split: option.splits if_splits sum.splits prod.splits)
  show "reverseConnectTCP (sv T) a i c io ls w = Some w' \<Longrightarrow> keeps_registry robots w w'"
    by (intro keeps_registryI) (auto simp: reverseConnectTCP_def split: option.splits prod.splits sum.splits bool.splits
        dest!: response_st attach_st h)
  show "reverseConnectUDP a i c re de ls w = Some w' \<Longrightarrow> keeps_registry robots w w'"
    by (intro keeps_pst) (auto simp: reverseConnectUDP_def split: option.splits prod.splits bool.splits
        dest!: response_st attach_st)
qed

text \<open>No command of the terminal changes the registry or the handler table.\<close>

definition term_keeps :: "('p \<Rightarrow> string \<Rightarrow> RobotRecord option) \<Rightarrow> ('r, 'p, 'c) tstate \<Rightarrow> ('r, 'p, 'c) tresult \<Rightarrow> bool" where
  "term_keeps robots s r \<longleftrightarrow> (\<forall>os x s'. r = Some (os, x, s') \<longrightarrow>
     robots (pst (st (snd s'))) = robots (pst (st (snd s))) \<and> handlers (en (snd s')) = handlers (en (snd s)))"

lemma term_keeps_simps [simp]:
  "term_keeps robots s (wrote os s') \<longleftrightarrow>
     robots (pst (st (snd s'))) = robots (pst (st (snd s))) \<and> handlers (en (snd s')) = handlers (en (snd s))"
  "term_keeps robots s (failed e s') \<longleftrightarrow>
     robots (pst (st (snd s'))) = robots (pst (st (snd s))) \<and> handlers (en (snd s')) = handlers (en (snd s))"
  "term_keeps robots s (exitCommand s)" "term_keeps robots s (quitCommand s)"
  "term_keeps robots s None"
  by (cases s'; simp add: term_keeps_def wrote_def failed_def exitCommand_def quitCommand_def)+

lemma on_world_simps [simp]:
  "snd (on_world f s) = f (snd s)" "st (tset_bus b w) = st w" "handlers (en (tset_bus b w)) = handlers (en w)"
  by (simp_all add: on_world_def tset_bus_def)

lemma command_keeps:
  assumes P: "postgres_service (pg (sv T)) robots"
  shows "term_keeps robots s (ExecuteCommand T idp a name args s)"
proof -
  have 1: "term_keeps robots s (listActiveCommand T s)" "term_keeps robots s (pendingCommand T s)"
    "term_keeps robots s (statusCommand T args s)" "term_keeps robots s (answer_pending T b args s)" for b
    by (auto simp: listActiveCommand_def pendingCommand_def statusCommand_def answer_pending_def
        split: prod.split sum.split list.split)
  have 2: "term_keeps robots s (listRegisteredCommand T s)"
    using query_frame(2)[OF P] by (auto simp: listRegisteredCommand_def split: prod.split sum.split)
  have 3: "term_keeps robots s (stopCommand args s)" "term_keeps robots s (helpCommand args s)"
    "term_keeps robots s (publishCommand args s)"
    by (auto simp: stopCommand_def helpCommand_def publishCommand_def split: list.split option.split)
  have 4: "term_keeps robots s (subscribeCommand i j a args s)" "term_keeps robots s (unsubscribeCommand args s)" for i j
    by (auto simp: subscribeCommand_def unsubscribeCommand_def split: list.split option.split prod.split)
  show ?thesis
    unfolding ExecuteCommand_def acceptCommand_def rejectCommand_def by (simp add: 1 2 3 4)
qed

lemma term_line_keeps:
  assumes P: "postgres_service (pg (sv T)) robots" and "term_line T idp a line (ts, w) = Some (os, go, (ts', w'))"
  shows "robots (pst (st w')) = robots (pst (st w))" "handlers (en w') = handlers (en w)"
proof -
  have "robots (pst (st w')) = robots (pst (st w)) \<and> handlers (en w') = handlers (en w)"
  proof (cases "Fields (TrimSpace line)")
    case (Cons name args)
    then show ?thesis
      using assms(2) command_keeps[OF P, of "(ts, w)" idp a name args]
      by (auto simp: term_line_def term_keeps_def split: option.splits prod.splits sum.splits if_splits)
  qed (use assms(2) in \<open>auto simp: term_line_def\<close>)
  then show "robots (pst (st w')) = robots (pst (st w))" "handlers (en w') = handlers (en w)" by auto
qed

lemma step_registry:
  assumes P: "postgres_service (pg (sv T)) robots" and s: "sys_step C B net T ev s s'"
    and u: "robots (pst (st (wd s))) u = Some r"
  shows "\<exists>r'. robots (pst (st (wd s'))) u = Some r' \<and> rr_PublicKey r' = rr_PublicKey r \<and> rr_DeviceType r' = rr_DeviceType r
    \<and> (r' \<noteq> r \<longrightarrow> (\<exists>rq. ev = Http rq (Rest Provision_Blacklist) \<and> h_param rq = u
        \<and> fst (validateSessionFull T rq (rst (st (wd s)))) \<noteq> None))"
proof -
  have "(\<exists>rq hrt. ev = Http rq hrt) \<or> keeps_registry robots (wd s) (wd s')"
    using s by cases (auto dest: tcp_registry[OF P] udp_registry[OF P] mqtt_registry[OF P] script_registry[OF P]
      reverse_registry(1)[OF P] reverse_registry(2)[OF P] intro: keeps_pst keeps_registryI
      dest!: udp_task_pst mqtt_task_pst term_line_keeps(1)[OF P])
  moreover have ?thesis if "keeps_registry robots (wd s) (wd s')"
    using that u by (auto simp: keeps_registry_def map_le_def dom_def intro!: exI[of _ r])
  moreover have ?thesis if e: "ev = Http rq hrt" for rq hrt
  proof -
    obtain hevs ans L' w' where h: "serve C B T rq hrt (lim s, wd s) = (hevs, ans, L', w')" "wd s' = w'"
      using s unfolding e by cases auto
    show ?thesis using registry_keys_immutable[OF P h(1) u] h(2) e by auto
  qed
  ultimately show ?thesis by blast
qed

lemma run_registry:
  assumes P: "postgres_service (pg (sv T)) robots" and "sys_run C B net T evs s s'"
    and "robots (pst (st (wd s))) u = Some r"
  shows "\<exists>r'. robots (pst (st (wd s'))) u = Some r' \<and> rr_PublicKey r' = rr_PublicKey r \<and> rr_DeviceType r' = rr_DeviceType r
    \<and> (r' \<noteq> r \<longrightarrow> (\<exists>evs1 rq evs2 s1. evs = evs1 @ Http rq (Rest Provision_Blacklist) # evs2 \<and> sys_run C B net T evs1 s s1
        \<and> h_param rq = u \<and> fst (validateSessionFull T rq (rst (st (wd s1)))) \<noteq> None))"
  using assms(2,3)
proof (induction rule: sys_run.induct)
  case (snoc evs s s1 ev s2)
  obtain r1 where r1: "robots (pst (st (wd s1))) u = Some r1" "rr_PublicKey r1 = rr_PublicKey r" "rr_DeviceType r1 = rr_DeviceType r"
    "r1 \<noteq> r \<longrightarrow> (\<exists>evs1 rq evs2 s3. evs = evs1 @ Http rq (Rest Provision_Blacklist) # evs2 \<and> sys_run C B net T evs1 s s3
        \<and> h_param rq = u \<and> fst (validateSessionFull T rq (rst (st (wd s3)))) \<noteq> None)"
    using snoc.IH[OF snoc.prems] by blast
  obtain r2 where r2: "robots (pst (st (wd s2))) u = Some r2" "rr_PublicKey r2 = rr_PublicKey r1" "rr_DeviceType r2 = rr_DeviceType r1"
    "r2 \<noteq> r1 \<longrightarrow> (\<exists>rq. ev = Http rq (Rest Provision_Blacklist) \<and> h_param rq = u
        \<and> fst (validateSessionFull T rq (rst (st (wd s1)))) \<noteq> None)"
    using step_registry[OF P snoc.hyps(2) r1(1)] by blast
  show ?case
  proof (intro exI[of _ r2] conjI impI)
    assume "r2 \<noteq> r"
    then consider "r2 \<noteq> r1" | "r1 \<noteq> r" by blast
    then show "\<exists>evs1 rq evs2 s3. evs @ [ev] = evs1 @ Http rq (Rest Provision_Blacklist) # evs2 \<and> sys_run C B net T evs1 s s3
        \<and> h_param rq = u \<and> fst (validateSessionFull T rq (rst (st (wd s3)))) \<noteq> None"
    proof cases
      case 1
      then show ?thesis using r2(4) snoc.hyps(1) by blast
    next
      case 2
      then show ?thesis using r1(4) by (metis append.assoc append_Cons)
    qed
  qed (use r1 r2 in auto)
qed auto

section \<open>A run\<close>

text \<open>A robot that is registered and has no handler connects, authenticates and gets one.\<close>

definition idle_world :: "(mem, (string, RobotRecord) gomap, nat) world" where
  "idle_world = sample_world\<lparr>en := \<lparr>procs = [], fresh_proc = 0, handlers = [], spawning = [], bus = NewLocalBus NewEventBus\<rparr>\<rparr>"

lemma idle_services:
  "postgres_service (pg (sv sample_tcp)) mem_robots" "redis_service (rds (sv sample_tcp)) map_of"
  "mem_robots (pst (st idle_world)) ''r1'' = Some sample_record" "st idle_world = sample_store"
  using mem_postgres.postgres_service_axioms mem_redis.redis_service_axioms
  by (simp_all add: sample_tcp_def sample_server_def mem_robots_def idle_world_def sample_world_def sample_store_def sample_record_def)

lemma idle_steps:
  "tcp_step sample_tcp (sample_env 7) (5 :: nat) ''ip'' (Line True ''AUTH'') \<lparr>cst = Idle, deadline = None\<rparr> idle_world
     = ([Wr (ln ''AUTH_CHALLENGE'')], \<lparr>cst = AuthUUID, deadline = Some 30000000007\<rparr>, idle_world)"
  "tcp_step sample_tcp (sample_env 7) (5 :: nat) ''ip'' (Line True ''r1'') \<lparr>cst = AuthUUID, deadline = Some 30000000007\<rparr> idle_world
     = ([Wr (ln (''NONCE '' @ hex_EncodeToString ''n''))], sig_conn, idle_world)"
proof -
  show "tcp_step sample_tcp (sample_env 7) (5 :: nat) ''ip'' (Line True ''AUTH'') \<lparr>cst = Idle, deadline = None\<rparr> idle_world
     = ([Wr (ln ''AUTH_CHALLENGE'')], \<lparr>cst = AuthUUID, deadline = Some 30000000007\<rparr>, idle_world)"
    by (simp add: tcp_step_def reading_def is_read_def scan_def MaxTCPMessageSize_def tcp_line_def sample_timeout
      handleConnection_line_def handleAuthAndSession_def handleRegisterAndSession_def trim_commands Let_def) (simp add: sample_tcp_def)
  have "set_store sample_store idle_world = idle_world" using idle_services(4) by (simp add: set_store_def)
  moreover have "sv sample_tcp = sample_server" "rndNonce (sample_env 7) = Some ''n''"
    by (simp_all add: sample_tcp_def sample_env_def)
  ultimately show "tcp_step sample_tcp (sample_env 7) (5 :: nat) ''ip'' (Line True ''r1'') \<lparr>cst = AuthUUID, deadline = Some 30000000007\<rparr> idle_world
     = ([Wr (ln (''NONCE '' @ hex_EncodeToString ''n''))], sig_conn, idle_world)"
    by (simp add: tcp_step_def reading_def is_read_def scan_def MaxTCPMessageSize_def tcp_line_def sample_timeout
        auth_uuid_def sample_hs_uuid idle_services(4) sig_conn_def del: hex_EncodeToString.simps)
qed

lemma idle_signature:
  "\<exists>os res w'. tcp_step sample_tcp (sample_env 7) (5 :: nat) ''ip'' (Line True sample_sig) sig_conn idle_world
     = (os, to_state (Spawning res True) sig_conn, w') \<and> r_UUID res = ''r1'' \<and> r_DeviceType res = ''arm''
       \<and> handlers (en w') = [] \<and> procs (en w') = [] \<and> fresh_proc (en w') = 0"
proof -
  obtain res r' where o: "open_session sample_server None 7 ''r1'' ''arm'' ''ip'' [] = ([], Inr res, r')"
    using sample_open_session by blast
  have v: "VerifyRobotSignature (crypto sample_server) sample_key (hex_EncodeToString ''n'') sample_sig = Inr ()"
    using sample_verify[of "''n''"] by (simp add: sample_server_def)
  let ?s = "sample_store\<lparr>rst := r'\<rparr>"
  have h: "hs_signature sample_server None 7 ''ip'' ''r1'' sample_record (hex_EncodeToString ''n'') sample_sig sample_store
     = ([ln (''AUTH_OK '' @ r_SessionJWT res)], Inr res, ?s)"
    using o v by (simp add: hs_signature_def trim_samples sample_record_def sample_store_def del: hex_EncodeToString.simps)
  have u: "r_UUID res = ''r1''" "r_DeviceType res = ''arm''" using open_session_ok(2,3)[OF o] .
  obtain w' where e: "enter_session (sample_env 7) sample_tcp 5 res True sig_conn (set_store ?s idle_world)
      = ([], to_state (Spawning res True) sig_conn, w')" and w': "handlers (en w') = []" "procs (en w') = []" "fresh_proc (en w') = 0"
    by (simp add: enter_session_def Get_def TryStartSpawning_def idle_world_def set_store_def)
  have f: "sv sample_tcp = sample_server" "rndSession (sample_env 7) = None" "nano (sample_env 7) = 7"
    "cst sig_conn = AuthSig ''r1'' sample_record (hex_EncodeToString ''n'')" "\<not> MaxTCPMessageSize \<le> length sample_sig"
    by (simp_all only: sample_sig_def length_hex_Encode length_replicate MaxTCPMessageSize_def)
      (simp_all add: sample_tcp_def sample_env_def sig_conn_def)
  have "tcp_step sample_tcp (sample_env 7) (5 :: nat) ''ip'' (Line True sample_sig) sig_conn idle_world
      = ([Wr (ln (''AUTH_OK '' @ r_SessionJWT res))], to_state (Spawning res True) sig_conn, w')"
    using h e by (simp add: tcp_step_def reading_def is_read_def scan_def tcp_line_def auth_signature_def f idle_services(4)
        del: hex_EncodeToString.simps)
  then show ?thesis using u w' by blast
qed

lemma idle_resolve: "\<exists>p. ResolveHandlerScript sample_fs b ''arm'' = Inr p"
proof -
  have "IsValidDeviceType ''arm''"
    by (simp add: IsValidDeviceType_def device_char_def)
  then show ?thesis
    by (simp add: ResolveHandlerScript_def Abs_def sample_fs_def)
qed

lemma idle_spawn:
  assumes "r_UUID res = ''r1''" "r_DeviceType res = ''arm''" "handlers (en w) = []" "procs (en w) = []" "fresh_proc (en w) = 0"
  shows "\<exists>w'. tcp_step sample_tcp (sample_env 7) (5 :: nat) ''ip'' Resume (to_state (Spawning res True) k) w
     = ([], to_state (Session 0 res True) k, w') \<and> Get ''r1'' (en w') = Some 0"
proof -
  obtain p where "ResolveHandlerScript sample_fs (BasePath (cfg sample_server)) ''arm'' = Inr p"
    using idle_resolve by blast
  moreover have "\<exists>e. register_process i j (new_process ''r1'' d ip sid pid c) (en w) = Some (0, e) \<and> handlers e = [(''r1'', 0)]" for i j d ip sid pid c
    using assms(3-5)
    by (simp add: register_process_def add_process_def Register_def new_process_def on_proc_def sendToScript_def
        try_send_def writeCh_cap_def setupBusSubscriptions_def subscribe_proc_def Let_def split: prod.splits)
  ultimately have sp: "\<exists>r e. SpawnHandlerProcess sample_server sample_fs (Inr 1) i j ''r1'' ''arm'' ip sid c (r0, en w) = Some (Inr 0, r, e)
      \<and> handlers e = [(''r1'', 0)]" for i j ip sid c r0
    by (simp add: SpawnHandlerProcess_def Let_def) (metis (no_types, lifting) case_prod_conv option.simps(5))
  obtain r e where "SpawnHandlerProcess sample_server sample_fs (Inr 1) ''i'' ''j'' ''r1'' ''arm'' (r_IP res) (r_SessionID res) (Some 5) (rst (st w), en w)
      = Some (Inr 0, r, e)" and h: "handlers e = [(''r1'', 0)]" using sp by blast
  then have "spawn_session (sample_env 7) sample_tcp 5 res True (to_state (Spawning res True) k) w
      = ([], to_state (Session 0 res True) k, set_rst r (w\<lparr>en := FinishSpawning ''r1'' e\<rparr>))"
    using assms(1,2) by (simp add: spawn_session_def sample_tcp_def sample_env_def to_state_def)
  then show ?thesis
    using h by (simp add: tcp_step_def reading_def to_state_def Get_def FinishSpawning_def)
qed

definition sample_events :: "nat sys_event list" where
  "sample_events = [Accept 0 5 ''ip'', Tcp 0 (sample_env 7) (Line True ''AUTH''), Tcp 0 (sample_env 7) (Line True ''r1''),
     Tcp 0 (sample_env 7) (Line True sample_sig), Tcp 0 (sample_env 7) Resume]"

lemma sample_run:
  "\<exists>s res. sys_run C B net sample_tcp sample_events (sys_init idle_world) s \<and> conns s 0 = Some (5, ''ip'', to_state (Session 0 res True) sig_conn)
     \<and> r_UUID res = ''r1'' \<and> Get ''r1'' (en (wd s)) \<noteq> None"
proof -
  let ?k0 = "\<lparr>cst = Idle, deadline = None\<rparr>" and ?k1 = "\<lparr>cst = AuthUUID, deadline = Some 30000000007\<rparr>"
  obtain os res w1 where g: "tcp_step sample_tcp (sample_env 7) (5 :: nat) ''ip'' (Line True sample_sig) sig_conn idle_world
     = (os, to_state (Spawning res True) sig_conn, w1)" and r: "r_UUID res = ''r1''" "r_DeviceType res = ''arm''"
    "handlers (en w1) = []" "procs (en w1) = []" "fresh_proc (en w1) = 0"
    using idle_signature by blast
  obtain w2 where g2: "tcp_step sample_tcp (sample_env 7) (5 :: nat) ''ip'' Resume (to_state (Spawning res True) sig_conn) w1
     = ([], to_state (Session 0 res True) sig_conn, w2)" and h: "Get ''r1'' (en w2) = Some 0"
    using idle_spawn[OF r] by blast
  have next_step: "\<exists>s'. sys_run C B net sample_tcp (evs @ [Tcp 0 (sample_env 7) e]) s0 s' \<and> conns s' 0 = Some (5, ''ip'', k') \<and> wd s' = w'"
    if r: "\<exists>s. sys_run C B net sample_tcp evs s0 s \<and> conns s 0 = Some (5, ''ip'', k) \<and> wd s = w"
      and t: "tcp_step sample_tcp (sample_env 7) (5 :: nat) ''ip'' e k w = (out, k', w')" for evs e k k' w w' out s0
  proof -
    obtain s where s: "sys_run C B net sample_tcp evs s0 s" "conns s 0 = Some (5, ''ip'', k)" "wd s = w" using r by blast
    show ?thesis
      using sys_run.snoc[OF s(1) sys_step.tcp[OF s(2) t[folded s(3)]]] by force
  qed
  have "\<exists>s. sys_run C B net sample_tcp ([] @ [Accept 0 5 ''ip'']) (sys_init idle_world) s
      \<and> conns s 0 = Some (5, ''ip'', ?k0) \<and> wd s = idle_world"
    by (intro exI conjI, rule sys_run.snoc[OF sys_run.nil], rule sys_step.accept) (simp_all add: sys_init_def)
  from next_step[OF next_step[OF next_step[OF next_step[OF this idle_steps(1)] idle_steps(2)] g] g2]
  show ?thesis
    unfolding sample_events_def using r(1) h by auto
qed

section \<open>Properties\<close>

text \<open>C4: Whatever robots, users, handler scripts, the terminal and the reverse connections do, in
  any order, a registered robot stays registered with the same public key and device type, from
  any state of the system to any later one.  If its record has changed at all, then a user with
  a valid session sent a blacklisting request for this robot.\<close>

theorem registry_integrity:
  assumes "postgres_service (pg (sv T)) robots" and "sys_run C B net T evs s s'"
    and "robots (pst (st (wd s))) u = Some r"
  shows "\<exists>r'. robots (pst (st (wd s'))) u = Some r' \<and> rr_PublicKey r' = rr_PublicKey r \<and> rr_DeviceType r' = rr_DeviceType r
    \<and> (r' \<noteq> r \<longrightarrow> (\<exists>evs1 rq evs2 s1. evs = evs1 @ Http rq (Rest Provision_Blacklist) # evs2 \<and> sys_run C B net T evs1 s s1
        \<and> h_param rq = u \<and> fst (validateSessionFull T rq (rst (st (wd s1)))) \<noteq> None))"
  by (rule run_registry[OF assms])

theorem registry_integrity_witness:
  "\<exists>s r. sys_run sample_codec sample_bcrypt (\<lambda>_ _. None) sample_tcp sample_events (sys_init idle_world) s
     \<and> mem_robots (pst (st (wd s))) ''r1'' = Some r \<and> rr_PublicKey r = sample_key"
proof -
  obtain s where s: "sys_run sample_codec sample_bcrypt (\<lambda>_ _. None) sample_tcp sample_events (sys_init idle_world) s"
    using sample_run by blast
  have u: "mem_robots (pst (st (wd (sys_init idle_world)))) ''r1'' = Some sample_record"
    using idle_services(3) by (simp add: sys_init_def)
  have "rr_PublicKey sample_record = sample_key" by (simp add: sample_record_def)
  then show ?thesis
    using registry_integrity[OF idle_services(1) s u] s by auto
qed

end
