(* ===== verification/Nonces.thy ===== *)
theory Nonces
  imports System
begin

text \<open>
  The custody of the nonces.  The authentications over UDP and MQTT keep the nonce they sent,
  with the robot's public key, in Redis, beside everything else the server keeps there.  No
  step of the system writes under a nonce's key but the challenge itself, so that an entry found
  there is one a challenge left and holds the key of the registry.
\<close>

section \<open>Keys\<close>

definition nonce_key :: "string \<Rightarrow> bool" where
  "nonce_key k \<longleftrightarrow> (\<exists>u. k = udpNonceKey u \<or> k = mqttNonceKey u)"

lemma nonce_key_simps [simp]:
  "nonce_key (udpNonceKey u)" "nonce_key (mqttNonceKey u)"
  "\<not> nonce_key (robotKey u)" "\<not> nonce_key (robotPublicKeyKey u)" "\<not> nonce_key (pendingKey u)" "\<not> nonce_key (heartbeatKey u)"
  "\<not> nonce_key (userKey u)" "\<not> nonce_key (userSessionKey u)" "\<not> nonce_key (ticketKey u)" "\<not> nonce_key (redisDataKey u k)"
  by (auto simp: nonce_key_def udpNonceKey_def mqttNonceKey_def key_defs redisDataKey_def)

lemma nonce_keys [simp]:
  "udpNonceKey u = udpNonceKey v \<longleftrightarrow> u = v" "mqttNonceKey u = mqttNonceKey v \<longleftrightarrow> u = v" "udpNonceKey u \<noteq> mqttNonceKey v" "mqttNonceKey u \<noteq> udpNonceKey v"
  by (simp_all add: udpNonceKey_def mqttNonceKey_def)

section \<open>Operations that leave the nonces alone\<close>

text \<open>Every nonce of \<open>r\<close> is one of \<open>r0\<close>; some may be gone.\<close>

definition nonces_kept :: "('r \<Rightarrow> string \<Rightarrow> (string \<times> int) option) \<Rightarrow> 'r \<Rightarrow> 'r \<Rightarrow> bool" where
  "nonces_kept live r0 r \<longleftrightarrow> (\<forall>k. nonce_key k \<longrightarrow> live r k \<noteq> None \<longrightarrow> live r k = live r0 k)"

lemma nonces_kept_refl [simp]: "nonces_kept live r r"
  by (simp add: nonces_kept_def)

lemma nonces_kept_le: "nonces_kept live r0 r \<Longrightarrow> live r' \<subseteq>\<^sub>m live r \<Longrightarrow> nonces_kept live r0 r'"
  unfolding nonces_kept_def map_le_def dom_def by (metis (mono_tags, lifting) mem_Collect_eq)

context redis_service
begin

lemma set_kept: "nonces_kept live r0 s \<Longrightarrow> \<not> nonce_key k \<Longrightarrow> nonces_kept live r0 (snd (rdSet rd k v t s))"
  using set_frame[of k v t s] unfolding nonces_kept_def by (metis prod.collapse)

lemma del_kept: "nonces_kept live r0 s \<Longrightarrow> nonces_kept live r0 (snd (rdDel rd k s))"
  using del_ok[of k s] del_err[of k s] map_le_del[of _ "live s" k] nonces_kept_le
  by (cases "rdDel rd k s"; cases "fst (rdDel rd k s)") fastforce+

lemma get_kept: "nonces_kept live r0 s \<Longrightarrow> nonces_kept live r0 (snd (rdGet rd k s))"
  "nonces_kept live r0 s \<Longrightarrow> nonces_kept live r0 (snd (rdGetDel rd k s))"
  "nonces_kept live r0 s \<Longrightarrow> nonces_kept live r0 (snd (rdExists rd k s))"
  "nonces_kept live r0 s \<Longrightarrow> nonces_kept live r0 (snd (rdPublish rd k v s))"
  "nonces_kept live r0 s \<Longrightarrow> nonces_kept live r0 (snd (get_json rd dec k s))"
  "nonces_kept live r0 s \<Longrightarrow> nonces_kept live r0 (snd (scan_all rd dec k s))"
  using get_frame getdel_frame exists_frame publish_frame get_json_frame scan_all_frame
  by (metis prod.collapse nonces_kept_le)+

text \<open>The stored operations of the server, by what they return in the state.\<close>

lemma ops_kept:
  assumes "nonces_kept live r0 s"
  shows "nonces_kept live r0 (snd (SetActiveRobot rd a t s))" "nonces_kept live r0 (snd (GetActiveRobot rd u s))"
    "nonces_kept live r0 (snd (RemoveActiveRobot rd u s))" "nonces_kept live r0 (snd (IsRobotActive rd u s))"
    "nonces_kept live r0 (snd (GetAllActiveRobots rd s))" "nonces_kept live r0 (snd (SetRobotPublicKey rd u key t s))"
    "nonces_kept live r0 (snd (GetRobotPublicKey rd u s))" "nonces_kept live r0 (snd (RemoveRobotPublicKey rd u s))"
    "nonces_kept live r0 (snd (GetPendingRobot rd u s))" "nonces_kept live r0 (snd (RemovePendingRobot rd u s))"
    "nonces_kept live r0 (snd (GetAllPendingRobots rd s))" "nonces_kept live r0 (snd (SetHeartbeat rd h t s))"
    "nonces_kept live r0 (snd (GetHeartbeat rd u s))" "nonces_kept live r0 (snd (RemoveHeartbeat rd u s))"
    "nonces_kept live r0 (snd (IsRobotOnline rd u s))" "nonces_kept live r0 (snd (GetAllOnlineRobots rd s))"
    "nonces_kept live r0 (snd (SetUser rd us s))" "nonces_kept live r0 (snd (GetUser rd u s))"
    "nonces_kept live r0 (snd (SetUserSession rd u v t s))" "nonces_kept live r0 (snd (GetUserSession rd u s))"
    "nonces_kept live r0 (snd (RemoveUserSession rd u s))" "nonces_kept live r0 (snd (SetTicket rd u v t s))"
    "nonces_kept live r0 (snd (ConsumeTicket rd u s))" "nonces_kept live r0 (snd (PublishRegistrationResponse rd u b s))"
  using assms get_kept(3)
  by (simp_all add: SetActiveRobot_def GetActiveRobot_def RemoveActiveRobot_def IsRobotActive_def GetAllActiveRobots_def
      SetRobotPublicKey_def GetRobotPublicKey_def RemoveRobotPublicKey_def GetPendingRobot_def RemovePendingRobot_def
      GetAllPendingRobots_def SetHeartbeat_def GetHeartbeat_def RemoveHeartbeat_def IsRobotOnline_def GetAllOnlineRobots_def
      SetUser_def GetUser_def SetUserSession_def GetUserSession_def RemoveUserSession_def SetTicket_def ConsumeTicket_def
      PublishRegistrationResponse_def set_kept del_kept get_kept case_prod_beta)

lemma pending_kept: "nonces_kept live r0 s \<Longrightarrow> nonces_kept live r0 (snd (SetPendingRobot rd p t s))"
proof -
  assume k: "nonces_kept live r0 s"
  obtain x s1 where 1: "rdExists rd (pendingKey (pr_UUID p)) s = (x, s1)" by (cases "rdExists rd (pendingKey (pr_UUID p)) s")
  obtain y s2 where 2: "rdExists rd (robotKey (pr_UUID p)) s1 = (y, s2)" by (cases "rdExists rd (robotKey (pr_UUID p)) s1")
  have "nonces_kept live r0 s1" "nonces_kept live r0 s2"
    using get_kept(3)[OF k] get_kept(3)[of r0 s1 "robotKey (pr_UUID p)"] 1 2 by (metis snd_conv)+
  then show ?thesis
    using 1 2 set_kept by (auto simp: SetPendingRobot_def split: sum.splits)
qed

lemma store_pid_kept: "nonces_kept live r0 s \<Longrightarrow> nonces_kept live r0 (store_pid rd c u pid s)"
  using ops_kept(1,2) by (auto simp: store_pid_def split: prod.split sum.split) (metis snd_conv)+

end

text \<open>A command of the terminal leaves a world with a property.\<close>

definition leaves :: "(('r, 'p, 'c) world \<Rightarrow> bool) \<Rightarrow> ('r, 'p, 'c) tresult \<Rightarrow> bool" where
  "leaves Q r \<longleftrightarrow> (\<forall>os x s'. r = Some (os, x, s') \<longrightarrow> Q (snd s'))"

lemma leaves_simps [simp]:
  "leaves Q (wrote os s) \<longleftrightarrow> Q (snd s)" "leaves Q (failed e s) \<longleftrightarrow> Q (snd s)" "leaves Q None"
  "leaves Q (exitCommand s) \<longleftrightarrow> Q (snd s)" "leaves Q (quitCommand s) \<longleftrightarrow> Q (snd s)"
  by (cases s; simp add: leaves_def wrote_def failed_def exitCommand_def quitCommand_def)+

section \<open>Components that leave the nonces alone\<close>

text \<open>The Redis of a server.  A statement about an operation is about the state it leaves; \<open>r0\<close>
  is any earlier state.\<close>

locale server_redis =
  redis_service "rds (sv T)" live for T :: "('r, 'p) tcp_server" and live
begin

lemmas kept = ops_kept set_kept del_kept get_kept pending_kept store_pid_kept

lemma heartbeat_kept:
  assumes "nonces_kept live r0 (rst s)"
  shows "nonces_kept live r0 (rst (snd (ProcessHeartbeat (sv T) now u p g ip s)))"
proof -
  have "nonces_kept live r0 (refresh_active (rds (sv T)) u ip ttl r)" if "nonces_kept live r0 r" for ttl r
    using that by (simp add: refresh_active_def case_prod_beta kept split: sum.split)
  then show ?thesis
    using assms by (simp add: ProcessHeartbeat_def Let_def case_prod_beta kept split: sum.split option.split)
qed

lemma open_session_kept: "nonces_kept live r0 r \<Longrightarrow> nonces_kept live r0 (snd (snd (open_session (sv T) rnd n u d ip r)))"
  by (simp add: open_session_def case_prod_beta kept split: sum.split option.split)

lemma spawn_kept:
  assumes "SpawnHandlerProcess (sv T) F pid i j u d ip sid c (r, e) = Some (x, r', e')" and "nonces_kept live r0 r"
  shows "nonces_kept live r0 r'"
  using assms by (auto simp: SpawnHandlerProcess_def Let_def kept split: sum.splits option.splits prod.splits)

lemma persist_kept: "nonces_kept live r0 (rst s) \<Longrightarrow> nonces_kept live r0 (rst (snd (handlePersist T res s)))"
  by (simp add: handlePersist_def case_prod_beta kept split: sum.split)

lemma tcp_kept:
  assumes k0: "nonces_kept live r0 (rst (st w))"
  shows "nonces_kept live r0 (rst (st (snd (snd (tcp_step T te c ip ev k w)))))"
proof -
  have en: "rst (st (snd (snd (enter_session te T c res p k w)))) = rst (st w)" for res p w
    by (simp add: enter_session_def case_prod_beta split: option.split bool.split)
  have hb: "nonces_kept live r0 (rst (st (snd (handleHeartbeat T te ip m w))))" for m
    using heartbeat_kept[OF k0] k0 by (simp add: handleHeartbeat_def case_prod_beta split: option.split sum.split)
  have uuid: "nonces_kept live r0 (rst (st (snd (snd (auth_uuid T te l k w)))))" for l
    using k0 by (simp add: auth_uuid_def hs_uuid_def Let_def case_prod_beta split: sum.split)
  have sig: "nonces_kept live r0 (rst (st (snd (snd (auth_signature T te c ip u r n l k w)))))" for u r n l
    using k0 by (simp add: auth_signature_def hs_signature_def Let_def case_prod_beta en open_session_kept split: sum.split)
  have ru: "nonces_kept live r0 (rst (st (snd (snd (reg_uuid T te l k w)))))" for l
    using k0 by (simp add: reg_uuid_def Let_def case_prod_beta kept split: sum.split)
  have rk: "nonces_kept live r0 (rst (st (snd (snd (reg_key T te ip u d l k w)))))" for u d l
    using k0 by (simp add: reg_key_def Let_def case_prod_beta kept split: sum.split)
  have rr: "nonces_kept live r0 (rst (st (snd (snd (reg_response T te c ip u d key oc k w)))))" for u d key oc
    using k0 by (simp add: reg_response_def Let_def case_prod_beta kept en open_session_kept split: sum.split)
  have se: "nonces_kept live r0 (rst (st (snd (snd (session_line T te a res p l k w)))))" for a res p l
    using k0 by (simp add: session_line_def Let_def case_prod_beta persist_kept split: option.split)
  have sp: "nonces_kept live r0 (rst (st (snd (snd (spawn_session te T c res p k w)))))" for res p
    using k0 by (auto simp: spawn_session_def Let_def kept split: option.split prod.split sum.split intro: spawn_kept intro!: ops_kept(3))
  have wa: "nonces_kept live r0 (rst (st (snd (snd (wait_spawn te c d res p k w)))))" for d res p
    using k0 by (simp add: wait_spawn_def split: option.split)
  have ln: "nonces_kept live r0 (rst (st (snd (snd (tcp_line T te c ip l k w)))))" for l
    using k0 hb uuid sig ru rk se
    by (simp add: tcp_line_def handleConnection_line_def handleAuthAndSession_def handleRegisterAndSession_def heartbeatLoop_line_def reg_type_def Let_def case_prod_beta split: cstate.split)
  have te: "nonces_kept live r0 (rst (st (snd (snd (tcp_end k w)))))"
    using k0 by (simp add: tcp_end_def session_end_def split: cstate.split option.split)
  show ?thesis
    using k0 rr sp wa ln te by (simp add: tcp_step_def split: option.split cstate.split tcp_event.split)
qed

lemma answer_kept: "nonces_kept live r0 r \<Longrightarrow> nonces_kept live r0 (snd (answer_nonce (sv T) nk rnd n ip u sig r))"
  by (simp add: answer_nonce_def case_prod_beta kept split: sum.split option.split list.split)

text \<open>A datagram and an MQTT message leave the nonces alone, or are a challenge.\<close>

lemma udp_kept:
  assumes s: "handlePacket T te c ip data w = (os, t, w')" and k0: "nonces_kept live r0 (rst (st w))"
  shows "nonces_kept live r0 (rst (st w')) \<or> (\<exists>u. st w' = snd (challenge_nonce (sv T) (udpNonceKey u) (rndNonce te) u (st w)))"
proof -
  have 1: "handleAuth T te c ip pkt w = (os, t, w') \<Longrightarrow> ?thesis" for pkt
    using k0 answer_kept[OF k0, of "udpNonceKey (p_UUID pkt)" "rndSession te" "nano te" ip "p_UUID pkt" "p_Signature pkt"]
    by (auto simp: handleAuth_def udp_challenge_def udp_verify_def split: if_splits prod.splits sum.splits option.splits
        dest!: udp_attach_st intro: exI[of _ "p_UUID pkt"])
  have 2: "udp_handleHeartbeat T te ip pkt w = (os, t, w') \<Longrightarrow> ?thesis" for pkt
    using heartbeat_kept[OF k0, of "nano te div second" "p_UUID pkt" "p_Payload pkt" "p_Signature pkt" ip] k0
    by (auto simp: udp_handleHeartbeat_def hb_err_def split: if_splits prod.splits sum.splits)
  have 3: "handleMessage T te pkt w = (os, t, w') \<Longrightarrow> ?thesis" for pkt
    using k0 by (auto simp: handleMessage_def msg_err_def split: if_splits sum.splits option.splits)
  show ?thesis
    using s 1 2 3 k0 by (auto simp: handlePacket_def split: option.splits if_splits)
qed

lemma udp_task_kept:
  assumes "nonces_kept live r0 (rst (st w))"
  shows "nonces_kept live r0 (rst (st (snd (snd (udp_resume T te c t w)))))"
  using assms by (cases t) (auto simp: udp_spawn_def udp_wait_def drop_session_def auth_err_def kept
      split: option.split prod.split sum.split intro: spawn_kept intro!: ops_kept(3))

lemma mqtt_kept:
  assumes s: "mqtt_OnPublished T te c ip topic payload w = (os, t, w')" and k0: "nonces_kept live r0 (rst (st w))"
  shows "nonces_kept live r0 (rst (st w')) \<or> (\<exists>u. st w' = snd (challenge_nonce (sv T) (mqttNonceKey u) (rndNonce te) u (st w)))"
proof -
  have 1: "mqtt_handleAuth T te c ip u payload w = (os, t, w') \<Longrightarrow> ?thesis" for u
    using k0 answer_kept[OF k0, of "mqttNonceKey u" "rndSession te" "nano te" ip u]
    by (auto simp: mqtt_handleAuth_def mqtt_err_def split: if_splits prod.splits sum.splits option.splits
        dest!: mqtt_attach_st intro: exI[of _ u]) (metis snd_conv)+
  have 2: "nonces_kept live r0 (rst (st (snd (mqtt_handleHeartbeat T te ip u payload w))))" for u
    using k0 by (simp add: mqtt_handleHeartbeat_def case_prod_beta heartbeat_kept split: option.split sum.split)
  have 3: "nonces_kept live r0 (rst (st (mqtt_handleMessage T u payload w)))" for u
    using k0 by (simp add: mqtt_handleMessage_def case_prod_beta kept split: option.split sum.split)
  show ?thesis
    using s 1 2 3 k0 by (auto simp: mqtt_OnPublished_def case_prod_beta split: MQTT_Server.route.splits)
qed

lemma mqtt_task_kept:
  "nonces_kept live r0 (rst (st w)) \<Longrightarrow> nonces_kept live r0 (rst (st (snd (snd (mqtt_spawn T te c res w)))))"
  by (auto simp: mqtt_spawn_def split: option.split prod.split intro: spawn_kept intro!: ops_kept(3))

lemma resolve_kept: "nonces_kept live r0 r \<Longrightarrow> nonces_kept live r0 (snd (resolveRobotIP (rds (sv T)) hp r))"
  by (simp add: resolveRobotIP_def case_prod_beta kept split: sum.split)

lemma script_kept:
  assumes s: "listenStdout_line C (sv T) net idp a line w = Some (os, w')" and k0: "nonces_kept live r0 (rst (st w))"
  shows "nonces_kept live r0 (rst (st w'))"
proof -
  have reply: "sendResponse a i d e w1 = Some (os, w') \<Longrightarrow> nonces_kept live r0 (rst (st w1)) \<Longrightarrow> ?thesis" for i d e w1
    using response_st by metis
  have 1: "store_data (sv T) a u env w = Some (os, w') \<Longrightarrow> ?thesis"
    "get_data C (sv T) a u env w = Some (os, w') \<Longrightarrow> ?thesis"
    "delete_data (sv T) a u env w = Some (os, w') \<Longrightarrow> ?thesis" for u env
    using k0 kept
    by (auto simp: store_data_def get_data_def delete_data_def Let_def case_prod_beta split: json.splits if_splits sum.splits option.splits
        dest!: reply)
  have 2: "robots_reply C a i q w = Some (os, w') \<Longrightarrow> ?thesis" for i q
    using k0 by (auto simp: robots_reply_def split: prod.splits sum.splits dest!: reply)
  have d: "handleDatabaseRequest C (sv T) a u env w = Some (os, w') \<Longrightarrow> ?thesis" for u env
    using k0 unfolding handleDatabaseRequest_def
    by (auto split: if_splits json.splits prod.splits sum.splits dest!: reply 1 2)
  have r: "handleRobotRequest net a hp env w = Some (os, w') \<Longrightarrow> ?thesis" for hp env
    using k0 by (auto simp: handleRobotRequest_def with_out_Some split: prod.splits sum.splits dest!: response_st)
  have b: "handleEventBusRequest a env w = Some (os, w') \<Longrightarrow> ?thesis" for env
    using k0 by (auto simp: handleEventBusRequest_def Let_def with_out_Some dest!: response_st)
  have c: "handleConfigRequest idp a hp env w = Some (os, w') \<Longrightarrow> ?thesis" for hp env
    using k0 by (auto simp: handleConfigRequest_def split: if_splits json.splits option.splits prod.splits dest!: response_st)
  have n: "handleConnectRobotRequest (sv T) a hp env w = Some (os, w') \<Longrightarrow> ?thesis" for hp env
    using k0 resolve_kept[OF k0, of hp]
    by (auto simp: handleConnectRobotRequest_def Let_def split: if_splits option.splits prod.splits dest!: response_st)
  have "routeEnvelope C (sv T) net idp a env w = Some (os, w') \<Longrightarrow> ?thesis" for env
    using k0 by (auto simp: routeEnvelope_def split: option.splits if_splits dest!: reply d r b c n)
  then show ?thesis
    using s k0 by (auto simp: listenStdout_line_def split: option.splits)
qed

lemma reverse_kept:
  assumes "nonces_kept live r0 (rst (st w))"
  shows "reverseConnectTCP (sv T) a i c io ls w = Some w' \<Longrightarrow> nonces_kept live r0 (rst (st w'))"
    and "reverseConnectUDP a i c re de ls w = Some w' \<Longrightarrow> nonces_kept live r0 (rst (st w'))"
  using assms by (auto simp: reverseConnectTCP_def reverseConnectUDP_def split: option.splits prod.splits sum.splits bool.splits
      dest!: response_st attach_st)

lemma command_kept:
  assumes k0: "nonces_kept live r0 (rst (st (snd s)))"
  shows "leaves (\<lambda>w. nonces_kept live r0 (rst (st w))) (ExecuteCommand T idp a name args s)"
proof -
  let ?L = "leaves (\<lambda>w. nonces_kept live r0 (rst (st w)))"
  have 1: "?L (listActiveCommand T s)" "?L (pendingCommand T s)" "?L (statusCommand T args s)" "?L (answer_pending T b args s)" for b
    using k0 by (auto simp: listActiveCommand_def pendingCommand_def statusCommand_def answer_pending_def case_prod_beta kept
        split: sum.split list.split)
  have 2: "?L (listRegisteredCommand T s)" "?L (stopCommand args s)" "?L (helpCommand args s)" "?L (publishCommand args s)"
    using k0 by (auto simp: listRegisteredCommand_def stopCommand_def helpCommand_def publishCommand_def case_prod_beta
        split: list.split option.split sum.split)
  have 3: "?L (subscribeCommand i j a args s)" "?L (unsubscribeCommand args s)" for i j
    using k0 by (auto simp: subscribeCommand_def unsubscribeCommand_def split: list.split option.split prod.split)
  show ?thesis
    unfolding ExecuteCommand_def acceptCommand_def rejectCommand_def using k0 by (simp add: 1 2 3)
qed

lemma terminal_kept:
  assumes "term_line T idp a line (ts, w) = Some (os, go, (ts', w'))" and "nonces_kept live r0 (rst (st w))"
  shows "nonces_kept live r0 (rst (st w'))"
proof (cases "Fields (TrimSpace line)")
  case (Cons name args)
  then show ?thesis
    using assms command_kept[of r0 "(ts, w)" idp a name args]
    by (auto simp: term_line_def leaves_def split: option.splits prod.splits sum.splits if_splits)
qed (use assms in \<open>auto simp: term_line_def\<close>)

lemma session_kept: "nonces_kept live r0 r \<Longrightarrow> nonces_kept live r0 (snd (validateSessionFull T rq r))"
  by (simp add: validateSessionFull_def Let_def case_prod_beta kept split: option.split sum.split)

lemma account_kept:
  assumes "nonces_kept live r0 r"
  shows "nonces_kept live r0 (snd (checkToken T rq r))" "nonces_kept live r0 (snd (logoutHandler T rq r))"
    "nonces_kept live r0 (snd (issueTicketHandler T rq r))" "nonces_kept live r0 (snd (changePasswordHandler T B rq r))"
    "nonces_kept live r0 (snd (snd (loginHandler T B rq (L, r))))"
  using assms
  by (simp_all add: checkToken_def logoutHandler_def issueTicketHandler_def changePasswordHandler_def loginHandler_def
      Let_def case_prod_beta kept session_kept split: option.split sum.split bool.split)

lemma start_kept: "nonces_kept live r0 (rst (st w)) \<Longrightarrow> nonces_kept live r0 (rst (st (snd (start_marked T rq w))))"
proof -
  assume k0: "nonces_kept live r0 (rst (st w))"
  have "nonces_kept live r0 (rst (snd (handler_target T u (st w))))" for u
    using k0 by (simp add: handler_target_def case_prod_beta kept split: sum.split)
  then have h: "handler_target T u (st w) = (x, s) \<Longrightarrow> nonces_kept live r0 (rst s)" for u x s
    by (metis snd_conv)
  show ?thesis
    using k0 by (auto simp: start_marked_def split: prod.split option.split sum.split intro: spawn_kept h)
qed

lemma handle_kept:
  assumes k0: "nonces_kept live r0 (rst (st w))"
  shows "nonces_kept live r0 (rst (st (snd (snd (handle C B T rq ep w)))))"
proof (cases ep)
  case Ephemeral_Post
  have r: "rst (st (snd (registered T u v))) = rst (st v)" for u v
    by (simp add: registered_def case_prod_beta split: sum.split)
  show ?thesis
    using k0 Ephemeral_Post by (simp add: createEphemeralSession_def Let_def case_prod_beta kept r split: option.split sum.split bool.split)
qed (use k0 in \<open>auto simp: on_rst_def case_prod_beta account_kept kept start_kept heartbeat_kept getActiveRobots_def getRobotDetail_def
        getRobotRecord_def getAllRegisteredRobots_def getRobotStatus_def deleteEphemeralSession_def respondToRegistration_def
        getPendingRegistrations_def listHandlers_def listHandlerTypes_def getHandlerStatus_def http_handleHeartbeat_def
        provisionRobot_def blacklistRobot_def sendRobotMessage_def startHandler_def killHandler_def
        split: sum.split option.split bool.split\<close>)

lemma serve_kept:
  assumes "nonces_kept live r0 (rst (st w))"
  shows "nonces_kept live r0 (rst (st (snd (snd (snd (serve C B T rq hrt (L, w)))))))"
  using assms
  by (auto simp: serve_def SessionValidationMiddleware_def case_prod_beta account_kept session_kept handle_kept
      split: http_route.split option.split)

end

interpretation sample_redis: server_redis sample_tcp map_of
  using mem_redis.redis_service_axioms by (simp add: server_redis_def sample_tcp_def sample_server_def)

section \<open>Genuine nonces\<close>

text \<open>Whatever Redis holds under a nonce's key of a robot is a nonce with the public key and the
  device type of that robot in the registry.\<close>

definition nonces_genuine ::
  "('r \<Rightarrow> string \<Rightarrow> (string \<times> int) option) \<Rightarrow> ('p \<Rightarrow> string \<Rightarrow> RobotRecord option) \<Rightarrow> ('r, 'p) store \<Rightarrow> bool" where
  "nonces_genuine live robots s \<longleftrightarrow>
     (\<forall>u k v t. k \<in> {udpNonceKey u, mqttNonceKey u} \<longrightarrow> live (rst s) k = Some (v, t) \<longrightarrow>
        (\<exists>robot b. robots (pst s) u = Some robot
           \<and> v = authCache (hex_EncodeToString b) (rr_PublicKey robot) (rr_DeviceType robot)))"

lemma genuine_kept:
  assumes "nonces_genuine live robots s" and "nonces_kept live (rst s) (rst s')"
    and "\<And>u r. robots (pst s) u = Some r \<Longrightarrow> \<exists>r'. robots (pst s') u = Some r' \<and> rr_PublicKey r' = rr_PublicKey r
      \<and> rr_DeviceType r' = rr_DeviceType r"
  shows "nonces_genuine live robots s'"
  unfolding nonces_genuine_def
proof (intro allI impI)
  fix u k v t
  assume k: "k \<in> {udpNonceKey u, mqttNonceKey u}" and "live (rst s') k = Some (v, t)"
  then have "live (rst s) k = Some (v, t)"
    using assms(2) unfolding nonces_kept_def by fastforce
  with k assms(1) obtain robot b where r: "robots (pst s) u = Some robot"
    "v = authCache (hex_EncodeToString b) (rr_PublicKey robot) (rr_DeviceType robot)"
    unfolding nonces_genuine_def by blast
  then show "\<exists>robot b. robots (pst s') u = Some robot
      \<and> v = authCache (hex_EncodeToString b) (rr_PublicKey robot) (rr_DeviceType robot)"
    using assms(3)[OF r(1)] by metis
qed

lemma genuine_challenge:
  assumes R: "redis_service (rds S) live" and P: "postgres_service (pg S) robots"
    and g: "nonces_genuine live robots s" and nk: "nk \<in> {udpNonceKey u, mqttNonceKey u}"
  shows "nonces_genuine live robots (snd (challenge_nonce S nk rnd u s))"
proof -
  obtain x p where q: "GetRobotByUUID (pg S) u (pst s) = (x, p)" by (cases "GetRobotByUUID (pg S) u (pst s)")
  have p: "robots p = robots (pst s)" using query_frame(1)[OF P q] .
  then have same: "nonces_genuine live robots (s\<lparr>pst := p\<rparr>)"
    using g by (simp add: nonces_genuine_def)
  show ?thesis
  proof (cases "\<exists>robot b. x = Inr robot \<and> \<not> rr_IsBlacklisted robot \<and> GenerateNonce rnd = Inr b")
    case True
    then obtain robot n where r: "x = Inr robot" "\<not> rr_IsBlacklisted robot" "GenerateNonce rnd = Inr n" by blast
    then obtain b where b: "n = hex_EncodeToString b"
      by (auto simp: GenerateNonce_def split: option.splits if_splits)
    have u: "robots (pst s) u = Some robot"
      using postgres_service.select_ok[OF P] q r(1) by (simp add: GetRobotByUUID_def)
    let ?v = "authCache n (rr_PublicKey robot) (rr_DeviceType robot)"
    obtain y r' where w: "rdSet (rds S) nk ?v nonceTTL (rst s) = (y, r')" by (cases "rdSet (rds S) nk ?v nonceTTL (rst s)")
    have o: "live r' k = live (rst s) k" if "k \<noteq> nk" "live r' k \<noteq> None" for k
      using redis_service.set_frame[OF R w that] .
    have n: "live r' nk = None \<or> live r' nk = live (rst s) nk \<or> live r' nk = Some (?v, nonceTTL)"
    proof (cases y)
      case (Inl e)
      then show ?thesis
        using redis_service.set_err[OF R w[unfolded Inl]] by (auto dest: map_le_Some)
    next
      case (Inr z)
      then show ?thesis
        using redis_service.set_ok[OF R w[unfolded Inr]] by (metis map_le_Some fun_upd_same not_None_eq)
    qed
    have "nonces_genuine live robots (s\<lparr>pst := p, rst := r'\<rparr>)"
      unfolding nonces_genuine_def
    proof (intro allI impI)
      fix v k x t
      assume k: "k \<in> {udpNonceKey v, mqttNonceKey v}" and l: "live (rst (s\<lparr>pst := p, rst := r'\<rparr>)) k = Some (x, t)"
      have "(k = nk \<and> v = u \<and> x = ?v) \<or> live (rst s) k = Some (x, t)"
      proof (cases "k = nk")
        case True
        then have "v = u" using k nk by auto
        then show ?thesis using True n l by auto
      qed (use o[of k] l in simp)
      then show "\<exists>robot b. robots (pst (s\<lparr>pst := p, rst := r'\<rparr>)) v = Some robot
          \<and> x = authCache (hex_EncodeToString b) (rr_PublicKey robot) (rr_DeviceType robot)"
        using g k u b p unfolding nonces_genuine_def by auto
    qed
    then show ?thesis using q r w by (simp add: challenge_nonce_def)
  next
    case False
    then have "snd (challenge_nonce S nk rnd u s) = s\<lparr>pst := p\<rparr>"
      using q by (auto simp: challenge_nonce_def split: sum.splits)
    then show ?thesis using same by simp
  qed
qed

lemma step_genuine:
  assumes R: "redis_service (rds (sv T)) live" and P: "postgres_service (pg (sv T)) robots"
    and g: "nonces_genuine live robots (st (wd s))" and s: "sys_step C B net T ev s s'"
  shows "nonces_genuine live robots (st (wd s'))"
proof -
  have L: "server_redis T live" using R by (simp add: server_redis_def)
  have k: "nonces_kept live (rst (st (wd s))) (rst (st (wd s)))" by simp
  have "nonces_kept live (rst (st (wd s))) (rst (st (wd s')))
    \<or> (\<exists>nk u rnd. nk \<in> {udpNonceKey u, mqttNonceKey u} \<and> st (wd s') = snd (challenge_nonce (sv T) nk rnd u (st (wd s))))"
    using s
  proof cases
    case (tcp i c ip kk te e)
    then show ?thesis using server_redis.tcp_kept[OF L k, of te c ip e kk] by simp
  next
    case (udp te c ip data uos t w')
    from server_redis.udp_kept[OF L udp(3) k] show ?thesis
    proof
      assume "nonces_kept live (rst (st (wd s))) (rst (st w'))"
      then show ?thesis by (simp add: udp(2))
    next
      assume "\<exists>u. st w' = snd (challenge_nonce (sv T) (udpNonceKey u) (rndNonce te) u (st (wd s)))"
      then show ?thesis by (auto simp: udp(2))
    qed
  next
    case (mqtt te c ip topic payload mos mt w')
    from server_redis.mqtt_kept[OF L mqtt(3) k] show ?thesis
    proof
      assume "nonces_kept live (rst (st (wd s))) (rst (st w'))"
      then show ?thesis by (simp add: mqtt(2))
    next
      assume "\<exists>u. st w' = snd (challenge_nonce (sv T) (mqttNonceKey u) (rndNonce te) u (st (wd s)))"
      then show ?thesis by (auto simp: mqtt(2))
    qed
  next
    case (udp_task j c t te)
    then show ?thesis using server_redis.udp_task_kept[OF L k, of te c t] by simp
  next
    case (mqtt_task j c res te)
    then show ?thesis using server_redis.mqtt_task_kept[OF L k, of te c res] by simp
  next
    case (http rq hrt)
    then show ?thesis using server_redis.serve_kept[OF L k, of C B rq hrt "lim s"] by simp
  qed (auto dest: server_redis.script_kept[OF L _ k] server_redis.reverse_kept(1)[OF L k] server_redis.reverse_kept(2)[OF L k]
      server_redis.terminal_kept[OF L _ k])
  then show ?thesis
    using genuine_challenge[OF R P g] genuine_kept[OF g] step_registry[OF P s] by metis
qed

lemma run_genuine:
  assumes "redis_service (rds (sv T)) live" and "postgres_service (pg (sv T)) robots"
    and "sys_run C B net T evs s s'" and "nonces_genuine live robots (st (wd s))"
  shows "nonces_genuine live robots (st (wd s'))"
  using assms(3,4) by induction (auto intro: step_genuine[OF assms(1,2)])

section \<open>Property\<close>


lemma idle_nonces: "nonces_genuine map_of mem_robots (st idle_world)"
  by (simp add: nonces_genuine_def idle_services(4) sample_store_def)

definition sample_challenge :: "nat sys_event" where
  "sample_challenge = Mqtt (sample_env 7) 5 ''ip'' ''robomesh/auth/r1'' (auth_payload [])"

lemma sample_challenge_run:
  "\<exists>s v. sys_run C B net sample_tcp [sample_challenge] (sys_init idle_world) s
     \<and> map_of (rst (st (wd s))) (mqttNonceKey ''r1'') = Some (v, nonceTTL)"
proof -
  let ?v = "authCache (hex_EncodeToString ''n'') (rr_PublicKey sample_record) (rr_DeviceType sample_record)"
  have r: "route_topic ''robomesh/auth/r1'' = RAuth ''r1''"
    by (simp add: route_topic_def HasPrefix_def TrimPrefix_def TrimSuffix_def one_level_def Let_def)
  have d: "dec_AuthRequest (auth_payload []) = Some []" by (rule dec_auth_payload) simp
  have c: "challenge_nonce sample_server (mqttNonceKey ''r1'') (Some ''n'') ''r1'' sample_store
      = (Inr (hex_EncodeToString ''n''), sample_store\<lparr>rst := [(mqttNonceKey ''r1'', (?v, nonceTTL))]\<rparr>)"
    by (simp add: challenge_nonce_def sample_server_def sample_store_def GetRobotByUUID_def mem_postgres_def mem_redis_def
        sample_record_def GenerateNonce_def del: hex_EncodeToString.simps)
  have "\<exists>os. mqtt_OnPublished sample_tcp (sample_env 7) (5 :: nat) ''ip'' ''robomesh/auth/r1'' (auth_payload []) idle_world
      = (os, MDone, set_store (sample_store\<lparr>rst := [(mqttNonceKey ''r1'', (?v, nonceTTL))]\<rparr>) idle_world)"
    using r d c by (simp add: mqtt_OnPublished_def mqtt_handleAuth_def idle_services(4) sample_tcp_def sample_env_def
        del: hex_EncodeToString.simps)
  then obtain os where m: "mqtt_OnPublished sample_tcp (sample_env 7) (5 :: nat) ''ip'' ''robomesh/auth/r1'' (auth_payload [])
      (wd (sys_init idle_world)) = (os, MDone, set_store (sample_store\<lparr>rst := [(mqttNonceKey ''r1'', (?v, nonceTTL))]\<rparr>) idle_world)"
    by (auto simp: sys_init_def)
  show ?thesis
    using sys_run.snoc[OF sys_run.nil sys_step.mqtt[OF m]] unfolding sample_challenge_def by force
qed


end
