(* ===== verification/Provenance.thy ===== *)
theory Provenance
  imports Nonces
begin

text \<open>
  Where handlers come from: which steps of the system add to the handler table, and what a
  connection, a datagram, an MQTT message or a request that leads to a new handler rests on.
\<close>

section \<open>The handler table\<close>

text \<open>The robots with a handler.\<close>

definition hset :: "'c engine \<Rightarrow> string set" where
  "hset e = dom (map_of (handlers e))"

lemma hset_cong: "handlers e' = handlers e \<Longrightarrow> hset e' = hset e"
  by (simp add: hset_def)

lemma on_proc_handlers: "on_proc a f e = Some e' \<Longrightarrow> handlers e' = handlers e"
  by (auto simp: on_proc_def split: option.splits)

lemma TryStart_handlers: "TryStartSpawning u e = (b, e') \<Longrightarrow> handlers e' = handlers e"
  by (auto simp: TryStartSpawning_def split: if_splits)

lemma Finish_handlers [simp]: "handlers (FinishSpawning u e) = handlers e" "hset (FinishSpawning u e) = hset e"
  by (simp_all add: FinishSpawning_def hset_def)

lemma subscribe_handlers: "subscribe_proc i j topic ty a e = Some e' \<Longrightarrow> handlers e' = handlers e"
  by (auto simp: subscribe_proc_def Let_def split: prod.splits dest!: on_proc_handlers)

lemma spawn_hset:
  assumes "SpawnHandlerProcess S F pid i j u d ip sid c (r, e) = Some (x, r', e')"
  shows "hset e' \<subseteq> insert u (hset e)"
proof -
  have "handlers e2 = AList.update (hp_UUID hp) (fresh_proc e) (handlers e)" if "register_process i j hp e = Some (a, e2)" for hp a e2
    using that by (auto simp: register_process_def add_process_def Register_def setupBusSubscriptions_def Let_def
        split: option.splits dest!: on_proc_handlers subscribe_handlers)
  then have "hset e2 = insert (hp_UUID hp) (hset e)" if "register_process i j hp e = Some (a, e2)" for hp a e2
    using that by (simp add: hset_def)
  then show ?thesis
    using assms by (fastforce simp: SpawnHandlerProcess_def Let_def new_process_def split: sum.splits option.splits prod.splits)
qed

lemma stop_hset: "Stop reason a e = Some e' \<Longrightarrow> hset e' \<subseteq> hset e"
  by (auto simp: Stop_def stop_finish_def Unregister_def delete_conv hset_def
      split: option.splits prod.splits bool.splits if_splits)

lemma enter_handlers: "enter_session te T c res p k w = (os, k', w') \<Longrightarrow> handlers (en w') = handlers (en w)"
  by (auto simp: enter_session_def split: option.splits prod.splits bool.splits dest!: on_proc_handlers TryStart_handlers)

lemma spawn_session_hset:
  assumes "spawn_session te T c res p k w = (os, k', w')"
  shows "hset (en w') \<subseteq> insert (r_UUID res) (hset (en w))"
proof -
  let ?S = "SpawnHandlerProcess (sv T) (fs T) (osPid te) (fst (ids te)) (snd (ids te))
      (r_UUID res) (r_DeviceType res) (r_IP res) (r_SessionID res) (Some c) (rst (st w), en w)"
  show ?thesis
  proof (cases ?S)
    case None
    then have "hset (en w') = hset (en w)" using assms by (auto simp: spawn_session_def)
    then show ?thesis by blast
  next
    case (Some y)
    obtain x r e where y: "y = (x, r, e)" by (cases y)
    have "hset (en w') = hset e"
      using assms Some y by (cases x) (auto simp: spawn_session_def Let_def)
    then show ?thesis using spawn_hset[OF Some[unfolded y]] by simp
  qed
qed

lemma session_hset:
  assumes "session_line T te a res p l k w = (os, k', w')"
  shows "hset (en w') \<subseteq> hset (en w)"
proof -
  show ?thesis
  proof (cases "shutdown te")
    case True
    then show ?thesis
      using assms stop_hset[of "''server_shutdown''" a "en w"] by (cases "Stop ''server_shutdown'' a (en w)") (simp_all add: session_line_def, auto)
  next
    case False
    then have "handlers (en w') = handlers (en w)"
      using assms by (auto simp: session_line_def Let_def split: if_splits prod.splits option.splits dest!: on_proc_handlers)
    then show ?thesis by (simp add: hset_def)
  qed
qed

lemma tcp_hset:
  assumes s: "tcp_step T te c ip ev k w = (os, k', w')"
  shows "hset (en w') \<subseteq> hset (en w) \<union> {r_UUID res |res p. cst k = Spawning res p}"
proof -
  have hb: "handleHeartbeat T te ip m w = (os', w'') \<Longrightarrow> en w'' = en w" for m os' w''
    by (auto simp: handleHeartbeat_def split: if_splits option.splits prod.splits sum.splits)
  have sig: "auth_signature T te c ip u r n l k w = (os, k', w') \<Longrightarrow> handlers (en w') = handlers (en w)" for u r n l
    using enter_handlers by (fastforce simp: auth_signature_def split: prod.splits sum.splits)
  have rr: "reg_response T te c ip u d key oc k w = (os, k', w') \<Longrightarrow> handlers (en w') = handlers (en w)" for u d key oc
    using enter_handlers by (fastforce simp: reg_response_def Let_def split: if_splits prod.splits sum.splits)
  have line: "tcp_line T te c ip l k w = (os, k', w') \<Longrightarrow> (\<exists>a res p. session_line T te a res p l k w = (os, k', w'))
      \<or> handlers (en w') = handlers (en w)" for l
    using sig hb
    by (auto simp: tcp_line_def handleConnection_line_def handleAuthAndSession_def handleRegisterAndSession_def heartbeatLoop_line_def auth_uuid_def reg_uuid_def reg_type_def
        reg_key_def Let_def split: cstate.splits if_splits prod.splits sum.splits)
  have en: "tcp_end k w = (os, k', w') \<Longrightarrow> handlers (en w') = handlers (en w)"
    by (auto simp: tcp_end_def session_end_def split: cstate.splits option.splits dest!: on_proc_handlers)
  have wa: "wait_spawn te c d res p k w = (os, k', w') \<Longrightarrow> handlers (en w') = handlers (en w)" for d res p
    by (auto simp: wait_spawn_def split: option.splits if_splits dest!: on_proc_handlers)
  have "(\<exists>a res p l. session_line T te a res p l k w = (os, k', w')) \<or> handlers (en w') = handlers (en w)
      \<or> (\<exists>res p. cst k = Spawning res p \<and> spawn_session te T c res p k w = (os, k', w'))"
    using s line rr en wa
    by (auto simp: tcp_step_def split: if_splits option.splits cstate.splits tcp_event.splits)
  then consider (ses) a res p l where "session_line T te a res p l k w = (os, k', w')" | (same) "handlers (en w') = handlers (en w)"
    | (spawn) res p where "cst k = Spawning res p" "spawn_session te T c res p k w = (os, k', w')"
    by blast
  then show ?thesis
  proof cases
    case ses
    then show ?thesis using session_hset by blast
  next
    case same
    then show ?thesis using hset_cong by blast
  next
    case spawn
    then show ?thesis using spawn_session_hset[OF spawn(2)] by auto
  qed
qed

text \<open>A goroutine's task names the robot it spawns or waits for.\<close>

fun task_res :: "task \<Rightarrow> HandshakeResult option" where
  "task_res (USpawn res) = Some res"
| "task_res (UWait d res) = Some res"
| "task_res UDone = None"

lemma udp_attach_task:
  assumes "udp_attach T te c res w = (os, t, w')"
  shows "handlers (en w') = handlers (en w)" "task_res t = None \<or> task_res t = Some res"
  using assms by (auto simp: udp_attach_def split: option.splits prod.splits bool.splits
      dest!: on_proc_handlers TryStart_handlers)

lemma answer_nonce_uuid: "answer_nonce S nk rnd n ip u sig r = (Some (Inr res), r') \<Longrightarrow> r_UUID res = u"
  by (auto simp: answer_nonce_def split: prod.splits sum.splits option.splits if_splits list.splits)

text \<open>A packet leaves the handler table alone; a task it leaves behind rests on a verified nonce.\<close>

lemma udp_packet:
  assumes s: "handlePacket T te c ip data w = (os, t, w')"
  shows "handlers (en w') = handlers (en w)"
    and "task_res t = Some res \<Longrightarrow> \<exists>pkt r'. dec_UDPPacket data = Some pkt \<and> p_UUID pkt = r_UUID res
      \<and> answer_nonce (sv T) (udpNonceKey (r_UUID res)) (rndSession te) (nano te) ip (r_UUID res) (p_Signature pkt) (rst (st w))
        = (Some (Inr res), r')"
proof -
  have 1: "handlers (en w') = handlers (en w) \<and> (task_res t = Some res \<longrightarrow> (\<exists>r'. p_UUID pkt = r_UUID res
      \<and> answer_nonce (sv T) (udpNonceKey (r_UUID res)) (rndSession te) (nano te) ip (r_UUID res) (p_Signature pkt) (rst (st w))
        = (Some (Inr res), r')))" if "handleAuth T te c ip pkt w = (os, t, w')" for pkt res
  proof -
    have "\<not> udp_challenge T te (p_UUID pkt) w = (os, t, w') \<or> en w' = en w \<and> t = UDone"
      by (auto simp: udp_challenge_def auth_err_def split: prod.splits sum.splits)
    moreover have ?thesis if v: "udp_verify T te c ip (p_UUID pkt) (p_Signature pkt) w = (os, t, w')"
    proof (cases "answer_nonce (sv T) (udpNonceKey (p_UUID pkt)) (rndSession te) (nano te) ip (p_UUID pkt) (p_Signature pkt) (rst (st w))")
      case (Pair x r)
      show ?thesis
      proof (cases "\<exists>y. x = Some (Inr y)")
        case True
        then obtain y where y: "x = Some (Inr y)" by blast
        have "udp_attach T te c y (set_rst r w) = (os, t, w')" using v Pair y by (simp add: udp_verify_def)
        then show ?thesis
          using udp_attach_task[of T te c y "set_rst r w" os t w'] Pair y answer_nonce_uuid[of "sv T"] by auto
      next
        case False
        then show ?thesis using v Pair
          by (auto simp: udp_verify_def auth_err_def split: option.splits sum.splits)
      qed
    qed
    ultimately show ?thesis using that by (auto simp: handleAuth_def auth_err_def split: if_splits)
  qed
  have 2: "en w' = en w \<and> t = UDone" if "udp_handleHeartbeat T te ip pkt w = (os, t, w')" for pkt
    using that by (auto simp: udp_handleHeartbeat_def hb_err_def split: if_splits prod.splits sum.splits)
  have 3: "handlers (en w') = handlers (en w) \<and> t = UDone" if "handleMessage T te pkt w = (os, t, w')" for pkt
    using that by (auto simp: handleMessage_def msg_err_def split: if_splits sum.splits option.splits dest!: on_proc_handlers)
  show "handlers (en w') = handlers (en w)"
    using s 1 2 3 by (auto simp: handlePacket_def split: option.splits if_splits)
  assume r: "task_res t = Some res"
  have "\<exists>pkt. dec_UDPPacket data = Some pkt \<and> handleAuth T te c ip pkt w = (os, t, w')"
    using s r by (auto simp: handlePacket_def split: option.splits if_splits dest: 2 3)
  then show "\<exists>pkt r'. dec_UDPPacket data = Some pkt \<and> p_UUID pkt = r_UUID res
      \<and> answer_nonce (sv T) (udpNonceKey (r_UUID res)) (rndSession te) (nano te) ip (r_UUID res) (p_Signature pkt) (rst (st w))
        = (Some (Inr res), r')"
    using 1 r by blast
qed

lemma udp_task_hset:
  assumes "udp_resume T te c t w = (os, t', w')"
  shows "hset (en w') \<subseteq> hset (en w) \<union> {r_UUID res |res. task_res t = Some res}" and "task_res t' = None \<or> task_res t' = task_res t"
proof -
  have s: "hset (en w') \<subseteq> insert (r_UUID res) (hset (en w)) \<and> t' = UDone" if u: "udp_spawn T te c res w = (os, t', w')" for res
  proof (cases "SpawnHandlerProcess (sv T) (fs T) (osPid te) (fst (ids te)) (snd (ids te))
      (r_UUID res) (r_DeviceType res) (r_IP res) (r_SessionID res) (Some c) (rst (st w), en w)")
    case None
    then have "hset (en w') = hset (en w) \<and> t' = UDone" using u by (auto simp: udp_spawn_def)
    then show ?thesis by blast
  next
    case (Some y)
    obtain x r e where y: "y = (x, r, e)" by (cases y)
    have "hset (en w') = hset e \<and> t' = UDone"
      using u Some y by (cases x) (auto simp: udp_spawn_def drop_session_def auth_err_def)
    then show ?thesis using spawn_hset[OF Some[unfolded y]] by simp
  qed
  have w: "handlers (en w') = handlers (en w) \<and> (t' = UDone \<or> t' = UWait d res)" if "udp_wait T te c d res w = (os, t', w')" for d res
    using that by (auto simp: udp_wait_def drop_session_def auth_err_def split: option.splits if_splits dest!: on_proc_handlers)
  show "hset (en w') \<subseteq> hset (en w) \<union> {r_UUID res |res. task_res t = Some res}"
  proof (cases t)
    case (USpawn res)
    then show ?thesis using assms s[of res] by auto
  next
    case (UWait d res)
    then have "hset (en w') = hset (en w)" using assms w[of d res] by (simp add: hset_def)
    then show ?thesis by blast
  qed (use assms in auto)
  show "task_res t' = None \<or> task_res t' = task_res t"
    using assms by (cases t) (auto dest: s w)
qed

lemma mqtt_attach_task:
  assumes "mqtt_attach c res w = (os, t, w')"
  shows "handlers (en w') = handlers (en w)" "t = MDone \<or> t = MSpawn res"
  using assms by (auto simp: mqtt_attach_def split: option.splits prod.splits bool.splits
      dest!: on_proc_handlers TryStart_handlers)

lemma mqtt_auth_task:
  assumes "mqtt_handleAuth T te c ip u payload w = (os, t, w')"
  shows "handlers (en w') = handlers (en w)"
    and "t = MSpawn res \<Longrightarrow> u = r_UUID res \<and> (\<exists>sig r'. dec_AuthRequest payload = Some sig
      \<and> answer_nonce (sv T) (mqttNonceKey u) (rndSession te) (nano te) ip u sig (rst (st w)) = (Some (Inr res), r'))"
proof -
  have "(handlers (en w') = handlers (en w) \<and> t = MDone)
    \<or> (\<exists>sig x r'. dec_AuthRequest payload = Some sig \<and> mqtt_attach c x (set_rst r' w) = (os, t, w')
      \<and> answer_nonce (sv T) (mqttNonceKey u) (rndSession te) (nano te) ip u sig (rst (st w)) = (Some (Inr x), r'))"
    using assms by (auto simp: mqtt_handleAuth_def mqtt_err_def split: if_splits prod.splits sum.splits option.splits)
  then consider "handlers (en w') = handlers (en w)" "t = MDone"
    | sig x r' where "dec_AuthRequest payload = Some sig" "mqtt_attach c x (set_rst r' w) = (os, t, w')"
      "answer_nonce (sv T) (mqttNonceKey u) (rndSession te) (nano te) ip u sig (rst (st w)) = (Some (Inr x), r')"
    by blast
  then have "handlers (en w') = handlers (en w) \<and> (t = MSpawn res \<longrightarrow> u = r_UUID res \<and> (\<exists>sig r'. dec_AuthRequest payload = Some sig
      \<and> answer_nonce (sv T) (mqttNonceKey u) (rndSession te) (nano te) ip u sig (rst (st w)) = (Some (Inr res), r')))" for res
  proof cases
    case (2 sig x r')
    have a: "handlers (en w') = handlers (en w)" "t = MDone \<or> t = MSpawn x"
      using mqtt_attach_task[OF 2(2)] by auto
    show ?thesis using a 2(1,3) answer_nonce_uuid[OF 2(3)] by auto
  qed auto
  then show "handlers (en w') = handlers (en w)"
    and "t = MSpawn res \<Longrightarrow> u = r_UUID res \<and> (\<exists>sig r'. dec_AuthRequest payload = Some sig
      \<and> answer_nonce (sv T) (mqttNonceKey u) (rndSession te) (nano te) ip u sig (rst (st w)) = (Some (Inr res), r'))"
    by blast+
qed

lemma mqtt_packet:
  assumes s: "mqtt_OnPublished T te c ip topic payload w = (os, t, w')"
  shows "handlers (en w') = handlers (en w)"
    and "t = MSpawn res \<Longrightarrow> route_topic topic = RAuth (r_UUID res) \<and> (\<exists>sig r'. dec_AuthRequest payload = Some sig
      \<and> answer_nonce (sv T) (mqttNonceKey (r_UUID res)) (rndSession te) (nano te) ip (r_UUID res) sig (rst (st w)) = (Some (Inr res), r'))"
proof -
  have 2: "mqtt_handleHeartbeat T te ip u payload w = (os', w'') \<Longrightarrow> en w'' = en w" for u os' w''
    by (auto simp: mqtt_handleHeartbeat_def split: if_splits prod.splits sum.splits option.splits)
  have 3: "handlers (en (mqtt_handleMessage T u payload w)) = handlers (en w)" for u
    by (auto simp: mqtt_handleMessage_def split: prod.split sum.split option.split dest!: on_proc_handlers)
  show "handlers (en w') = handlers (en w)"
    using s 3 by (auto simp: mqtt_OnPublished_def split: MQTT_Server.route.splits prod.splits dest: 2 mqtt_auth_task(1))
  show "t = MSpawn res \<Longrightarrow> route_topic topic = RAuth (r_UUID res) \<and> (\<exists>sig r'. dec_AuthRequest payload = Some sig
      \<and> answer_nonce (sv T) (mqttNonceKey (r_UUID res)) (rndSession te) (nano te) ip (r_UUID res) sig (rst (st w)) = (Some (Inr res), r'))"
    using s by (auto simp: mqtt_OnPublished_def split: MQTT_Server.route.splits prod.splits dest: mqtt_auth_task(2))
qed

lemma mqtt_task_hset:
  assumes "mqtt_spawn T te c res w = (os, t, w')"
  shows "hset (en w') \<subseteq> insert (r_UUID res) (hset (en w))" and "t = MDone"
proof -
  have "(en w' = en w \<or> (\<exists>x r e. SpawnHandlerProcess (sv T) (fs T) (osPid te) (fst (ids te)) (snd (ids te))
      (r_UUID res) (r_DeviceType res) (r_IP res) (r_SessionID res) (Some c) (rst (st w), en w) = Some (x, r, e)
      \<and> en w' = FinishSpawning (r_UUID res) e)) \<and> t = MDone"
    using assms by (auto simp: mqtt_spawn_def split: option.splits prod.splits)
  then show "hset (en w') \<subseteq> insert (r_UUID res) (hset (en w))" and "t = MDone"
    using spawn_hset by (auto dest!: spawn_hset)
qed

text \<open>Of the endpoints only one adds to the handler table.\<close>

lemma handle_hset:
  assumes "handle C B T rq ep w = (evs, ans, w')"
  shows "hset (en w') \<subseteq> hset (en w) \<union> {u. ep = Handler_Start \<and> u = h_param rq}"
proof (cases ep)
  case Handler_Start
  have "hset (en v') \<subseteq> insert (h_param rq) (hset (en v))" if "start_marked T rq v = (x, v')" for x v v'
    using start_marked_tables[OF that] by (auto simp: hset_def)
  moreover have "hset (e\<lparr>spawning := x\<rparr>) = hset e" for e :: "'c engine" and x
    by (simp add: hset_def)
  ultimately show ?thesis
    using assms Handler_Start
    by (fastforce simp: startHandler_def TryStartSpawning_def split: if_splits prod.splits)
next
  case Handler_Kill
  then show ?thesis
    using assms by (auto simp: killHandler_def Kill_def split: option.splits prod.splits sum.splits dest!: stop_hset)
next
  case Robot_Message
  then have "handlers (en w') = handlers (en w)"
    using assms by (auto simp: sendRobotMessage_def split: option.splits if_splits dest!: on_proc_handlers)
  then show ?thesis by (simp add: hset_def)
next
  case Ephemeral_Post
  have r: "registered T u v = (b, v') \<Longrightarrow> en v' = en v" for u v b and v' :: "('a, 'b, 'c) world"
    by (auto simp: registered_def split: prod.splits sum.splits if_splits)
  have "en w' = en w"
    using assms Ephemeral_Post
    by (auto simp: createEphemeralSession_def Let_def split: option.splits prod.splits sum.splits if_splits bool.splits dest!: r)
  then show ?thesis by simp
qed (use assms in \<open>auto simp: on_rst_def getActiveRobots_def getRobotDetail_def getRobotRecord_def
        getAllRegisteredRobots_def getRobotStatus_def deleteEphemeralSession_def respondToRegistration_def
        getPendingRegistrations_def listHandlers_def listHandlerTypes_def getHandlerStatus_def
        http_handleHeartbeat_def provisionRobot_def blacklistRobot_def
        split: prod.splits sum.splits option.splits if_splits\<close>)

lemma serve_hset:
  assumes "serve C B T rq hrt (L, w) = (evs, ans, L', w')"
  shows "hset (en w') \<subseteq> hset (en w)
    \<union> {u. hrt = Rest Handler_Start \<and> u = h_param rq \<and> fst (validateSessionFull T rq (rst (st w))) \<noteq> None}"
proof -
  obtain x r where v: "validateSessionFull T rq (rst (st w)) = (x, r)"
    by (cases "validateSessionFull T rq (rst (st w))")
  have "en w' = en w \<or> (\<exists>ep v. hrt = Rest ep \<and> (protected ep \<longrightarrow> x \<noteq> None) \<and> en v = en w \<and> w' = snd (snd (handle C B T rq ep v)))"
  proof (cases hrt)
    case (Rest ep)
    consider "en w' = en w" | "protected ep" "x \<noteq> None" "w' = snd (snd (handle C B T rq ep (set_rst r w)))"
      | "\<not> protected ep" "w' = snd (snd (handle C B T rq ep w))"
      using assms v Rest
      by (cases x) (auto simp: serve_def SessionValidationMiddleware_def split: prod.splits if_splits)
    then show ?thesis
    proof cases
      case 2
      then show ?thesis using Rest by (intro disjI2 exI[of _ ep] exI[of _ "set_rst r w"]) simp
    qed (use Rest in auto)
  qed (use assms in \<open>auto simp: serve_def split: if_splits prod.splits\<close>)
  then consider "en w' = en w" | ep v' where "hrt = Rest ep" "protected ep \<longrightarrow> x \<noteq> None" "en v' = en w"
    "w' = snd (snd (handle C B T rq ep v'))" by blast
  then show ?thesis
  proof cases
    case (2 ep v')
    have "hset (en w') \<subseteq> hset (en w) \<union> {u. ep = Handler_Start \<and> u = h_param rq}"
      using handle_hset[of C B T rq ep v'] 2(3,4) by (metis prod.collapse)
    then show ?thesis using 2(1,2) v by (auto simp: protected_def)
  qed auto
qed

lemma response_handlers: "sendResponse a i d e w = Some (os, w') \<Longrightarrow> handlers (en w') = handlers (en w)"
  by (auto simp: sendResponse_def split: option.splits dest!: on_proc_handlers)

lemma script_handlers:
  assumes "listenStdout_line C S net idp a line w = Some (os, w')"
  shows "handlers (en w') = handlers (en w)"
proof -
  have d: "handleDatabaseRequest C S a u env w = Some (os, w') \<Longrightarrow> handlers (en w') = handlers (en w)" for u env
    unfolding handleDatabaseRequest_def store_data_def get_data_def delete_data_def robots_reply_def Let_def
    by (auto split: if_splits json.splits prod.splits sum.splits option.splits dest!: response_handlers)
  have r: "handleRobotRequest net a hp env w = Some (os, w') \<Longrightarrow> handlers (en w') = handlers (en w)" for hp env
    by (auto simp: handleRobotRequest_def with_out_Some split: prod.splits sum.splits dest!: response_handlers)
  have b: "handleEventBusRequest a env w = Some (os, w') \<Longrightarrow> handlers (en w') = handlers (en w)" for env
    by (auto simp: handleEventBusRequest_def Let_def with_out_Some dest!: response_handlers)
  have f: "forward_heartbeats idp a en hp e = Some (x, e') \<Longrightarrow> handlers e' = handlers e" for en hp e x e'
    by (auto simp: forward_heartbeats_def enableHeartbeatForwarding_def split: if_splits option.splits
        dest!: on_proc_handlers subscribe_handlers)
  have c: "handleConfigRequest idp a hp env w = Some (os, w') \<Longrightarrow> handlers (en w') = handlers (en w)" for hp env
    by (auto simp: handleConfigRequest_def split: if_splits json.splits option.splits prod.splits
        dest!: response_handlers subscribe_handlers f)
  have n: "handleConnectRobotRequest S a hp env w = Some (os, w') \<Longrightarrow> handlers (en w') = handlers (en w)" for hp env
    by (auto simp: handleConnectRobotRequest_def Let_def split: if_splits option.splits prod.splits dest!: response_handlers)
  have "routeEnvelope C S net idp a env w = Some (os, w') \<Longrightarrow> handlers (en w') = handlers (en w)" for env
    by (auto simp: routeEnvelope_def split: option.splits if_splits dest!: response_handlers d r b c n)
  then show ?thesis
    using assms by (auto simp: listenStdout_line_def split: option.splits)
qed

lemma attach_handlers: "attach_reverse a i c w = Some (b, w') \<Longrightarrow> handlers (en w') = handlers (en w)"
  by (auto simp: attach_reverse_def split: option.splits if_splits dest!: response_handlers on_proc_handlers)

lemma bridge_handlers: "bridge a ls e = Some e' \<Longrightarrow> handlers e' = handlers e"
  by (induction ls arbitrary: e) (auto split: option.splits dest!: on_proc_handlers)

lemma reverse_handlers:
  "reverseConnectTCP S a i c io ls w = Some w' \<Longrightarrow> handlers (en w') = handlers (en w)"
  "reverseConnectUDP a i c re de ls w = Some w' \<Longrightarrow> handlers (en w') = handlers (en w)"
  by (auto simp: reverseConnectTCP_def reverseConnectUDP_def detach_reverse_def
      split: option.splits prod.splits sum.splits bool.splits if_splits
      dest!: response_handlers attach_handlers bridge_handlers on_proc_handlers)

section \<open>Who starts a handler\<close>

text \<open>The events of one connection.\<close>

definition conn_events :: "nat \<Rightarrow> 'c sys_event list \<Rightarrow> tcp_event list" where
  "conn_events i evs = List.map_filter (\<lambda>e. case e of Tcp j te ev \<Rightarrow> if j = i then Some ev else None | _ \<Rightarrow> None) evs"

lemma conn_events_simps [simp]:
  "conn_events i [] = []" "conn_events i (evs @ evs') = conn_events i evs @ conn_events i evs'"
  "conn_events i [Tcp j te ev] = (if j = i then [ev] else [])"
  "conn_events i [Accept j c ip] = []"
  by (simp_all add: conn_events_def map_filter_simps map_filter_def)

lemma conn_events_other: "(\<And>j te e. ev \<noteq> Tcp j te e) \<Longrightarrow> conn_events i [ev] = []"
  by (cases ev) (auto simp: conn_events_def map_filter_simps)

text \<open>The public key as the UDP and MQTT servers read it back: up to the character that separates
  it from the next field.\<close>

definition key_field :: "string \<Rightarrow> string" where
  "key_field key = takeWhile (\<lambda>c. c \<noteq> CHR ''|'') key"

lemma key_field_id: "CHR ''|'' \<notin> set key \<Longrightarrow> key_field key = key"
  by (auto simp: key_field_def takeWhile_eq_all_conv)

lemma authCache_fields:
  assumes "authCache n k d = authCache n' k' d'" "CHR ''|'' \<notin> set n" "CHR ''|'' \<notin> set n'" "CHR ''|'' \<notin> set k"
  shows "n = n'" "k = key_field k'"
proof -
  have t: "takeWhile (\<lambda>c. c \<noteq> CHR ''|'') (xs @ CHR ''|'' # ys) = takeWhile (\<lambda>c. c \<noteq> CHR ''|'') xs" for xs ys
    by (induction xs) auto
  have id: "takeWhile (\<lambda>c. c \<noteq> CHR ''|'') xs = xs" if "CHR ''|'' \<notin> set xs" for xs
    using that by (auto simp: takeWhile_eq_all_conv)
  have e: "n @ CHR ''|'' # k @ CHR ''|'' # d = n' @ CHR ''|'' # k' @ CHR ''|'' # d'"
    using assms(1) by (simp add: authCache_def)
  show n: "n = n'"
    using arg_cong[OF e, of "takeWhile (\<lambda>c. c \<noteq> CHR ''|'')"] by (simp only: t id[OF assms(2)] id[OF assms(3)])
  have "k @ CHR ''|'' # d = k' @ CHR ''|'' # d'" using e n by simp
  from arg_cong[OF this, of "takeWhile (\<lambda>c. c \<noteq> CHR ''|'')"] show "k = key_field k'"
    by (simp only: t id[OF assms(4)] key_field_def)
qed

text \<open>Redis holds a nonce for \<open>u\<close>, and the signature is one of it under the key of the registry.\<close>

definition nonce_answered ::
  "('r, 'p) server \<Rightarrow> ('r \<Rightarrow> string \<Rightarrow> (string \<times> int) option) \<Rightarrow> ('p \<Rightarrow> string \<Rightarrow> RobotRecord option)
   \<Rightarrow> ('r, 'p) store \<Rightarrow> string \<Rightarrow> string \<Rightarrow> string \<Rightarrow> bool" where
  "nonce_answered S live robots s nk u signature \<longleftrightarrow>
     (\<exists>robot nonce ttl. robots (pst s) u = Some robot
        \<and> live (rst s) nk = Some (authCache nonce (rr_PublicKey robot) (rr_DeviceType robot), ttl)
        \<and> VerifyRobotSignature (crypto S) (key_field (rr_PublicKey robot)) nonce signature = Inr ())"

text \<open>The robot on connection \<open>i\<close> was sent a nonce and sent back a signature of it under the key
  that the registry holds for it in state \<open>s\<close>.\<close>

definition key_proved ::
  "('r, 'p) tcp_server \<Rightarrow> ('p \<Rightarrow> string \<Rightarrow> RobotRecord option) \<Rightarrow> 'c sys_event list \<Rightarrow> ('r, 'p, 'c) sys \<Rightarrow> nat \<Rightarrow> string \<Rightarrow> bool" where
  "key_proved T robots evs s i u \<longleftrightarrow>
     (\<exists>r nonce b l. robots (pst (st (wd s))) u = Some r \<and> Wr (ln (''NONCE '' @ nonce)) \<in> set (sent s i)
        \<and> Line b l \<in> set (conn_events i evs)
        \<and> VerifyRobotSignature (crypto (sv T)) (rr_PublicKey r) nonce (TrimSpace l) = Inr ())"

text \<open>The event \<open>ev\<close>, occurring after \<open>evs\<close> in the state \<open>s\<close>, asks for the handler of \<open>u\<close> with
  the right to do so.\<close>

fun asks_for :: "('r, 'p) tcp_server \<Rightarrow> ('r \<Rightarrow> string \<Rightarrow> (string \<times> int) option) \<Rightarrow> ('p \<Rightarrow> string \<Rightarrow> RobotRecord option)
    \<Rightarrow> 'c sys_event list \<Rightarrow> ('r, 'p, 'c) sys \<Rightarrow> 'c sys_event \<Rightarrow> string \<Rightarrow> bool" where
  "asks_for T live robots evs s (Tcp i te ev) u \<longleftrightarrow>
     (\<exists>c ip k res p. conns s i = Some (c, ip, k) \<and> cst k = Spawning res p \<and> r_UUID res = u
        \<and> (key_proved T robots evs s i u \<or> admitted (conn_events i evs) (sent s i) ip res))"
| "asks_for T live robots evs s (Udp te c ip data) u \<longleftrightarrow>
     (\<exists>pkt. dec_UDPPacket data = Some pkt \<and> p_UUID pkt = u
        \<and> nonce_answered (sv T) live robots (st (wd s)) (udpNonceKey u) u (p_Signature pkt))"
| "asks_for T live robots evs s (Mqtt te c ip topic payload) u \<longleftrightarrow>
     route_topic topic = RAuth u
     \<and> (\<exists>sig. dec_AuthRequest payload = Some sig \<and> nonce_answered (sv T) live robots (st (wd s)) (mqttNonceKey u) u sig)"
| "asks_for T live robots evs s (Http rq hrt) u \<longleftrightarrow>
     hrt = Rest Handler_Start \<and> h_param rq = u \<and> fst (validateSessionFull T rq (rst (st (wd s)))) \<noteq> None"
| "asks_for T live robots evs s _ u \<longleftrightarrow> False"

definition caused ::
  "codec \<Rightarrow> bcrypt \<Rightarrow> ('c \<Rightarrow> string \<Rightarrow> string option) \<Rightarrow> ('r, 'p) tcp_server \<Rightarrow> ('r \<Rightarrow> string \<Rightarrow> (string \<times> int) option)
   \<Rightarrow> ('p \<Rightarrow> string \<Rightarrow> RobotRecord option) \<Rightarrow> 'c sys_event list \<Rightarrow> ('r, 'p, 'c) sys \<Rightarrow> string \<Rightarrow> bool" where
  "caused C B net T live robots evs s0 u \<longleftrightarrow>
     (\<exists>evs1 ev evs2 s. evs = evs1 @ ev # evs2 \<and> sys_run C B net T evs1 s0 s \<and> asks_for T live robots evs1 s ev u)"

lemma caused_mono: "caused C B net T live robots evs s0 u \<Longrightarrow> caused C B net T live robots (evs @ [ev]) s0 u"
  unfolding caused_def by (metis append.assoc append_Cons)

lemma caused_last: "sys_run C B net T evs s0 s \<Longrightarrow> asks_for T live robots evs s ev u \<Longrightarrow> caused C B net T live robots (evs @ [ev]) s0 u"
  unfolding caused_def by blast

lemma answered:
  assumes R: "redis_service (rds S) live" and g: "nonces_genuine live robots s" and nk: "nk \<in> {udpNonceKey u, mqttNonceKey u}"
    and a: "answer_nonce S nk rnd n ip u sig (rst s) = (Some (Inr res), r')"
  shows "nonce_answered S live robots s nk u sig"
proof -
  obtain nonce key dt r1 where k: "rdGetDel (rds S) nk (rst s) = (Inr (authCache nonce key dt), r1)"
    "CHR ''|'' \<notin> set nonce" "CHR ''|'' \<notin> set key" "VerifyRobotSignature (crypto S) key nonce sig = Inr ()"
    using answer_nonce_ok[OF a] by blast
  obtain ttl where l: "live (rst s) nk = Some (authCache nonce key dt, ttl)"
    using redis_service.getdel_ok[OF R k(1)] by blast
  then obtain robot b where r: "robots (pst s) u = Some robot"
    "authCache nonce key dt = authCache (hex_EncodeToString b) (rr_PublicKey robot) (rr_DeviceType robot)"
    using g nk unfolding nonces_genuine_def by blast
  show ?thesis
    unfolding nonce_answered_def
    using r l k(4) authCache_fields[OF r(2) k(2) hex_no_bar k(3)] by metis
qed

text \<open>The connections of the system are the connections of the TCP model, and the keys they found
  in the registry are still there.\<close>

definition keys_kept :: "('p \<Rightarrow> string \<Rightarrow> RobotRecord option) \<Rightarrow> 'p \<Rightarrow> 'p \<Rightarrow> bool" where
  "keys_kept robots p p' \<longleftrightarrow>
     (\<forall>u r. robots p u = Some r \<longrightarrow> (\<exists>r'. robots p' u = Some r' \<and> rr_PublicKey r' = rr_PublicKey r))"

lemma keys_kept_refl: "keys_kept robots p p"
  by (simp add: keys_kept_def)

lemma keys_kept_trans: "keys_kept robots p q \<Longrightarrow> keys_kept robots q r \<Longrightarrow> keys_kept robots p r"
  unfolding keys_kept_def by metis

lemma step_keys_kept:
  "postgres_service (pg (sv T)) robots \<Longrightarrow> sys_step C B net T ev s s' \<Longrightarrow> keys_kept robots (pst (st (wd s))) (pst (st (wd s')))"
  using step_registry unfolding keys_kept_def by metis

definition conns_inv :: "('r, 'p) tcp_server \<Rightarrow> ('p \<Rightarrow> string \<Rightarrow> RobotRecord option) \<Rightarrow> 'c sys_event list \<Rightarrow> ('r, 'p, 'c) sys \<Rightarrow> bool" where
  "conns_inv T robots evs s \<longleftrightarrow>
     (\<forall>i. conns s i = None \<longrightarrow> conn_events i evs = [] \<and> sent s i = [])
     \<and> (\<forall>i c ip k. conns s i = Some (c, ip, k) \<longrightarrow>
          Accept i c ip \<in> set evs \<and> (\<exists>ps. conn_reach T c ip ps (conn_events i evs) (sent s i) k
            \<and> (\<forall>p \<in> set ps. keys_kept robots p (pst (st (wd s))))))"

lemma conns_inv_same:
  assumes "conns_inv T robots evs s" "conns s' = conns s" "sent s' = sent s" "\<And>i. conn_events i [ev] = []"
    and "keys_kept robots (pst (st (wd s))) (pst (st (wd s')))"
  shows "conns_inv T robots (evs @ [ev]) s'"
  using assms keys_kept_trans[OF _ assms(5)] unfolding conns_inv_def by simp meson

lemma conns_inv_step:
  assumes P: "postgres_service (pg (sv T)) robots" and i: "conns_inv T robots evs s" and s: "sys_step C B net T ev s s'"
  shows "conns_inv T robots (evs @ [ev]) s'"
proof -
  note K = step_keys_kept[OF P s] and KT = keys_kept_trans[OF _ step_keys_kept[OF P s]]
  show ?thesis
    using s
  proof cases
    case (accept i c ip)
    then have "conn_events i evs = []" "sent s i = []" using \<open>conns_inv T robots evs s\<close> unfolding conns_inv_def by blast+
    then show ?thesis
      using \<open>conns_inv T robots evs s\<close> accept(1,3) conn_reach.start[of T c ip]
      unfolding conns_inv_def accept(2) by (auto intro: exI[of _ "[]"])
  next
    case (tcp i c ip k te e os k' w')
    then obtain ps where r: "Accept i c ip \<in> set evs" "conn_reach T c ip ps (conn_events i evs) (sent s i) k"
      "\<forall>p \<in> set ps. keys_kept robots p (pst (st (wd s)))"
      using \<open>conns_inv T robots evs s\<close> unfolding conns_inv_def by blast
    have "conn_reach T c ip (ps @ [pst (st (wd s))]) (conn_events i evs @ [e]) (sent s i @ os) k'"
      using conn_reach.step[OF r(2) tcp(4)] .
    moreover have "\<forall>p \<in> set (ps @ [pst (st (wd s))]). keys_kept robots p (pst (st (wd s')))"
      using r(3) K KT by auto
    ultimately have "\<exists>ps. conn_reach T c ip ps (conn_events i (evs @ [ev])) (sent s' i) k'
        \<and> (\<forall>p \<in> set ps. keys_kept robots p (pst (st (wd s'))))"
      unfolding tcp(1,2) by (intro exI[of _ "ps @ [pst (st (wd s))]"]) simp
    then show ?thesis
      using \<open>conns_inv T robots evs s\<close> r(1) KT unfolding conns_inv_def tcp(1,2) by simp meson
  qed (rule conns_inv_same[OF i _ _ _ K]; simp add: conn_events_other)+
qed

text \<open>What a connection in a session rests on.\<close>

lemma session_grounds:
  assumes P: "postgres_service (pg (sv T)) robots" and i: "conns_inv T robots evs s"
    and k: "conns s i = Some (c, ip, k)" "session_of (cst k) = Some res"
  shows "Accept i c ip \<in> set evs"
    and "key_proved T robots evs s i (r_UUID res) \<or> admitted (conn_events i evs) (sent s i) ip res"
proof -
  obtain ps where r: "Accept i c ip \<in> set evs" "conn_reach T c ip ps (conn_events i evs) (sent s i) k"
    "\<forall>p \<in> set ps. keys_kept robots p (pst (st (wd s)))"
    using i k(1) unfolding conns_inv_def by blast
  show "Accept i c ip \<in> set evs" by (rule r(1))
  have "authenticated T ps (conn_events i evs) (sent s i) res \<or> admitted (conn_events i evs) (sent s i) ip res"
    using conn_reach_inv[OF r(2)] k(2) by (cases "cst k") (auto simp: conn_inv_def)
  moreover have "key_proved T robots evs s i (r_UUID res)" if "authenticated T ps (conn_events i evs) (sent s i) res"
    using that r(3) postgres_service.select_ok[OF P]
    unfolding authenticated_def challenged_def key_proved_def keys_kept_def GetRobotByUUID_def by metis
  ultimately show "key_proved T robots evs s i (r_UUID res) \<or> admitted (conn_events i evs) (sent s i) ip res"
    by blast
qed

text \<open>What the goroutines and the table rest on.\<close>

definition prov_inv ::
  "(string \<Rightarrow> bool) \<Rightarrow> ('r, 'p, 'c) sys \<Rightarrow> ('r, 'p, 'c) sys \<Rightarrow> bool" where
  "prov_inv P s0 s \<longleftrightarrow>
     (\<forall>c t res. (c, t) \<in> set (utasks s) \<longrightarrow> task_res t = Some res \<longrightarrow> P (r_UUID res))
     \<and> (\<forall>c res. (c, MSpawn res) \<in> set (mtasks s) \<longrightarrow> P (r_UUID res))
     \<and> (\<forall>u \<in> hset (en (wd s)) - hset (en (wd s0)). P u)"

lemma prov_inv_mono: "prov_inv P s0 s \<Longrightarrow> (\<And>u. P u \<Longrightarrow> Q u) \<Longrightarrow> prov_inv Q s0 s"
  unfolding prov_inv_def by blast

lemma prov_inv_same:
  assumes "prov_inv P s0 s" "utasks s' = utasks s" "mtasks s' = mtasks s" "hset (en (wd s')) \<subseteq> hset (en (wd s)) \<union> {u. P u}"
  shows "prov_inv P s0 s'"
  using assms unfolding prov_inv_def by auto

lemma prov_inv_step:
  assumes R: "redis_service (rds (sv T)) live" and P: "postgres_service (pg (sv T)) robots"
    and g: "nonces_genuine live robots (st (wd s))" and c: "conns_inv T robots evs s" and i: "prov_inv P s0 s" and s: "sys_step C B net T ev s s'"
    and a: "\<And>u. asks_for T live robots evs s ev u \<Longrightarrow> P u"
  shows "prov_inv P s0 s'"
  using s
proof cases
  case (tcp i c ip k te e os k' w')
  have "P (r_UUID res)" if "cst k = Spawning res p" for res p
    by (rule a) (use session_grounds(2)[OF P c tcp(3), of res] tcp(3) that in \<open>auto simp: tcp(1)\<close>)
  then have "hset (en w') \<subseteq> hset (en (wd s)) \<union> {u. P u}"
    using tcp_hset[OF tcp(4)] by blast
  then show ?thesis by (intro prov_inv_same[OF i]) (simp_all add: tcp(2))
next
  case (udp te c ip data uos t w')
  have "P (r_UUID res)" if r: "task_res t = Some res" for res
    using udp_packet(2)[OF udp(3) r] answered[OF R g, of "udpNonceKey (r_UUID res)"] by (intro a) (auto simp: udp(1))
  then show ?thesis
    using i hset_cong[OF udp_packet(1)[OF udp(3)]] unfolding prov_inv_def udp(2) by auto
next
  case (udp_task j c t te uos t' w')
  have m: "(c, t) \<in> set (utasks s)" using udp_task(3,4) by (metis nth_mem)
  have h: "P (r_UUID res)" if "task_res t = Some res" for res
    using i m that unfolding prov_inv_def by blast
  have "P (r_UUID res)" if r: "(d, x) \<in> set ((utasks s)[j := (c, t')])" "task_res x = Some res" for d x res
    using set_update_subset_insert[of "utasks s" j "(c, t')"] r i udp_task_hset(2)[OF udp_task(5)] h
    unfolding prov_inv_def by (metis (no_types, lifting) Pair_inject insertE option.distinct(1) subsetD)
  moreover have "P u" if "u \<in> hset (en w') - hset (en (wd s0))" for u
    using udp_task_hset(1)[OF udp_task(5)] h i that unfolding prov_inv_def by blast
  ultimately show ?thesis
    using i unfolding prov_inv_def udp_task(2) by auto
next
  case (mqtt te c ip topic payload mos mt w')
  have "P (r_UUID res)" if r: "mt = MSpawn res" for res
    using mqtt_packet(2)[OF mqtt(3) r] answered[OF R g, of "mqttNonceKey (r_UUID res)"] by (intro a) (auto simp: mqtt(1))
  then show ?thesis
    using i hset_cong[OF mqtt_packet(1)[OF mqtt(3)]] unfolding prov_inv_def mqtt(2) by auto
next
  case (mqtt_task j c res te mos mt w')
  have m: "(c, MSpawn res) \<in> set (mtasks s)" using mqtt_task(3,4) by (metis nth_mem)
  then have h: "P (r_UUID res)" using i unfolding prov_inv_def by blast
  have "P (r_UUID x)" if r: "(d, MSpawn x) \<in> set ((mtasks s)[j := (c, mt)])" for d x
    using set_update_subset_insert[of "mtasks s" j "(c, mt)"] r i mqtt_task_hset(2)[OF mqtt_task(5)]
    unfolding prov_inv_def by fastforce
  moreover have "P u" if "u \<in> hset (en w') - hset (en (wd s0))" for u
    using mqtt_task_hset(1)[OF mqtt_task(5)] h i that unfolding prov_inv_def by blast
  ultimately show ?thesis
    using i unfolding prov_inv_def mqtt_task(2) by auto
next
  case (http rq hrt hevs answer L' w')
  have "hset (en w') \<subseteq> hset (en (wd s)) \<union> {u. P u}"
    using serve_hset[OF http(3)] a http(1) by fastforce
  then show ?thesis by (intro prov_inv_same[OF i]) (simp_all add: http(2))
next
  case (stop reason a e')
  then show ?thesis using stop_hset[OF stop(3)] by (intro prov_inv_same[OF i]) auto
qed (rule prov_inv_same[OF i];
    auto dest!: script_handlers reverse_handlers term_line_keeps(2)[OF P] on_proc_handlers simp: hset_def)+

lemma run_conns:
  assumes "postgres_service (pg (sv T)) robots" and "sys_run C B net T evs s0 s" "s0 = sys_init w"
  shows "conns_inv T robots evs s"
  using assms(2,3)
proof (induction rule: sys_run.induct)
  case (nil s)
  then show ?case by (simp add: conns_inv_def sys_init_def)
qed (blast intro: conns_inv_step[OF assms(1)])

lemma run_provenance:
  assumes R: "redis_service (rds (sv T)) live" and P: "postgres_service (pg (sv T)) robots"
    and "sys_run C B net T evs s0 s" "s0 = sys_init w" and G: "nonces_genuine live robots (st w)"
  shows "prov_inv (caused C B net T live robots evs s0) s0 s"
  using assms(3,4)
proof (induction rule: sys_run.induct)
  case (nil s)
  then show ?case by (simp add: prov_inv_def sys_init_def)
next
  case (snoc evs s s1 ev s2)
  have g: "nonces_genuine live robots (st (wd s1))"
    using run_genuine[OF R P snoc.hyps(1)] G snoc.prems by (simp add: sys_init_def)
  have c: "conns_inv T robots evs s1" using run_conns[OF P snoc.hyps(1) snoc.prems] .
  have i: "prov_inv (caused C B net T live robots (evs @ [ev]) s) s s1"
    by (rule prov_inv_mono[OF snoc.IH[OF snoc.prems]]) (rule caused_mono)
  show ?case
    using prov_inv_step[OF R P g c i snoc.hyps(2)] caused_last[OF snoc.hyps(1)] by simp
qed

section \<open>Properties\<close>

text \<open>C3: A connection that has, or is about to get, a handler belongs to the robot it claims to be.
  However the server's parts interleave, its robot was sent a nonce on this very connection and
  answered, on this connection, with a signature of it under the key that the registry still
  holds for that robot; or its registration was announced from this connection's address and an
  acceptance came back to it.\<close>

theorem sessions_genuine:
  assumes "postgres_service (pg (sv T)) robots" and "sys_run C B net T evs (sys_init w) s"
    and "conns s i = Some (c, ip, k)" and "session_of (cst k) = Some res"
  shows "Accept i c ip \<in> set evs
    \<and> ((\<exists>r nonce b l. robots (pst (st (wd s))) (r_UUID res) = Some r
          \<and> Wr (ln (''NONCE '' @ nonce)) \<in> set (sent s i) \<and> Line b l \<in> set (conn_events i evs)
          \<and> VerifyRobotSignature (crypto (sv T)) (rr_PublicKey r) nonce (TrimSpace l) = Inr ())
       \<or> (register_event (r_UUID res) ip (r_DeviceType res) \<in> set (sent s i)
          \<and> (\<exists>oc. Response oc \<in> set (conn_events i evs) \<and> WaitForRegistrationResponse oc = Inr True)))"
proof -
  have "conns_inv T robots evs s" using run_conns[OF assms(1,2)] by simp
  from session_grounds[OF assms(1) this assms(3,4)] show ?thesis
    by (auto simp: key_proved_def admitted_def)
qed

text \<open>C2: No handler runs that nobody entitled asked for.  When a handler runs for a robot that had
  none at the start, then an earlier event of the run is its reason: a connection whose robot
  had proved its registered key or had been accepted; a datagram or an MQTT message for this
  robot that answers the nonce Redis held for it with a signature under the key of the registry
  (as far as the character that ends it in Redis); or a start request for this robot by a user
  with a valid session.  Scripts, the terminal, reverse connections, heartbeats and every other
  request start none.  Of the state at the start it is only asked that no false nonces lie in
  Redis.\<close>

theorem handler_provenance:
  assumes "postgres_service (pg (sv T)) robots" and "redis_service (rds (sv T)) live"
    and "sys_run C B net T evs (sys_init w) s"
    and "nonces_genuine live robots (st w)" and "Get u (en (wd s)) \<noteq> None" and "Get u (en w) = None"
  shows "\<exists>evs1 ev evs2 s1. evs = evs1 @ ev # evs2 \<and> sys_run C B net T evs1 (sys_init w) s1
    \<and> asks_for T live robots evs1 s1 ev u"
proof -
  have "prov_inv (caused C B net T live robots evs (sys_init w)) (sys_init w) s"
    using run_provenance[OF assms(2,1,3) _ assms(4)] by simp
  moreover have "u \<in> hset (en (wd s)) - hset (en (wd (sys_init w)))"
    using assms(5,6) by (auto simp: hset_def Get_def sys_init_def)
  ultimately show ?thesis
    unfolding prov_inv_def caused_def by blast
qed

lemma idle_no_handler: "Get ''r1'' (en idle_world) = None"
  by (simp add: Get_def idle_world_def)

theorem sessions_genuine_witness:
  "\<exists>s. sys_run sample_codec sample_bcrypt (\<lambda>_ _. None) sample_tcp sample_events (sys_init idle_world) s
     \<and> mem_robots (pst (st (wd s))) ''r1'' \<noteq> None"
proof -
  obtain s res where s: "sys_run sample_codec sample_bcrypt (\<lambda>_ _. None) sample_tcp sample_events (sys_init idle_world) s"
    and k: "conns s 0 = Some (5, ''ip'', to_state (Session 0 res True) sig_conn)" and u: "r_UUID res = ''r1''"
    using sample_run by blast
  have "session_of (cst (to_state (Session 0 res True) sig_conn)) = Some res" by (simp add: to_state_def)
  note g = sessions_genuine[OF idle_services(1) s k this]
  have "Response oc \<notin> set (conn_events 0 sample_events)" for oc
    by (simp add: sample_events_def conn_events_def map_filter_simps)
  then show ?thesis using g s u by auto
qed

theorem handler_provenance_witness:
  "\<exists>s evs1 ev evs2 s1. sys_run sample_codec sample_bcrypt (\<lambda>_ _. None) sample_tcp sample_events (sys_init idle_world) s
     \<and> Get ''r1'' (en (wd s)) \<noteq> None \<and> sample_events = evs1 @ ev # evs2
     \<and> asks_for sample_tcp map_of mem_robots evs1 s1 ev ''r1''"
proof -
  obtain s where s: "sys_run sample_codec sample_bcrypt (\<lambda>_ _. None) sample_tcp sample_events (sys_init idle_world) s"
    and h: "Get ''r1'' (en (wd s)) \<noteq> None"
    using sample_run by blast
  show ?thesis
    using handler_provenance[OF idle_services(1,2) s idle_nonces h idle_no_handler] s h by blast
qed

end
