(* ===== verification/Lifecycle.thy ===== *)
theory Lifecycle
  imports HTTP_API Subscription_Tables
begin

text \<open>
  Start and end of the server, and small helpers: \<^verbatim>\<open>main.go\<close>, the database manager of
  \<^verbatim>\<open>database/databases.go\<close> with the constructors it calls, the accept loop of
  \<^verbatim>\<open>tcp_server.go\<close>, and the helpers of \<^verbatim>\<open>shared/debug.go\<close>,
  \<^verbatim>\<open>shared/utils/uuid.go\<close> and \<^verbatim>\<open>shared/data_structures/map.go\<close>.
\<close>

section \<open>Helpers\<close>

definition charset :: string where
  "charset = ''abcdefghijklmnopqrstuvwxyzABCDEFGHIJKLMNOPQRSTUVWXYZ0123456789''"

text \<open>\<open>rnd\<close> is what the random source delivers; \<open>None\<close> is the panic.\<close>

definition GenerateRandomString :: "nat \<Rightarrow> bytes option \<Rightarrow> string option" where
  "GenerateRandomString n rnd =
     (case rnd of
        None \<Rightarrow> None
      | Some bs \<Rightarrow> Some (map (\<lambda>i. charset ! ((of_char (bs ! i) :: nat) mod length charset)) [0..<n]))"

definition RedactToken :: "string \<Rightarrow> string" where
  "RedactToken token =
     (if length token \<le> 16 then ''***'' else take 8 token @ ''...'' @ drop (length token - 4) token)"

definition RedactIP :: "string \<Rightarrow> string" where
  "RedactIP ip = (case split_last (CHR ''.'') ip of None \<Rightarrow> ip | Some (a, _) \<Rightarrow> a @ ''.***'')"

definition getShortFuncName :: "string \<Rightarrow> string" where
  "getShortFuncName fullName =
     (let f = (case split_last (CHR ''/'') fullName of None \<Rightarrow> fullName | Some (_, r) \<Rightarrow> r)
      in case split_last (CHR ''.'') f of None \<Rightarrow> f | Some (_, r) \<Rightarrow> r)"

text \<open>\<^verbatim>\<open>GetLocalIPs\<close>, given the interfaces and addresses that the system reports; \<open>None\<close> is
  the nil address.\<close>

datatype ifaddr = IPNet "bytes option" | IPAddr "bytes option" | OtherIfAddr

record iface =
  if_loopback :: bool
  if_up :: bool
  if_addrs :: "ifaddr list res"

definition To4 :: "bytes \<Rightarrow> bytes option" where
  "To4 ip =
     (if length ip = 4 then Some ip
      else if length ip = 16 \<and> take 12 ip = replicate 10 (CHR 0x00) @ [CHR 0xFF, CHR 0xFF] then Some (drop 12 ip)
      else None)"

definition IsLoopback :: "bytes \<Rightarrow> bool" where
  "IsLoopback ip =
     (case To4 ip of
        Some b \<Rightarrow> hd b = CHR 0x7F
      | None \<Rightarrow> ip = replicate 15 (CHR 0x00) @ [CHR 0x01])"

definition dotted :: "bytes \<Rightarrow> string" where
  "dotted b = tl (concat (map (\<lambda>c. CHR ''.'' # show_nat (of_char c)) b))"

fun addr_ip :: "ifaddr \<Rightarrow> bytes option" where
  "addr_ip (IPNet ip) = ip"
| "addr_ip (IPAddr ip) = ip"
| "addr_ip OtherIfAddr = None"

definition addr_ips :: "ifaddr \<Rightarrow> string list" where
  "addr_ips a =
     (case addr_ip a of
        None \<Rightarrow> []
      | Some ip \<Rightarrow> if IsLoopback ip then [] else (case To4 ip of None \<Rightarrow> [] | Some b \<Rightarrow> [dotted b]))"

definition GetLocalIPs :: "iface list res \<Rightarrow> string list" where
  "GetLocalIPs interfaces =
     (case interfaces of
        Inl _ \<Rightarrow> []
      | Inr ifaces \<Rightarrow>
          concat (map (\<lambda>i.
            if if_loopback i \<or> \<not> if_up i then []
            else (case if_addrs i of Inl _ \<Rightarrow> [] | Inr addrs \<Rightarrow> concat (map addr_ips addrs))) ifaces))"

lemma addr_ips_external: "x \<in> set (addr_ips a) \<Longrightarrow> \<exists>b. length b = 4 \<and> hd b \<noteq> CHR 0x7F \<and> x = dotted b"
proof -
  assume "x \<in> set (addr_ips a)"
  then obtain ip b where "\<not> IsLoopback ip" "To4 ip = Some b" "x = dotted b"
    by (cases "addr_ip a"; cases "To4 (the (addr_ip a))") (auto simp: addr_ips_def split: if_splits)
  moreover have "length b = 4" using \<open>To4 ip = Some b\<close> by (auto simp: To4_def split: if_splits)
  ultimately show ?thesis by (auto simp: IsLoopback_def)
qed

lemma GetLocalIPs_external:
  "x \<in> set (GetLocalIPs (Inr ifs)) \<Longrightarrow> \<exists>b. length b = 4 \<and> hd b \<noteq> CHR 0x7F \<and> x = dotted b"
  by (auto simp: GetLocalIPs_def split: if_splits sum.splits dest: addr_ips_external)

text \<open>\<^verbatim>\<open>Map\<close> is a list of nodes; \<^verbatim>\<open>Remove\<close> does not look at the value it is given.\<close>

definition map_Add :: "'n \<Rightarrow> 'n list \<Rightarrow> 'n list" where
  "map_Add node l = node # l"

definition map_Remove :: "'v \<Rightarrow> 'n list \<Rightarrow> 'n option \<times> 'n list" where
  "map_Remove value l = (case l of [] \<Rightarrow> (None, l) | n # l' \<Rightarrow> (Some n, l'))"

text \<open>\<^verbatim>\<open>remoteIP\<close> of the address of a connection.\<close>

datatype netaddr = NoAddr | TCPAddr string | OtherAddr string

fun remoteIP :: "netaddr \<Rightarrow> string" where
  "remoteIP NoAddr = []"
| "remoteIP (TCPAddr ip) = ip"
| "remoteIP (OtherAddr s) = (case SplitHostPort s of None \<Rightarrow> s | Some (host, _) \<Rightarrow> host)"

section \<open>The accept loop\<close>

definition millisecond :: int where "millisecond = 1000000"

definition next_backoff :: "int \<Rightarrow> int" where
  "next_backoff b =
     (if b = 0 then 5 * millisecond else if b < second then wrap64 (b * 2) else b)"

text \<open>What \<^verbatim>\<open>Accept\<close> returns; with an error come whether the context has ended by then, and
  whether it ends during the wait.\<close>

datatype accept = Conn nat | ListenerClosed | AcceptError bool bool

datatype accept_out = Handle nat | Sleep int

fun tcp_accept :: "int \<Rightarrow> accept list \<Rightarrow> accept_out list" where
  "tcp_accept b [] = []"
| "tcp_accept b (Conn c # xs) = Handle c # tcp_accept 0 xs"
| "tcp_accept b (ListenerClosed # xs) = []"
| "tcp_accept b (AcceptError over ends # xs) =
     (if over then []
      else Sleep (next_backoff b) # (if ends then [] else tcp_accept (next_backoff b) xs))"

section \<open>The databases\<close>

text \<open>\<open>openr\<close> and \<open>pingr\<close> are the answers of the driver.\<close>

definition NewPostgresHandler :: "'p postgres res \<Rightarrow> unit res \<Rightarrow> 'p postgres res" where
  "NewPostgresHandler openr pingr =
     (case openr of
        Inl e \<Rightarrow> Inl (''failed to open postgres connection: '' @ e)
      | Inr p \<Rightarrow> (case pingr of Inl e \<Rightarrow> Inl (''failed to ping postgres: '' @ e) | Inr _ \<Rightarrow> Inr p))"

definition NewRedisHandler :: "'r redis \<Rightarrow> unit res \<Rightarrow> 'r redis res" where
  "NewRedisHandler client pingr =
     (case pingr of Inl e \<Rightarrow> Inl (''failed to ping redis: '' @ e) | Inr _ \<Rightarrow> Inr client)"

record ('r, 'p) DBManager =
  dm_postgres :: "'p postgres option"
  dm_redis :: "'r redis option"

definition database_Start ::
  "(string \<Rightarrow> string) \<Rightarrow> (string \<Rightarrow> string res) \<Rightarrow> 'p postgres res \<Rightarrow> 'r redis res \<Rightarrow> 'r \<Rightarrow> ('r, 'p) DBManager res \<times> 'r" where
  "database_Start env bc pgr rdr s =
     (case pgr of
        Inl e \<Rightarrow> (Inl e, s)
      | Inr p \<Rightarrow>
          (case rdr of
             Inl e \<Rightarrow> (Inl e, s)
           | Inr r \<Rightarrow>
               (Inr \<lparr>dm_postgres = Some p, dm_redis = Some r\<rparr>, seedDefaultUsers env bc (Some r) s)))"

text \<open>\<open>pg_ping\<close> and \<open>rds_ping\<close> tell whether the database answers a ping.\<close>

definition IsHealthy :: "bool \<Rightarrow> bool \<Rightarrow> ('r, 'p) DBManager \<Rightarrow> bool" where
  "IsHealthy pg_ping rds_ping dm \<longleftrightarrow>
     (if dm_postgres dm = None \<or> \<not> pg_ping then False
      else if dm_redis dm = None \<or> \<not> rds_ping then False else True)"

section \<open>Main\<close>

datatype server_name = TerminalS | HTTPS | MQTTS | TCPS | UDPS

record ('r, 'p) running =
  run_db :: "('r, 'p) DBManager"
  run_bus :: "closure LocalBus option"
  run_servers :: "server_name list"

text \<open>\<open>Inl\<close> is the panic that ends the program.\<close>

definition main_start ::
  "unit res \<Rightarrow> ('r, 'p) DBManager res \<times> 'r \<Rightarrow> ('r, 'p) running res \<times> 'r" where
  "main_start config dbr =
     (case config of
        Inl e \<Rightarrow> (Inl (''Error loading configuration: '' @ e), snd dbr)
      | Inr _ \<Rightarrow>
          (case fst dbr of
             Inl e \<Rightarrow> (Inl (''Failed to initialize databases: '' @ e), snd dbr)
           | Inr dm \<Rightarrow>
               (Inr \<lparr>run_db = dm,
                     run_bus = (if dm_redis dm = None then None else Some (NewLocalBus NewEventBus)),
                     run_servers = [TerminalS, HTTPS, MQTTS, TCPS, UDPS]\<rparr>, snd dbr)))"

text \<open>After the context has ended or a signal has arrived.\<close>

definition main_stop :: "'c engine \<Rightarrow> 'c engine option" where
  "main_stop e = StopAll ''server_shutdown'' e"

section \<open>Stopping every handler\<close>

text \<open>No handler of the table is being stopped already.\<close>

definition engine_ready :: "'c engine \<Rightarrow> bool" where
  "engine_ready e \<longleftrightarrow> eb_inv (eb (bus e)) \<and> wf_map (handlers e)
     \<and> (\<forall>u a. map_of (handlers e) u = Some a \<longrightarrow>
          (\<exists>hp. map_of (procs e) a = Some hp \<and> hp_UUID hp = u \<and> \<not> hp_closed hp \<and> \<not> writeCh_closed hp
             \<and> (\<forall>c\<in>set (subs hp). fst c \<noteq> [])))"

definition subs_at :: "'c engine \<Rightarrow> nat \<Rightarrow> (string \<times> Subscriber) set" where
  "subs_at e a = (case map_of (procs e) a of None \<Rightarrow> {} | Some hp \<Rightarrow> set (subs hp))"

definition stopped :: "'c engine \<Rightarrow> nat \<Rightarrow> bool" where
  "stopped e a \<longleftrightarrow> (\<exists>hp. map_of (procs e) a = Some hp \<and> hp_closed hp \<and> writeCh_closed hp \<and> subs hp = [])"

lemma stop_lock_open:
  "\<not> hp_closed hp \<Longrightarrow> \<not> writeCh_closed hp \<Longrightarrow>
   \<exists>q. stop_lock reason hp = Some (True, hp\<lparr>hp_closed := True, writeCh := q\<rparr>)"
  by (cases "length (writeCh hp) < writeCh_cap")
    (auto simp: stop_lock_def try_send_def intro: exI[of _ "writeCh hp"])

lemma Stop_open:
  assumes "map_of (procs e) a = Some hp" "\<not> hp_closed hp" "\<not> writeCh_closed hp"
    "eb_inv (eb (bus e))" "\<forall>c\<in>set (subs hp). fst c \<noteq> []"
  shows "\<exists>e' hp'. Stop reason a e = Some e' \<and> handlers e' = AList.delete (hp_UUID hp) (handlers e)
    \<and> map_of (procs e') = (map_of (procs e))(a \<mapsto> hp') \<and> hp_closed hp' \<and> writeCh_closed hp' \<and> subs hp' = []
    \<and> eb_inv (eb (bus e')) \<and> eb_abs (eb (bus e')) = (\<lambda>c. if c \<in> set (subs hp) then None else eb_abs (eb (bus e)) c)"
proof -
  obtain q where q: "stop_lock reason hp = Some (True, hp\<lparr>hp_closed := True, writeCh := q\<rparr>)"
    using stop_lock_open[OF assms(2,3)] by blast
  obtain b where b: "cancel_all (subs hp) (bus e) = Some b" "eb_inv (eb b)"
    "eb_abs (eb b) = (\<lambda>c. if c \<in> set (subs hp) then None else eb_abs (eb (bus e)) c)"
    using cancel_all_ok[OF assms(4,5)] by blast
  let ?h2 = "hp\<lparr>hp_closed := True, writeCh := q, writeCh_closed := True\<rparr>"
  let ?hp = "?h2\<lparr>subs := []\<rparr>"
  let ?e = "Unregister (hp_UUID hp) (e\<lparr>procs := AList.update a ?hp (AList.update a ?h2 (procs e)), bus := b\<rparr>)"
  have "Stop reason a e = Some ?e"
    using assms(1,3) q b(1) by (simp add: Stop_def stop_close_def stop_finish_def)
  moreover have "handlers ?e = AList.delete (hp_UUID hp) (handlers e)" "map_of (procs ?e) = (map_of (procs e))(a \<mapsto> ?hp)"
    "bus ?e = b"
    by (simp_all add: Unregister_def)
  ultimately show ?thesis using b(2,3) by (intro exI[of _ ?e] exI[of _ ?hp]) simp
qed

lemma delete_head: "wf_map ((u, a) # hs) \<Longrightarrow> AList.delete u ((u, a) # hs) = hs"
  by (auto simp: wf_map_def AList.delete_eq filter_id_conv rev_image_eqI)

lemma stop_each_all:
  assumes "engine_ready e" and "handlers e = hs"
  shows "\<exists>e'. stop_each reason (map snd hs) e = Some e' \<and> handlers e' = [] \<and> eb_inv (eb (bus e'))
    \<and> (\<forall>a. stopped e a \<or> a \<in> snd ` set hs \<longrightarrow> stopped e' a)
    \<and> eb_abs (eb (bus e')) = (\<lambda>c. if \<exists>a\<in>snd ` set hs. c \<in> subs_at e a then None else eb_abs (eb (bus e)) c)"
  using assms
proof (induction hs arbitrary: e)
  case Nil
  then show ?case by (simp add: engine_ready_def)
next
  case (Cons ua hs)
  obtain u a where ua: "ua = (u, a)" by (cases ua)
  have wf: "wf_map ((u, a) # hs)" "u \<notin> fst ` set hs"
    using Cons.prems ua by (auto simp: engine_ready_def wf_map_def)
  have all: "\<exists>hp. map_of (procs e) a' = Some hp \<and> hp_UUID hp = u' \<and> \<not> hp_closed hp \<and> \<not> writeCh_closed hp
      \<and> (\<forall>c\<in>set (subs hp). fst c \<noteq> [])" if "map_of ((u, a) # hs) u' = Some a'" for u' a'
    using Cons.prems that ua by (simp add: engine_ready_def)
  obtain hp where hp: "map_of (procs e) a = Some hp" "hp_UUID hp = u" "\<not> hp_closed hp" "\<not> writeCh_closed hp"
    "\<forall>c\<in>set (subs hp). fst c \<noteq> []"
    using all[of u a] by auto
  have inv: "eb_inv (eb (bus e))" using Cons.prems(1) by (simp add: engine_ready_def)
  obtain e1 hp' where e1: "Stop reason a e = Some e1" "handlers e1 = AList.delete u (handlers e)"
    "map_of (procs e1) = (map_of (procs e))(a \<mapsto> hp')" "hp_closed hp'" "writeCh_closed hp'" "subs hp' = []"
    "eb_inv (eb (bus e1))" "eb_abs (eb (bus e1)) = (\<lambda>c. if c \<in> set (subs hp) then None else eb_abs (eb (bus e)) c)"
    using Stop_open[OF hp(1,3,4) inv hp(5), of reason] hp(2) by auto
  have h1: "handlers e1 = hs"
    using e1(2) Cons.prems(2) ua delete_head[OF wf(1)] by simp
  have ne: "a' \<noteq> a" if "map_of hs u' = Some a'" for u' a'
  proof
    assume "a' = a"
    moreover have "u' \<noteq> u" using that wf(2) by (metis map_of_SomeD fst_conv image_eqI)
    ultimately show False using all[of u' a'] that hp(1,2) by auto
  qed
  have "engine_ready e1"
    unfolding engine_ready_def h1
  proof (intro conjI allI impI)
    show "eb_inv (eb (bus e1))" by (rule e1(7))
    show "wf_map hs" using wf(1) by (simp add: wf_map_def)
    fix u' a' assume m: "map_of hs u' = Some a'"
    then have "u' \<noteq> u" using wf(2) by (metis map_of_SomeD fst_conv image_eqI)
    then show "\<exists>hp. map_of (procs e1) a' = Some hp \<and> hp_UUID hp = u' \<and> \<not> hp_closed hp \<and> \<not> writeCh_closed hp
        \<and> (\<forall>c\<in>set (subs hp). fst c \<noteq> [])"
      using all[of u' a'] m ne[OF m] e1(3) by simp
  qed
  from Cons.IH[OF this h1] obtain e' where e': "stop_each reason (map snd hs) e1 = Some e'" "handlers e' = []" "eb_inv (eb (bus e'))"
    "\<forall>b. stopped e1 b \<or> b \<in> snd ` set hs \<longrightarrow> stopped e' b"
    "eb_abs (eb (bus e')) = (\<lambda>c. if \<exists>b\<in>snd ` set hs. c \<in> subs_at e1 b then None else eb_abs (eb (bus e1)) c)"
    by blast
  have s1: "stopped e1 b" if "stopped e b \<or> b = a" for b
    using that e1(3-6) by (auto simp: stopped_def)
  have sub: "subs_at e1 b = subs_at e b" if m: "b \<in> snd ` set hs" for b
  proof -
    obtain u' where "(u', b) \<in> set hs" using m by auto
    then have "map_of hs u' = Some b"
      using wf(1) by (simp add: wf_map_def)
    then show ?thesis using ne e1(3) by (simp add: subs_at_def)
  qed
  have "eb_abs (eb (bus e')) = (\<lambda>c. if \<exists>b\<in>snd ` set ((u, a) # hs). c \<in> subs_at e b then None else eb_abs (eb (bus e)) c)"
    unfolding e'(5) e1(8) using sub hp(1) by (auto simp: fun_eq_iff subs_at_def)
  then show ?case
    using e1(1) e'(1-4) s1 ua by auto
qed

section \<open>Properties\<close>



lemma next_backoff_iter:
  "(next_backoff ^^ Suc n) 0 = 5 * millisecond * 2 ^ min n 8"
proof (induction n)
  case (Suc n)
  show ?case
  proof (cases "n < 8")
    case True
    then have "n \<in> {0, 1, 2, 3, 4, 5, 6, 7}" by auto
    then show ?thesis using Suc by (auto simp: next_backoff_def millisecond_def second_def wrap64_def)
  next
    case False
    then show ?thesis using Suc by (simp add: next_backoff_def millisecond_def second_def)
  qed
qed (simp add: next_backoff_def)

text \<open>The delays between failed accepts.\<close>

fun sleeps :: "accept_out list \<Rightarrow> int list" where
  "sleeps [] = []"
| "sleeps (Handle c # xs) = sleeps xs"
| "sleeps (Sleep d # xs) = d # sleeps xs"

definition delays :: "int set" where
  "delays = {5 * millisecond * 2 ^ k | k. k \<le> (8 :: nat)}"

lemma next_delay: "b = 0 \<or> b \<in> delays \<Longrightarrow> next_backoff b \<in> delays"
proof (elim disjE)
  assume "b = 0"
  then show ?thesis by (auto simp: next_backoff_def delays_def intro: exI[of _ 0])
next
  assume "b \<in> delays"
  then obtain k where k: "b = 5 * millisecond * 2 ^ k" "k \<le> (8 :: nat)" by (auto simp: delays_def)
  then have "b = (next_backoff ^^ Suc k) 0" by (simp only: next_backoff_iter min.absorb1)
  then have "next_backoff b = (next_backoff ^^ Suc (Suc k)) 0" by simp
  also have "\<dots> = 5 * millisecond * 2 ^ min (Suc k) 8" by (rule next_backoff_iter)
  finally show ?thesis unfolding delays_def by (intro CollectI exI[of _ "min (Suc k) 8"]) simp
qed

lemma accept_delays: "b = 0 \<or> b \<in> delays \<Longrightarrow> set (sleeps (tcp_accept b xs)) \<subseteq> delays"
  by (induction b xs rule: tcp_accept.induct) (auto simp: next_delay)

text \<open>The accept loop backs off, and by how much.  Every delay after a failed accept is 5 ms
  doubled at most eight times, so it lies between 5 ms and 1.28 s, whatever the listener
  returns; the ninth failure in a row reaches 1.28 s, beyond the second the comment in the
  source names as the limit.\<close>

theorem accept_backoff_bounds:
  "set (sleeps (tcp_accept 0 xs)) \<subseteq> {5 * millisecond..1280 * millisecond}
   \<and> last (sleeps (tcp_accept 0 (replicate 9 (AcceptError False False)))) = 1280 * millisecond
   \<and> second < 1280 * millisecond"
proof -
  have "5 * millisecond \<le> d \<and> d \<le> 1280 * millisecond" if m: "d \<in> delays" for d
  proof -
    obtain k where k: "d = 5 * millisecond * 2 ^ k" "k \<le> (8 :: nat)" using m by (auto simp: delays_def)
    moreover have "(1 :: int) \<le> 2 ^ k" "(2 :: int) ^ k \<le> 2 ^ 8" using k(2) by (simp_all add: power_increasing del: power_numeral)
    ultimately show ?thesis by (simp add: millisecond_def)
  qed
  then have "set (sleeps (tcp_accept 0 xs)) \<subseteq> {5 * millisecond..1280 * millisecond}"
    using accept_delays[of 0 xs] by fastforce
  moreover have "last (sleeps (tcp_accept 0 (replicate 9 (AcceptError False False)))) = 1280 * millisecond"
    by (simp add: numeral_eq_Suc next_backoff_def millisecond_def second_def wrap64_def)
  ultimately show ?thesis by (simp add: millisecond_def second_def)
qed

text \<open>A server that runs has both databases and a bus: \<^verbatim>\<open>main\<close> gets past its start only if
  the configuration was read and both databases answered, and then every server is started with
  a bus that is not nil.\<close>

theorem main_start_complete:
  assumes "main_start config (database_Start env bc pgr rdr s) = (Inr R, s')"
  shows "config = Inr () \<and> (\<exists>p r. pgr = Inr p \<and> rdr = Inr r \<and> run_db R = \<lparr>dm_postgres = Some p, dm_redis = Some r\<rparr>
      \<and> s' = seedDefaultUsers env bc (Some r) s)
    \<and> run_bus R = Some (NewLocalBus NewEventBus) \<and> set (run_servers R) = UNIV"
proof -
  have "set [TerminalS, HTTPS, MQTTS, TCPS, UDPS] = UNIV"
    by (auto intro: server_name.exhaust)
  then show ?thesis
    using assms by (auto simp: main_start_def database_Start_def split: sum.splits)
qed

end
