(* ===== verification/Servers.thy ===== *)
theory Servers
  imports Lifecycle System
begin

text \<open>
  The life of the program: what the \<^verbatim>\<open>Start\<close> functions of the five servers do with the
  answers of the operating system, their receive and accept loops, and the goroutines of
  \<^verbatim>\<open>main\<close> from the start of the servers to the exit, interleaved in any order.
\<close>

section \<open>Starting a server\<close>

text \<open>\<open>Fatal\<close> is \<^verbatim>\<open>shared.DebugPanic\<close>, which ends the program; \<open>Failed\<close> is an error
  that \<^verbatim>\<open>Start\<close> returns; \<open>Serves\<close> is the wait for the end of the context.\<close>

datatype start_result = Fatal string | Failed string | Serves

definition tcp_setup :: "bool \<Rightarrow> unit res \<Rightarrow> unit res \<Rightarrow> start_result" where
  "tcp_setup tls cert listen =
     (case (if tls then cert else Inr ()) of
        Inl e \<Rightarrow> Fatal (''Failed to load TLS certificate: '' @ e)
      | Inr _ \<Rightarrow>
          (case listen of
             Inl e \<Rightarrow> Fatal (''Error starting TCP server: '' @ e)
           | Inr _ \<Rightarrow> Serves))"

definition udp_setup :: "unit res \<Rightarrow> start_result" where
  "udp_setup listen = (case listen of Inl e \<Rightarrow> Fatal (''Error starting UDP server: '' @ e) | Inr _ \<Rightarrow> Serves)"

definition terminal_setup :: "unit res \<Rightarrow> start_result" where
  "terminal_setup listen =
     (case listen of Inl e \<Rightarrow> Failed (''error starting terminal server: '' @ e) | Inr _ \<Rightarrow> Serves)"

datatype mhook = ACLHook | BridgeHook | ProtocolHook

text \<open>The hooks of the broker in the order they are added; a bridge that cannot be added is only
  logged.\<close>

definition mqtt_setup ::
  "bool \<Rightarrow> unit res \<Rightarrow> unit res \<Rightarrow> unit res \<Rightarrow> unit res \<Rightarrow> mhook list \<times> start_result" where
  "mqtt_setup has_bus acl br protocol listener =
     (case acl of
        Inl e \<Rightarrow> ([], Failed (''failed to add MQTT ACL hook: '' @ e))
      | Inr _ \<Rightarrow>
          (let hooks = ACLHook # (if has_bus \<and> br = Inr () then [BridgeHook] else [])
           in case protocol of
                Inl e \<Rightarrow> (hooks, Failed (''failed to add MQTT protocol hook: '' @ e))
              | Inr _ \<Rightarrow>
                  (case listener of
                     Inl e \<Rightarrow> (hooks @ [ProtocolHook], Failed (''failed to add MQTT TCP listener: '' @ e))
                   | Inr _ \<Rightarrow> (hooks @ [ProtocolHook], Serves))))"

text \<open>What the goroutine of the web server sends on \<^verbatim>\<open>serverErr\<close>.\<close>

datatype listen_end = ServerClosed | ListenError string

definition http_serve :: "bool \<Rightarrow> unit res \<Rightarrow> listen_end \<Rightarrow> string option" where
  "http_serve tls cert how =
     (if tls then
        (case cert of
           Inl e \<Rightarrow> Some (''failed to load TLS certificate: '' @ e)
         | Inr _ \<Rightarrow>
             (case how of ServerClosed \<Rightarrow> None | ListenError e \<Rightarrow> Some (''error starting HTTPS server: '' @ e)))
      else (case how of ServerClosed \<Rightarrow> None | ListenError e \<Rightarrow> Some (''error starting HTTP server: '' @ e)))"

text \<open>What \<^verbatim>\<open>Start\<close> returns after the context has ended, given how the close went.\<close>

definition tcp_close :: "unit res \<Rightarrow> unit res" where
  "tcp_close r = (case r of Inl e \<Rightarrow> Inl (''error shutting down TCP server: '' @ e) | Inr _ \<Rightarrow> Inr ())"

definition udp_close :: "unit res \<Rightarrow> unit res" where
  "udp_close r = Inr ()"

definition mqtt_close :: "unit res \<Rightarrow> unit res" where
  "mqtt_close r = (case r of Inl e \<Rightarrow> Inl (''error shutting down MQTT server: '' @ e) | Inr _ \<Rightarrow> Inr ())"

definition http_close :: "unit res \<Rightarrow> unit res" where
  "http_close r = (case r of Inl e \<Rightarrow> Inl (''error shutting down HTTP server: '' @ e) | Inr _ \<Rightarrow> Inr ())"

definition terminal_close :: "unit res \<Rightarrow> unit res" where
  "terminal_close r = (case r of Inl e \<Rightarrow> Inl (''error shutting down terminal server: '' @ e) | Inr _ \<Rightarrow> Inr ())"

fun close_result :: "server_name \<Rightarrow> unit res \<Rightarrow> unit res" where
  "close_result TCPS r = tcp_close r"
| "close_result UDPS r = udp_close r"
| "close_result MQTTS r = mqtt_close r"
| "close_result HTTPS r = http_close r"
| "close_result TerminalS r = terminal_close r"

section \<open>Receive and accept loops\<close>

definition MaxUDPPacketSize :: nat where "MaxUDPPacketSize = 65535"

text \<open>What a read of the UDP socket ends with; with an error comes whether the context has ended
  by then.  The deadline of the read is one second, so that the loop looks at the context.\<close>

datatype udp_read = Datagram string nat | ReadTimeout bool | ReadError bool

fun udp_receive :: "udp_read list \<Rightarrow> (string \<times> nat) list" where
  "udp_receive [] = []"
| "udp_receive (Datagram data addr # xs) = (take MaxUDPPacketSize data, addr) # udp_receive xs"
| "udp_receive (ReadTimeout over # xs) = (if over then [] else udp_receive xs)"
| "udp_receive (ReadError over # xs) = (if over then [] else udp_receive xs)"

datatype term_accept = TConn nat | TAcceptError bool

fun terminal_accept :: "term_accept list \<Rightarrow> nat list" where
  "terminal_accept [] = []"
| "terminal_accept (TConn c # xs) = c # terminal_accept xs"
| "terminal_accept (TAcceptError over # xs) = (if over then [] else terminal_accept xs)"

section \<open>The databases at the end\<close>

definition dm_Stop :: "('r, 'p) DBManager \<Rightarrow> bool \<times> bool" where
  "dm_Stop dm = (dm_postgres dm \<noteq> None, dm_redis dm \<noteq> None)"

section \<open>Main\<close>

text \<open>A server's goroutine has called \<^verbatim>\<open>Start\<close>, waits for the end of the context, or has
  returned.  \<^verbatim>\<open>main\<close> waits for the context or a signal, stops the handlers, waits for the
  goroutines, and is gone: with every goroutine done, or after sixty seconds.\<close>

datatype spc = SStart | SServe | SEnd

datatype mpc = MSelect | MStopAll | MJoin | MExit bool

record 'c life =
  ctx_done :: bool
  signalled :: bool
  srv :: "server_name \<Rightarrow> spc"
  db_stopped :: bool
  main_pc :: mpc
  l_en :: "'c engine"
  fatal :: "string option"

definition life_init :: "'c engine \<Rightarrow> 'c life" where
  "life_init e = \<lparr>ctx_done = False, signalled = False, srv = (\<lambda>_. SStart), db_stopped = False,
     main_pc = MSelect, l_en = e, fatal = None\<rparr>"

text \<open>The answers of the operating system that a \<^verbatim>\<open>Start\<close> meets.\<close>

datatype start_env =
    TCPEnv bool "unit res" "unit res"
  | UDPEnv "unit res"
  | TermEnv "unit res"
  | MQTTEnv bool "unit res" "unit res" "unit res" "unit res"
  | HTTPEnv

fun start_server :: "start_env \<Rightarrow> server_name \<times> start_result" where
  "start_server (TCPEnv tls cert listen) = (TCPS, tcp_setup tls cert listen)"
| "start_server (UDPEnv listen) = (UDPS, udp_setup listen)"
| "start_server (TermEnv listen) = (TerminalS, terminal_setup listen)"
| "start_server (MQTTEnv b acl br protocol listener) = (MQTTS, snd (mqtt_setup b acl br protocol listener))"
| "start_server HTTPEnv = (HTTPS, Serves)"

datatype 'c life_event =
    StartServer start_env
  | HTTPEnds bool "unit res" listen_end
  | CloseServer server_name "unit res"
  | StopDB
  | Signal
  | StopProgram
  | MainWakes
  | MainStops
  | MainJoins
  | MainGivesUp
  | Engine "'c engine"

definition all_servers :: "server_name list" where
  "all_servers = [TerminalS, HTTPS, MQTTS, TCPS, UDPS]"

text \<open>The goroutine of a server in \<^verbatim>\<open>main\<close>: an error cancels the context.\<close>

definition returned :: "server_name \<Rightarrow> unit res \<Rightarrow> 'c life \<Rightarrow> 'c life" where
  "returned n r s = s\<lparr>srv := (srv s)(n := SEnd), ctx_done := ctx_done s \<or> r \<noteq> Inr ()\<rparr>"

text \<open>\<open>None\<close>: the event cannot happen in the state.  \<open>Engine\<close> stands for what connections
  and users do to the handlers meanwhile.\<close>

definition life_step :: "'c life_event \<Rightarrow> 'c life \<Rightarrow> 'c life option" where
  "life_step ev s =
     (if fatal s \<noteq> None \<or> main_pc s \<in> {MExit True, MExit False} then None
      else
        (case ev of
           StartServer env \<Rightarrow>
             (case start_server env of (n, r) \<Rightarrow>
                if srv s n \<noteq> SStart then None
                else
                  (case r of
                     Fatal e \<Rightarrow> Some (s\<lparr>fatal := Some e\<rparr>)
                   | Failed e \<Rightarrow> Some (returned n (Inl e) s)
                   | Serves \<Rightarrow> Some (s\<lparr>srv := (srv s)(n := SServe)\<rparr>)))
         | HTTPEnds tls cert how \<Rightarrow>
             (case http_serve tls cert how of
                None \<Rightarrow> None
              | Some e \<Rightarrow> if srv s HTTPS = SServe then Some (s\<lparr>fatal := Some e\<rparr>) else None)
         | CloseServer n r \<Rightarrow>
             if srv s n = SServe \<and> ctx_done s then Some (returned n (close_result n r) s) else None
         | StopDB \<Rightarrow> if ctx_done s \<and> \<not> db_stopped s then Some (s\<lparr>db_stopped := True\<rparr>) else None
         | Signal \<Rightarrow> if signalled s then None else Some (s\<lparr>signalled := True\<rparr>)
         | StopProgram \<Rightarrow> if srv s TerminalS \<noteq> SStart \<and> \<not> ctx_done s then Some (s\<lparr>ctx_done := True\<rparr>) else None
         | MainWakes \<Rightarrow>
             if main_pc s = MSelect \<and> (ctx_done s \<or> signalled s)
             then Some (s\<lparr>ctx_done := True, main_pc := MStopAll\<rparr>) else None
         | MainStops \<Rightarrow>
             if main_pc s = MStopAll then
               (case main_stop (l_en s) of
                  None \<Rightarrow> Some (s\<lparr>fatal := Some ''panic''\<rparr>)
                | Some e \<Rightarrow> Some (s\<lparr>l_en := e, main_pc := MJoin\<rparr>))
             else None
         | MainJoins \<Rightarrow>
             if main_pc s = MJoin \<and> list_all (\<lambda>n. srv s n = SEnd) all_servers \<and> db_stopped s
             then Some (s\<lparr>main_pc := MExit True\<rparr>) else None
         | MainGivesUp \<Rightarrow> if main_pc s = MJoin then Some (s\<lparr>main_pc := MExit False\<rparr>) else None
         | Engine e \<Rightarrow> Some (s\<lparr>l_en := e\<rparr>)))"

fun life_run :: "'c life_event list \<Rightarrow> 'c life \<Rightarrow> 'c life option" where
  "life_run [] s = Some s"
| "life_run (ev # evs) s = (case life_step ev s of None \<Rightarrow> None | Some s' \<Rightarrow> life_run evs s')"

section \<open>Shutting down\<close>

definition life_inv :: "'c life \<Rightarrow> bool" where
  "life_inv s \<longleftrightarrow> (main_pc s \<noteq> MSelect \<longrightarrow> ctx_done s) \<and> (\<forall>n. srv s n = SEnd \<longrightarrow> ctx_done s)
     \<and> (db_stopped s \<longrightarrow> ctx_done s) \<and> (main_pc s = MExit True \<longrightarrow> (\<forall>n. srv s n = SEnd) \<and> db_stopped s)"

lemma all_servers: "list_all P all_servers \<longleftrightarrow> (\<forall>n. P n)"
  by (auto simp: all_servers_def) (metis server_name.exhaust)

lemma life_inv_init: "life_inv (life_init e)"
  by (simp add: life_inv_def life_init_def)

text \<open>A step of a program that is not gone, event by event.\<close>

lemma start_step:
  "life_step (StartServer env) s = Some s' \<Longrightarrow> \<exists>n. srv s n = SStart \<and> fatal s = None \<and> main_pc s \<notin> {MExit True, MExit False}
     \<and> ((\<exists>e. s' = s\<lparr>fatal := Some e\<rparr>) \<or> (\<exists>e. s' = returned n (Inl e) s) \<or> s' = s\<lparr>srv := (srv s)(n := SServe)\<rparr>)"
  unfolding life_step_def by (cases "start_server env"; cases "snd (start_server env)") (simp_all split: if_splits, blast+)

lemma close_step:
  "life_step (CloseServer n r) s = Some s' \<Longrightarrow> srv s n = SServe \<and> ctx_done s \<and> fatal s = None
     \<and> main_pc s \<notin> {MExit True, MExit False} \<and> s' = returned n (close_result n r) s"
  by (simp add: life_step_def split: if_splits)

lemma http_step: "life_step (HTTPEnds tls cert how) s = Some s' \<Longrightarrow> fatal s = None \<and> (\<exists>e. s' = s\<lparr>fatal := Some e\<rparr>)"
  unfolding life_step_def by (cases "http_serve tls cert how") (simp_all split: if_splits, blast)

lemma main_stops_step:
  "life_step MainStops s = Some s' \<Longrightarrow> main_pc s = MStopAll \<and> fatal s = None
     \<and> ((\<exists>e. s' = s\<lparr>fatal := Some e\<rparr>) \<or> (\<exists>e. s' = s\<lparr>l_en := e, main_pc := MJoin\<rparr>))"
  unfolding life_step_def by (cases "main_stop (l_en s)") (simp_all split: if_splits, blast+)

lemma simple_steps:
  "life_step StopDB s = Some s' \<Longrightarrow> ctx_done s \<and> \<not> db_stopped s \<and> s' = s\<lparr>db_stopped := True\<rparr>"
  "life_step Signal s = Some s' \<Longrightarrow> \<not> signalled s \<and> s' = s\<lparr>signalled := True\<rparr>"
  "life_step StopProgram s = Some s' \<Longrightarrow> \<not> ctx_done s \<and> main_pc s \<notin> {MExit True, MExit False} \<and> s' = s\<lparr>ctx_done := True\<rparr>"
  "life_step MainWakes s = Some s' \<Longrightarrow> main_pc s = MSelect \<and> s' = s\<lparr>ctx_done := True, main_pc := MStopAll\<rparr>"
  "life_step MainJoins s = Some s' \<Longrightarrow> main_pc s = MJoin \<and> (\<forall>n. srv s n = SEnd) \<and> db_stopped s \<and> s' = s\<lparr>main_pc := MExit True\<rparr>"
  "life_step MainGivesUp s = Some s' \<Longrightarrow> main_pc s = MJoin \<and> s' = s\<lparr>main_pc := MExit False\<rparr>"
  "life_step (Engine e) s = Some s' \<Longrightarrow> s' = s\<lparr>l_en := e\<rparr>"
  by (simp_all add: life_step_def all_servers split: if_splits)

lemmas life_steps = start_step close_step http_step main_stops_step simple_steps

lemma life_inv_fatal: "life_inv (s\<lparr>fatal := x\<rparr>) \<longleftrightarrow> life_inv s"
  by (simp add: life_inv_def)

lemma life_inv_returned:
  "life_inv s \<Longrightarrow> main_pc s \<notin> {MExit True, MExit False} \<Longrightarrow> ctx_done s \<or> r \<noteq> Inr () \<Longrightarrow> life_inv (returned n r s)"
  by (simp add: life_inv_def returned_def)

lemma life_inv_serve:
  "life_inv s \<Longrightarrow> main_pc s \<notin> {MExit True, MExit False} \<Longrightarrow> life_inv (s\<lparr>srv := (srv s)(n := SServe)\<rparr>)"
  by (auto simp: life_inv_def)

lemma life_inv_step:
  assumes s: "life_step ev s = Some s'" and i: "life_inv s"
  shows "life_inv s'"
proof (cases ev)
  case (StartServer env)
  then obtain n where n: "main_pc s \<notin> {MExit True, MExit False}"
    "(\<exists>e. s' = s\<lparr>fatal := Some e\<rparr>) \<or> (\<exists>e. s' = returned n (Inl e) s) \<or> s' = s\<lparr>srv := (srv s)(n := SServe)\<rparr>"
    using start_step s by metis
  then show ?thesis
    using i life_inv_fatal life_inv_returned[OF i n(1)] life_inv_serve[OF i n(1)] by (metis Inl_Inr_False)
next
  case (CloseServer n r)
  then show ?thesis using close_step[of n r s s'] s life_inv_returned[OF i] by blast
next
  case (HTTPEnds tls cert how)
  then show ?thesis using http_step[of tls cert how s s'] s i life_inv_fatal by metis
next
  case MainStops
  then have "main_pc s = MStopAll" "(\<exists>e. s' = s\<lparr>fatal := Some e\<rparr>) \<or> (\<exists>e. s' = s\<lparr>l_en := e, main_pc := MJoin\<rparr>)"
    using main_stops_step s by blast+
  then show ?thesis using i by (auto simp: life_inv_def)
qed (use s i in \<open>auto simp: life_inv_def dest!: simple_steps\<close>)

text \<open>What is left to happen.\<close>

fun spc_work :: "spc \<Rightarrow> nat" where
  "spc_work SStart = 2" | "spc_work SServe = 1" | "spc_work SEnd = 0"

fun mpc_work :: "mpc \<Rightarrow> nat" where
  "mpc_work MSelect = 3" | "mpc_work MStopAll = 2" | "mpc_work MJoin = 1" | "mpc_work (MExit b) = 0"

definition life_work :: "'c life \<Rightarrow> nat" where
  "life_work s = sum_list (map (spc_work \<circ> srv s) all_servers) + mpc_work (main_pc s)
     + of_bool (\<not> ctx_done s) + of_bool (\<not> signalled s) + of_bool (\<not> db_stopped s) + of_bool (fatal s = None)"

lemma work_init: "life_work (life_init e) = 17"
  by (simp add: life_work_def life_init_def all_servers_def)

definition own_event :: "'c life_event \<Rightarrow> bool" where
  "own_event ev \<longleftrightarrow> (\<forall>e. ev \<noteq> Engine e)"

lemma work_returned:
  "srv s n \<noteq> SEnd \<Longrightarrow> life_work (returned n r s) < life_work s"
  by (cases n; cases "srv s n") (auto simp: life_work_def returned_def all_servers_def)

lemma work_step:
  assumes "life_step ev s = Some s'"
  shows "if own_event ev then life_work s' < life_work s else life_work s' = life_work s"
proof (cases ev)
  case (StartServer env)
  then obtain n where n: "srv s n = SStart" "fatal s = None"
    "(\<exists>e. s' = s\<lparr>fatal := Some e\<rparr>) \<or> (\<exists>e. s' = returned n (Inl e) s) \<or> s' = s\<lparr>srv := (srv s)(n := SServe)\<rparr>"
    using start_step assms by blast
  have "life_work (s\<lparr>srv := (srv s)(n := SServe)\<rparr>) < life_work s"
    using n(1) by (cases n) (simp_all add: life_work_def all_servers_def)
  moreover have "life_work (s\<lparr>fatal := Some e\<rparr>) < life_work s" for e
    using n(2) by (simp add: life_work_def)
  ultimately have "life_work s' < life_work s"
    using n(1,3) work_returned[of s n] by (metis spc.distinct(3))
  then show ?thesis using StartServer by (simp add: own_event_def)
next
  case (CloseServer n r)
  then show ?thesis
    using close_step[of n r s s'] assms work_returned[of s n] by (simp add: own_event_def)
next
  case (HTTPEnds tls cert how)
  then show ?thesis using http_step[of tls cert how s s'] assms by (auto simp: own_event_def life_work_def)
next
  case MainStops
  then show ?thesis using main_stops_step[of s s'] assms by (auto simp: own_event_def life_work_def)
next
  case StopDB
  then show ?thesis using simple_steps(1)[of s s'] assms by (simp add: own_event_def life_work_def)
next
  case Signal
  then show ?thesis using simple_steps(2)[of s s'] assms by (simp add: own_event_def life_work_def)
next
  case StopProgram
  then show ?thesis using simple_steps(3)[of s s'] assms by (simp add: own_event_def life_work_def)
next
  case MainWakes
  then show ?thesis using simple_steps(4)[of s s'] assms by (simp add: own_event_def life_work_def)
next
  case MainJoins
  then show ?thesis using simple_steps(5)[of s s'] assms by (simp add: own_event_def life_work_def)
next
  case MainGivesUp
  then show ?thesis using simple_steps(6)[of s s'] assms by (simp add: own_event_def life_work_def)
next
  case (Engine e)
  then show ?thesis using simple_steps(7)[of e s s'] assms by (simp add: own_event_def life_work_def)
qed

lemma life_run_inv:
  "life_run evs s = Some s' \<Longrightarrow> life_inv s \<Longrightarrow>
   life_inv s' \<and> length (filter own_event evs) + life_work s' \<le> life_work s
   \<and> (main_pc s \<noteq> MExit False \<longrightarrow> MainGivesUp \<notin> set evs \<longrightarrow> main_pc s' \<noteq> MExit False)"
proof (induction evs arbitrary: s)
  case (Cons ev evs)
  obtain s1 where s1: "life_step ev s = Some s1" "life_run evs s1 = Some s'"
    using Cons.prems(1) by (auto split: option.splits)
  have "main_pc s \<noteq> MExit False \<Longrightarrow> ev \<noteq> MainGivesUp \<Longrightarrow> main_pc s1 \<noteq> MExit False"
    by (cases ev) (use s1(1) in \<open>auto simp: returned_def dest!: life_steps\<close>)
  then show ?case
    using Cons.IH[OF s1(2) life_inv_step[OF s1(1) Cons.prems(2)]] work_step[OF s1(1)] by (auto split: if_splits)
qed simp

text \<open>Where the program can go on.\<close>

lemma start_possible: "\<exists>env. start_server env = (n, Serves)"
proof (cases n)
  case TerminalS
  then show ?thesis by (intro exI[of _ "TermEnv (Inr ())"]) (simp add: terminal_setup_def)
next
  case HTTPS
  then show ?thesis by (intro exI[of _ HTTPEnv]) simp
next
  case MQTTS
  then show ?thesis by (intro exI[of _ "MQTTEnv True (Inr ()) (Inr ()) (Inr ()) (Inr ())"]) (simp add: mqtt_setup_def)
next
  case TCPS
  then show ?thesis by (intro exI[of _ "TCPEnv False (Inr ()) (Inr ())"]) (simp add: tcp_setup_def)
next
  case UDPS
  then show ?thesis by (intro exI[of _ "UDPEnv (Inr ())"]) (simp add: udp_setup_def)
qed

lemma life_goes_on:
  assumes "life_inv s" "ctx_done s \<or> signalled s" "fatal s = None" "main_pc s \<notin> {MExit True, MExit False}"
  shows "\<exists>ev. own_event ev \<and> ev \<noteq> MainGivesUp \<and> life_step ev s \<noteq> None"
proof (cases "main_pc s")
  case MSelect
  then have "life_step MainWakes s \<noteq> None" using assms by (simp add: life_step_def)
  then show ?thesis by (intro exI[of _ MainWakes]) (simp add: own_event_def)
next
  case MStopAll
  then have "life_step MainStops s \<noteq> None" using assms by (simp add: life_step_def split: option.split)
  then show ?thesis by (intro exI[of _ MainStops]) (simp add: own_event_def)
next
  case MJoin
  then have d: "ctx_done s" using assms(1) by (simp add: life_inv_def)
  consider n where "srv s n = SStart" | n where "srv s n = SServe" | "\<forall>n. srv s n = SEnd" "\<not> db_stopped s" | "\<forall>n. srv s n = SEnd" "db_stopped s"
    by (metis spc.exhaust)
  then show ?thesis
  proof cases
    case (1 n)
    obtain env where "start_server env = (n, Serves)" using start_possible by blast
    then have "life_step (StartServer env) s \<noteq> None" using 1 assms(3) MJoin by (simp add: life_step_def)
    then show ?thesis by (intro exI[of _ "StartServer env"]) (simp add: own_event_def)
  next
    case (2 n)
    then have "life_step (CloseServer n (Inr ())) s \<noteq> None" using d assms(3) MJoin by (simp add: life_step_def)
    then show ?thesis by (intro exI[of _ "CloseServer n (Inr ())"]) (simp add: own_event_def)
  next
    case 3
    then have "life_step StopDB s \<noteq> None" using d assms(3) MJoin by (simp add: life_step_def)
    then show ?thesis by (intro exI[of _ StopDB]) (simp add: own_event_def)
  next
    case 4
    then have "life_step MainJoins s \<noteq> None" using assms(3) MJoin by (simp add: life_step_def all_servers)
    then show ?thesis by (intro exI[of _ MainJoins]) (simp add: own_event_def)
  qed
next
  case (MExit b)
  then show ?thesis using assms(4) by (cases b) auto
qed

section \<open>Properties\<close>


definition sample_life :: "nat life_event list" where
  "sample_life = [StartServer (TermEnv (Inr ())), StartServer HTTPEnv,
     StartServer (MQTTEnv True (Inr ()) (Inl ''no bridge'') (Inr ()) (Inr ())), StartServer (TCPEnv False (Inl ''no file'') (Inr ())),
     StartServer (UDPEnv (Inr ())), Signal, MainWakes, CloseServer HTTPS (Inr ()), MainStops, StopDB,
     CloseServer TCPS (Inl ''late''), CloseServer UDPS (Inr ()), CloseServer MQTTS (Inr ()), CloseServer TerminalS (Inr ()), MainJoins]"


text \<open>The handlers are stopped once, while connections may still start some: the step that spawns a
  handler does not look at the context, so that after the stop of all handlers a connection that
  was about to spawn one leaves it running.\<close>

theorem spawn_survives_shutdown:
  "\<exists>e w'. main_stop (en idle_world) = Some e \<and> handlers e = []
     \<and> tcp_step sample_tcp ((sample_env 7)\<lparr>shutdown := True\<rparr>) (5 :: nat) ''ip'' Resume
         (to_state (Spawning \<lparr>r_UUID = ''r1'', r_DeviceType = ''arm'', r_IP = ip, r_SessionJWT = j, r_SessionID = i\<rparr> True) k)
         (idle_world\<lparr>en := e\<rparr>)
       = ([], to_state (Session 0 \<lparr>r_UUID = ''r1'', r_DeviceType = ''arm'', r_IP = ip, r_SessionJWT = j, r_SessionID = i\<rparr> True) k, w')
     \<and> Get ''r1'' (en w') = Some 0"
proof -
  have m: "main_stop (en idle_world) = Some (en idle_world)"
    by (simp add: main_stop_def StopAll_def idle_world_def)
  have b: "tcp_step T (te\<lparr>shutdown := b\<rparr>) c ip Resume (to_state (Spawning res p) k) w
      = tcp_step T te c ip Resume (to_state (Spawning res p) k) w" for T :: "('r, 'p) tcp_server" and te b c ip res p k w
    by (simp add: tcp_step_def reading_def to_state_def spawn_session_def)
  show ?thesis
    using idle_spawn[of "\<lparr>r_UUID = ''r1'', r_DeviceType = ''arm'', r_IP = ip, r_SessionJWT = j, r_SessionID = i\<rparr>" idle_world k] m
    by (simp add: b idle_world_def)
qed

text \<open>A broker that serves asks the access rules first and the protocol last.\<close>

lemma mqtt_serves:
  "mqtt_setup has_bus acl br protocol listener = (hooks, Serves) \<Longrightarrow>
   hooks = [ACLHook, ProtocolHook] \<or> (has_bus \<and> hooks = [ACLHook, BridgeHook, ProtocolHook])"
  by (auto simp: mqtt_setup_def Let_def split: sum.splits if_splits)

text \<open>The receive loop hands on every datagram that comes before the read at which it notices the end of
  the context, in order and cut to the buffer.\<close>

lemma udp_receive_spec:
  "udp_receive xs = List.map_filter (\<lambda>x. case x of Datagram d a \<Rightarrow> Some (take MaxUDPPacketSize d, a) | _ \<Rightarrow> None)
     (takeWhile (\<lambda>x. x \<notin> {ReadTimeout True, ReadError True}) xs)"
  by (induction xs rule: udp_receive.induct) (simp_all add: map_filter_simps)

end
