(* ===== verification/Node_Locks.thy ===== *)
theory Node_Locks
  imports Data_Structures
begin

text \<open>
  The locks of the list nodes (\<^verbatim>\<open>manageLeftLocks\<close>, \<^verbatim>\<open>manageRightLocks\<close> of
  \<^verbatim>\<open>shared/data_structures/node.go\<close>) under concurrent \<^verbatim>\<open>Enqueue\<close> and
  \<^verbatim>\<open>dequeue\<close> calls of one queue: every acquisition, release, pointer read that decides
  which lock is taken, and pointer write is a step of its own, and the steps of the calls
  interleave freely.  Shown are that the calls answer as the sequential queue of
  \<open>Data_Structures\<close> does when they are made one after another, that they cannot deadlock,
  and that they all end.
\<close>

section \<open>State\<close>

datatype lk = LL nat | RL nat

text \<open>A call that has taken effect, with its answer.\<close>

datatype 'a qop = Enq 'a | Deq "'a option"

text \<open>
  Where a call is.  The \<open>E\<close> states are \<^verbatim>\<open>AddLeft\<close> of the tail: the test of
  \<^verbatim>\<open>n.prev\<close>, the read of \<^verbatim>\<open>l\<close>, before \<^verbatim>\<open>l.rightLock.Lock\<close>, the comparison
  of the loop, before the unlock in the loop, before \<^verbatim>\<open>n.leftLock.Lock\<close>, before
  \<^verbatim>\<open>n.prev.next = newNode\<close> and before \<^verbatim>\<open>n.prev = newNode\<close>.  The \<open>D\<close> states are
  \<^verbatim>\<open>dequeue\<close>: the locks of the head, the test for the tail, the locks of the first node, and
  the two writes of \<^verbatim>\<open>_RemoveSelf\<close>.  In \<open>Free\<close> the call has returned and the goroutines
  of its lock managers, two for a dequeue, still have the listed locks to release.
\<close>

datatype 'a pc =
    EStart 'a | ERead 'a | ELock 'a nat | ECheck 'a nat | EUnlock 'a nat
  | ELeft 'a "nat option" | EIns 'a "nat option" | ESet 'a "nat option" nat
  | DStart | DNext | DLock nat | DTest "nat option" | DRight "nat option" nat | DRNext "nat option" nat
  | DRLock "nat option" nat nat | DRem1 "nat option" nat "nat option" | DRem2 "nat option" nat "nat option"
  | Free "'a qop" "lk list" "lk list"

record 'a nq =
  hp :: "'a heap"
  qh :: nat
  qt :: nat
  own :: "lk \<Rightarrow> nat option"
  thr :: "'a pc list"
  hist :: "(nat \<times> 'a qop) list"
  npanic :: bool

definition NewNodes :: "'a \<Rightarrow> 'a nq" where
  "NewNodes z = (let q = NewSafeQueue z in
     \<lparr>hp = qheap q, qh = qhead q, qt = qtail q, own = (\<lambda>_. None), thr = [], hist = [], npanic = False\<rparr>)"

section \<open>Steps\<close>

abbreviation nx :: "'a nq \<Rightarrow> nat \<Rightarrow> nat option" where "nx s a \<equiv> nnext (cells (hp s) a)"
abbreviation pv :: "'a nq \<Rightarrow> nat \<Rightarrow> nat option" where "pv s a \<equiv> nprev (cells (hp s) a)"

definition goto :: "nat \<Rightarrow> 'a pc \<Rightarrow> 'a nq \<Rightarrow> 'a nq" where
  "goto i p s = s\<lparr>thr := (thr s)[i := p]\<rparr>"

definition lock :: "lk \<Rightarrow> nat \<Rightarrow> 'a pc \<Rightarrow> 'a nq \<Rightarrow> 'a nq option" where
  "lock k i p s = (if own s k = None then Some (goto i p (s\<lparr>own := (own s)(k := Some i)\<rparr>)) else None)"

definition unlock :: "lk \<Rightarrow> nat \<Rightarrow> 'a pc \<Rightarrow> 'a nq \<Rightarrow> 'a nq" where
  "unlock k i p s = goto i p (s\<lparr>own := (own s)(k := None)\<rparr>)"

definition log :: "nat \<Rightarrow> 'a qop \<Rightarrow> 'a nq \<Rightarrow> 'a nq" where
  "log i c s = s\<lparr>hist := hist s @ [(i, c)]\<rparr>"

definition panicked :: "'a nq \<Rightarrow> 'a nq" where
  "panicked s = s\<lparr>npanic := True\<rparr>"

definition opt_lk :: "(nat \<Rightarrow> lk) \<Rightarrow> nat option \<Rightarrow> lk list" where
  "opt_lk f x = (case x of None \<Rightarrow> [] | Some a \<Rightarrow> [f a])"

lemma length_opt_lk [simp]: "length (opt_lk f x) = (if x = None then 0 else 1)"
  by (simp add: opt_lk_def split: option.splits)

text \<open>The first part of \<^verbatim>\<open>AddLeft\<close>'s body, up to \<^verbatim>\<open>n.prev.next = newNode\<close>, and of
  \<^verbatim>\<open>_RemoveSelf\<close>, up to \<^verbatim>\<open>n.prev.next = n.next\<close>, with the second parts.\<close>

definition link_next :: "nat \<Rightarrow> 'a \<Rightarrow> 'a heap \<Rightarrow> nat \<times> 'a heap" where
  "link_next n v h =
     (let (a, h1) = new_node \<lparr>nval = v, nnext = Some n, nprev = nprev (cells h n)\<rparr> h
      in (a, case nprev (cells h n) of None \<Rightarrow> h1 | Some b \<Rightarrow> set_next b (Some a) h1))"

definition cut_next :: "nat \<Rightarrow> 'a heap \<Rightarrow> 'a heap" where
  "cut_next n h = (case nprev (cells h n) of None \<Rightarrow> h | Some p \<Rightarrow> set_next p (nnext (cells h n)) h)"

definition cut_prev :: "nat \<Rightarrow> 'a heap \<Rightarrow> 'a heap" where
  "cut_prev n h = (case nnext (cells h n) of None \<Rightarrow> h | Some q \<Rightarrow> set_prev q (nprev (cells h n)) h)"

text \<open>A step of call \<open>i\<close>; \<open>b\<close> chooses between the two releasing goroutines.  \<open>None\<close>: the
  call is blocked, or has nothing left to do.\<close>

fun advance :: "bool \<Rightarrow> nat \<Rightarrow> 'a pc \<Rightarrow> 'a nq \<Rightarrow> 'a nq option" where
  "advance b i (EStart v) s = Some (goto i (if pv s (qt s) = None then ELeft v None else ERead v) s)"
| "advance b i (ERead v) s =
     Some (case pv s (qt s) of None \<Rightarrow> panicked s | Some l \<Rightarrow> goto i (ELock v l) s)"
| "advance b i (ELock v l) s = lock (RL l) i (ECheck v l) s"
| "advance b i (ECheck v l) s = Some (goto i (if pv s (qt s) = Some l then ELeft v (Some l) else EUnlock v l) s)"
| "advance b i (EUnlock v l) s = Some (unlock (RL l) i (ERead v) s)"
| "advance b i (ELeft v l) s = lock (LL (qt s)) i (EIns v l) s"
| "advance b i (EIns v l) s =
     (let (a, h) = link_next (qt s) v (hp s) in Some (log i (Enq v) (goto i (ESet v l a) (s\<lparr>hp := h\<rparr>))))"
| "advance b i (ESet v l a) s =
     Some (goto i (Free (Enq v) (LL (qt s) # opt_lk RL l) []) (s\<lparr>hp := set_prev (qt s) (Some a) (hp s)\<rparr>))"
| "advance b i DStart s = lock (RL (qh s)) i DNext s"
| "advance b i DNext s = Some (goto i (case nx s (qh s) of None \<Rightarrow> DTest None | Some r \<Rightarrow> DLock r) s)"
| "advance b i (DLock r) s = lock (LL r) i (DTest (Some r)) s"
| "advance b i (DTest r) s =
     Some (case nx s (qh s) of
        None \<Rightarrow> panicked s
      | Some n \<Rightarrow>
          if n = qt s then log i (Deq None) (goto i (Free (Deq None) (opt_lk LL r @ [RL (qh s)]) []) s)
          else goto i (DRight r n) s)"
| "advance b i (DRight r n) s = lock (RL n) i (DRNext r n) s"
| "advance b i (DRNext r n) s = Some (goto i (case nx s n of None \<Rightarrow> DRem1 r n None | Some q \<Rightarrow> DRLock r n q) s)"
| "advance b i (DRLock r n q) s = lock (LL q) i (DRem1 r n (Some q)) s"
| "advance b i (DRem1 r n q) s =
     Some (log i (Deq (Some (nval (cells (hp s) n)))) (goto i (DRem2 r n q) (s\<lparr>hp := cut_next n (hp s)\<rparr>)))"
| "advance b i (DRem2 r n q) s =
     Some (goto i (Free (Deq (Some (nval (cells (hp s) n)))) (opt_lk LL q @ [RL n]) (opt_lk LL r @ [RL (qh s)]))
       (s\<lparr>hp := cut_prev n (hp s)\<rparr>))"
| "advance b i (Free c ks js) s =
     (if b then case ks of [] \<Rightarrow> None | k # ks \<Rightarrow> Some (unlock k i (Free c ks js) s)
      else case js of [] \<Rightarrow> None | j # js \<Rightarrow> Some (unlock j i (Free c ks js) s))"

definition nq_step :: "'a nq \<Rightarrow> 'a nq \<Rightarrow> bool" where
  "nq_step s s' \<longleftrightarrow> (\<exists>i b. i < length (thr s) \<and> advance b i (thr s ! i) s = Some s')"

inductive nq_go :: "'a nq \<Rightarrow> 'a nq \<Rightarrow> bool" where
  call_enqueue: "nq_go s (s\<lparr>thr := thr s @ [EStart v]\<rparr>)"
| call_dequeue: "nq_go s (s\<lparr>thr := thr s @ [DStart]\<rparr>)"
| move: "nq_step s s' \<Longrightarrow> nq_go s s'"

text \<open>The two parts in sequence are the operations of \<open>Data_Structures\<close>.\<close>

lemma link_AddLeft: "link_next n v h = (a, h') \<Longrightarrow> AddLeft n v h = (a, set_prev n (Some a) h')"
  by (auto simp: link_next_def AddLeft_def new_node_def Let_def split: option.splits)

lemma cut_RemoveSelf: "snd (RemoveSelf n h) = cut_prev n (cut_next n h)"
  by (simp add: RemoveSelf_def cut_next_def cut_prev_def Let_def)

section \<open>Locks\<close>

text \<open>The locks a call holds in a state; the owner of a lock is the call that holds it.\<close>

fun holds :: "'a nq \<Rightarrow> 'a pc \<Rightarrow> lk list" where
  "holds s (ECheck v l) = [RL l]"
| "holds s (EUnlock v l) = [RL l]"
| "holds s (ELeft v l) = opt_lk RL l"
| "holds s (EIns v l) = LL (qt s) # opt_lk RL l"
| "holds s (ESet v l a) = LL (qt s) # opt_lk RL l"
| "holds s DNext = [RL (qh s)]"
| "holds s (DLock r) = [RL (qh s)]"
| "holds s (DTest r) = opt_lk LL r @ [RL (qh s)]"
| "holds s (DRight r n) = opt_lk LL r @ [RL (qh s)]"
| "holds s (DRNext r n) = RL n # opt_lk LL r @ [RL (qh s)]"
| "holds s (DRLock r n q) = RL n # opt_lk LL r @ [RL (qh s)]"
| "holds s (DRem1 r n q) = opt_lk LL q @ RL n # opt_lk LL r @ [RL (qh s)]"
| "holds s (DRem2 r n q) = opt_lk LL q @ RL n # opt_lk LL r @ [RL (qh s)]"
| "holds s (Free c ks js) = ks @ js"
| "holds s _ = []"

definition locks_ok :: "'a nq \<Rightarrow> bool" where
  "locks_ok s \<longleftrightarrow> (\<forall>k i. own s k = Some i \<longleftrightarrow> i < length (thr s) \<and> k \<in> set (holds s (thr s ! i)))
     \<and> (\<forall>i < length (thr s). distinct (holds s (thr s ! i)))"

lemma fields_upd [simp]:
  "hp (goto i p s) = hp s" "qh (goto i p s) = qh s" "qt (goto i p s) = qt s" "own (goto i p s) = own s"
  "thr (goto i p s) = (thr s)[i := p]" "hist (goto i p s) = hist s" "npanic (goto i p s) = npanic s"
  "hp (log i c s) = hp s" "qh (log i c s) = qh s" "qt (log i c s) = qt s" "own (log i c s) = own s"
  "thr (log i c s) = thr s" "hist (log i c s) = hist s @ [(i, c)]" "npanic (log i c s) = npanic s"
  "hp (unlock k i p s) = hp s" "qh (unlock k i p s) = qh s" "qt (unlock k i p s) = qt s"
  "own (unlock k i p s) = (own s)(k := None)" "thr (unlock k i p s) = (thr s)[i := p]"
  "hist (unlock k i p s) = hist s" "npanic (unlock k i p s) = npanic s"
  by (simp_all add: goto_def log_def unlock_def)

lemma lock_eq:
  "lock k i p s = Some s' \<longleftrightarrow> own s k = None \<and> s' = goto i p (s\<lparr>own := (own s)(k := Some i)\<rparr>)"
  by (auto simp: lock_def)

lemma holds_cong: "qh s' = qh s \<Longrightarrow> qt s' = qt s \<Longrightarrow> holds s' p = holds s p"
  by (cases p) simp_all

lemma locks_okI:
  assumes "locks_ok s" and "i < length (thr s)" and "thr s' = (thr s)[i := p]" and "qh s' = qh s" "qt s' = qt s"
    and "distinct (holds s p)"
    and "\<forall>k. own s' k = (if k \<in> set (holds s p) then Some i else if k \<in> set (holds s (thr s ! i)) then None else own s k)"
    and "\<forall>k \<in> set (holds s p). own s k = None \<or> own s k = Some i"
  shows "locks_ok s'"
proof -
  have h: "holds s' q = holds s q" for q
    using assms(4,5) by (rule holds_cong)
  have o: "own s k = Some j \<longleftrightarrow> j < length (thr s) \<and> k \<in> set (holds s (thr s ! j))" for k j
    using assms(1) by (simp add: locks_ok_def)
  have "own s' k = Some j \<longleftrightarrow> j < length (thr s') \<and> k \<in> set (holds s' (thr s' ! j))" for k j
    using assms(2,3,7,8) o[of k i] o[of k j] by (auto simp: h nth_list_update)
  moreover have "distinct (holds s' (thr s' ! j))" if "j < length (thr s')" for j
    using assms(1,2,3,6) that by (auto simp: h nth_list_update locks_ok_def)
  ultimately show ?thesis by (simp add: locks_ok_def)
qed

lemma locks_exclusive:
  assumes "locks_ok s" "i < length (thr s)" "j < length (thr s)"
    and "k \<in> set (holds s (thr s ! i))" "k \<in> set (holds s (thr s ! j))"
  shows "i = j"
proof -
  have "own s k = Some i" "own s k = Some j"
    using assms by (auto simp: locks_ok_def)
  then show ?thesis by simp
qed

section \<open>The list under way\<close>

text \<open>An edge whose backward pointer is not yet written, and the call that is to write it.\<close>

fun pend :: "'a nq \<Rightarrow> 'a pc \<Rightarrow> (nat \<times> nat) option" where
  "pend s (ESet v l a) = Some (a, qt s)"
| "pend s (DRem2 r n (Some q)) = Some (qh s, q)"
| "pend s _ = None"

definition edge_ok :: "'a nq \<Rightarrow> nat \<Rightarrow> nat \<Rightarrow> bool" where
  "edge_ok s a b \<longleftrightarrow> nx s a = Some b \<and> (pv s b = Some a \<or> (\<exists>j < length (thr s). pend s (thr s ! j) = Some (a, b)))"

definition chain_ok :: "'a nq \<Rightarrow> nat list \<Rightarrow> bool" where
  "chain_ok s qs \<longleftrightarrow> distinct (qh s # qs @ [qt s]) \<and> (\<forall>a \<in> set (qh s # qs @ [qt s]). a < fresh (hp s))
     \<and> nx s (qt s) = None \<and> successively (edge_ok s) (qh s # qs @ [qt s])"

text \<open>What a call knows at each point, by the locks it holds.\<close>

fun knows :: "'a nq \<Rightarrow> nat list \<Rightarrow> 'a pc \<Rightarrow> bool" where
  "knows s qs (ELeft v l) \<longleftrightarrow> l = Some (last (qh s # qs)) \<and> pv s (qt s) = l"
| "knows s qs (EIns v l) \<longleftrightarrow> l = Some (last (qh s # qs)) \<and> pv s (qt s) = l"
| "knows s qs (ESet v l a) \<longleftrightarrow> (\<exists>xs b. l = Some b \<and> qh s # qs = xs @ [b, a] \<and> pv s (qt s) = l)"
| "knows s qs (DLock r) \<longleftrightarrow> nx s (qh s) = Some r"
| "knows s qs (DTest r) \<longleftrightarrow> nx s (qh s) = r \<and> r \<noteq> None"
| "knows s qs (DRight r n) \<longleftrightarrow> nx s (qh s) = Some n \<and> r = Some n \<and> n \<noteq> qt s"
| "knows s qs (DRNext r n) \<longleftrightarrow> nx s (qh s) = Some n \<and> r = Some n \<and> n \<noteq> qt s"
| "knows s qs (DRLock r n q) \<longleftrightarrow> nx s (qh s) = Some n \<and> r = Some n \<and> n \<noteq> qt s \<and> nx s n = Some q"
| "knows s qs (DRem1 r n q) \<longleftrightarrow> nx s (qh s) = Some n \<and> r = Some n \<and> n \<noteq> qt s \<and> nx s n = q \<and> q \<noteq> None"
| "knows s qs (DRem2 r n q) \<longleftrightarrow> q = Some (hd (qs @ [qt s])) \<and> r = Some n \<and> nx s n = q
     \<and> pv s (hd (qs @ [qt s])) = Some n \<and> pv s n = Some (qh s) \<and> n \<notin> set (qh s # qs @ [qt s]) \<and> n < fresh (hp s)"
| "knows s qs (Free c ks js) \<longleftrightarrow> length ks + length js \<le> 4"
| "knows s qs _ \<longleftrightarrow> True"

text \<open>What the history holds of a call.\<close>

fun effect :: "'a nq \<Rightarrow> 'a pc \<Rightarrow> 'a qop list" where
  "effect s (ESet v l a) = [Enq v]"
| "effect s (DRem2 r n q) = [Deq (Some (nval (cells (hp s) n)))]"
| "effect s (Free c ks js) = [c]"
| "effect s _ = []"

text \<open>A history that a list used as a queue could have, with the list it leaves.\<close>

fun legal :: "'a qop list \<Rightarrow> 'a list \<Rightarrow> 'a list option" where
  "legal [] xs = Some xs"
| "legal (Enq v # cs) xs = legal cs (xs @ [v])"
| "legal (Deq r # cs) xs =
     (case xs of [] \<Rightarrow> if r = None then legal cs [] else None
      | y # ys \<Rightarrow> if r = Some y then legal cs ys else None)"

lemma legal_append: "legal (cs @ ds) xs = (case legal cs xs of None \<Rightarrow> None | Some ys \<Rightarrow> legal ds ys)"
  by (induction cs xs rule: legal.induct) (auto split: list.splits)

definition ops_of :: "nat \<Rightarrow> 'a nq \<Rightarrow> 'a qop list" where
  "ops_of i s = map snd (filter (\<lambda>e. fst e = i) (hist s))"

definition nq_inv :: "nat list \<Rightarrow> 'a nq \<Rightarrow> bool" where
  "nq_inv qs s \<longleftrightarrow> locks_ok s \<and> chain_ok s qs \<and> \<not> npanic s
     \<and> (\<forall>i < length (thr s). knows s qs (thr s ! i) \<and> ops_of i s = effect s (thr s ! i))
     \<and> (\<forall>i \<ge> length (thr s). ops_of i s = [])
     \<and> legal (map snd (hist s)) [] = Some (map (\<lambda>a. nval (cells (hp s) a)) qs)"

section \<open>The invariant\<close>

lemma knows_cong:
  "hp s' = hp s \<Longrightarrow> qh s' = qh s \<Longrightarrow> qt s' = qt s \<Longrightarrow> knows s' qs p = knows s qs p"
  by (cases p) auto

lemma pend_DRem2: "pend s (DRem2 r n q) = map_option (Pair (qh s)) q"
  by (cases q) simp_all

lemma pend_cong: "qh s' = qh s \<Longrightarrow> qt s' = qt s \<Longrightarrow> pend s' p = pend s p"
  by (cases p) (simp_all add: pend_DRem2)

lemma effect_cong:
  assumes "knows s qs p" and "\<forall>a < fresh (hp s). nval (cells (hp s') a) = nval (cells (hp s) a)"
  shows "effect s' p = effect s p"
  using assms by (cases p) auto

text \<open>What has to be shown for a step of call \<open>i\<close> to \<open>p\<close> that adds \<open>cs\<close> to the history.\<close>

lemma inv_moveI:
  assumes "nq_inv qs s" and i: "i < length (thr s)" and t: "thr s' = (thr s)[i := p]"
    and "locks_ok s'" and "\<not> npanic s'" and h: "hist s' = hist s @ map (Pair i) cs"
    and "effect s' p = effect s (thr s ! i) @ cs"
    and "\<forall>a < fresh (hp s). nval (cells (hp s') a) = nval (cells (hp s) a)"
    and "chain_ok s' qs'" and "knows s' qs' p"
    and "\<And>j. j < length (thr s) \<Longrightarrow> j \<noteq> i \<Longrightarrow> knows s qs (thr s ! j) \<Longrightarrow> knows s' qs' (thr s ! j)"
    and "legal cs (map (\<lambda>a. nval (cells (hp s) a)) qs) = Some (map (\<lambda>a. nval (cells (hp s') a)) qs')"
  shows "nq_inv qs' s'"
proof -
  have o: "ops_of j s' = ops_of j s @ (if j = i then cs else [])" for j
    by (simp add: ops_of_def h filter_map comp_def)
  have "ops_of j s' = effect s' (thr s' ! j) \<and> knows s' qs' (thr s' ! j)" if j: "j < length (thr s')" for j
  proof (cases "j = i")
    case True
    then show ?thesis using assms(1,7,10) i by (simp add: o t nq_inv_def)
  next
    case False
    have "knows s qs (thr s ! j)" "ops_of j s = effect s (thr s ! j)"
      using assms(1) j by (auto simp: t nq_inv_def)
    then show ?thesis
      using False j assms(11)[of j] effect_cong[OF _ assms(8)] by (simp add: o t)
  qed
  moreover have "ops_of j s' = []" if "j \<ge> length (thr s')" for j
    using that i assms(1) by (simp add: o t nq_inv_def)
  moreover have "legal (map snd (hist s')) [] = Some (map (\<lambda>a. nval (cells (hp s') a)) qs')"
    using assms(1,12) by (simp add: h legal_append nq_inv_def comp_def)
  ultimately show ?thesis
    using assms(4,5,9) by (simp add: nq_inv_def)
qed

lemma edge_keep:
  assumes "edge_ok s a b" and "thr s' = (thr s)[i := p]" and "qh s' = qh s" "qt s' = qt s"
    and "pend s (thr s ! i) \<noteq> Some (a, b)" and "nx s' a = nx s a" and "pv s' b = pv s b"
  shows "edge_ok s' a b"
proof -
  have "\<exists>j < length (thr s'). pend s' (thr s' ! j) = Some (a, b)"
    if m: "\<exists>j < length (thr s). pend s (thr s ! j) = Some (a, b)"
  proof -
    obtain j where "j < length (thr s)" "pend s (thr s ! j) = Some (a, b)"
      using m by blast
    moreover from this have "j \<noteq> i"
      using assms(5) by blast
    ultimately show ?thesis
      using assms(2) pend_cong[OF assms(3,4)] by (intro exI[of _ j]) simp
  qed
  then show ?thesis
    using assms(1,6,7) by (auto simp: edge_ok_def)
qed

text \<open>Steps that only read, lock or unlock.\<close>

lemma inv_quiet:
  assumes "nq_inv qs s" and i: "i < length (thr s)" and t: "thr s' = (thr s)[i := p]"
    and "locks_ok s'" and "npanic s' = npanic s" and h: "hist s' = hist s @ map (Pair i) cs"
    and f: "hp s' = hp s" "qh s' = qh s" "qt s' = qt s"
    and "effect s p = effect s (thr s ! i) @ cs" and "pend s (thr s ! i) = None" and "knows s qs p"
    and "legal cs (map (\<lambda>a. nval (cells (hp s) a)) qs) = Some (map (\<lambda>a. nval (cells (hp s) a)) qs)"
  shows "nq_inv qs s'"
proof (rule inv_moveI[OF assms(1-4) _ h])
  have "successively (edge_ok s') (qh s # qs @ [qt s])"
    using assms(1) unfolding nq_inv_def chain_ok_def
    by (elim conjE successively_mono) (auto intro!: edge_keep[OF _ t] simp: f assms(11))
  then show "chain_ok s' qs"
    using assms(1) by (simp add: nq_inv_def chain_ok_def f)
  show "effect s' p = effect s (thr s ! i) @ cs"
    using effect_cong[OF assms(12), of s'] by (simp add: f assms(10))
qed (use assms knows_cong[OF f] in \<open>auto simp: nq_inv_def\<close>)

lemma own_free: "locks_ok s \<Longrightarrow> own s k = None \<Longrightarrow> j < length (thr s) \<Longrightarrow> k \<notin> set (holds s (thr s ! j))"
  by (metis locks_ok_def option.distinct(1))

lemma own_held:
  "locks_ok s \<Longrightarrow> i < length (thr s) \<Longrightarrow> k \<in> set (holds s (thr s ! i)) \<Longrightarrow> own s k = Some i"
  by (auto simp: locks_ok_def)

text \<open>Acquiring, keeping and releasing.\<close>

lemma locks_acquire:
  assumes "locks_ok s" "i < length (thr s)" "own s k = None" "thr s' = (thr s)[i := p]" "qh s' = qh s" "qt s' = qt s"
    and "own s' = (own s)(k := Some i)" "set (holds s p) = insert k (set (holds s (thr s ! i)))" "distinct (holds s p)"
  shows "locks_ok s'"
  by (rule locks_okI[OF assms(1,2,4,5,6,9)])
    (use assms(3,7,8) own_held[OF assms(1,2)] in auto)

lemma locks_keep:
  assumes "locks_ok s" "i < length (thr s)" "thr s' = (thr s)[i := p]" "qh s' = qh s" "qt s' = qt s"
    and "own s' = own s" "set (holds s p) = set (holds s (thr s ! i))" "distinct (holds s p)"
  shows "locks_ok s'"
  by (rule locks_okI[OF assms(1-5,8)]) (use assms(6,7) own_held[OF assms(1,2)] in auto)

lemma locks_release:
  assumes "locks_ok s" "i < length (thr s)" "k \<in> set (holds s (thr s ! i))" "thr s' = (thr s)[i := p]" "qh s' = qh s" "qt s' = qt s"
    and "own s' = (own s)(k := None)" "set (holds s p) = set (holds s (thr s ! i)) - {k}" "distinct (holds s p)"
  shows "locks_ok s'"
  by (rule locks_okI[OF assms(1,2,4,5,6,9)])
    (use assms(3,7,8) own_held[OF assms(1,2)] in auto)

lemma inv_locks: "nq_inv qs s \<Longrightarrow> locks_ok s"
  by (simp add: nq_inv_def)

lemma inv_knows: "nq_inv qs s \<Longrightarrow> i < length (thr s) \<Longrightarrow> thr s ! i = p \<Longrightarrow> knows s qs p"
  by (auto simp: nq_inv_def)

lemma inv_distinct: "nq_inv qs s \<Longrightarrow> i < length (thr s) \<Longrightarrow> thr s ! i = p \<Longrightarrow> distinct (holds s p)"
  by (auto simp: nq_inv_def locks_ok_def)

lemma inv_acquire:
  assumes "nq_inv qs s" "i < length (thr s)" "lock k i p s = Some s'"
    and "set (holds s p) = insert k (set (holds s (thr s ! i)))"
    and "own s k = None \<Longrightarrow> distinct (holds s p)"
    and "effect s p = effect s (thr s ! i)" "pend s (thr s ! i) = None" "knows s qs p"
  shows "nq_inv qs s'"
proof -
  have l: "own s k = None" "s' = goto i p (s\<lparr>own := (own s)(k := Some i)\<rparr>)"
    using assms(3) by (auto simp: lock_eq)
  have "locks_ok s'"
    by (rule locks_acquire[OF inv_locks[OF assms(1)] assms(2) l(1)]) (use assms l in auto)
  then show ?thesis
    by (intro inv_quiet[OF assms(1,2), where cs = "[]" and p = p]) (use assms(6-8) l(2) in auto)
qed

lemma inv_keep:
  assumes "nq_inv qs s" "i < length (thr s)" "s' = goto i p s"
    and "set (holds s p) = set (holds s (thr s ! i))" "distinct (holds s p)"
    and "effect s p = effect s (thr s ! i)" "pend s (thr s ! i) = None" "knows s qs p"
  shows "nq_inv qs s'"
proof -
  have "locks_ok s'"
    by (rule locks_keep[OF inv_locks[OF assms(1)] assms(2)]) (use assms in auto)
  then show ?thesis
    by (intro inv_quiet[OF assms(1,2), where cs = "[]" and p = p]) (use assms(3,6-8) in auto)
qed

lemma inv_release:
  assumes "nq_inv qs s" "i < length (thr s)" "s' = unlock k i p s" "k \<in> set (holds s (thr s ! i))"
    and "set (holds s p) = set (holds s (thr s ! i)) - {k}" "distinct (holds s p)"
    and "effect s p = effect s (thr s ! i)" "pend s (thr s ! i) = None" "knows s qs p"
  shows "nq_inv qs s'"
proof -
  have "locks_ok s'"
    by (rule locks_release[OF inv_locks[OF assms(1)] assms(2,4)]) (use assms in auto)
  then show ?thesis
    by (intro inv_quiet[OF assms(1,2), where cs = "[]" and p = p]) (use assms(3,7-9) in auto)
qed

text \<open>The ends of the list: the first node, and the tail's backward pointer.\<close>

lemma chain_first:
  assumes "chain_ok s qs" shows "nx s (qh s) = Some (hd (qs @ [qt s]))"
  using assms by (cases qs) (auto simp: chain_ok_def edge_ok_def)

lemma chain_last:
  assumes "chain_ok s qs"
  shows "edge_ok s (last (qh s # qs)) (qt s)"
  using assms unfolding chain_ok_def
  by (cases qs rule: rev_cases) (auto simp: successively_append_iff successively_Cons)

text \<open>A backward pointer that no call is about to write is right; one that a call is about to
  write points to a node whose right lock that call holds.\<close>

lemma tail_prev:
  assumes "nq_inv qs s"
  obtains "pv s (qt s) = Some (last (qh s # qs))"
  | j l where "j < length (thr s)" "pv s (qt s) = Some l" "RL l \<in> set (holds s (thr s ! j))"
      "pend s (thr s ! j) \<noteq> None"
proof -
  have "edge_ok s (last (qh s # qs)) (qt s)"
    using chain_last[of s qs] assms unfolding nq_inv_def by blast
  then consider "pv s (qt s) = Some (last (qh s # qs))"
    | j where "j < length (thr s)" "pend s (thr s ! j) = Some (last (qh s # qs), qt s)"
    by (auto simp: edge_ok_def)
  then show ?thesis
  proof cases
    case (2 j)
    have k: "knows s qs (thr s ! j)"
      using assms 2(1) by (simp add: nq_inv_def)
    show ?thesis
    proof (cases "thr s ! j")
      case (ESet v l a)
      then show ?thesis using that(2)[OF 2(1)] k by (auto simp: opt_lk_def)
    next
      case (DRem2 r n q)
      then show ?thesis using that(2)[OF 2(1), of n] k 2(2) by (auto simp: opt_lk_def)
    qed (use 2(2) in auto)
  qed (use that in blast)
qed

text \<open>The four writes.\<close>

lemma inv_chain: "nq_inv qs s \<Longrightarrow> chain_ok s qs"
  by (simp add: nq_inv_def)

lemma inv_panic: "nq_inv qs s \<Longrightarrow> \<not> npanic s"
  by (simp add: nq_inv_def)

lemma chain_edges:
  "chain_ok s qs \<Longrightarrow> successively (edge_ok s) (qh s # qs @ [qt s])"
  "chain_ok s qs \<Longrightarrow> distinct (qh s # qs @ [qt s])"
  "chain_ok s qs \<Longrightarrow> a \<in> set (qh s # qs @ [qt s]) \<Longrightarrow> a < fresh (hp s)"
  by (auto simp: chain_ok_def)

lemma chain_inner: "chain_ok s qs \<Longrightarrow> successively (edge_ok s) (qh s # qs)"
  using successively_append_iff[of "edge_ok s" "qh s # qs" "[qt s]"] by (simp add: chain_ok_def)

lemma hd_chain: "hd (qs @ [qt s]) \<in> set (qs @ [qt s])"
  by (rule hd_in_set) simp

lemma successively_tl_mono:
  assumes "successively P (x # xs)" and "\<And>u v. v \<in> set xs \<Longrightarrow> P u v \<Longrightarrow> Q u v"
  shows "successively Q (x # xs)"
  using assms by (induction xs arbitrary: x) auto

text \<open>What others know survives the append of \<open>a\<close>, as they hold neither lock that covers it.\<close>

lemma link_knows:
  assumes C: "chain_ok s qs" and k: "knows s qs p" and a: "a = fresh (hp s)" and la: "la = last (qh s # qs)"
    and g: "qh s' = qh s" "qt s' = qt s" "fresh (hp s') = Suc a"
    and N: "\<And>x. x \<noteq> la \<Longrightarrow> x < a \<Longrightarrow> nx s' x = nx s x" and P: "\<And>x. x < a \<Longrightarrow> pv s' x = pv s x"
    and ex: "RL la \<notin> set (holds s p)" "LL (qt s) \<notin> set (holds s p)"
  shows "knows s' (qs @ [a]) p"
proof -
  have f: "hd (qs @ [qt s]) < a" "qh s < a" "a \<noteq> qt s"
    using hd_chain[of qs s] chain_edges(3)[OF C] by (auto simp: a)
  have R: "x \<noteq> la" if "RL x \<in> set (holds s p)" for x
    using ex(1) that by auto
  have D: "nx s' (qh s) = nx s (qh s) \<and> qs \<noteq> []" if "RL (qh s) \<in> set (holds s p)"
    using R[OF that] N f(2) by (auto simp: la)
  show ?thesis
  proof (cases p)
    case (DRLock r n q)
    then show ?thesis using k D R[of n] N[of n] f chain_first[OF C] by (simp add: g)
  next
    case (DRem1 r n q)
    then show ?thesis using k D R[of n] N[of n] f chain_first[OF C] by (simp add: g)
  next
    case (DRem2 r n q)
    have "n < a" using k DRem2 by (simp add: a)
    then show ?thesis using DRem2 k D R[of n] N[of n] P f by (simp add: g)
  next
    case (ELeft w m)
    then show ?thesis using k R[of la] by (simp add: opt_lk_def la)
  qed (use k D ex(2) in \<open>simp_all add: g\<close>)
qed

lemma inv_link:
  assumes I: "nq_inv qs s" and i: "i < length (thr s)" and p: "thr s ! i = EIns v l"
    and s': "advance b i (EIns v l) s = Some s'"
  shows "nq_inv (qs @ [fresh (hp s)]) s'"
proof -
  define a where "a = fresh (hp s)"
  define la where "la = last (qh s # qs)"
  note C = inv_chain[OF I]
  have k: "l = Some la" "pv s (qt s) = Some la"
    using inv_knows[OF I i p] by (auto simp: la_def)
  have la: "la \<in> set (qh s # qs)"
    unfolding la_def by (rule last_in_set) simp
  have f: "la < a" "la \<noteq> qt s" "qh s < a" "qt s < a" "\<forall>x \<in> set qs. x < a"
    using chain_edges(2,3)[OF C] la by (auto simp: a_def)
  obtain h where h: "link_next (qt s) v (hp s) = (a, h)"
    by (simp add: link_next_def new_node_def k(2) a_def)
  have hc: "fresh h = Suc a"
    "\<And>x. cells h x = (if x = la then (cells (hp s) la)\<lparr>nnext := Some a\<rparr>
       else if x = a then \<lparr>nval = v, nnext = Some (qt s), nprev = Some la\<rparr> else cells (hp s) x)"
    using h f(1) by (auto simp: link_next_def new_node_def k(2) a_def set_next_def)
  have e: "s' = log i (Enq v) (goto i (ESet v l a) (s\<lparr>hp := h\<rparr>))"
    using s' h by simp
  have ex: "x \<notin> set (holds s (thr s ! j))" if "j < length (thr s)" "j \<noteq> i" "x \<in> {RL la, LL (qt s)}" for j x
    using locks_exclusive[OF inv_locks[OF I] that(1) i, of x] that p k(1) by (auto simp: opt_lk_def)
  have L: "locks_ok s'"
    by (rule locks_keep[OF inv_locks[OF I] i, where p = "ESet v l a"])
      (use inv_distinct[OF I i p] in \<open>auto simp: e p\<close>)
  have keep: "edge_ok s' x y" if "edge_ok s x y" "x \<noteq> la" "x < a" "y < a" for x y
    by (rule edge_keep[OF that(1), where i = i and p = "ESet v l a"]) (use that in \<open>auto simp: e p hc(2)\<close>)
  obtain xs where xs: "qh s # qs = xs @ [la]"
    by (metis append_butlast_last_id la_def list.distinct(1))
  have "successively (edge_ok s) (xs @ [la])" "distinct (xs @ [la])" "\<forall>x \<in> set (xs @ [la]). x < a"
    using chain_inner[OF C] chain_edges(2)[OF C] f unfolding xs[symmetric] by auto
  then have "successively (edge_ok s') (xs @ [la])"
    by (auto simp: successively_append_iff intro!: keep elim!: successively_mono)
  moreover have "edge_ok s' la a" "edge_ok s' a (qt s)"
    using f i by (auto simp: edge_ok_def e hc(2) intro!: exI[of _ i])
  ultimately have "successively (edge_ok s') (xs @ [la, a, qt s])"
    by (auto simp: successively_append_iff)
  then have "successively (edge_ok s') ((qh s # qs) @ [a, qt s])"
    unfolding xs by simp
  then have ch: "chain_ok s' (qs @ [a])"
    using C f unfolding chain_ok_def by (auto simp: e hc)
  show ?thesis unfolding a_def[symmetric]
  proof (rule inv_moveI[OF I i, where p = "ESet v l a" and cs = "[Enq v]"])
    fix j assume j: "j < length (thr s)" "j \<noteq> i" "knows s qs (thr s ! j)"
    show "knows s' (qs @ [a]) (thr s ! j)"
      by (rule link_knows[OF C j(3) a_def la_def]) (use ex[OF j(1,2)] in \<open>auto simp: e hc\<close>)
  next
    show "\<forall>x < fresh (hp s). nval (cells (hp s') x) = nval (cells (hp s) x)"
      by (simp add: e hc a_def)
    show "knows s' (qs @ [a]) (ESet v l a)"
      using xs k f by (simp add: e hc)
    show "legal [Enq v] (map (\<lambda>x. nval (cells (hp s) x)) qs) = Some (map (\<lambda>x. nval (cells (hp s') x)) (qs @ [a]))"
      using f by (auto simp: e hc)
  qed (use ch L inv_panic[OF I] in \<open>simp_all add: e p\<close>)
qed

lemma inv_set_prev:
  assumes I: "nq_inv qs s" and i: "i < length (thr s)" and p: "thr s ! i = ESet v l a"
    and s': "advance b i (ESet v l a) s = Some s'"
  shows "nq_inv qs s'"
proof -
  define p' :: "'a pc" where "p' = Free (Enq v) (LL (qt s) # opt_lk RL l) []"
  define h where "h = set_prev (qt s) (Some a) (hp s)"
  have e: "s' = goto i p' (s\<lparr>hp := h\<rparr>)"
    using s' by (simp add: p'_def h_def)
  note C = inv_chain[OF I]
  obtain xs c where k: "l = Some c" "qh s # qs = xs @ [c, a]" "pv s (qt s) = Some c"
    using inv_knows[OF I i p] by auto
  have hc: "fresh h = fresh (hp s)" "\<And>x. nnext (cells h x) = nx s x" "\<And>x. nval (cells h x) = nval (cells (hp s) x)"
    "\<And>x. nprev (cells h x) = (if x = qt s then Some a else pv s x)"
    by (simp_all add: h_def)
  have la: "last (qh s # qs) = a" "a \<noteq> c" "qs \<noteq> []"
    using k(2) chain_edges(2)[OF C] by (auto simp: Cons_eq_append_conv)
  have L: "locks_ok s'"
    by (rule locks_keep[OF inv_locks[OF I] i, where p = p']) (use inv_distinct[OF I i p] in \<open>auto simp: e p p'_def\<close>)
  have keep: "edge_ok s' x y" if "edge_ok s x y" "y \<noteq> qt s" for x y
    by (rule edge_keep[OF that(1), where i = i and p = p']) (use that in \<open>auto simp: e p hc\<close>)
  have "successively (edge_ok s') (qh s # qs)"
    by (rule successively_mono[OF chain_inner[OF C]]) (use chain_edges(2)[OF C] keep in auto)
  moreover have "edge_ok s' (last (qh s # qs)) (qt s)"
    using chain_last[OF C] la by (auto simp: edge_ok_def e hc)
  ultimately have "successively (edge_ok s') ((qh s # qs) @ [qt s])"
    unfolding successively_append_iff by simp
  then have ch: "chain_ok s' qs"
    using C by (simp add: chain_ok_def e hc)
  show ?thesis
  proof (rule inv_moveI[OF I i, where p = p' and cs = "[]"])
    fix j assume j: "j < length (thr s)" "j \<noteq> i" "knows s qs (thr s ! j)"
    have ex: "LL (qt s) \<notin> set (holds s (thr s ! j))"
      using locks_exclusive[OF inv_locks[OF I] j(1) i, of "LL (qt s)"] j(2) p by auto
    show "knows s' qs (thr s ! j)"
    proof (cases "thr s ! j")
      case (DRem2 r n q)
      then have "hd (qs @ [qt s]) \<noteq> qt s" using j(3) ex by (auto simp: opt_lk_def)
      then show ?thesis using DRem2 j(3) by (simp add: e hc)
    next
      case (ELeft w m)
      then show ?thesis using j(3) k(3) la by auto
    qed (use j(3) ex in \<open>simp_all add: e hc\<close>)
  qed (use ch L inv_panic[OF I] in \<open>simp_all add: e p p'_def hc\<close>)
qed

text \<open>The backward pointers at the first node are right for the call that holds the head's
  right lock.\<close>

lemma first_back:
  assumes I: "nq_inv (n # rest) s" and i: "i < length (thr s)" "RL (qh s) \<in> set (holds s (thr s ! i))" "pend s (thr s ! i) = None"
    and e: "edge_ok s x y" and x: "x \<in> {qh s, n}"
  shows "pv s y = Some x"
proof (rule ccontr)
  assume "pv s y \<noteq> Some x"
  then obtain j where j: "j < length (thr s)" "pend s (thr s ! j) = Some (x, y)"
    using e by (auto simp: edge_ok_def)
  then have X: "RL (qh s) \<notin> set (holds s (thr s ! j))"
    using locks_exclusive[OF inv_locks[OF I] j(1) i(1), of "RL (qh s)"] i(2,3) by auto
  show False
  proof (cases "thr s ! j")
    case (ESet w l a)
    obtain xs c where xs: "l = Some c" "qh s # n # rest = xs @ [c, a]"
      using ESet inv_knows[OF I j(1) ESet] by auto
    have "c \<noteq> qh s" using X ESet xs(1) by (auto simp: opt_lk_def)
    then show False
      using xs(2) j(2) ESet x chain_edges(2)[OF inv_chain[OF I]] by (auto simp: Cons_eq_append_conv)
  qed (use j(2) X in auto)
qed

text \<open>What others know survives the removal of the first node.\<close>

lemma cut_knows:
  assumes k: "knows s (n # rest) p" and g: "qh s' = qh s" "qt s' = qt s" and P: "\<And>x. pv s' x = pv s x"
    and ex: "RL (qh s) \<notin> set (holds s p)" "RL n \<notin> set (holds s p)"
  shows "knows s' rest p"
proof (cases p)
  case (ESet w l a)
  obtain xs c where x: "l = Some c" "qh s # n # rest = xs @ [c, a]" "pv s (qt s) = Some c"
    using k ESet by auto
  then have "c \<noteq> qh s" "c \<noteq> n" using ex ESet by (auto simp: opt_lk_def)
  then obtain ys where "xs = qh s # n # ys"
    using x(2) by (auto simp: Cons_eq_append_conv)
  then show ?thesis using ESet x by (auto simp: g P intro!: exI[of _ "qh s # ys"])
qed (use k ex in \<open>auto simp: g P opt_lk_def\<close>)

lemma inv_cut_next:
  assumes I: "nq_inv qs s" and i: "i < length (thr s)" and p: "thr s ! i = DRem1 r n q"
    and s': "advance b i (DRem1 r n q) s = Some s'"
  shows "nq_inv (tl qs) s'"
proof -
  define u where "u = nval (cells (hp s) n)"
  define h where "h = cut_next n (hp s)"
  have e: "s' = log i (Deq (Some u)) (goto i (DRem2 r n q) (s\<lparr>hp := h\<rparr>))"
    using s' by (simp add: u_def h_def)
  note C = inv_chain[OF I]
  obtain rest where k: "qs = n # rest" "r = Some n" "nx s n = q" "n \<noteq> qt s"
    using inv_knows[OF I i p] chain_first[OF C] by (cases qs) auto
  have ex: "x \<notin> set (holds s (thr s ! j))" if "j < length (thr s)" "j \<noteq> i" "x \<in> {RL n, RL (qh s)}" for j x
    using locks_exclusive[OF inv_locks[OF I] that(1) i, of x] that p by auto
  have q: "q = Some (hd (rest @ [qt s]))"
    using chain_edges(1)[OF C] k by (cases rest) (auto simp: edge_ok_def)
  have d: "distinct (qh s # n # rest @ [qt s])"
    using chain_edges(2)[OF C] k(1) by simp
  note bk = first_back[OF I[unfolded k(1)] i]
  have pn: "pv s n = Some (qh s)" and pq: "pv s (hd (rest @ [qt s])) = Some n"
    using chain_edges(1)[OF C] k(1) by (auto intro!: bk simp: successively_Cons p)
  have hc: "fresh h = fresh (hp s)" "\<And>x. nprev (cells h x) = pv s x" "\<And>x. nval (cells h x) = nval (cells (hp s) x)"
    "\<And>x. nnext (cells h x) = (if x = qh s then q else nx s x)"
    by (simp_all add: h_def cut_next_def pn k(3))
  have L: "locks_ok s'"
    by (rule locks_keep[OF inv_locks[OF I] i, where p = "DRem2 r n q"]) (use inv_distinct[OF I i p] in \<open>auto simp: e p\<close>)
  have keep: "edge_ok s' x y" if "edge_ok s x y" "x \<noteq> qh s" for x y
    by (rule edge_keep[OF that(1), where i = i and p = "DRem2 r n q"]) (use that in \<open>auto simp: e p hc\<close>)
  have "successively (edge_ok s) (rest @ [qt s])"
    using chain_edges(1)[OF C] k(1) by (auto simp: successively_Cons)
  then have "successively (edge_ok s') (rest @ [qt s])"
    by (rule successively_mono) (use d keep in auto)
  moreover have "edge_ok s' (qh s) (hd (rest @ [qt s]))"
    using i q by (auto simp: edge_ok_def e hc intro!: exI[of _ i])
  ultimately have "successively (edge_ok s') (qh s # rest @ [qt s])"
    by (simp add: successively_Cons)
  then have ch: "chain_ok s' rest"
    using C k(1) d by (simp add: chain_ok_def e hc)
  have tl: "tl qs = rest" using k(1) by simp
  show ?thesis unfolding tl
  proof (rule inv_moveI[OF I i, where p = "DRem2 r n q" and cs = "[Deq (Some u)]"])
    fix j assume j: "j < length (thr s)" "j \<noteq> i" "knows s qs (thr s ! j)"
    show "knows s' rest (thr s ! j)"
      by (rule cut_knows[OF j(3)[unfolded k(1)]]) (use ex[OF j(1,2)] in \<open>auto simp: e hc\<close>)
  next
    show "knows s' rest (DRem2 r n q)"
      using d q k pn pq chain_edges(3)[OF C, of n] by (auto simp: e hc)
  qed (use ch L inv_panic[OF I] k(1) in \<open>simp_all add: e p hc u_def\<close>)
qed

lemma inv_cut_prev:
  assumes I: "nq_inv qs s" and i: "i < length (thr s)" and p: "thr s ! i = DRem2 r n q"
    and s': "advance b i (DRem2 r n q) s = Some s'"
  shows "nq_inv qs s'"
proof -
  define z where "z = hd (qs @ [qt s])"
  define h where "h = cut_prev n (hp s)"
  define p' where "p' = Free (Deq (Some (nval (cells (hp s) n)))) (opt_lk LL q @ [RL n]) (opt_lk LL r @ [RL (qh s)])"
  have e: "s' = goto i p' (s\<lparr>hp := h\<rparr>)"
    using s' by (simp add: p'_def h_def)
  note C = inv_chain[OF I]
  have k: "q = Some z" "nx s n = Some z" "pv s n = Some (qh s)"
    using inv_knows[OF I i p] by (auto simp: z_def)
  have hc: "fresh h = fresh (hp s)" "\<And>x. nnext (cells h x) = nx s x" "\<And>x. nval (cells h x) = nval (cells (hp s) x)"
    "\<And>x. nprev (cells h x) = (if x = z then Some (qh s) else pv s x)"
    by (simp_all add: h_def cut_prev_def k)
  have L: "locks_ok s'"
    by (rule locks_keep[OF inv_locks[OF I] i, where p = p']) (use inv_distinct[OF I i p] in \<open>auto simp: e p p'_def\<close>)
  have keep: "edge_ok s' x y" if "edge_ok s x y" "y \<noteq> z" for x y
    by (rule edge_keep[OF that(1), where i = i and p = p']) (use that in \<open>auto simp: e p hc k(1)\<close>)
  obtain zs where zs: "qs @ [qt s] = z # zs"
    by (cases qs) (auto simp: z_def)
  have E: "edge_ok s (qh s) z" "successively (edge_ok s) (z # zs)" "distinct (z # zs)"
    using chain_edges(1,2)[OF C] unfolding zs by auto
  have "edge_ok s' (qh s) z"
    using E(1) by (auto simp: edge_ok_def e hc)
  moreover have "successively (edge_ok s') (z # zs)"
    by (rule successively_tl_mono[OF E(2)]) (use E(3) keep in auto)
  ultimately have "successively (edge_ok s') (qh s # qs @ [qt s])"
    unfolding zs by simp
  then have ch: "chain_ok s' qs"
    using C by (simp add: chain_ok_def e hc)
  show ?thesis
  proof (rule inv_moveI[OF I i, where p = p' and cs = "[]"])
    fix j assume j: "j < length (thr s)" "j \<noteq> i" "knows s qs (thr s ! j)"
    have X: "RL (qh s) \<notin> set (holds s (thr s ! j))"
      using locks_exclusive[OF inv_locks[OF I] j(1) i, of "RL (qh s)"] j(2) p by auto
    have z: "z = qt s \<longleftrightarrow> qs = []"
      using chain_edges(2)[OF C] by (cases qs) (auto simp: z_def)
    show "knows s' qs (thr s ! j)"
    proof (cases "thr s ! j")
      case (ESet w l a)
      then show ?thesis using j(3) z by (auto simp: e hc)
    qed (use j(3) X z in \<open>auto simp: e hc opt_lk_def\<close>)
  qed (use ch L inv_panic[OF I] in \<open>simp_all add: e p p'_def hc\<close>)
qed

lemma fresh_lock:
  assumes "nq_inv qs s" "i < length (thr s)" "own s k = None"
  shows "k \<notin> set (holds s (thr s ! i))"
  using own_free[OF inv_locks[OF assms(1)] assms(3,2)] .

lemma first_node:
  assumes "nq_inv qs s" "nx s (qh s) = Some n" "n \<noteq> qt s"
  shows "\<exists>q. nx s n = Some q"
proof -
  obtain rest where "qs = n # rest"
    using chain_first[OF inv_chain[OF assms(1)]] assms(2,3) by (cases qs) auto
  then show ?thesis
    using chain_edges(1)[OF inv_chain[OF assms(1)]] by (cases rest) (auto simp: edge_ok_def)
qed

lemma tail_prev_some: "nq_inv qs s \<Longrightarrow> \<exists>l. pv s (qt s) = Some l"
  by (erule tail_prev) auto

lemma inv_check:
  assumes "nq_inv qs s" "i < length (thr s)" "thr s ! i = ECheck v l" "pv s (qt s) = Some l"
  shows "knows s qs (ELeft v (Some l))"
  using assms(1)
proof (cases rule: tail_prev)
  case (2 j m)
  then have "j = i"
    using locks_exclusive[OF inv_locks[OF assms(1)] _ assms(2), of j "RL l"] assms(3,4) by auto
  then show ?thesis using 2 assms(3) by simp
qed (use assms(4) in simp)

lemma inv_test_empty:
  assumes "nq_inv qs s" "i < length (thr s)" "thr s ! i = DTest r" "nx s (qh s) = Some (qt s)"
  shows "nq_inv qs (log i (Deq None) (goto i (Free (Deq None) (opt_lk LL r @ [RL (qh s)]) []) s))"
proof (rule inv_quiet[OF assms(1,2), where cs = "[Deq None]" and p = "Free (Deq None) (opt_lk LL r @ [RL (qh s)]) []"])
  have "qs = []"
    using chain_first[OF inv_chain[OF assms(1)]] chain_edges(2)[OF inv_chain[OF assms(1)]] assms(4) by (cases qs) auto
  then show "legal [Deq None] (map (\<lambda>a. nval (cells (hp s) a)) qs) = Some (map (\<lambda>a. nval (cells (hp s) a)) qs)"
    by simp
  show "locks_ok (log i (Deq None) (goto i (Free (Deq None) (opt_lk LL r @ [RL (qh s)]) []) s))"
    by (rule locks_keep[OF inv_locks[OF assms(1)] assms(2), where p = "Free (Deq None) (opt_lk LL r @ [RL (qh s)]) []"])
      (use inv_distinct[OF assms(1-3)] assms(3) in auto)
qed (use assms(3) in simp_all)

lemma inv_advance:
  assumes I: "nq_inv qs s" and i: "i < length (thr s)" and s': "advance b i (thr s ! i) s = Some s'"
  shows "\<exists>qs'. nq_inv qs' s'"
proof -
  obtain l where pt: "pv s (qt s) = Some l" using tail_prev_some[OF I] by blast
  note kn = inv_knows[OF I i] and ds = inv_distinct[OF I i] and fl = fresh_lock[OF I i]
  note ch = chain_first[OF inv_chain[OF I]]
  show ?thesis
  proof (cases "thr s ! i")
    case (ECheck v m)
    show ?thesis
      by (rule exI, rule inv_keep[OF I i, where p = "if pv s (qt s) = Some m then ELeft v (Some m) else EUnlock v m"])
        (use ECheck s' inv_check[OF I i ECheck] in \<open>auto simp: opt_lk_def\<close>)
  next
    case (EIns v m)
    then show ?thesis using inv_link[OF I i EIns] s' by metis
  next
    case (ESet v m a)
    then show ?thesis using inv_set_prev[OF I i ESet] s' by metis
  next
    case (EUnlock v m)
    then show ?thesis using s' by (auto intro!: exI[of _ qs] inv_release[OF I i])
  next
    case (DRight r n)
    then show ?thesis
      using s' kn[OF DRight] fl[of "RL n"]
      by (auto intro!: exI[of _ qs] elim!: inv_acquire[OF I i] simp: opt_lk_def)
  next
    case (DRLock r n q)
    then show ?thesis
      using s' kn[OF DRLock] ds[OF DRLock] fl[of "LL q"]
      by (auto intro!: exI[of _ qs] elim!: inv_acquire[OF I i] simp: opt_lk_def)
  next
    case (DTest r)
    obtain n where "nx s (qh s) = Some n" using ch by blast
    then show ?thesis
      using s' DTest inv_test_empty[OF I i DTest] kn[OF DTest] ds[OF DTest]
      by (cases "n = qt s") (auto intro!: exI[of _ qs] inv_keep[OF I i, where p = "DRight r n"])
  next
    case (DRNext r n)
    then obtain q where "nx s n = Some q" using first_node[OF I] kn[OF DRNext] by auto
    then show ?thesis
      using s' DRNext kn[OF DRNext] ds[OF DRNext] by (auto intro!: exI[of _ qs] inv_keep[OF I i, where p = "DRLock r n q"])
  next
    case (DRem1 r n q)
    then show ?thesis using inv_cut_next[OF I i DRem1] s' by metis
  next
    case (DRem2 r n q)
    then show ?thesis using inv_cut_prev[OF I i DRem2] s' by metis
  next
    case (Free c ks js)
    then show ?thesis
      using s' ds[OF Free] kn[OF Free]
      by (auto split: if_splits list.splits intro!: exI[of _ qs] inv_release[OF I i])
  qed (use s' kn ds fl pt ch in \<open>auto intro!: exI[of _ qs] inv_keep[OF I i] elim!: inv_acquire[OF I i] simp: opt_lk_def\<close>)
qed

lemma inv_call:
  assumes I: "nq_inv qs s" and p: "p \<in> {EStart v, DStart}" and s': "s' = s\<lparr>thr := thr s @ [p]\<rparr>"
  shows "nq_inv qs s'"
proof -
  have h: "holds s' q = holds s q" "pend s' q = pend s q" "knows s' qs q = knows s qs q" "effect s' q = effect s q" for q
    using holds_cong[of s' s] pend_cong[of s' s] knows_cong[of s' s] by (simp_all add: s') (cases q; simp)
  have "locks_ok s'"
    using inv_locks[OF I] p unfolding locks_ok_def
    by (auto simp: h) (auto simp: s' nth_append split: if_splits)
  moreover have "successively (edge_ok s') (qh s # qs @ [qt s])"
  proof (rule successively_mono[OF chain_edges(1)[OF inv_chain[OF I]]])
    fix a b assume "edge_ok s a b"
    moreover have "\<exists>j < length (thr s'). pend s' (thr s' ! j) = Some (a, b)"
      if m: "\<exists>j < length (thr s). pend s (thr s ! j) = Some (a, b)"
    proof -
      obtain j where "j < length (thr s)" "pend s (thr s ! j) = Some (a, b)"
        using m by blast
      then show ?thesis by (intro exI[of _ j]) (simp only: h, simp add: s' nth_append)
    qed
    ultimately show "edge_ok s' a b"
      unfolding edge_ok_def by (auto simp: s')
  qed
  then have "chain_ok s' qs"
    using inv_chain[OF I] by (simp add: chain_ok_def s')
  moreover have "knows s' qs (thr s' ! i) \<and> ops_of i s' = effect s' (thr s' ! i)" if "i < length (thr s')" for i
    using that I p unfolding nq_inv_def h by (auto simp: s' ops_of_def nth_append less_Suc_eq)
  ultimately show ?thesis
    using I by (simp add: nq_inv_def s' ops_of_def)
qed

lemma inv_New: "nq_inv [] (NewNodes z)"
  by (simp add: nq_inv_def NewNodes_def NewSafeQueue_def new_node_def zero_node_def Let_def locks_ok_def
      chain_ok_def edge_ok_def ops_of_def)

lemma inv_go: "nq_go s s' \<Longrightarrow> nq_inv qs s \<Longrightarrow> \<exists>qs'. nq_inv qs' s'"
  by (induction rule: nq_go.induct) (auto simp: nq_step_def intro: inv_advance inv_call)

lemma inv_reach: "nq_go\<^sup>*\<^sup>* (NewNodes z) s \<Longrightarrow> \<exists>qs. nq_inv qs s"
  by (induction rule: rtranclp_induct) (auto intro: inv_New dest: inv_go)

section \<open>At rest\<close>

definition finished :: "'a pc \<Rightarrow> bool" where
  "finished p \<longleftrightarrow> (\<exists>c. p = Free c [] [])"

lemma dll_successively:
  "dll c p (xs @ [t]) e \<longleftrightarrow>
     successively (\<lambda>a b. nnext (c a) = Some b \<and> nprev (c b) = Some a) (p # xs @ [t]) \<and> nnext (c t) = e"
  by (induction xs arbitrary: p) auto

text \<open>The queue of \<open>Data_Structures\<close> that the nodes form.\<close>

definition queue_of :: "'a nq \<Rightarrow> 'a SafeQueue" where
  "queue_of s = \<lparr>qheap = hp s, qhead = qh s, qtail = qt s, qlen = 0\<rparr>"

lemma rest_list:
  assumes "nq_inv qs s" and "\<forall>p \<in> set (thr s). finished p"
  shows "sq_list (queue_of s) qs"
proof -
  have "pend s (thr s ! j) = None" if "j < length (thr s)" for j
    using assms(2) nth_mem[OF that] by (auto simp: finished_def)
  then have "edge_ok s = (\<lambda>a b. nx s a = Some b \<and> pv s b = Some a)"
    by (auto simp: edge_ok_def fun_eq_iff)
  then show ?thesis
    using inv_chain[OF assms(1)] by (simp add: sq_list_def queue_of_def chain_ok_def dll_successively)
qed

fun call_of :: "'a qop \<Rightarrow> 'a option" where
  "call_of (Enq v) = Some v"
| "call_of (Deq r) = None"

fun answers :: "'a qop list \<Rightarrow> 'a option list" where
  "answers [] = []"
| "answers (Enq v # cs) = answers cs"
| "answers (Deq r # cs) = r # answers cs"

lemma legal_run: "legal cs xs = Some ys \<Longrightarrow> list_run (map call_of cs) xs = answers cs"
  by (induction cs xs rule: legal.induct) (auto split: list.splits if_splits)

section \<open>Deadlock and termination\<close>

text \<open>The lock a call waits for.\<close>

fun wants :: "'a nq \<Rightarrow> 'a pc \<Rightarrow> lk option" where
  "wants s (ELock v l) = Some (RL l)"
| "wants s (ELeft v l) = Some (LL (qt s))"
| "wants s DStart = Some (RL (qh s))"
| "wants s (DLock r) = Some (LL r)"
| "wants s (DRight r n) = Some (RL n)"
| "wants s (DRLock r n q) = Some (LL q)"
| "wants s _ = None"

lemma blocked:
  assumes "\<And>b. advance b i p s = None" and "\<not> finished p"
  shows "\<exists>k. wants s p = Some k \<and> own s k \<noteq> None"
proof (cases p)
  case (Free c ks js)
  then show ?thesis
    using assms(1)[of True] assms(1)[of False] assms(2) by (auto simp: finished_def split: list.splits)
qed (use assms(1) in \<open>auto simp: lock_def split: if_splits prod.splits\<close>)

lemma inv_next_differs:
  assumes "nq_inv qs s" "nx s (qh s) = Some n" "n \<noteq> qt s"
  shows "n \<noteq> qh s" "nx s n = Some q \<Longrightarrow> q \<noteq> n"
proof -
  obtain rest where q: "qs = n # rest"
    using chain_first[OF inv_chain[OF assms(1)]] assms(2,3) by (cases qs) auto
  then show "n \<noteq> qh s"
    using chain_edges(2)[OF inv_chain[OF assms(1)]] by auto
  show "nx s n = Some q \<Longrightarrow> q \<noteq> n"
    using chain_edges(1,2)[OF inv_chain[OF assms(1)]] q by (cases rest) (auto simp: edge_ok_def)
qed

text \<open>Of the calls that wait for a lock only a dequeue holds one, and never the one it or
  another dequeue waits for: locks are taken from the head towards the tail.\<close>

lemma no_deadlock:
  assumes I: "nq_inv qs s" and stuck: "\<And>s'. \<not> nq_step s s'" and i: "i < length (thr s)"
  shows "finished (thr s ! i)"
proof (rule ccontr)
  have W: "\<exists>k. wants s (thr s ! j) = Some k \<and> own s k \<noteq> None" if "j < length (thr s)" "\<not> finished (thr s ! j)" for j
    using blocked[of j "thr s ! j" s] stuck that by (force simp: nq_step_def)
  have O: "\<exists>j < length (thr s). k \<in> set (holds s (thr s ! j)) \<and> \<not> finished (thr s ! j)" if "own s k \<noteq> None" for k
    using inv_locks[OF I] that by (force simp: locks_ok_def finished_def)
  have T: "own s (LL (qt s)) = None"
  proof (rule ccontr)
    assume "own s (LL (qt s)) \<noteq> None"
    then obtain j where j: "j < length (thr s)" "LL (qt s) \<in> set (holds s (thr s ! j))" "\<not> finished (thr s ! j)"
      using O by blast
    show False
      using W[OF j(1,3)] j(2) inv_knows[OF I j(1) refl] by (cases "thr s ! j") (auto simp: opt_lk_def split: option.splits)
  qed
  have D: "RL (qh s) \<in> set (holds s (thr s ! j)) \<and> \<not> finished (thr s ! j)"
    if j: "j < length (thr s)" "k \<in> set (holds s (thr s ! j))" "\<not> finished (thr s ! j)" for j k
    using W[OF j(1,3)] j(2,3) T by (cases "thr s ! j") auto
  have none: "own s k = None" for k
  proof (rule ccontr)
    assume "own s k \<noteq> None"
    then obtain j where j: "j < length (thr s)" "k \<in> set (holds s (thr s ! j))" "\<not> finished (thr s ! j)"
      using O by blast
    obtain k' where k': "wants s (thr s ! j) = Some k'" "own s k' \<noteq> None"
      using W[OF j(1,3)] by blast
    obtain m where m: "m < length (thr s)" "k' \<in> set (holds s (thr s ! m))" "\<not> finished (thr s ! m)"
      using O[OF k'(2)] by blast
    have "m = j"
      using locks_exclusive[OF inv_locks[OF I] m(1) j(1), of "RL (qh s)"] D[OF m] D[OF j] by blast
    then have h: "k' \<in> set (holds s (thr s ! j))" using m(2) by simp
    note k = inv_knows[OF I j(1) refl]
    show False
    proof (cases "thr s ! j")
      case (DRight r n)
      then show ?thesis using h k k'(1) inv_next_differs(1)[OF I, of n] by (auto simp: opt_lk_def)
    next
      case (DRLock r n q)
      then show ?thesis using h k k'(1) inv_next_differs(2)[OF I, of n q] by (auto simp: opt_lk_def)
    qed (use h k'(1) D[OF j] in \<open>auto simp: opt_lk_def\<close>)
  qed
  assume "\<not> finished (thr s ! i)"
  then show False using W[OF i] none by auto
qed

text \<open>A bound on the steps that a set of calls can still take: every backward pointer written
  can send each waiting \<^verbatim>\<open>Enqueue\<close> once more around its loop.\<close>

fun writes :: "'a pc \<Rightarrow> nat" where
  "writes (Free c ks js) = 0"
| "writes p = 1"

fun rank :: "'a nq \<Rightarrow> 'a pc \<Rightarrow> nat" where
  "rank s (EStart v) = 16"
| "rank s (ERead v) = 12"
| "rank s (ELock v l) = (if pv s (qt s) = Some l then 11 else 15)"
| "rank s (ECheck v l) = (if pv s (qt s) = Some l then 10 else 14)"
| "rank s (EUnlock v l) = 13"
| "rank s (ELeft v l) = 9"
| "rank s (EIns v l) = 8"
| "rank s (ESet v l a) = 7"
| "rank s DStart = 15"
| "rank s DNext = 14"
| "rank s (DLock r) = 13"
| "rank s (DTest r) = 12"
| "rank s (DRight r n) = 11"
| "rank s (DRNext r n) = 10"
| "rank s (DRLock r n q) = 9"
| "rank s (DRem1 r n q) = 8"
| "rank s (DRem2 r n q) = 7"
| "rank s (Free c ks js) = length ks + length js"

definition effort :: "'a nq \<Rightarrow> nat" where
  "effort s = (16 * length (thr s) + 1) * sum_list (map writes (thr s)) + sum_list (map (rank s) (thr s))"

lemma rank_le: "knows s qs p \<Longrightarrow> rank s p \<le> 16"
  by (cases p) auto

lemma rank_cong: "pv s' (qt s') = pv s (qt s) \<Longrightarrow> rank s' p = rank s p"
  by (cases p) auto

lemma sum_list_upd:
  fixes f :: "'b \<Rightarrow> nat"
  shows "i < length xs \<Longrightarrow> sum_list (map f (xs[i := y])) + f (xs ! i) = sum_list (map f xs) + f y"
  by (induction xs arbitrary: i) (auto split: nat.splits)

lemma sum_list_le:
  fixes f :: "'b \<Rightarrow> nat"
  shows "(\<And>x. x \<in> set xs \<Longrightarrow> f x \<le> k) \<Longrightarrow> sum_list (map f xs) \<le> length xs * k"
  by (induction xs) (auto simp: add_mono)

lemma effort_rank:
  assumes "i < length (thr s)" "thr s' = (thr s)[i := p]" "pv s' (qt s') = pv s (qt s)"
    and "writes p = writes (thr s ! i)" "rank s p < rank s (thr s ! i)"
  shows "effort s' < effort s"
  using assms(4,5) sum_list_upd[OF assms(1), of writes p] sum_list_upd[OF assms(1), of "rank s" p]
  by (simp add: effort_def assms(2) rank_cong[OF assms(3)] cong: map_cong)

lemma effort_write:
  assumes "nq_inv qs' s'" "i < length (thr s)" "thr s' = (thr s)[i := p]" "writes p < writes (thr s ! i)"
  shows "effort s' < effort s"
proof -
  let ?n = "16 * length (thr s) + 1"
  have "rank s' q \<le> 16" if "q \<in> set (thr s')" for q
    using that assms(1) by (auto simp: in_set_conv_nth nq_inv_def intro: rank_le)
  then have "sum_list (map (rank s') (thr s')) \<le> length (thr s') * 16"
    by (rule sum_list_le)
  moreover have "sum_list (map writes (thr s')) < sum_list (map writes (thr s))"
    using sum_list_upd[OF assms(2), of writes p] assms(3,4) by simp
  then have "?n * (sum_list (map writes (thr s')) + 1) \<le> ?n * sum_list (map writes (thr s))"
    by (intro mult_le_mono2) simp
  ultimately show ?thesis
    by (simp add: effort_def assms(3))
qed

lemma effort_advance:
  assumes I: "nq_inv qs s" and i: "i < length (thr s)" and s': "advance b i (thr s ! i) s = Some s'"
  shows "effort s' < effort s"
proof -
  obtain qs' where I': "nq_inv qs' s'" using inv_advance[OF assms] by blast
  obtain l where pt: "pv s (qt s) = Some l" using tail_prev_some[OF I] by blast
  obtain n where hn: "nx s (qh s) = Some n" using chain_first[OF inv_chain[OF I]] by blast
  note R = effort_rank[OF i] and W = effort_write[OF I' i]
  show ?thesis
  proof (cases "thr s ! i")
    case (EIns v m)
    obtain a h where h: "link_next (qt s) v (hp s) = (a, h)" by fastforce
    have "qt s < fresh (hp s)"
      using chain_edges(3)[OF inv_chain[OF I]] by simp
    then have "nprev (cells h (qt s)) = pv s (qt s)"
      using h pt by (auto simp: link_next_def new_node_def)
    then show ?thesis using s' h EIns by (intro R[where p = "ESet v m a"]) auto
  next
    case (DRem1 r k q)
    have "nprev (cells (cut_next k (hp s)) x) = pv s x" for x
      by (simp add: cut_next_def split: option.splits)
    then show ?thesis using s' DRem1 by (intro R[where p = "DRem2 r k q"]) auto
  next
    case (ESet v m a)
    show ?thesis
      by (rule W[where p = "Free (Enq v) (LL (qt s) # opt_lk RL m) []"]) (use s' ESet in auto)
  next
    case (DRem2 r k q)
    show ?thesis
      by (rule W[where p = "Free (Deq (Some (nval (cells (hp s) k)))) (opt_lk LL q @ [RL k]) (opt_lk LL r @ [RL (qh s)])"])
        (use s' DRem2 in auto)
  next
    case (DRNext r k)
    then obtain q where "nx s k = Some q" using first_node[OF I] inv_knows[OF I i DRNext] by auto
    then show ?thesis using s' DRNext by (intro R[where p = "DRLock r k q"]) auto
  next
    case (DTest r)
    show ?thesis
    proof (cases "n = qt s")
      case True
      then show ?thesis
        by (intro W[where p = "Free (Deq None) (opt_lk LL r @ [RL (qh s)]) []"]) (use s' hn DTest in auto)
    next
      case False
      then show ?thesis by (intro R[where p = "DRight r n"]) (use s' hn DTest in auto)
    qed
  qed (use s' pt hn in \<open>auto intro!: R simp: lock_eq split: if_splits list.splits\<close>)
qed

text \<open>Every run of calls under way is shorter than a bound in their number.\<close>

lemma effort_le:
  assumes "nq_inv qs s"
  shows "effort s \<le> 16 * length (thr s) ^ 2 + 17 * length (thr s)"
proof -
  have "rank s p \<le> 16" if "p \<in> set (thr s)" for p
    using that assms by (auto simp: in_set_conv_nth nq_inv_def intro: rank_le)
  then have r: "sum_list (map (rank s) (thr s)) \<le> length (thr s) * 16"
    by (rule sum_list_le)
  have "writes p \<le> 1" for p :: "'a pc"
    by (cases p) simp_all
  then have "sum_list (map writes (thr s)) \<le> length (thr s) * 1"
    by (intro sum_list_le)
  then have "(16 * length (thr s) + 1) * sum_list (map writes (thr s)) \<le> (16 * length (thr s) + 1) * length (thr s)"
    by (intro mult_le_mono2) simp
  then show ?thesis
    using r by (simp add: effort_def power2_eq_square algebra_simps)
qed

lemma effort_run: "(nq_step ^^ n) s s' \<Longrightarrow> nq_inv qs s \<Longrightarrow> n + effort s' \<le> effort s \<and> (\<exists>qs'. nq_inv qs' s')"
proof (induction n arbitrary: s')
  case (Suc n)
  obtain m where m: "(nq_step ^^ n) s m" "nq_step m s'"
    using Suc.prems(1) by auto
  obtain qs' where "nq_inv qs' m" "n + effort m \<le> effort s"
    using Suc.IH[OF m(1) Suc.prems(2)] by blast
  then show ?case
    using m(2) effort_advance inv_advance by (fastforce simp: nq_step_def)
qed auto

text \<open>A schedule: which call moves next, and which of its releasing goroutines.\<close>

fun exec :: "(bool \<times> nat) list \<Rightarrow> 'a nq \<Rightarrow> 'a nq option" where
  "exec [] s = Some s"
| "exec ((b, i) # us) s =
     (if i < length (thr s) then case advance b i (thr s ! i) s of None \<Rightarrow> None | Some s' \<Rightarrow> exec us s' else None)"

lemma exec_steps: "exec us s = Some s' \<Longrightarrow> (nq_step ^^ length us) s s'"
proof (induction us s rule: exec.induct)
  case (2 b i us s)
  then obtain t where t: "nq_step s t" "exec us t = Some s'" "i < length (thr s)" "advance b i (thr s ! i) s = Some t"
    by (auto simp: nq_step_def split: if_splits option.splits)
  have "(nq_step ^^ length us) t s'"
    using 2(1)[OF t(3,4,2)] .
  with t(1) show ?case
    by (simp add: relpowp_Suc_I2 del: relpowp.simps)
qed simp

text \<open>A run in which the first call finds the node it locked no longer the last one, and
  goes around its loop.\<close>

definition sample_calls :: "nat nq" where
  "sample_calls = (NewNodes 0)\<lparr>thr := [EStart 7, EStart 8]\<rparr>"

definition sample_sched :: "(bool \<times> nat) list" where
  "sample_sched = replicate 2 (True, 0) @ replicate 9 (True, 1) @ replicate 11 (True, 0)"

lemma sample_locks_reach: "nq_go\<^sup>*\<^sup>* (NewNodes 0) sample_calls"
proof -
  let ?s = "\<lambda>ps. (NewNodes (0 :: nat))\<lparr>thr := ps\<rparr>"
  have "nq_go (NewNodes 0) (?s [EStart 7])"
    using nq_go.call_enqueue[of "NewNodes 0" 7] by (simp add: NewNodes_def Let_def)
  moreover have "nq_go (?s [EStart 7]) sample_calls"
    using nq_go.call_enqueue[of "?s [EStart 7]" 8] by (simp add: sample_calls_def)
  ultimately show ?thesis by (meson rtranclp.simps)
qed

lemma sample_exec:
  "map_option (\<lambda>s. (hist s, thr s, npanic s)) (exec sample_sched sample_calls)
   = Some ([(1, Enq 8), (0, Enq 7)], [Free (Enq 7) [] [], Free (Enq 8) [] []], False)"
  by (simp add: sample_sched_def sample_calls_def NewNodes_def NewSafeQueue_def new_node_def zero_node_def
      Let_def numeral_eq_Suc goto_def lock_def unlock_def log_def opt_lk_def link_next_def cut_next_def cut_prev_def
      set_next_def set_prev_def)

section \<open>Properties\<close>

text \<open>C10: Concurrent \<^verbatim>\<open>Enqueue\<close> and \<^verbatim>\<open>dequeue\<close> calls are linearizable.  In every
  interleaving of their lock acquisitions, releases, reads and writes no nil pointer is followed;
  each call takes effect at most once, and one that has returned took effect with the
  answer it returned; the answers, in the order in which the calls took effect, are
  those of the sequential queue; and when no call is under way the nodes form a
  well-linked queue with the contents that the sequential queue has then.\<close>

theorem node_locks_linearizable:
  assumes "nq_go\<^sup>*\<^sup>* (NewNodes z) s"
  shows "\<not> npanic s \<and> sq_run (map (call_of \<circ> snd) (hist s)) (NewSafeQueue z) = answers (map snd (hist s))
    \<and> (\<forall>i. length (ops_of i s) \<le> 1)
    \<and> (\<forall>i c ks js. i < length (thr s) \<and> thr s ! i = Free c ks js \<longrightarrow> ops_of i s = [c])
    \<and> ((\<forall>p \<in> set (thr s). finished p) \<longrightarrow>
        sq_inv (queue_of s) \<and> legal (map snd (hist s)) [] = Some (sq_abs (queue_of s)))"
proof -
  obtain qs where I: "nq_inv qs s" using inv_reach[OF assms] by blast
  have l: "legal (map snd (hist s)) [] = Some (map (\<lambda>a. nval (cells (hp s) a)) qs)"
    using I by (simp add: nq_inv_def)
  have "sq_run (map (call_of \<circ> snd) (hist s)) (NewSafeQueue z) = list_run (map call_of (map snd (hist s))) []"
    using sq_run_abs[OF sq.inv_new[of z]] sq.contents_new[of z] by simp
  moreover have "length (ops_of i s) \<le> 1" for i
  proof (cases "i < length (thr s)")
    case True
    then have "ops_of i s = effect s (thr s ! i)" using I by (simp add: nq_inv_def)
    then show ?thesis by (cases "thr s ! i") auto
  qed (use I in \<open>simp add: nq_inv_def\<close>)
  moreover have "sq_inv (queue_of s) \<and> legal (map snd (hist s)) [] = Some (sq_abs (queue_of s))"
    if f: "\<forall>p \<in> set (thr s). finished p"
    using rest_list[OF I f] sq_abs_list[OF rest_list[OF I f]] l by (auto simp: sq_inv_def queue_of_def)
  ultimately show ?thesis
    using I legal_run[OF l] by (auto simp: nq_inv_def)
qed

theorem node_locks_linearizable_witness:
  "\<exists>s. exec sample_sched sample_calls = Some s \<and> ops_of 0 s = [Enq 7] \<and> sq_abs (queue_of s) = [8, 7]"
proof -
  obtain s where s: "exec sample_sched sample_calls = Some s" "hist s = [(1, Enq 8), (0, Enq 7)]"
    "thr s = [Free (Enq 7) [] [], Free (Enq 8) [] []]"
    using sample_exec by auto
  have "nq_go\<^sup>*\<^sup>* sample_calls s"
    using exec_steps[OF s(1)] by (intro rtranclp_mono[of nq_step, THEN predicate2D, OF _ relpowp_imp_rtranclp]) (auto intro: nq_go.move)
  then have "nq_go\<^sup>*\<^sup>* (NewNodes 0) s"
    using sample_locks_reach by simp
  from node_locks_linearizable[OF this] show ?thesis
    using s by (auto simp: finished_def ops_of_def)
qed

text \<open>C11: Calls cannot deadlock and all end.  However the steps of \<open>n\<close> calls interleave,
  no run without new calls is longer than \<open>16 n\<^sup>2 + 17 n\<close> steps, and where no step is possible every call
  has returned and released its locks.\<close>

theorem node_locks_progress:
  assumes "nq_go\<^sup>*\<^sup>* (NewNodes z) s" and "(nq_step ^^ k) s s'"
  shows "k \<le> 16 * length (thr s) ^ 2 + 17 * length (thr s)
    \<and> ((\<forall>t. \<not> nq_step s' t) \<longrightarrow> (\<forall>p \<in> set (thr s'). finished p))"
proof -
  obtain qs where I: "nq_inv qs s" using inv_reach[OF assms(1)] by blast
  obtain qs' where r: "k + effort s' \<le> effort s" "nq_inv qs' s'"
    using effort_run[OF assms(2) I] by blast
  have "finished p" if "\<forall>t. \<not> nq_step s' t" "p \<in> set (thr s')" for p
    using that no_deadlock[OF r(2)] by (auto simp: in_set_conv_nth)
  then show ?thesis
    using r(1) effort_le[OF I] by auto
qed

theorem node_locks_progress_witness:
  "\<exists>s. (nq_step ^^ length sample_sched) sample_calls s \<and> length sample_sched \<le> 16 * 2 ^ 2 + 17 * 2"
proof -
  obtain s where "exec sample_sched sample_calls = Some s"
    using sample_exec by auto
  from exec_steps[OF this] have "(nq_step ^^ length sample_sched) sample_calls s" .
  moreover have "length (thr sample_calls) = 2"
    by (simp add: sample_calls_def)
  ultimately show ?thesis
    using node_locks_progress[OF sample_locks_reach, of "length sample_sched" s] by auto
qed

end
