(* ===== verification/Waiting_Queue.thy ===== *)
theory Waiting_Queue
  imports Data_Structures
begin

text \<open>
  \<^verbatim>\<open>SafeQueue\<close> with \<^verbatim>\<open>useWait\<close>: callers of \<^verbatim>\<open>Enqueue\<close> and \<^verbatim>\<open>Read\<close>, the
  goroutine of \<^verbatim>\<open>startNotify\<close> and \<^verbatim>\<open>Close\<close>, interleaved at their channel
  operations and atomic updates.  The linked list is given by its contents
  (\<open>Data_Structures\<close> shows that its operations are those of a list).  Goroutines at the
  same point are counted.  The counter is not wrapped: it is bounded by the number of stored
  values.
\<close>

section \<open>State\<close>

text \<open>
  Where the notifier is: at the outer \<^verbatim>\<open>select\<close>, before the test of the loop, at the
  inner \<^verbatim>\<open>select\<close>, before its send on \<^verbatim>\<open>nextCh\<close>, blocked in it, at the receive
  from \<^verbatim>\<open>readValCh\<close>, or returned.
\<close>

datatype npc = NIdle | NLoop | NCheck | NReady | NParked | NWait | NDone

text \<open>
  Callers: \<open>elen\<close> have linked their value and not counted it, \<open>enot\<close> are about to send on or
  blocked at \<^verbatim>\<open>notifyCh\<close>; \<open>waiting\<close> are blocked at \<^verbatim>\<open>nextCh\<close>; \<open>rdec\<close>, \<open>rdeq\<close> and
  \<open>rack\<close> are in \<^verbatim>\<open>readSuccess\<close>, before the decrement, the dequeue and the send on
  \<^verbatim>\<open>readValCh\<close>, and \<open>rpark\<close> are blocked in that send.  \<open>token\<close> is the contents of the
  one-place buffer of \<^verbatim>\<open>notifyCh\<close>.  \<open>entered\<close> and \<open>got\<close> record the values in the order
  in which they were linked, and the results of the dequeues.
\<close>

record 'a wq =
  items :: "'a list"
  wlen :: int
  token :: nat
  npc :: npc
  elen :: nat
  enot :: nat
  waiting :: nat
  rdec :: nat
  rdeq :: nat
  rack :: nat
  rpark :: nat
  entered :: "'a list"
  got :: "'a option list"
  done_closed :: bool
  next_closed :: bool
  notify_closed :: bool
  read_closed :: bool
  closing :: nat
  wpanic :: bool

definition NewWaitQueue :: "'a wq" where
  "NewWaitQueue = \<lparr>items = [], wlen = 0, token = 0, npc = NIdle, elen = 0, enot = 0, waiting = 0,
     rdec = 0, rdeq = 0, rack = 0, rpark = 0, entered = [], got = [],
     done_closed = False, next_closed = False, notify_closed = False, read_closed = False,
     closing = 0, wpanic = False\<rparr>"

section \<open>Calls\<close>

text \<open>A call of \<^verbatim>\<open>Enqueue\<close> up to \<^verbatim>\<open>AddLeft\<close>.\<close>

definition wq_Enqueue :: "'a \<Rightarrow> 'a wq \<Rightarrow> 'a wq" where
  "wq_Enqueue v s = s\<lparr>items := items s @ [v], entered := entered s @ [v], elen := Suc (elen s)\<rparr>"

text \<open>\<^verbatim>\<open>Read\<close> up to its receive from \<^verbatim>\<open>nextCh\<close>: a blocked notifier or a closed channel
  lets it pass, else it waits, or returns when it is not to wait.\<close>

definition wq_Read :: "bool \<Rightarrow> 'a wq \<Rightarrow> 'a wq" where
  "wq_Read wait s =
     (if next_closed s then s\<lparr>rdec := Suc (rdec s)\<rparr>
      else if npc s = NParked then s\<lparr>npc := NWait, rdec := Suc (rdec s)\<rparr>
      else if wait then s\<lparr>waiting := Suc (waiting s)\<rparr> else s)"

inductive wq_call :: "'a wq \<Rightarrow> 'a wq \<Rightarrow> bool" where
  enqueue: "wq_call s (wq_Enqueue v s)"
| read: "wq_call s (wq_Read wait s)"
| leave: "0 < waiting s \<Longrightarrow> wq_call s (s\<lparr>waiting := waiting s - 1\<rparr>)"

section \<open>Steps\<close>

text \<open>
  Steps of calls under way and of the notifier.  \<open>leave\<close> above is the end channel of a
  waiting reader.
\<close>

inductive wq_step :: "'a wq \<Rightarrow> 'a wq \<Rightarrow> bool" where
  count: "0 < elen s \<Longrightarrow>
    wq_step s (s\<lparr>elen := elen s - 1, wlen := wlen s + 1, enot := (if wlen s + 1 = 1 then Suc (enot s) else enot s)\<rparr>)"
| notify: "0 < enot s \<Longrightarrow> \<not> notify_closed s \<Longrightarrow> token s = 0 \<Longrightarrow> wq_step s (s\<lparr>enot := enot s - 1, token := 1\<rparr>)"
| notify_panic: "0 < enot s \<Longrightarrow> notify_closed s \<Longrightarrow> wq_step s (s\<lparr>enot := enot s - 1, wpanic := True\<rparr>)"
| wake: "npc s = NIdle \<Longrightarrow> 0 < token s \<Longrightarrow> wq_step s (s\<lparr>npc := NLoop, token := token s - 1\<rparr>)"
| wake_closed: "npc s = NIdle \<Longrightarrow> notify_closed s \<Longrightarrow> token s = 0 \<Longrightarrow> wq_step s (s\<lparr>npc := NLoop\<rparr>)"
| stop_outer: "npc s = NIdle \<Longrightarrow> done_closed s \<Longrightarrow> wq_step s (s\<lparr>npc := NDone\<rparr>)"
| loop: "npc s = NLoop \<Longrightarrow> wq_step s (s\<lparr>npc := (if 0 < wlen s then NCheck else NIdle)\<rparr>)"
| check: "npc s = NCheck \<Longrightarrow> wq_step s (s\<lparr>npc := (if done_closed s then NDone else NReady)\<rparr>)"
| hand: "npc s = NReady \<Longrightarrow> \<not> next_closed s \<Longrightarrow> 0 < waiting s \<Longrightarrow>
    wq_step s (s\<lparr>npc := NWait, waiting := waiting s - 1, rdec := Suc (rdec s)\<rparr>)"
| park: "npc s = NReady \<Longrightarrow> \<not> next_closed s \<Longrightarrow> waiting s = 0 \<Longrightarrow> wq_step s (s\<lparr>npc := NParked\<rparr>)"
| send_panic: "npc s = NReady \<Longrightarrow> next_closed s \<Longrightarrow> wq_step s (s\<lparr>npc := NDone, wpanic := True\<rparr>)"
| decrement: "0 < rdec s \<Longrightarrow> wq_step s (s\<lparr>rdec := rdec s - 1, wlen := wlen s - 1, rdeq := Suc (rdeq s)\<rparr>)"
| dequeue: "0 < rdeq s \<Longrightarrow>
    wq_step s (s\<lparr>rdeq := rdeq s - 1, rack := Suc (rack s), items := tl (items s),
      got := got s @ [case items s of [] \<Rightarrow> None | v # _ \<Rightarrow> Some v]\<rparr>)"
| ack: "0 < rack s \<Longrightarrow> npc s = NWait \<Longrightarrow> \<not> read_closed s \<Longrightarrow> wq_step s (s\<lparr>rack := rack s - 1, npc := NLoop\<rparr>)"
| ack_park: "0 < rack s \<Longrightarrow> \<not> read_closed s \<Longrightarrow> wq_step s (s\<lparr>rack := rack s - 1, rpark := Suc (rpark s)\<rparr>)"
| ack_parked: "0 < rpark s \<Longrightarrow> npc s = NWait \<Longrightarrow> \<not> read_closed s \<Longrightarrow> wq_step s (s\<lparr>rpark := rpark s - 1, npc := NLoop\<rparr>)"
| ack_panic: "0 < rack s \<Longrightarrow> read_closed s \<Longrightarrow> wq_step s (s\<lparr>rack := rack s - 1, wpanic := True\<rparr>)"
| ack_closed: "npc s = NWait \<Longrightarrow> read_closed s \<Longrightarrow> wq_step s (s\<lparr>npc := NLoop\<rparr>)"

text \<open>
  \<^verbatim>\<open>Close\<close>: each \<^verbatim>\<open>SafeCloseChannel\<close> first receives without blocking, which takes
  what a blocked sender or the buffer offers, then closes; a sender blocked at that moment
  panics, receivers that wait pass.
\<close>

inductive wq_close :: "'a wq \<Rightarrow> 'a wq \<Rightarrow> bool" where
  close_done: "closing s = 0 \<Longrightarrow> wq_close s (s\<lparr>closing := 1, done_closed := True\<rparr>)"
| probe_next: "closing s = 1 \<Longrightarrow> wq_close s (s\<lparr>closing := 2, npc := (if npc s = NParked then NWait else npc s)\<rparr>)"
| close_next: "closing s = 2 \<Longrightarrow>
    wq_close s (s\<lparr>closing := 3, next_closed := True, waiting := 0, rdec := rdec s + waiting s,
      wpanic := (wpanic s \<or> npc s = NParked), npc := (if npc s = NParked then NDone else npc s)\<rparr>)"
| probe_notify: "closing s = 3 \<Longrightarrow> wq_close s (s\<lparr>closing := 4, token := 0\<rparr>)"
| close_notify: "closing s = 4 \<Longrightarrow> wq_close s (s\<lparr>closing := 5, notify_closed := True\<rparr>)"
| probe_read: "closing s = 5 \<Longrightarrow> wq_close s (s\<lparr>closing := 6, rpark := rpark s - 1\<rparr>)"
| close_read: "closing s = 6 \<Longrightarrow>
    wq_close s (s\<lparr>closing := 7, read_closed := True, wpanic := (wpanic s \<or> 0 < rpark s), rpark := 0\<rparr>)"

definition wq_open :: "'a wq \<Rightarrow> bool" where
  "wq_open s \<longleftrightarrow> closing s = 0 \<and> \<not> done_closed s \<and> \<not> next_closed s \<and> \<not> notify_closed s \<and> \<not> read_closed s"

definition wq_go :: "'a wq \<Rightarrow> 'a wq \<Rightarrow> bool" where
  "wq_go s s' \<longleftrightarrow> wq_call s s' \<or> wq_step s s'"

definition wq_any :: "'a wq \<Rightarrow> 'a wq \<Rightarrow> bool" where
  "wq_any s s' \<longleftrightarrow> wq_go s s' \<or> wq_close s s'"

section \<open>Before Close\<close>

definition busy :: "'a wq \<Rightarrow> nat" where
  "busy s = rdec s + rdeq s + rack s + rpark s"

definition wq_inv :: "'a wq \<Rightarrow> bool" where
  "wq_inv s \<longleftrightarrow> wq_open s \<and> \<not> wpanic s \<and> npc s \<noteq> NDone \<and> token s \<le> 1
     \<and> int (length (items s)) = wlen s + int (elen s) + int (rdeq s)
     \<and> busy s = (if npc s = NWait then 1 else 0)
     \<and> (npc s \<in> {NCheck, NReady, NParked} \<or> 0 < rdec s \<longrightarrow> 0 < wlen s) \<and> 0 \<le> wlen s
     \<and> (npc s = NParked \<longrightarrow> waiting s = 0)
     \<and> (npc s = NIdle \<and> 0 < wlen s \<longrightarrow> 0 < token s + enot s)
     \<and> map Some (entered s) = got s @ map Some (items s)"

lemmas wq_inv_simps = wq_inv_def wq_open_def busy_def

lemma wq_inv_New: "wq_inv NewWaitQueue"
  by (simp add: wq_inv_simps NewWaitQueue_def)

lemma wq_inv_call: "wq_call s s' \<Longrightarrow> wq_inv s \<Longrightarrow> wq_inv s'"
  by (induction rule: wq_call.induct) (auto simp: wq_inv_simps wq_Enqueue_def wq_Read_def split: if_splits)

lemma wq_inv_step: "wq_step s s' \<Longrightarrow> wq_inv s \<Longrightarrow> wq_inv s'"
  by (induction rule: wq_step.induct) (auto simp: wq_inv_simps split: if_splits list.splits)

text \<open>How much work the calls under way can still cause.\<close>

fun npc_work :: "npc \<Rightarrow> nat" where
  "npc_work NLoop = 3"
| "npc_work NCheck = 2"
| "npc_work NReady = 1"
| "npc_work _ = 0"

definition work :: "'a wq \<Rightarrow> nat" where
  "work s = 6 * elen s + 5 * enot s + 4 * token s + npc_work (npc s)
     + 7 * waiting s + 7 * rdec s + 6 * rdeq s + 5 * rack s + 4 * rpark s"

lemma work_decreases: "wq_step s s' \<Longrightarrow> wq_inv s \<Longrightarrow> work s' < work s"
  by (induction rule: wq_step.induct) (auto simp: wq_inv_simps work_def)

text \<open>No lost wake-up: when nothing can move, no reader waits for a value that is there.\<close>

lemma stuck_waits:
  assumes "wq_inv s" and stuck: "\<And>s'. wq_step s s' \<Longrightarrow> False"
  shows "waiting s = 0 \<or> items s = []"
proof -
  note no = stuck[OF wq_step.count] stuck[OF wq_step.notify] stuck[OF wq_step.wake] stuck[OF wq_step.loop]
    stuck[OF wq_step.check] stuck[OF wq_step.hand] stuck[OF wq_step.park] stuck[OF wq_step.decrement] stuck[OF wq_step.dequeue]
    stuck[OF wq_step.ack] stuck[OF wq_step.ack_parked]
  have "elen s = 0" "rdec s = 0" "rdeq s = 0" "rack s = 0 \<or> npc s \<noteq> NWait" "rpark s = 0 \<or> npc s \<noteq> NWait"
    using no assms(1) by (auto simp: wq_inv_simps)
  moreover from this have "npc s \<noteq> NWait"
    using assms(1) by (auto simp: wq_inv_simps)
  moreover have "npc s \<notin> {NLoop, NCheck, NReady}"
    using no assms(1) by (auto simp: wq_inv_simps)
  ultimately consider "npc s = NParked" | "npc s = NIdle"
    using assms(1) by (cases "npc s") (auto simp: wq_inv_def)
  then show ?thesis
  proof cases
    case 1
    then show ?thesis using assms(1) by (simp add: wq_inv_def)
  next
    case 2
    then have "token s = 0" using no(3) by auto
    then have "enot s = 0" using no(2) assms(1) by (auto simp: wq_inv_simps)
    then have "wlen s = 0" using 2 \<open>token s = 0\<close> assms(1) by (auto simp: wq_inv_simps)
    then show ?thesis using assms(1) \<open>elen s = 0\<close> \<open>rdeq s = 0\<close> by (simp add: wq_inv_def)
  qed
qed

lemma wq_inv_steps: "wq_step\<^sup>*\<^sup>* s s' \<Longrightarrow> wq_inv s \<Longrightarrow> wq_inv s'"
  by (induction rule: rtranclp_induct) (auto intro: wq_inv_step)

lemma wq_inv_reach: "wq_go\<^sup>*\<^sup>* NewWaitQueue s \<Longrightarrow> wq_inv s"
  by (induction rule: rtranclp_induct) (auto simp: wq_go_def wq_inv_New intro: wq_inv_call wq_inv_step)

lemma runs_to_rest:
  assumes "wq_inv s" shows "\<exists>s'. wq_step\<^sup>*\<^sup>* s s' \<and> (\<forall>s''. \<not> wq_step s' s'')"
  using assms
proof (induction "work s" arbitrary: s rule: less_induct)
  case less
  show ?case
  proof (cases "\<exists>s1. wq_step s s1")
    case True
    then obtain s1 where s1: "wq_step s s1" by blast
    from less.hyps[OF work_decreases[OF s1 less.prems] wq_inv_step[OF s1 less.prems]] show ?thesis
      using s1 by (meson converse_rtranclp_into_rtranclp)
  qed blast
qed

lemma relpowp_work: "(wq_step ^^ n) s s' \<Longrightarrow> wq_inv s \<Longrightarrow> work s' + n \<le> work s"
proof (induction n arbitrary: s')
  case (Suc n)
  then obtain s1 where s1: "(wq_step ^^ n) s s1" "wq_step s1 s'" by (auto elim: relpowp_Suc_E)
  have "wq_inv s1" using wq_inv_steps[OF relpowp_imp_rtranclp[OF s1(1)] Suc.prems(2)] .
  then show ?case using Suc.IH[OF s1(1) Suc.prems(2)] work_decreases[OF s1(2)] by simp
qed simp

section \<open>Properties\<close>

text \<open>C12: A waiting queue is a FIFO queue under every interleaving of its callers and its
  notifier, as long as it is not closed: nothing panics, what the readers got so far followed
  by what the queue holds is what was put in, in order (so that no read comes back empty and no
  value is lost or read twice), and no two readers are inside at once.\<close>

theorem waiting_queue_fifo:
  assumes "wq_go\<^sup>*\<^sup>* NewWaitQueue s"
  shows "\<not> wpanic s \<and> got s @ map Some (items s) = map Some (entered s) \<and> busy s \<le> 1"
  using wq_inv_reach[OF assms] by (auto simp: wq_inv_def)

theorem waiting_queue_fifo_witness:
  "\<exists>s :: nat wq. wq_go\<^sup>*\<^sup>* NewWaitQueue s \<and> entered s = [7] \<and> got s @ map Some (items s) = [Some 7]"
proof -
  have "wq_go NewWaitQueue (wq_Enqueue (7 :: nat) NewWaitQueue)"
    by (simp add: wq_go_def wq_call.enqueue)
  then have r: "wq_go\<^sup>*\<^sup>* NewWaitQueue (wq_Enqueue (7 :: nat) NewWaitQueue)" by blast
  have e: "entered (wq_Enqueue (7 :: nat) NewWaitQueue) = [7]"
    by (simp add: wq_Enqueue_def NewWaitQueue_def)
  show ?thesis
    using waiting_queue_fifo[OF r] r e by (intro exI[of _ "wq_Enqueue (7 :: nat) NewWaitQueue"]) simp
qed

text \<open>C13: Readers are served.  From every state the open queue can get into, whatever the
  scheduler picks, the calls under way come to rest after boundedly many steps, and at rest no
  reader waits while the queue holds a value: no wake-up is lost.\<close>

theorem waiting_queue_delivers:
  assumes "wq_go\<^sup>*\<^sup>* NewWaitQueue s"
  shows "(\<forall>n s'. (wq_step ^^ n) s s' \<longrightarrow> n \<le> work s)
    \<and> (\<exists>s'. wq_step\<^sup>*\<^sup>* s s' \<and> (\<forall>s''. \<not> wq_step s' s''))
    \<and> (\<forall>s'. wq_step\<^sup>*\<^sup>* s s' \<longrightarrow> (\<forall>s''. \<not> wq_step s' s'') \<longrightarrow> waiting s' = 0 \<or> items s' = [])"
proof -
  note I = wq_inv_reach[OF assms]
  show ?thesis
    using relpowp_work[OF _ I] runs_to_rest[OF I] stuck_waits[OF wq_inv_steps[OF _ I]]
    by (meson add_leD2)
qed

theorem waiting_queue_delivers_witness:
  "\<exists>s' :: nat wq. wq_step\<^sup>*\<^sup>* (wq_Read True (wq_Enqueue 7 NewWaitQueue)) s' \<and> (waiting s' = 0 \<or> items s' = [])"
proof -
  have "wq_go NewWaitQueue (wq_Enqueue (7 :: nat) NewWaitQueue)"
    "wq_go (wq_Enqueue (7 :: nat) NewWaitQueue) (wq_Read True (wq_Enqueue 7 NewWaitQueue))"
    by (simp_all add: wq_go_def wq_call.enqueue wq_call.read)
  then have "wq_go\<^sup>*\<^sup>* NewWaitQueue (wq_Read True (wq_Enqueue (7 :: nat) NewWaitQueue))"
    by (meson converse_rtranclp_into_rtranclp rtranclp.rtrancl_refl)
  from waiting_queue_delivers[OF this] show ?thesis by blast
qed

text \<open>C40: Using a queue after \<^verbatim>\<open>Close\<close> is not safe.  A \<^verbatim>\<open>Read\<close> passes the closed
  \<^verbatim>\<open>nextCh\<close> and then panics at its send on the closed \<^verbatim>\<open>readValCh\<close>, and an
  \<^verbatim>\<open>Enqueue\<close> that finds the counter at zero panics at its send on the closed
  \<^verbatim>\<open>notifyCh\<close>.\<close>

theorem waiting_queue_closed_panics:
  assumes "next_closed s" and "read_closed s" and "notify_closed s"
  shows "(\<exists>s'. wq_step\<^sup>*\<^sup>* (wq_Read wait s) s' \<and> wpanic s')
    \<and> (wlen s = 0 \<longrightarrow> (\<exists>s'. wq_step\<^sup>*\<^sup>* (wq_Enqueue v s) s' \<and> wpanic s'))"
proof (intro conjI impI)
  let ?s1 = "wq_Read wait s"
  have s1: "0 < rdec ?s1" "read_closed ?s1" using assms by (simp_all add: wq_Read_def)
  let ?s2 = "?s1\<lparr>rdec := rdec ?s1 - 1, wlen := wlen ?s1 - 1, rdeq := Suc (rdeq ?s1)\<rparr>"
  let ?s3 = "?s2\<lparr>rdeq := rdeq ?s2 - 1, rack := Suc (rack ?s2), items := tl (items ?s2),
      got := got ?s2 @ [case items ?s2 of [] \<Rightarrow> None | v # _ \<Rightarrow> Some v]\<rparr>"
  let ?s4 = "?s3\<lparr>rack := rack ?s3 - 1, wpanic := True\<rparr>"
  have "wq_step ?s1 ?s2" by (rule wq_step.decrement[OF s1(1)])
  moreover have "wq_step ?s2 ?s3" by (rule wq_step.dequeue) simp
  moreover have "wq_step ?s3 ?s4" by (rule wq_step.ack_panic) (simp_all add: s1(2))
  ultimately have "wq_step\<^sup>*\<^sup>* ?s1 ?s4"
    by (meson converse_rtranclp_into_rtranclp rtranclp.rtrancl_refl)
  then show "\<exists>s'. wq_step\<^sup>*\<^sup>* ?s1 s' \<and> wpanic s'" by (rule exI[of _ ?s4, OF conjI]) simp
next
  assume z: "wlen s = 0"
  let ?s1 = "wq_Enqueue v s"
  have s1: "0 < elen ?s1" "notify_closed ?s1" "wlen ?s1 = 0" using assms z by (simp_all add: wq_Enqueue_def)
  let ?s2 = "?s1\<lparr>elen := elen ?s1 - 1, wlen := wlen ?s1 + 1, enot := (if wlen ?s1 + 1 = 1 then Suc (enot ?s1) else enot ?s1)\<rparr>"
  let ?s3 = "?s2\<lparr>enot := enot ?s2 - 1, wpanic := True\<rparr>"
  have "wq_step ?s1 ?s2" by (rule wq_step.count[OF s1(1)])
  moreover have "wq_step ?s2 ?s3" by (rule wq_step.notify_panic) (simp_all add: s1)
  ultimately have "wq_step\<^sup>*\<^sup>* ?s1 ?s3"
    by (meson converse_rtranclp_into_rtranclp rtranclp.rtrancl_refl)
  then show "\<exists>s'. wq_step\<^sup>*\<^sup>* ?s1 s' \<and> wpanic s'" by (rule exI[of _ ?s3, OF conjI]) simp
qed

definition closed_queue :: "nat wq" where
  "closed_queue = NewWaitQueue\<lparr>done_closed := True, next_closed := True, notify_closed := True, read_closed := True, closing := 7\<rparr>"

lemma closed_reached: "wq_any\<^sup>*\<^sup>* NewWaitQueue closed_queue"
proof -
  let ?s1 = "NewWaitQueue\<lparr>closing := 1, done_closed := True\<rparr> :: nat wq"
  let ?s2 = "?s1\<lparr>closing := 2\<rparr>"
  let ?s3 = "?s2\<lparr>closing := 3, next_closed := True\<rparr>"
  let ?s4 = "?s3\<lparr>closing := 4\<rparr>"
  let ?s5 = "?s4\<lparr>closing := 5, notify_closed := True\<rparr>"
  let ?s6 = "?s5\<lparr>closing := 6\<rparr>"
  note D = wq_any_def NewWaitQueue_def closed_queue_def
  have "wq_any NewWaitQueue ?s1" "wq_any ?s1 ?s2" "wq_any ?s2 ?s3" "wq_any ?s3 ?s4" "wq_any ?s4 ?s5" "wq_any ?s5 ?s6"
    "wq_any ?s6 closed_queue"
    using wq_close.close_done[of "NewWaitQueue :: nat wq"] wq_close.probe_next[of ?s1] wq_close.close_next[of ?s2]
      wq_close.probe_notify[of ?s3] wq_close.close_notify[of ?s4] wq_close.probe_read[of ?s5] wq_close.close_read[of ?s6]
    by (simp_all add: D)
  then show ?thesis by (meson converse_rtranclp_into_rtranclp rtranclp.rtrancl_refl)
qed

theorem waiting_queue_closed_panics_witness:
  "wq_any\<^sup>*\<^sup>* NewWaitQueue closed_queue \<and> (\<exists>s'. wq_step\<^sup>*\<^sup>* (wq_Read True closed_queue) s' \<and> wpanic s')
   \<and> (\<exists>s'. wq_step\<^sup>*\<^sup>* (wq_Enqueue 1 closed_queue) s' \<and> wpanic s')"
  using waiting_queue_closed_panics[of closed_queue True 1] closed_reached
  by (simp add: closed_queue_def NewWaitQueue_def)

end
