(* ===== verification/Spec2Isabelle.thy ===== *)
theory Spec2Isabelle
  imports Provenance Servers Node_Locks Waiting_Queue
begin

text \<open>
  A model of Robomesh, the server (\<^verbatim>\<open>src/roboserver\<close>, Go) that robots connect to over
  TCP, UDP and MQTT, that runs one handler script per connected robot, and that a web
  front end and an administration terminal observe and control.

  \<^bold>\<open>The program.\<close>  A robot proves who it is by signing a fresh nonce with the key that
  PostgreSQL holds for it, or is admitted by a user after it asked for registration; it then
  has a session (a signed token and an entry in Redis) and a handler process.  The handler
  engine starts the process from a directory of scripts, passes the robot's messages to it
  and serves the JSON-RPC requests the script writes to its standard output.  Heartbeats
  arrive over any transport, are signed and numbered.  Services talk to each other over one
  local bus (\<^verbatim>\<open>comms\<close> over \<^verbatim>\<open>shared/event_bus\<close>).  The web server has
  logins with a rate limit, protected REST endpoints, event streams, log streams and web
  sockets; the terminal has line commands.  \<^verbatim>\<open>main.go\<close> starts all of it and stops
  the handlers at the end.

  \<^bold>\<open>Conventions.\<close>  Go strings and byte slices are HOL strings with one character per
  byte.  Errors are the left part of a sum (\<open>'a res\<close>).  Go maps are association lists with
  distinct keys, so that iteration order is a list; where the order matters for a result the
  statement holds for every list.  64-bit integers are words, or integers with the wrap
  written out (\<open>wrap64\<close>) where a computation can overflow.  State is passed explicitly:
  \<open>world\<close> holds the store (states of Redis and PostgreSQL), the handler engine with
  its bus, and each operation returns the new one with what it wrote.  Time, random bytes
  and what a socket or the operating system answers are arguments of the step that reads them.

  \<^bold>\<open>Parameters.\<close>  Redis, PostgreSQL, the cryptographic primitives, bcrypt, the YAML decoder,
  the file system and the rendering of time stamps are records of functions that the
  operations take.  What a theorem needs of them is a named hypothesis:
  \<open>redis_service\<close>, \<open>redis_steady\<close>, \<open>postgres_service\<close> (documented behaviour
  of the clients' calls), each interpreted on an in-memory service in \<open>Database\<close>.

  \<^bold>\<open>Theories, in the order of dependence.\<close>

  \<^item> \<open>Prelude\<close>, \<open>Encoding\<close>, \<open>Json\<close>: association lists as Go maps, results,
  string functions of the standard library, hexadecimal and base64, JSON as
  \<^verbatim>\<open>encoding/json\<close> prints and reads it.  The reader is a recursive descent with
  fuel \<open>2 * length + 2\<close>; the round trip of printing and reading is proved, so the fuel
  is enough for everything the printer produces.
  \<^item> \<open>Data_Structures\<close> (\<^verbatim>\<open>shared/data_structures\<close>, \<^verbatim>\<open>shared/utils\<close>):
  doubly linked nodes on a heap of addresses; \<^verbatim>\<open>SafeMap\<close>, \<^verbatim>\<open>SafeSet\<close> and
  the queue without waiting refine map, set and list, through the interfaces
  \<open>set_impl\<close> and \<open>queue_impl\<close>.  \<open>Node_Locks\<close>: concurrent calls with the locks of
  the list nodes, interleaved at every lock operation and pointer access, are linearizable
  and free of deadlock.  \<open>Waiting_Queue\<close>: the queue with waiting as a
  transition system of enqueuers, readers, the notifier and \<^verbatim>\<open>Close\<close>; order,
  absence of lost wake-ups, termination of the calls under way, and the panics after
  \<^verbatim>\<open>Close\<close>.
  \<^item> \<open>Event_Bus\<close>, \<open>Comms\<close>, \<open>Subscription_Tables\<close>: the bus as two maps, which
  refines one table (interface \<open>event_bus\<close>); the recursion of \<^verbatim>\<open>Unsubscribe\<close>
  has fuel, 2 being enough unless a subscriber has a handler for the empty event type, where
  the code does not return; consumer groups; the tables of cancel functions that streams,
  web sockets and terminal sessions keep (interface \<open>sub_table\<close>).
  \<^item> \<open>Config\<close>, \<open>Database\<close>: defaults, environment and configuration file; every
  operation of the two database handlers, their JSON records (interface \<open>json_codec\<close>)
  and the registration responses.
  \<^item> \<open>Auth\<close>, \<open>Handshake\<close>, \<open>Heartbeat\<close>: nonces, tokens, signatures; what an
  accepted token, handshake or heartbeat implies, and that sequence numbers increase.
  \<^item> \<open>Handler_Registry\<close>, \<open>Handler_Process\<close>, \<open>Handler_Rpc\<close>
  (\<^verbatim>\<open>handler_engine\<close>): the script of a device type stays inside its directory; the
  manager's tables and the processes' channels as a step relation over critical sections,
  with the invariant that excludes a panic; the JSON-RPC requests and their answers; reverse
  connections.
  \<^item> \<open>TCP_Server\<close>, \<open>UDP_Server\<close>, \<open>MQTT_Server\<close> with \<open>Nonce_Auth\<close> (what
  the last two share, interface \<open>nonce_auth\<close>): connections as state machines over what is
  received; sessions need a signature or an admission, a nonce is good for one session,
  an unauthenticated connection touches no handler, private topics are private.
  \<^item> \<open>HTTP_Auth\<close>, \<open>HTTP_API\<close>, \<open>HTTP_Events\<close>, \<open>WebSocket\<close>,
  \<open>HTTP_Server\<close> (\<^verbatim>\<open>http_server\<close>): rate limiter, sessions, tickets; every
  endpoint; streams and sockets with their clean-up; the table of routes and dispatch.
  \<^item> \<open>Terminal\<close> (\<^verbatim>\<open>terminal\<close>) and \<open>Lifecycle\<close> (\<^verbatim>\<open>main.go\<close>, database
  start-up, accept loop, helpers).  \<open>Servers\<close>: the \<^verbatim>\<open>Start\<close> functions over the answers of
  the operating system and the goroutines of \<^verbatim>\<open>main\<close> as a transition system; the program
  shuts down as a whole and does not get stuck.
  \<^item> \<open>System\<close>, \<open>Nonces\<close>, \<open>Provenance\<close>: all of it together.  A state is one \<open>world\<close>
  with the TCP connections, the pending goroutines of UDP and MQTT and the rate limiter; a step is
  any step of a connection, a datagram, a message, a request to the REST interface, a line of
  a script or of the terminal, a reverse connection, the end or the writer of a process.  The
  operations are those of the component theories; nothing is modelled anew.  Over every
  run the registry keeps the keys, the nonces in Redis carry those keys, connections in a
  session have proved them, and every new handler has a cause.  Event streams, log streams
  and web sockets are left out there, since they change neither database nor the handler table
  but by messages to a running process.

  \<^bold>\<open>Bounds.\<close>  Besides the two kinds of fuel above, the sizes are the code's: 256 messages in
  the channels of a process, a log stream or a socket, 64 KiB per TCP line, five failed logins
  in five minutes, a delay of at most 1.28 seconds in the accept loop.

  \<^bold>\<open>Assumptions.\<close>  An operation under one lock is one step, and so is a list operation (\<open>Node_Locks\<close>
  justifies it for the queue, and the set has one lock).  The web server is given both
  a database manager and a bus, as \<^verbatim>\<open>main.go\<close> starts it
  (\<open>Lifecycle.main_start_complete\<close>).  The counter of a waiting queue does not wrap.

  \<^bold>\<open>Not modelled.\<close>  What listeners, TLS, the MQTT broker, the router library and the serving of
  file contents do inside, which belongs to libraries; the creation and signalling of
  operating-system processes; of all these the outcomes are inputs of the steps.  Log
  output.  Programs in other languages (the handler scripts, the robots' firmware and the
  front end).
\<close>

end
